(* ===== verification/Pj_Prelude.thy ===== *)
theory Pj_Prelude
  imports Main "HOL-Library.Word" "HOL-Library.Monad_Syntax"
begin

text \<open>
  The vocabulary that the components of the development share.

  \<^item> C arrays are lists. \<open>rd xs i\<close> reads and \<open>wr xs i v\<close> writes an element; both
    are \<open>None\<close> when \<open>i\<close> is outside the array, where C has undefined behaviour. A
    model in the option monad therefore returns \<open>None\<close> exactly when the code it
    translates would touch memory outside one of its arrays, and a theorem that
    says \<open>\<exists>r. f x = Some r\<close> is a memory safety theorem.
  \<^item> \<open>pj_status_t\<close> values that the modelled functions return are the datatype
    \<open>pj_status\<close>.
  \<^item> \<open>cdiv\<close> and \<open>cmod\<close> are C's division and remainder on signed integers (they
    truncate towards zero, unlike \<open>div\<close> and \<open>mod\<close>).
\<close>

named_theorems pj_simps "rewrite rules on arrays and option-valued reads and writes"

type_synonym u8 = "8 word"
type_synonym u16 = "16 word"
type_synonym u32 = "32 word"

text \<open>The result codes of PJLIB, PJMEDIA and PJSIP that the modelled functions return.\<close>

datatype pj_status =
    PJ_SUCCESS
  | PJ_EINVAL
  | PJ_EINVALIDOP
  | PJ_ENOMEM
  | PJ_ENOTFOUND
  | PJ_ETOOSMALL
  | PJ_EBUG
  | PJ_EBUSY
  | PJ_EUNKNOWN
  | PJ_EPENDING
  | PJSIP_ENOTREQUESTMSG
  | PJSIP_ENOTRESPONSEMSG
  | PJSIP_EMISSINGHDR
  | PJSIP_EINVALIDHDR
  | PJ_FAILURE int

text \<open>Array access.\<close>

definition rd :: "'a list \<Rightarrow> nat \<Rightarrow> 'a option" where
  "rd xs i = (if i < length xs then Some (xs ! i) else None)"

definition wr :: "'a list \<Rightarrow> nat \<Rightarrow> 'a \<Rightarrow> 'a list option" where
  "wr xs i v = (if i < length xs then Some (xs[i := v]) else None)"

lemma rd_Some [pj_simps]: "i < length xs \<Longrightarrow> rd xs i = Some (xs ! i)"
  by (simp add: rd_def)

lemma wr_Some [pj_simps]: "i < length xs \<Longrightarrow> wr xs i v = Some (xs[i := v])"
  by (simp add: wr_def)

lemma rd_eq_Some_iff: "rd xs i = Some x \<longleftrightarrow> i < length xs \<and> x = xs ! i"
  by (auto simp: rd_def)

lemma wr_eq_Some_iff: "wr xs i v = Some ys \<longleftrightarrow> i < length xs \<and> ys = xs[i := v]"
  by (auto simp: wr_def)

text \<open>Signed division and remainder of C.\<close>

definition cdiv :: "int \<Rightarrow> int \<Rightarrow> int" where
  "cdiv a b = sgn a * sgn b * (\<bar>a\<bar> div \<bar>b\<bar>)"

definition cmod :: "int \<Rightarrow> int \<Rightarrow> int" where
  "cmod a b = a - cdiv a b * b"

lemma cdiv_nonneg: "0 \<le> a \<Longrightarrow> 0 < b \<Longrightarrow> cdiv a b = a div b"
  by (cases "a = 0") (simp_all add: cdiv_def)

lemma cmod_nonneg: "0 \<le> a \<Longrightarrow> 0 < b \<Longrightarrow> cmod a b = a mod b"
  by (simp add: cmod_def cdiv_nonneg minus_div_mult_eq_mod)

lemma cdiv_cmod: "cdiv a b * b + cmod a b = a"
  by (simp add: cmod_def)

lemma cmod_abs_less: "b \<noteq> 0 \<Longrightarrow> \<bar>cmod a b\<bar> < \<bar>b\<bar>"
proof -
  assume b: "b \<noteq> 0"
  have sb: "sgn b * b = \<bar>b\<bar>" by (simp add: abs_sgn mult.commute)
  have "cmod a b = sgn a * \<bar>a\<bar> - sgn a * (\<bar>a\<bar> div \<bar>b\<bar>) * (sgn b * b)"
    unfolding cmod_def cdiv_def by (simp add: mult_sgn_abs)
  also have "\<dots> = sgn a * (\<bar>a\<bar> mod \<bar>b\<bar>)"
    unfolding sb by (simp add: minus_div_mult_eq_mod [symmetric] right_diff_distrib)
  finally have "cmod a b = sgn a * (\<bar>a\<bar> mod \<bar>b\<bar>)" .
  then show ?thesis using b by (auto simp: abs_mult sgn_if)
qed

text \<open>Unsigned 32-bit arithmetic on numbers: the result of an operation is reduced modulo
  \<open>2^32\<close>.\<close>

definition wrap32 :: "int \<Rightarrow> nat" where
  "wrap32 x = nat (x mod 2 ^ 32)"

lemma wrap32_id: "0 \<le> x \<Longrightarrow> x < 2 ^ 32 \<Longrightarrow> wrap32 x = nat x"
  by (simp add: wrap32_def)

lemma wrap32_less: "wrap32 x < 2 ^ 32"
  by (simp add: wrap32_def nat_less_iff)

text \<open>Block operations on a memory area: \<open>memget\<close> is the source of a \<open>pj_memcpy\<close>, \<open>memput\<close>
  its destination (and, with a constant block, \<open>pj_memset\<close> and \<open>pj_bzero\<close>).\<close>

definition memget :: "'a list \<Rightarrow> nat \<Rightarrow> nat \<Rightarrow> 'a list option" where
  "memget buf off n = (if off + n \<le> length buf then Some (take n (drop off buf)) else None)"

definition memput :: "'a list \<Rightarrow> nat \<Rightarrow> 'a list \<Rightarrow> 'a list option" where
  "memput buf off bs =
     (if off + length bs \<le> length buf
      then Some (take off buf @ bs @ drop (off + length bs) buf) else None)"

lemma memput_length: "memput buf off bs = Some buf' \<Longrightarrow> length buf' = length buf"
  by (auto simp: memput_def split: if_splits)

lemma memput_nth:
  "memput buf off bs = Some buf' \<Longrightarrow> i < length buf \<Longrightarrow>
     buf' ! i = (if off \<le> i \<and> i < off + length bs then bs ! (i - off) else buf ! i)"
  by (auto simp: memput_def nth_append split: if_splits)

end
