(* ===== verification/Pj_Time.thy ===== *)
theory Pj_Time
  imports Pj_Prelude
begin

text \<open>
  Time values (\<open>pj_time_val\<close>, the \<open>PJ_TIME_VAL_*\<close> macros of
  \<open>pjlib/include/pj/types.h\<close> and \<open>pj_time_val_normalize\<close> of \<open>pjlib/src/pj/types.c\<close>).
  The comparison macros are shown to be a linear order and become the order of the
  type; addition and subtraction are shown to be exact in milliseconds.
\<close>

datatype pj_time_val = TimeVal (tv_sec: int) (tv_msec: int)

definition tv_ms :: "pj_time_val \<Rightarrow> int" where
  "tv_ms t = tv_sec t * 1000 + tv_msec t"

definition tv_eq :: "pj_time_val \<Rightarrow> pj_time_val \<Rightarrow> bool" where
  "tv_eq t1 t2 \<longleftrightarrow> tv_sec t1 = tv_sec t2 \<and> tv_msec t1 = tv_msec t2"

definition tv_gt :: "pj_time_val \<Rightarrow> pj_time_val \<Rightarrow> bool" where
  "tv_gt t1 t2 \<longleftrightarrow> tv_sec t1 > tv_sec t2 \<or> (tv_sec t1 = tv_sec t2 \<and> tv_msec t1 > tv_msec t2)"

definition tv_gte :: "pj_time_val \<Rightarrow> pj_time_val \<Rightarrow> bool" where
  "tv_gte t1 t2 \<longleftrightarrow> tv_gt t1 t2 \<or> tv_eq t1 t2"

definition tv_lt :: "pj_time_val \<Rightarrow> pj_time_val \<Rightarrow> bool" where
  "tv_lt t1 t2 \<longleftrightarrow> \<not> tv_gte t1 t2"

definition tv_lte :: "pj_time_val \<Rightarrow> pj_time_val \<Rightarrow> bool" where
  "tv_lte t1 t2 \<longleftrightarrow> \<not> tv_gt t1 t2"

lemmas tv_defs = tv_eq_def tv_gt_def tv_gte_def tv_lt_def tv_lte_def

text \<open>The comparison macros are a linear order, so the library's order reasoning applies.\<close>

instantiation pj_time_val :: linorder
begin

definition less_eq_pj_time_val :: "pj_time_val \<Rightarrow> pj_time_val \<Rightarrow> bool" where
  "less_eq_pj_time_val t1 t2 = tv_lte t1 t2"

definition less_pj_time_val :: "pj_time_val \<Rightarrow> pj_time_val \<Rightarrow> bool" where
  "less_pj_time_val t1 t2 = tv_lt t1 t2"

instance
proof
  fix x y z :: pj_time_val
  show "x < y \<longleftrightarrow> x \<le> y \<and> \<not> y \<le> x"
    unfolding less_eq_pj_time_val_def less_pj_time_val_def tv_defs by linarith
  show "x \<le> x"
    unfolding less_eq_pj_time_val_def tv_defs by simp
  show "x \<le> y \<Longrightarrow> y \<le> z \<Longrightarrow> x \<le> z"
    unfolding less_eq_pj_time_val_def tv_defs by linarith
  show "x \<le> y \<Longrightarrow> y \<le> x \<Longrightarrow> x = y"
    unfolding less_eq_pj_time_val_def tv_defs by (cases x; cases y) auto
  show "x \<le> y \<or> y \<le> x"
    unfolding less_eq_pj_time_val_def tv_defs by linarith
qed

end

lemma tv_order [simp]:
  "tv_lt t1 t2 \<longleftrightarrow> t1 < t2" "tv_lte t1 t2 \<longleftrightarrow> t1 \<le> t2"
  "tv_gt t1 t2 \<longleftrightarrow> t2 < t1" "tv_gte t1 t2 \<longleftrightarrow> t2 \<le> t1"
  by (auto simp: less_eq_pj_time_val_def less_pj_time_val_def tv_defs)

text \<open>The \<open>do ... while\<close> loop of \<open>pj_time_val_normalize\<close>; it is entered with
  \<open>msec \<le> -1000\<close>.\<close>

function tv_normalize_loop :: "int \<Rightarrow> int \<Rightarrow> int \<times> int" where
  "tv_normalize_loop s ms =
     (let s' = s - 1; ms' = ms + 1000
      in if ms' \<le> -1000 then tv_normalize_loop s' ms' else (s', ms'))"
  by pat_completeness auto
termination
  by (relation "measure (\<lambda>(s, ms). nat (- ms))") auto

declare tv_normalize_loop.simps [simp del]

definition pj_time_val_normalize :: "pj_time_val \<Rightarrow> pj_time_val" where
  "pj_time_val_normalize t =
     (let (s, ms) =
        (if tv_msec t \<ge> 1000 then (tv_sec t + cdiv (tv_msec t) 1000, cmod (tv_msec t) 1000)
         else if tv_msec t \<le> -1000 then tv_normalize_loop (tv_sec t) (tv_msec t)
         else (tv_sec t, tv_msec t))
      in if s \<ge> 1 \<and> ms < 0 then TimeVal (s - 1) (ms + 1000)
         else if s < 0 \<and> ms > 0 then TimeVal (s + 1) (ms - 1000)
         else TimeVal s ms)"

definition tv_add :: "pj_time_val \<Rightarrow> pj_time_val \<Rightarrow> pj_time_val" where
  "tv_add t1 t2 = pj_time_val_normalize
     (TimeVal (tv_sec t1 + tv_sec t2) (tv_msec t1 + tv_msec t2))"

definition tv_sub :: "pj_time_val \<Rightarrow> pj_time_val \<Rightarrow> pj_time_val" where
  "tv_sub t1 t2 = pj_time_val_normalize
     (TimeVal (tv_sec t1 - tv_sec t2) (tv_msec t1 - tv_msec t2))"

subsection \<open>Normal forms\<close>

text \<open>What \<open>pj_time_val_normalize\<close> establishes: less than a second of milliseconds, and no
  mixed signs.\<close>

definition tv_normal :: "pj_time_val \<Rightarrow> bool" where
  "tv_normal t \<longleftrightarrow> \<bar>tv_msec t\<bar> < 1000 \<and> (1 \<le> tv_sec t \<longrightarrow> 0 \<le> tv_msec t) \<and>
     (tv_sec t < 0 \<longrightarrow> tv_msec t \<le> 0)"

lemma tv_normalize_loop_eq:
  "ms \<le> -1000 \<Longrightarrow> tv_normalize_loop s ms = (s', ms') \<Longrightarrow>
     s' * 1000 + ms' = s * 1000 + ms \<and> -1000 < ms' \<and> ms' \<le> 0"
proof (induction s ms rule: tv_normalize_loop.induct)
  case (1 s ms)
  then show ?case
    by (cases "ms + 1000 \<le> -1000") (auto simp: tv_normalize_loop.simps [of s ms] Let_def)
qed

lemma tv_normalize_pos:
  "1000 \<le> ms \<Longrightarrow> (s + cdiv ms 1000) * 1000 + cmod ms 1000 = s * 1000 + ms"
  "1000 \<le> ms \<Longrightarrow> 0 \<le> cmod ms 1000 \<and> cmod ms 1000 < 1000"
  by (auto simp: cdiv_nonneg cmod_nonneg)

text \<open>The value before the final sign correction.\<close>

definition tv_carry :: "pj_time_val \<Rightarrow> int \<times> int" where
  "tv_carry t =
     (if tv_msec t \<ge> 1000 then (tv_sec t + cdiv (tv_msec t) 1000, cmod (tv_msec t) 1000)
      else if tv_msec t \<le> -1000 then tv_normalize_loop (tv_sec t) (tv_msec t)
      else (tv_sec t, tv_msec t))"

lemma tv_carry_eq:
  "tv_carry t = (s, ms) \<Longrightarrow> s * 1000 + ms = tv_ms t \<and> \<bar>ms\<bar> < 1000"
  using tv_normalize_loop_eq [of "tv_msec t" "tv_sec t" s ms] tv_normalize_pos(1) [of "tv_msec t" "tv_sec t"]
    tv_normalize_pos(2) [of "tv_msec t"]
  by (auto simp: tv_carry_def tv_ms_def split: if_splits)

lemma normalize_via_carry:
  "pj_time_val_normalize t =
     (let (s, ms) = tv_carry t
      in if s \<ge> 1 \<and> ms < 0 then TimeVal (s - 1) (ms + 1000)
         else if s < 0 \<and> ms > 0 then TimeVal (s + 1) (ms - 1000)
         else TimeVal s ms)"
  unfolding pj_time_val_normalize_def tv_carry_def ..

lemma normalize_exact:
  "tv_ms (pj_time_val_normalize t) = tv_ms t \<and> tv_normal (pj_time_val_normalize t)"
proof -
  obtain s ms where c: "tv_carry t = (s, ms)" by fastforce
  from tv_carry_eq [OF this] show ?thesis
    by (auto simp: normalize_via_carry c tv_ms_def [of "TimeVal _ _"] tv_normal_def)
qed

lemma tv_add_ms: "tv_ms (tv_add a b) = tv_ms a + tv_ms b"
  and tv_add_normal: "tv_normal (tv_add a b)"
  using normalize_exact [of "TimeVal (tv_sec a + tv_sec b) (tv_msec a + tv_msec b)"]
  by (auto simp: tv_add_def tv_ms_def)

lemma tv_sub_ms: "tv_ms (tv_sub a b) = tv_ms a - tv_ms b"
  and tv_sub_normal: "tv_normal (tv_sub a b)"
  using normalize_exact [of "TimeVal (tv_sec a - tv_sec b) (tv_msec a - tv_msec b)"]
  by (auto simp: tv_sub_def tv_ms_def)

text \<open>On normal forms the lexicographic comparison of the macros compares durations.\<close>

lemma tv_normal_less_iff:
  "tv_normal a \<Longrightarrow> tv_normal b \<Longrightarrow> a < b \<longleftrightarrow> tv_ms a < tv_ms b"
  unfolding less_pj_time_val_def tv_defs tv_normal_def tv_ms_def by linarith

end
