(* ===== verification/Pj_Timer.thy ===== *)
theory Pj_Timer
  imports Pj_Time
begin

text \<open>
  The timer heap of PJLIB (\<open>pjlib/src/pj/timer.c\<close>): its state and its operations.

  Timer entries are C objects that the caller owns and the heap points to. An entry's
  address is a natural number; the objects live in the store \<open>th_mem\<close>, so the heap,
  the \<open>timer_ids\<close> array and the entries alias each other as they do in C.
\<close>

subsection \<open>The heap and its entries\<close>

type_synonym entry_ptr = nat

record pj_timer_entry =
  te_user_data :: nat
  te_id :: int
  te_cb :: "nat option"
  te_timer_id :: int
  te_timer_value :: pj_time_val

record pj_timer_heap =
  th_max_size :: nat
  th_cur_size :: nat
  th_max_entries_per_poll :: nat
  th_lock :: "nat option"
  th_auto_delete_lock :: bool
  th_heap :: "entry_ptr list"
  th_timer_ids :: "int list"
  th_timer_ids_freelist :: int
  th_mem :: "entry_ptr \<Rightarrow> pj_timer_entry"

definition HEAP_PARENT :: "nat \<Rightarrow> nat" where
  "HEAP_PARENT x = (if x = 0 then 0 else (x - 1) div 2)"

definition HEAP_LEFT :: "nat \<Rightarrow> nat" where
  "HEAP_LEFT x = (x + x) + 1"

definition DEFAULT_MAX_TIMED_OUT_PER_POLL :: nat where
  "DEFAULT_MAX_TIMED_OUT_PER_POLL = 64"

abbreviation te_value :: "pj_timer_heap \<Rightarrow> entry_ptr \<Rightarrow> pj_time_val" where
  "te_value ht e \<equiv> te_timer_value (th_mem ht e)"

abbreviation te_tid :: "pj_timer_heap \<Rightarrow> entry_ptr \<Rightarrow> int" where
  "te_tid ht e \<equiv> te_timer_id (th_mem ht e)"

text \<open>An array of C indexed with a signed integer: a negative index is out of range.\<close>

definition rd_int :: "'a list \<Rightarrow> int \<Rightarrow> 'a option" where
  "rd_int xs i = (if 0 \<le> i then rd xs (nat i) else None)"

definition wr_int :: "'a list \<Rightarrow> int \<Rightarrow> 'a \<Rightarrow> 'a list option" where
  "wr_int xs i v = (if 0 \<le> i then wr xs (nat i) v else None)"

definition copy_node :: "pj_timer_heap \<Rightarrow> nat \<Rightarrow> entry_ptr \<Rightarrow> pj_timer_heap option" where
  "copy_node ht slot moved_node = do {
     h \<leftarrow> wr (th_heap ht) slot moved_node;
     ids \<leftarrow> wr_int (th_timer_ids ht) (te_tid ht moved_node) (int slot);
     Some (ht\<lparr>th_heap := h, th_timer_ids := ids\<rparr>)
   }"

definition pop_freelist :: "pj_timer_heap \<Rightarrow> (int \<times> pj_timer_heap) option" where
  "pop_freelist ht = do {
     let new_id = th_timer_ids_freelist ht;
     nxt \<leftarrow> rd_int (th_timer_ids ht) (th_timer_ids_freelist ht);
     Some (new_id, ht\<lparr>th_timer_ids_freelist := - nxt\<rparr>)
   }"

definition push_freelist :: "pj_timer_heap \<Rightarrow> int \<Rightarrow> pj_timer_heap option" where
  "push_freelist ht old_id = do {
     ids \<leftarrow> wr_int (th_timer_ids ht) old_id (- th_timer_ids_freelist ht);
     Some (ht\<lparr>th_timer_ids := ids, th_timer_ids_freelist := old_id\<rparr>)
   }"

lemma copy_node_cur_size: "copy_node ht slot n = Some ht' \<Longrightarrow> th_cur_size ht' = th_cur_size ht"
  by (auto simp: copy_node_def split: Option.bind_splits)

text \<open>The choice of the smaller of the two children in \<open>reheap_down\<close>.\<close>

definition smaller_child :: "pj_timer_heap \<Rightarrow> nat \<Rightarrow> nat option" where
  "smaller_child ht child =
     (if child + 1 < th_cur_size ht
      then do {
        r \<leftarrow> rd (th_heap ht) (child + 1);
        l \<leftarrow> rd (th_heap ht) child;
        Some (if tv_lt (te_value ht r) (te_value ht l) then child + 1 else child)
      }
      else Some child)"

lemma smaller_child_ge: "smaller_child ht child = Some c \<Longrightarrow> child \<le> c"
  by (auto simp: smaller_child_def split: if_splits Option.bind_splits)

function reheap_down :: "pj_timer_heap \<Rightarrow> entry_ptr \<Rightarrow> nat \<Rightarrow> nat \<Rightarrow> pj_timer_heap option" where
  "reheap_down ht moved_node slot child =
     (if child < th_cur_size ht then
        (case smaller_child ht child of
           None \<Rightarrow> None
         | Some child' \<Rightarrow>
             (case rd (th_heap ht) child' of
                None \<Rightarrow> None
              | Some c \<Rightarrow>
                  if tv_lt (te_value ht c) (te_value ht moved_node)
                  then (case copy_node ht slot c of
                          None \<Rightarrow> None
                        | Some ht' \<Rightarrow> reheap_down ht' moved_node child' (HEAP_LEFT child'))
                  else copy_node ht slot moved_node))
      else copy_node ht slot moved_node)"
  by pat_completeness auto
termination
  by (relation "measure (\<lambda>(ht, m, slot, child). th_cur_size ht - child)")
    (auto simp: HEAP_LEFT_def dest: copy_node_cur_size dest!: smaller_child_ge)

declare reheap_down.simps [simp del]

text \<open>The code calls \<open>reheap_up\<close> with \<open>parent = HEAP_PARENT(slot)\<close> and keeps the two in
  step, so the parent is always below the slot; the loop stops at slot 0.\<close>

function reheap_up :: "pj_timer_heap \<Rightarrow> entry_ptr \<Rightarrow> nat \<Rightarrow> nat \<Rightarrow> pj_timer_heap option" where
  "reheap_up ht moved_node slot parent =
     (if slot > 0 then
        (case rd (th_heap ht) parent of
           None \<Rightarrow> None
         | Some p \<Rightarrow>
             if tv_lt (te_value ht moved_node) (te_value ht p)
             then (case copy_node ht slot p of
                     None \<Rightarrow> None
                   | Some ht' \<Rightarrow> reheap_up ht' moved_node parent (HEAP_PARENT parent))
             else copy_node ht slot moved_node)
      else copy_node ht slot moved_node)"
  by pat_completeness auto
termination
  by (relation "measures [\<lambda>(ht, m, slot, parent). parent, \<lambda>(ht, m, slot, parent). slot]")
    (auto simp: HEAP_PARENT_def)

declare reheap_up.simps [simp del]

definition remove_node :: "pj_timer_heap \<Rightarrow> nat \<Rightarrow> (entry_ptr \<times> pj_timer_heap) option" where
  "remove_node ht slot = do {
     removed_node \<leftarrow> rd (th_heap ht) slot;
     ht1 \<leftarrow> push_freelist ht (te_tid ht removed_node);
     let ht2 = ht1\<lparr>th_cur_size := th_cur_size ht1 - 1,
                   th_mem := (th_mem ht1)
                     (removed_node := (th_mem ht1 removed_node)\<lparr>te_timer_id := -1\<rparr>)\<rparr>;
     if slot < th_cur_size ht2 then do {
       moved_node \<leftarrow> rd (th_heap ht2) (th_cur_size ht2);
       ht3 \<leftarrow> copy_node ht2 slot moved_node;
       let parent = HEAP_PARENT slot;
       p \<leftarrow> rd (th_heap ht3) parent;
       ht4 \<leftarrow> (if tv_gte (te_value ht3 moved_node) (te_value ht3 p)
              then reheap_down ht3 moved_node slot (HEAP_LEFT slot)
              else reheap_up ht3 moved_node slot parent);
       Some (removed_node, ht4)
     }
     else Some (removed_node, ht2)
   }"

text \<open>
  \<open>grow_heap\<close> doubles both arrays. The new half of the heap array is memory fresh from
  the pool: its contents are whatever \<open>junk\<close> says.
\<close>

definition grow_heap :: "(nat \<Rightarrow> entry_ptr) \<Rightarrow> pj_timer_heap \<Rightarrow> pj_timer_heap" where
  "grow_heap junk ht =
     (let new_size = th_max_size ht * 2 in
      ht\<lparr>th_heap := take (th_max_size ht) (th_heap ht) @ map junk [th_max_size ht ..< new_size],
         th_timer_ids := take (th_max_size ht) (th_timer_ids ht)
                         @ map (\<lambda>i. - (int i + 1)) [th_max_size ht ..< new_size],
         th_max_size := new_size\<rparr>)"

definition insert_node ::
  "(nat \<Rightarrow> entry_ptr) \<Rightarrow> pj_timer_heap \<Rightarrow> entry_ptr \<Rightarrow> pj_timer_heap option" where
  "insert_node junk ht new_node = do {
     let ht1 = (if th_cur_size ht + 2 \<ge> th_max_size ht then grow_heap junk ht else ht);
     ht2 \<leftarrow> reheap_up ht1 new_node (th_cur_size ht1) (HEAP_PARENT (th_cur_size ht1));
     Some (ht2\<lparr>th_cur_size := th_cur_size ht2 + 1\<rparr>)
   }"

definition schedule_entry ::
  "(nat \<Rightarrow> entry_ptr) \<Rightarrow> pj_timer_heap \<Rightarrow> entry_ptr \<Rightarrow> pj_time_val \<Rightarrow> (pj_status \<times> pj_timer_heap) option"
where
  "schedule_entry junk ht entry future_time =
     (if th_cur_size ht < th_max_size ht then do {
        (new_id, ht1) \<leftarrow> pop_freelist ht;
        let ht2 = ht1\<lparr>th_mem := (th_mem ht1)
                        (entry := (th_mem ht1 entry)\<lparr>te_timer_id := new_id,
                                                     te_timer_value := future_time\<rparr>)\<rparr>;
        ht3 \<leftarrow> insert_node junk ht2 entry;
        Some (PJ_SUCCESS, ht3)
      }
      else Some (PJ_FAILURE (-1), ht))"

text \<open>
  \<open>cancel\<close> returns the number of entries cancelled. The close hook (\<open>ht->callback\<close>) runs
  when \<open>dont_call\<close> is 0; it is code of the owner of the heap, hence an argument.
\<close>

definition cancel ::
  "(entry_ptr \<Rightarrow> pj_timer_heap \<Rightarrow> pj_timer_heap option) \<Rightarrow> pj_timer_heap \<Rightarrow> entry_ptr \<Rightarrow> int
   \<Rightarrow> (int \<times> pj_timer_heap) option" where
  "cancel hook ht entry dont_call =
     (if te_tid ht entry < 0 \<or> nat (te_tid ht entry) > th_max_size ht then Some (0, ht)
      else do {
        timer_node_slot \<leftarrow> rd_int (th_timer_ids ht) (te_tid ht entry);
        if timer_node_slot < 0 then Some (0, ht)
        else do {
          e \<leftarrow> rd_int (th_heap ht) timer_node_slot;
          if entry \<noteq> e then Some (0, ht)
          else do {
            (_, ht1) \<leftarrow> remove_node ht (nat timer_node_slot);
            ht2 \<leftarrow> (if dont_call = 0 then hook entry ht1 else Some ht1);
            Some (1, ht2)
          }
        }
      })"

subsection \<open>The interface of the timer heap\<close>

definition pj_timer_heap_mem_size :: "nat \<Rightarrow> nat \<Rightarrow> nat \<Rightarrow> nat \<Rightarrow> nat" where
  "pj_timer_heap_mem_size sizeof_heap sizeof_ptr sizeof_id count =
     sizeof_heap + (count + 2) * (sizeof_ptr + sizeof_id) + 132"

text \<open>
  \<open>pj_timer_heap_create\<close> makes three allocations from the pool; \<open>alloc k\<close> says whether the
  k-th succeeds. \<open>mem\<close> is the store of the timer entries at the time of the call.
\<close>

definition pj_timer_heap_create ::
  "(nat \<Rightarrow> bool) \<Rightarrow> (nat \<Rightarrow> entry_ptr) \<Rightarrow> (entry_ptr \<Rightarrow> pj_timer_entry) \<Rightarrow> nat
   \<Rightarrow> pj_status + pj_timer_heap" where
  "pj_timer_heap_create alloc junk mem size0 =
     (let size = size0 + 2 in
      if \<not> alloc 0 then Inl PJ_ENOMEM
      else if \<not> alloc 1 then Inl PJ_ENOMEM
      else if \<not> alloc 2 then Inl PJ_ENOMEM
      else Inr \<lparr>th_max_size = size,
                th_cur_size = 0,
                th_max_entries_per_poll = DEFAULT_MAX_TIMED_OUT_PER_POLL,
                th_lock = None,
                th_auto_delete_lock = False,
                th_heap = map junk [0 ..< size],
                th_timer_ids = map (\<lambda>i. - (int i + 1)) [0 ..< size],
                th_timer_ids_freelist = 1,
                th_mem = mem\<rparr>)"

text \<open>Both return the lock that the code destroys, if any.\<close>

definition pj_timer_heap_destroy :: "pj_timer_heap \<Rightarrow> nat option \<times> pj_timer_heap" where
  "pj_timer_heap_destroy ht =
     (if th_lock ht \<noteq> None \<and> th_auto_delete_lock ht
      then (th_lock ht, ht\<lparr>th_lock := None\<rparr>)
      else (None, ht))"

definition pj_timer_heap_set_lock ::
  "pj_timer_heap \<Rightarrow> nat option \<Rightarrow> bool \<Rightarrow> nat option \<times> pj_timer_heap" where
  "pj_timer_heap_set_lock ht lck auto_del =
     (if th_lock ht \<noteq> None \<and> th_auto_delete_lock ht then th_lock ht else None,
      ht\<lparr>th_lock := lck, th_auto_delete_lock := auto_del\<rparr>)"

definition pj_timer_heap_set_max_timed_out_per_poll ::
  "pj_timer_heap \<Rightarrow> nat \<Rightarrow> nat \<times> pj_timer_heap" where
  "pj_timer_heap_set_max_timed_out_per_poll ht count =
     (th_max_entries_per_poll ht, ht\<lparr>th_max_entries_per_poll := count\<rparr>)"

definition pj_timer_entry_init ::
  "pj_timer_heap \<Rightarrow> entry_ptr \<Rightarrow> int \<Rightarrow> nat \<Rightarrow> nat \<Rightarrow> pj_timer_heap" where
  "pj_timer_entry_init ht entry eid user_data cb =
     ht\<lparr>th_mem := (th_mem ht)
          (entry := (th_mem ht entry)\<lparr>te_timer_id := -1, te_id := eid,
                                       te_user_data := user_data, te_cb := Some cb\<rparr>)\<rparr>"

text \<open>\<open>now\<close> is what \<open>pj_gettimeofday\<close> returns.\<close>

definition pj_timer_heap_schedule ::
  "(nat \<Rightarrow> entry_ptr) \<Rightarrow> pj_time_val \<Rightarrow> pj_timer_heap \<Rightarrow> entry_ptr \<Rightarrow> pj_time_val
   \<Rightarrow> (pj_status \<times> pj_timer_heap) option" where
  "pj_timer_heap_schedule junk now ht entry delay =
     (if te_cb (th_mem ht entry) = None then Some (PJ_EINVAL, ht)
      else if \<not> te_tid ht entry < 1 then Some (PJ_EINVALIDOP, ht)
      else schedule_entry junk ht entry (tv_add now delay))"

definition pj_timer_heap_cancel ::
  "(entry_ptr \<Rightarrow> pj_timer_heap \<Rightarrow> pj_timer_heap option) \<Rightarrow> pj_timer_heap \<Rightarrow> entry_ptr
   \<Rightarrow> (int \<times> pj_timer_heap) option" where
  "pj_timer_heap_cancel hook ht entry = cancel hook ht entry 1"

text \<open>
  The loop of \<open>pj_timer_heap_poll\<close>. The callback of an entry is code of its owner: \<open>run\<close>
  gives its effect on the heap and on the rest \<open>'w\<close> of the program state. It may use the
  heap, which is unlocked while it runs.
\<close>

type_synonym 'w timer_cb =
  "nat \<Rightarrow> entry_ptr \<Rightarrow> pj_timer_heap \<Rightarrow> 'w \<Rightarrow> (pj_timer_heap \<times> 'w) option"

partial_function (option) poll_loop ::
  "'w timer_cb \<Rightarrow> pj_time_val \<Rightarrow> nat \<Rightarrow> pj_timer_heap \<Rightarrow> 'w
   \<Rightarrow> (nat \<times> pj_timer_heap \<times> 'w) option" where
  "poll_loop run now count ht w =
     (if th_cur_size ht \<noteq> 0 then
        (case rd (th_heap ht) 0 of
           None \<Rightarrow> None
         | Some e \<Rightarrow>
             if tv_lte (te_value ht e) now \<and> count < th_max_entries_per_poll ht then
               (case remove_node ht 0 of
                  None \<Rightarrow> None
                | Some (node, ht1) \<Rightarrow>
                    (case (case te_cb (th_mem ht1 node) of
                             None \<Rightarrow> Some (ht1, w)
                           | Some f \<Rightarrow> run f node ht1 w) of
                       None \<Rightarrow> None
                     | Some (ht2, w') \<Rightarrow> poll_loop run now (count + 1) ht2 w'))
             else Some (count, ht, w))
      else Some (count, ht, w))"

definition PJ_MAXINT32 :: int where
  "PJ_MAXINT32 = 0x7FFFFFFF"

text \<open>The \<open>next_delay\<close> result of a poll, for a caller that asks for it.\<close>

definition poll_next_delay :: "pj_time_val \<Rightarrow> pj_timer_heap \<Rightarrow> pj_time_val option" where
  "poll_next_delay now ht =
     (if th_cur_size ht \<noteq> 0 then do {
        e \<leftarrow> rd (th_heap ht) 0;
        let d = tv_sub (te_value ht e) now;
        Some (if tv_sec d < 0 \<or> tv_msec d < 0 then TimeVal 0 0 else d)
      }
      else Some (TimeVal PJ_MAXINT32 PJ_MAXINT32))"

text \<open>
  \<open>want\<close> says whether the caller passed a \<open>next_delay\<close> pointer. The result is the number
  of entries that timed out, \<open>next_delay\<close> and the state.
\<close>

definition pj_timer_heap_poll ::
  "'w timer_cb \<Rightarrow> pj_time_val \<Rightarrow> bool \<Rightarrow> pj_timer_heap \<Rightarrow> 'w
   \<Rightarrow> (nat \<times> pj_time_val option \<times> pj_timer_heap \<times> 'w) option" where
  "pj_timer_heap_poll run now want ht w =
     (if th_cur_size ht = 0 \<and> want
      then Some (0, Some (TimeVal PJ_MAXINT32 PJ_MAXINT32), ht, w)
      else do {
        (count, ht1, w1) \<leftarrow> poll_loop run now 0 ht w;
        d \<leftarrow> (if want then map_option Some (poll_next_delay now ht1) else Some None);
        Some (count, d, ht1, w1)
      })"

definition pj_timer_heap_count :: "pj_timer_heap \<Rightarrow> nat" where
  "pj_timer_heap_count ht = th_cur_size ht"

definition pj_timer_heap_earliest_time ::
  "pj_timer_heap \<Rightarrow> (pj_status + pj_time_val) option" where
  "pj_timer_heap_earliest_time ht =
     (if th_cur_size ht = 0 then Some (Inl PJ_ENOTFOUND)
      else do { e \<leftarrow> rd (th_heap ht) 0; Some (Inr (te_value ht e)) })"

end
