(* ===== verification/Pj_Timer_Heap.thy ===== *)
theory Pj_Timer_Heap
  imports Pj_Timer "HOL-Library.Multiset"
begin

text \<open>
  Correctness of the two loops of the timer heap, \<open>reheap_up\<close> and \<open>reheap_down\<close>.

  Both loops move a hole through the heap and drop the moved node into it at the end.
  The proofs look at the heap with the moved node already in the hole (\<open>place\<close>): one
  round of a loop is then a swap of two positions, and what the loops keep is a heap
  that is ordered except around one position.
\<close>

subsection \<open>Heap order on a function of positions\<close>

definition heap_ord :: "(nat \<Rightarrow> 'a::linorder) \<Rightarrow> nat \<Rightarrow> bool" where
  "heap_ord f n \<longleftrightarrow> (\<forall>i<n. 0 < i \<longrightarrow> f (HEAP_PARENT i) \<le> f i)"

text \<open>Ordered except that position \<open>s\<close> may be too small for its parent.\<close>

definition heap_ord_up :: "(nat \<Rightarrow> 'a::linorder) \<Rightarrow> nat \<Rightarrow> nat \<Rightarrow> bool" where
  "heap_ord_up f n s \<longleftrightarrow>
     (\<forall>i<n. 0 < i \<longrightarrow> i \<noteq> s \<longrightarrow> f (HEAP_PARENT i) \<le> f i) \<and>
     (\<forall>i<n. 0 < i \<longrightarrow> HEAP_PARENT i = s \<longrightarrow> 0 < s \<longrightarrow> f (HEAP_PARENT s) \<le> f i)"

text \<open>Ordered except that position \<open>s\<close> may be too large for its children.\<close>

definition heap_ord_down :: "(nat \<Rightarrow> 'a::linorder) \<Rightarrow> nat \<Rightarrow> nat \<Rightarrow> bool" where
  "heap_ord_down f n s \<longleftrightarrow>
     (\<forall>i<n. 0 < i \<longrightarrow> HEAP_PARENT i \<noteq> s \<longrightarrow> f (HEAP_PARENT i) \<le> f i) \<and>
     (\<forall>i<n. 0 < i \<longrightarrow> HEAP_PARENT i = s \<longrightarrow> 0 < s \<longrightarrow> f (HEAP_PARENT s) \<le> f i)"

lemma HEAP_PARENT_less: "0 < i \<Longrightarrow> HEAP_PARENT i < i"
  by (auto simp: HEAP_PARENT_def)

lemma HEAP_PARENT_0 [simp]: "HEAP_PARENT 0 = 0"
  by (simp add: HEAP_PARENT_def)

lemma HEAP_PARENT_child:
  "0 < i \<Longrightarrow> HEAP_PARENT i = s \<longleftrightarrow> i = HEAP_LEFT s \<or> i = HEAP_LEFT s + 1"
  unfolding HEAP_PARENT_def HEAP_LEFT_def by presburger

lemma heap_ord_root: "heap_ord f n \<Longrightarrow> i < n \<Longrightarrow> f 0 \<le> f i"
proof (induction i rule: less_induct)
  case (less i)
  show ?case
  proof (cases "i = 0")
    case False
    then have p: "HEAP_PARENT i < i" by (simp add: HEAP_PARENT_less)
    with less have "f 0 \<le> f (HEAP_PARENT i)" by simp
    also from less.prems False have "f (HEAP_PARENT i) \<le> f i" by (simp add: heap_ord_def)
    finally show ?thesis .
  qed simp
qed

lemma heap_ord_up_step:
  assumes "heap_ord_up f n s" "0 < s" "s < n" "f s < f (HEAP_PARENT s)"
  shows "heap_ord_up (f(s := f (HEAP_PARENT s), HEAP_PARENT s := f s)) n (HEAP_PARENT s)"
proof -
  let ?p = "HEAP_PARENT s"
  have p: "?p < s" using assms(2) by (rule HEAP_PARENT_less)
  have ord: "f (HEAP_PARENT i) \<le> f i" if "i < n" "0 < i" "i \<noteq> s" for i
    using assms(1) that by (simp add: heap_ord_up_def)
  have gp: "f ?p \<le> f i" if "i < n" "0 < i" "HEAP_PARENT i = s" for i
    using assms(1,2) that by (simp add: heap_ord_up_def)
  have gpp: "0 < ?p \<Longrightarrow> HEAP_PARENT ?p < ?p" by (rule HEAP_PARENT_less)
  show ?thesis
    unfolding heap_ord_up_def
  proof (intro conjI allI impI)
    fix i assume i: "i < n" "0 < i" "i \<noteq> ?p"
    have pi: "HEAP_PARENT i < i" using i(2) by (rule HEAP_PARENT_less)
    show "(f(s := f ?p, ?p := f s)) (HEAP_PARENT i) \<le> (f(s := f ?p, ?p := f s)) i"
      using i p pi assms(4) ord [of i] gp [of i] by (auto intro: order_trans less_imp_le)
  next
    fix i assume i: "i < n" "0 < i" "HEAP_PARENT i = ?p" "0 < ?p"
    have "f (HEAP_PARENT ?p) \<le> f ?p" using ord [of ?p] i p assms(3) by simp
    then show "(f(s := f ?p, ?p := f s)) (HEAP_PARENT ?p) \<le> (f(s := f ?p, ?p := f s)) i"
      using i p gpp assms(3) ord [of i] by (auto intro: order_trans)
  qed
qed

lemma heap_ord_up_done:
  "heap_ord_up f n s \<Longrightarrow> s = 0 \<or> f (HEAP_PARENT s) \<le> f s \<Longrightarrow> heap_ord f n"
  by (auto simp: heap_ord_up_def heap_ord_def)

lemma heap_ord_down_step:
  assumes "heap_ord_down f n s" "s < n" "c < n" "0 < c" "HEAP_PARENT c = s" "f c < f s"
    and least: "\<And>i. i < n \<Longrightarrow> 0 < i \<Longrightarrow> HEAP_PARENT i = s \<Longrightarrow> f c \<le> f i"
  shows "heap_ord_down (f(s := f c, c := f s)) n c"
proof -
  have sc: "s < c" using HEAP_PARENT_less [of c] assms(4,5) by simp
  have ord: "f (HEAP_PARENT i) \<le> f i" if "i < n" "0 < i" "HEAP_PARENT i \<noteq> s" for i
    using assms(1) that by (simp add: heap_ord_down_def)
  have gp: "f (HEAP_PARENT s) \<le> f i" if "i < n" "0 < i" "HEAP_PARENT i = s" "0 < s" for i
    using assms(1) that by (simp add: heap_ord_down_def)
  have ps: "0 < s \<Longrightarrow> HEAP_PARENT s < s" by (rule HEAP_PARENT_less)
  show ?thesis
    unfolding heap_ord_down_def
  proof (intro conjI allI impI)
    fix i assume i: "i < n" "0 < i" "HEAP_PARENT i \<noteq> c"
    have pi: "HEAP_PARENT i < i" using i(2) by (rule HEAP_PARENT_less)
    show "(f(s := f c, c := f s)) (HEAP_PARENT i) \<le> (f(s := f c, c := f s)) i"
      using i pi ps sc assms(3-6) ord [of i] gp [of c] least [of i]
      by (auto intro: less_imp_le)
  next
    fix i assume i: "i < n" "0 < i" "HEAP_PARENT i = c" "0 < c"
    have pi: "HEAP_PARENT i < i" using i(2) by (rule HEAP_PARENT_less)
    then show "(f(s := f c, c := f s)) (HEAP_PARENT c) \<le> (f(s := f c, c := f s)) i"
      using i sc assms(5) ord [of i] by auto
  qed
qed

lemma heap_ord_down_done:
  "heap_ord_down f n s \<Longrightarrow> (\<And>i. i < n \<Longrightarrow> 0 < i \<Longrightarrow> HEAP_PARENT i = s \<Longrightarrow> f s \<le> f i) \<Longrightarrow> heap_ord f n"
  by (auto simp: heap_ord_down_def heap_ord_def)

subsection \<open>Placing and swapping nodes\<close>

definition place :: "pj_timer_heap \<Rightarrow> nat \<Rightarrow> entry_ptr \<Rightarrow> pj_timer_heap" where
  "place ht slot m =
     ht\<lparr>th_heap := (th_heap ht)[slot := m],
        th_timer_ids := (th_timer_ids ht)[nat (te_tid ht m) := int slot]\<rparr>"

definition swap_nodes :: "pj_timer_heap \<Rightarrow> nat \<Rightarrow> nat \<Rightarrow> pj_timer_heap" where
  "swap_nodes ht i j = place (place ht i (th_heap ht ! j)) j (th_heap ht ! i)"

text \<open>The first \<open>n\<close> nodes of the heap are where \<open>timer_ids\<close> says they are.\<close>

definition idx_ok :: "pj_timer_heap \<Rightarrow> nat \<Rightarrow> bool" where
  "idx_ok ht n \<longleftrightarrow> n \<le> length (th_heap ht) \<and>
     (\<forall>i<n. 1 \<le> te_tid ht (th_heap ht ! i) \<and>
            nat (te_tid ht (th_heap ht ! i)) < length (th_timer_ids ht) \<and>
            th_timer_ids ht ! nat (te_tid ht (th_heap ht ! i)) = int i)"

definition heap_val :: "pj_timer_heap \<Rightarrow> nat \<Rightarrow> pj_time_val" where
  "heap_val ht i = te_value ht (th_heap ht ! i)"

text \<open>\<open>ht'\<close> differs from \<open>ht\<close> in the two arrays only.\<close>

definition same_header :: "pj_timer_heap \<Rightarrow> pj_timer_heap \<Rightarrow> bool" where
  "same_header ht ht' \<longleftrightarrow>
     th_max_size ht' = th_max_size ht \<and> th_cur_size ht' = th_cur_size ht \<and>
     th_max_entries_per_poll ht' = th_max_entries_per_poll ht \<and> th_lock ht' = th_lock ht \<and>
     th_auto_delete_lock ht' = th_auto_delete_lock ht \<and>
     th_timer_ids_freelist ht' = th_timer_ids_freelist ht \<and> th_mem ht' = th_mem ht"

text \<open>\<open>ht'\<close> has the same first \<open>n\<close> nodes as \<open>ht\<close> in another order; \<open>timer_ids\<close> differs at
  the ids of these nodes only.\<close>

definition rearranged :: "nat \<Rightarrow> pj_timer_heap \<Rightarrow> pj_timer_heap \<Rightarrow> bool" where
  "rearranged n ht ht' \<longleftrightarrow>
     same_header ht ht' \<and>
     length (th_heap ht') = length (th_heap ht) \<and>
     length (th_timer_ids ht') = length (th_timer_ids ht) \<and>
     mset (take n (th_heap ht')) = mset (take n (th_heap ht)) \<and>
     (\<forall>k. (\<forall>e \<in> set (take n (th_heap ht)). te_tid ht e \<noteq> int k) \<longrightarrow>
          th_timer_ids ht' ! k = th_timer_ids ht ! k)"

lemma rearranged_refl: "rearranged n ht ht"
  by (simp add: rearranged_def same_header_def)

lemma rearranged_simps:
  assumes "rearranged n ht ht'"
  shows "th_max_size ht' = th_max_size ht" "th_cur_size ht' = th_cur_size ht"
    "th_mem ht' = th_mem ht" "th_timer_ids_freelist ht' = th_timer_ids_freelist ht"
    "th_max_entries_per_poll ht' = th_max_entries_per_poll ht"
    "length (th_heap ht') = length (th_heap ht)"
    "length (th_timer_ids ht') = length (th_timer_ids ht)"
    "set (take n (th_heap ht')) = set (take n (th_heap ht))"
  using assms mset_eq_setD [of "take n (th_heap ht')" "take n (th_heap ht)"]
  unfolding rearranged_def same_header_def by simp_all

lemma rearranged_trans:
  assumes ab: "rearranged n a b" and bc: "rearranged n b c"
  shows "rearranged n a c"
proof -
  note s = rearranged_simps [OF ab]
  have ids: "th_timer_ids c ! k = th_timer_ids a ! k"
    if "\<forall>e \<in> set (take n (th_heap a)). te_tid a e \<noteq> int k" for k
  proof -
    have "th_timer_ids c ! k = th_timer_ids b ! k"
      using bc that by (simp add: rearranged_def s)
    also have "\<dots> = th_timer_ids a ! k"
      using ab that by (simp add: rearranged_def)
    finally show ?thesis .
  qed
  have "same_header a c"
    using ab bc by (simp add: rearranged_def same_header_def)
  with ids ab bc show ?thesis
    unfolding rearranged_def by simp
qed

lemma copy_node_place:
  "slot < length (th_heap ht) \<Longrightarrow> 0 \<le> te_tid ht m \<Longrightarrow> nat (te_tid ht m) < length (th_timer_ids ht)
   \<Longrightarrow> copy_node ht slot m = Some (place ht slot m)"
  by (simp add: copy_node_def place_def wr_int_def wr_Some)

lemma swap_heap:
  "th_heap (swap_nodes ht i j) = (th_heap ht)[i := th_heap ht ! j, j := th_heap ht ! i]"
  by (simp add: swap_nodes_def place_def)

lemma mset_take_swap:
  "i < n \<Longrightarrow> j < n \<Longrightarrow> n \<le> length xs \<Longrightarrow>
     mset (take n (xs[i := xs ! j, j := xs ! i])) = mset (take n xs)"
  using mset_swap [of j "take n xs" i] by (simp add: take_update_swap)

lemma idx_okD:
  assumes "idx_ok ht n" "i < n"
  shows "1 \<le> te_tid ht (th_heap ht ! i)"
    and "nat (te_tid ht (th_heap ht ! i)) < length (th_timer_ids ht)"
    and "th_timer_ids ht ! nat (te_tid ht (th_heap ht ! i)) = int i"
  using assms by (simp_all add: idx_ok_def)

lemma idx_ok_inj:
  assumes "idx_ok ht n" "i < n" "j < n"
    and "te_tid ht (th_heap ht ! i) = te_tid ht (th_heap ht ! j)"
  shows "i = j"
proof -
  have "int i = int j"
    using idx_okD(3) [OF assms(1,2)] idx_okD(3) [OF assms(1,3)] unfolding assms(4) by simp
  then show ?thesis by simp
qed

lemma th_mem_swap: "th_mem (swap_nodes ht i j) = th_mem ht"
  by (simp add: swap_nodes_def place_def)

lemma heap_val_swap:
  assumes "i < length (th_heap ht)" "j < length (th_heap ht)"
  shows "heap_val (swap_nodes ht i j) = (heap_val ht)(i := heap_val ht j, j := heap_val ht i)"
proof
  fix a
  show "heap_val (swap_nodes ht i j) a = ((heap_val ht)(i := heap_val ht j, j := heap_val ht i)) a"
    using assms unfolding heap_val_def swap_heap th_mem_swap
    by (cases "a = i"; cases "a = j") simp_all
qed

lemma idx_ok_swap:
  assumes "idx_ok ht n" "i < n" "j < n"
  shows "idx_ok (swap_nodes ht i j) n"
proof -
  let ?t = "\<lambda>a. te_tid ht (th_heap ht ! a)"
  have ok: "1 \<le> ?t a \<and> nat (?t a) < length (th_timer_ids ht) \<and> th_timer_ids ht ! nat (?t a) = int a"
    if "a < n" for a
    using assms(1) that by (simp add: idx_ok_def)
  have n: "n \<le> length (th_heap ht)"
    using assms(1) by (simp add: idx_ok_def)
  have tid: "te_tid (swap_nodes ht i j) (th_heap (swap_nodes ht i j) ! a) = ?t (if a = j then i else if a = i then j else a)"
    if "a < n" for a
    using that n assms(2,3) unfolding swap_heap th_mem_swap by (cases "a = j"; cases "a = i") simp_all
  have ids: "th_timer_ids (swap_nodes ht i j) = (th_timer_ids ht)[nat (?t j) := int i, nat (?t i) := int j]"
    by (simp add: swap_nodes_def place_def)
  have inj: "nat (?t a) = nat (?t b) \<longleftrightarrow> a = b" if "a < n" "b < n" for a b
    using ok [OF that(1)] ok [OF that(2)] by (metis of_nat_eq_iff)
  show ?thesis
    unfolding idx_ok_def
  proof (intro conjI allI impI)
    show "n \<le> length (th_heap (swap_nodes ht i j))" using n by (simp add: swap_heap)
  next
    fix a assume a: "a < n"
    let ?b = "if a = j then i else if a = i then j else a"
    have b: "?b < n" using a assms(2,3) by simp
    show "1 \<le> te_tid (swap_nodes ht i j) (th_heap (swap_nodes ht i j) ! a)"
      using ok [OF b] by (simp add: tid [OF a])
    show "nat (te_tid (swap_nodes ht i j) (th_heap (swap_nodes ht i j) ! a))
            < length (th_timer_ids (swap_nodes ht i j))"
      using ok [OF b] by (simp add: tid [OF a] ids)
    show "th_timer_ids (swap_nodes ht i j) !
            nat (te_tid (swap_nodes ht i j) (th_heap (swap_nodes ht i j) ! a)) = int a"
    proof -
      consider "a = j" | "a \<noteq> j" "a = i" | "a \<noteq> j" "a \<noteq> i" by blast
      then show ?thesis
      proof cases
        case 1
        then show ?thesis unfolding tid [OF a] ids using ok [OF assms(2)] by simp
      next
        case 2
        then have "nat (?t i) \<noteq> nat (?t j)" using inj [OF assms(2,3)] by simp
        with 2 show ?thesis unfolding tid [OF a] ids using ok [OF assms(3)] by simp
      next
        case 3
        then have "nat (?t i) \<noteq> nat (?t a)" "nat (?t j) \<noteq> nat (?t a)"
          using inj [OF assms(2) a] inj [OF assms(3) a] by blast+
        with 3 show ?thesis unfolding tid [OF a] ids using ok [OF a] by simp
      qed
    qed
  qed
qed

lemma rearranged_swap:
  assumes "idx_ok ht n" "i < n" "j < n"
  shows "rearranged n ht (swap_nodes ht i j)"
proof -
  have n: "n \<le> length (th_heap ht)" using assms(1) by (simp add: idx_ok_def)
  have mem: "th_heap ht ! i \<in> set (take n (th_heap ht))" "th_heap ht ! j \<in> set (take n (th_heap ht))"
    using assms n by (auto simp: in_set_conv_nth)
  have "1 \<le> te_tid ht (th_heap ht ! i)" "1 \<le> te_tid ht (th_heap ht ! j)"
    using assms by (auto simp: idx_ok_def)
  moreover have "mset (take n (th_heap (swap_nodes ht i j))) = mset (take n (th_heap ht))"
    using assms n by (simp add: swap_heap mset_take_swap)
  moreover have "th_timer_ids (swap_nodes ht i j) ! k = th_timer_ids ht ! k"
    if "\<forall>e \<in> set (take n (th_heap ht)). te_tid ht e \<noteq> int k" for k
  proof -
    from mem that have "te_tid ht (th_heap ht ! i) \<noteq> int k" "te_tid ht (th_heap ht ! j) \<noteq> int k"
      by auto
    with calculation(1,2) have "nat (te_tid ht (th_heap ht ! i)) \<noteq> k" "nat (te_tid ht (th_heap ht ! j)) \<noteq> k"
      by auto
    then show ?thesis by (simp add: swap_nodes_def place_def)
  qed
  ultimately show ?thesis
    by (simp add: rearranged_def same_header_def swap_nodes_def place_def)
qed

subsection \<open>The two loops\<close>

lemma place_simps [simp]:
  "th_mem (place ht s m) = th_mem ht" "th_cur_size (place ht s m) = th_cur_size ht"
  "th_heap (place ht s m) = (th_heap ht)[s := m]"
  "th_timer_ids (place ht s m) = (th_timer_ids ht)[nat (te_tid ht m) := int s]"
  by (simp_all add: place_def)

lemma list_update_detour: "xs[a := x, b := y, a := z] = xs[b := y, a := z]"
  by (cases "a = b") (simp_all add: list_update_swap [of a b])

lemma place_place_swap:
  "slot \<noteq> p \<Longrightarrow> slot < length (th_heap ht) \<Longrightarrow>
     place (place ht slot (th_heap ht ! p)) p m = swap_nodes (place ht slot m) slot p"
  by (simp add: swap_nodes_def place_def list_update_detour)

lemma reheap_up_correct:
  "slot < n \<Longrightarrow> idx_ok (place ht slot m) n \<Longrightarrow> heap_ord_up (heap_val (place ht slot m)) n slot \<Longrightarrow>
     \<exists>ht'. reheap_up ht m slot (HEAP_PARENT slot) = Some ht' \<and>
           rearranged n (place ht slot m) ht' \<and> idx_ok ht' n \<and> heap_ord (heap_val ht') n"
proof (induction slot arbitrary: ht rule: less_induct)
  case (less slot)
  let ?V = "place ht slot m" and ?p = "HEAP_PARENT slot"
  have len: "n \<le> length (th_heap ht)" using less.prems(2) by (simp add: idx_ok_def)
  have m: "th_heap ?V ! slot = m" using less.prems(1) len by simp
  have "copy_node ht slot m = Some ?V"
    using idx_okD [OF less.prems(2,1)] less.prems(1) len by (simp add: copy_node_place m)
  note copy_m = this
  show ?case
  proof (cases "0 < slot \<and> heap_val ?V slot < heap_val ?V ?p")
    case False
    then have "heap_ord (heap_val ?V) n"
      by (intro heap_ord_up_done [OF less.prems(3)]) auto
    moreover have "reheap_up ht m slot ?p = Some ?V"
      using False copy_m less.prems(1) len HEAP_PARENT_less [of slot]
      by (auto simp: reheap_up.simps [of ht m slot] rd_Some heap_val_def)
    ultimately show ?thesis using less.prems(2) rearranged_refl by blast
  next
    case True
    then have p: "?p < slot" by (simp add: HEAP_PARENT_less)
    let ?e = "th_heap ht ! ?p" and ?V1 = "swap_nodes ?V slot ?p"
    have e: "th_heap ?V ! ?p = ?e" using p by simp
    have pn: "?p < n" using p less.prems(1) by simp
    have tv: "te_value ht m < te_value ht ?e" using True m e by (simp add: heap_val_def)
    have "copy_node ht slot ?e = Some (place ht slot ?e)"
      using idx_okD [OF less.prems(2) pn] less.prems(1) len e by (simp add: copy_node_place)
    then have step: "reheap_up ht m slot ?p = reheap_up (place ht slot ?e) m ?p (HEAP_PARENT ?p)"
      using True tv p less.prems(1) len by (simp add: reheap_up.simps [of ht m slot] rd_Some)
    have V1: "place (place ht slot ?e) ?p m = ?V1"
      using p less.prems(1) len by (intro place_place_swap) auto
    have "heap_ord_up (heap_val ?V1) n ?p"
      using heap_ord_up_step [OF less.prems(3)] True less.prems(1) len p by (simp add: heap_val_swap)
    moreover have "idx_ok ?V1 n" by (rule idx_ok_swap [OF less.prems(2,1) pn])
    ultimately obtain ht' where "reheap_up (place ht slot ?e) m ?p (HEAP_PARENT ?p) = Some ht'"
      "rearranged n ?V1 ht'" "idx_ok ht' n" "heap_ord (heap_val ht') n"
      using less.IH [OF p pn, of "place ht slot ?e"] unfolding V1 by blast
    then show ?thesis
      using step rearranged_trans [OF rearranged_swap [OF less.prems(2,1) pn]] by auto
  qed
qed

lemma smaller_child_least:
  assumes "th_cur_size ht = n" "n \<le> length (th_heap ht)" "HEAP_LEFT s < n"
  obtains c where "smaller_child ht (HEAP_LEFT s) = Some c" "c < n" "0 < c" "HEAP_PARENT c = s"
    "\<And>i. i < n \<Longrightarrow> 0 < i \<Longrightarrow> HEAP_PARENT i = s \<Longrightarrow> heap_val ht c \<le> heap_val ht i"
proof -
  let ?l = "HEAP_LEFT s"
  have l: "0 < ?l" by (simp add: HEAP_LEFT_def)
  define c where "c = (if ?l + 1 < n \<and> heap_val ht (?l + 1) < heap_val ht ?l then ?l + 1 else ?l)"
  have "smaller_child ht ?l = Some c"
    using assms by (simp add: smaller_child_def c_def rd_Some heap_val_def)
  moreover have "c < n" "0 < c" using assms(3) l by (auto simp: c_def)
  moreover have "HEAP_PARENT c = s" using l by (auto simp: c_def HEAP_PARENT_child)
  moreover have "heap_val ht c \<le> heap_val ht i" if "i < n" "0 < i" "HEAP_PARENT i = s" for i
    using that by (auto simp: c_def HEAP_PARENT_child)
  ultimately show ?thesis by (rule that)
qed

lemma heap_val_place: "i \<noteq> slot \<Longrightarrow> heap_val (place ht slot m) i = heap_val ht i"
  by (simp add: heap_val_def)

lemma reheap_down_correct:
  "slot < n \<Longrightarrow> th_cur_size ht = n \<Longrightarrow> idx_ok (place ht slot m) n \<Longrightarrow>
   heap_ord_down (heap_val (place ht slot m)) n slot \<Longrightarrow>
     \<exists>ht'. reheap_down ht m slot (HEAP_LEFT slot) = Some ht' \<and>
           rearranged n (place ht slot m) ht' \<and> idx_ok ht' n \<and> heap_ord (heap_val ht') n"
proof (induction "n - slot" arbitrary: slot ht rule: less_induct)
  case less
  let ?V = "place ht slot m" and ?l = "HEAP_LEFT slot"
  have len: "n \<le> length (th_heap ht)" using less.prems(3) by (simp add: idx_ok_def)
  have m: "th_heap ?V ! slot = m" using less.prems(1) len by simp
  have copy_m: "copy_node ht slot m = Some ?V"
    using idx_okD [OF less.prems(3,1)] less.prems(1) len by (simp add: copy_node_place m)
  show ?case
  proof (cases "?l < n")
    case False
    then have "heap_ord (heap_val ?V) n"
      by (intro heap_ord_down_done [OF less.prems(4)]) (auto simp: HEAP_PARENT_child)
    moreover have "reheap_down ht m slot ?l = Some ?V"
      using False copy_m less.prems(2) by (simp add: reheap_down.simps [of ht m slot])
    ultimately show ?thesis using less.prems(3) rearranged_refl by blast
  next
    case True
    obtain c where c: "smaller_child ht ?l = Some c" "c < n" "0 < c" "HEAP_PARENT c = slot"
      and least: "\<And>i. i < n \<Longrightarrow> 0 < i \<Longrightarrow> HEAP_PARENT i = slot \<Longrightarrow> heap_val ht c \<le> heap_val ht i"
      using smaller_child_least [OF less.prems(2) len True] by metis
    have sc: "slot < c" using HEAP_PARENT_less [OF c(3)] c(4) by simp
    have leastV: "heap_val ?V c \<le> heap_val ?V i" if "i < n" "0 < i" "HEAP_PARENT i = slot" for i
      using least [OF that] HEAP_PARENT_less [OF that(2)] that(3) sc by (simp add: heap_val_place)
    let ?e = "th_heap ht ! c" and ?V1 = "swap_nodes ?V slot c"
    have rdc: "rd (th_heap ht) c = Some ?e" using c(2) len by (simp add: rd_Some)
    have e: "th_heap ?V ! c = ?e" using sc by simp
    show ?thesis
    proof (cases "heap_val ?V c < heap_val ?V slot")
      case False
      then have ge: "heap_val ?V slot \<le> heap_val ?V c" by simp
      have "heap_ord (heap_val ?V) n"
        by (rule heap_ord_down_done [OF less.prems(4)]) (rule order_trans [OF ge leastV])
      moreover have "reheap_down ht m slot ?l = Some ?V"
        using False True copy_m less.prems(2) c(1) rdc m e
        by (simp add: reheap_down.simps [of ht m slot] heap_val_def)
      ultimately show ?thesis using less.prems(3) rearranged_refl by blast
    next
      case lt: True
      have "copy_node ht slot ?e = Some (place ht slot ?e)"
        using idx_okD [OF less.prems(3) c(2)] less.prems(1) len e by (simp add: copy_node_place)
      then have step: "reheap_down ht m slot ?l = reheap_down (place ht slot ?e) m c (HEAP_LEFT c)"
        using lt True less.prems(2) c(1) rdc m e
        by (simp add: reheap_down.simps [of ht m slot] heap_val_def)
      have V1: "place (place ht slot ?e) c m = ?V1"
        using sc less.prems(1) len by (intro place_place_swap) auto
      have "heap_ord_down ((heap_val ?V)(slot := heap_val ?V c, c := heap_val ?V slot)) n c"
        by (rule heap_ord_down_step [OF less.prems(4,1) c(2,3,4) lt]) (rule leastV)
      then have "heap_ord_down (heap_val ?V1) n c"
        using less.prems(1) c(2) len by (subst heap_val_swap) simp_all
      moreover have "idx_ok ?V1 n" by (rule idx_ok_swap [OF less.prems(3,1) c(2)])
      moreover have "n - c < n - slot" using sc c(2) by simp
      ultimately obtain ht' where "reheap_down (place ht slot ?e) m c (HEAP_LEFT c) = Some ht'"
        "rearranged n ?V1 ht'" "idx_ok ht' n" "heap_ord (heap_val ht') n"
        using less.hyps [of c "place ht slot ?e"] c(2) less.prems(2) unfolding V1 by auto
      then show ?thesis
        using step rearranged_trans [OF rearranged_swap [OF less.prems(3,1) c(2)]] by auto
    qed
  qed
qed

end
