(* ===== verification/Pj_Timer_Spec.thy ===== *)
theory Pj_Timer_Spec
  imports Pj_Timer_Heap
begin

text \<open>
  The invariant of the timer heap, the abstract view that its users have of it (the map
  from pending entries to their expiry times), and what every operation does to both.
\<close>

subsection \<open>The free list\<close>

text \<open>\<open>free_path ids x as y\<close>: starting at \<open>x\<close>, the links that \<open>timer_ids\<close> holds as negative
  numbers lead through the slots \<open>as\<close> to \<open>y\<close>.\<close>

primrec free_path :: "int list \<Rightarrow> int \<Rightarrow> nat list \<Rightarrow> int \<Rightarrow> bool" where
  "free_path ids x [] y \<longleftrightarrow> x = y"
| "free_path ids x (a # as) y \<longleftrightarrow> x = int a \<and> a < length ids \<and> free_path ids (- (ids ! a)) as y"

lemma free_path_cong:
  "length ids \<le> length ids' \<Longrightarrow> (\<And>a. a \<in> set as \<Longrightarrow> ids' ! a = ids ! a) \<Longrightarrow>
     free_path ids x as y \<Longrightarrow> free_path ids' x as y"
  by (induction as arbitrary: x) auto

lemma free_path_append:
  "free_path ids x as y \<Longrightarrow> free_path ids y bs z \<Longrightarrow> free_path ids x (as @ bs) z"
  by (induction as arbitrary: x) auto

lemma free_path_bound: "free_path ids x as y \<Longrightarrow> a \<in> set as \<Longrightarrow> a < length ids"
  by (induction as arbitrary: x) auto

lemma free_path_next:
  "free_path ids x as y \<Longrightarrow> a \<in> set as \<Longrightarrow> - (ids ! a) = y \<or> (\<exists>b \<in> set as. - (ids ! a) = int b)"
proof (induction as arbitrary: x)
  case (Cons b as)
  show ?case
  proof (cases "a = b")
    case True
    with Cons.prems show ?thesis by (cases as) auto
  next
    case False
    with Cons show ?thesis by auto
  qed
qed simp

text \<open>The links that \<open>pj_timer_heap_create\<close> and \<open>grow_heap\<close> write.\<close>

lemma free_path_fresh:
  "n \<le> m \<Longrightarrow> m \<le> length ids \<Longrightarrow> (\<And>a. n \<le> a \<Longrightarrow> a < m \<Longrightarrow> ids ! a = - (int a + 1)) \<Longrightarrow>
     free_path ids (int n) [n ..< m] (int m)"
proof (induction "m - n" arbitrary: n)
  case (Suc d)
  then have n: "n < m" by simp
  have "free_path ids (int (Suc n)) [Suc n ..< m] (int m)"
    by (rule Suc.hyps(1)) (use Suc.hyps(2) Suc.prems n in auto)
  moreover have "- (ids ! n) = int (Suc n)" using Suc.prems n by simp
  ultimately show ?case using n Suc.prems by (simp add: upt_conv_Cons)
qed simp

subsection \<open>The invariant\<close>

definition used_ids :: "pj_timer_heap \<Rightarrow> nat set" where
  "used_ids ht = (\<lambda>e. nat (te_tid ht e)) ` set (take (th_cur_size ht) (th_heap ht))"

definition timer_inv :: "pj_timer_heap \<Rightarrow> bool" where
  "timer_inv ht \<longleftrightarrow>
     length (th_heap ht) = th_max_size ht \<and> length (th_timer_ids ht) = th_max_size ht \<and>
     th_cur_size ht + 2 \<le> th_max_size ht \<and>
     idx_ok ht (th_cur_size ht) \<and> heap_ord (heap_val ht) (th_cur_size ht) \<and>
     th_timer_ids ht ! 0 < 0 \<and>
     (\<exists>fl. free_path (th_timer_ids ht) (th_timer_ids_freelist ht) fl (int (th_max_size ht)) \<and>
           distinct fl \<and> set fl = {1 ..< th_max_size ht} - used_ids ht)"

text \<open>The abstract view: when each pending entry expires.\<close>

definition pending :: "pj_timer_heap \<Rightarrow> entry_ptr \<Rightarrow> pj_time_val option" where
  "pending ht e =
     (if e \<in> set (take (th_cur_size ht) (th_heap ht)) then Some (te_value ht e) else None)"

lemma timer_invD:
  assumes "timer_inv ht"
  shows "length (th_heap ht) = th_max_size ht" "length (th_timer_ids ht) = th_max_size ht"
    "th_cur_size ht + 2 \<le> th_max_size ht" "idx_ok ht (th_cur_size ht)"
    "heap_ord (heap_val ht) (th_cur_size ht)" "th_timer_ids ht ! 0 < 0"
  using assms by (auto simp: timer_inv_def)

lemma idx_ok_used:
  "idx_ok ht n \<Longrightarrow> e \<in> set (take n (th_heap ht)) \<Longrightarrow>
     1 \<le> te_tid ht e \<and> nat (te_tid ht e) < length (th_timer_ids ht)"
  by (auto simp: in_set_conv_nth dest: idx_okD)

lemma idx_ok_len: "idx_ok ht n \<Longrightarrow> n \<le> length (th_heap ht)"
  by (simp add: idx_ok_def)

lemma heap_mem_set: "idx_ok ht n \<Longrightarrow> i < n \<Longrightarrow> th_heap ht ! i \<in> set (take n (th_heap ht))"
  using idx_ok_len [of ht n] by (metis in_set_conv_nth length_take min.absorb2 nth_take)

lemma idx_ok_distinct: "idx_ok ht n \<Longrightarrow> distinct (take n (th_heap ht))"
  unfolding distinct_conv_nth using idx_ok_inj [of ht n] by (metis length_take min_less_iff_conj nth_take)

lemma idx_ok_tid_inj:
  "idx_ok ht n \<Longrightarrow> e \<in> set (take n (th_heap ht)) \<Longrightarrow> f \<in> set (take n (th_heap ht)) \<Longrightarrow>
     te_tid ht e = te_tid ht f \<Longrightarrow> e = f"
  by (auto simp: in_set_conv_nth dest: idx_ok_inj)

lemma pending_tid: "timer_inv ht \<Longrightarrow> pending ht e \<noteq> None \<Longrightarrow> 1 \<le> te_tid ht e"
  using idx_ok_used [OF timer_invD(4)] by (auto simp: pending_def split: if_splits)

text \<open>How a rearrangement of the first \<open>n\<close> nodes, followed by setting the size to \<open>n\<close>,
  establishes the invariant.\<close>

lemma timer_inv_rearranged:
  assumes r: "rearranged n V ht'" and idx: "idx_ok ht' n" and ord: "heap_ord (heap_val ht') n"
    and len: "length (th_heap V) = th_max_size V" "length (th_timer_ids V) = th_max_size V"
    and n: "n + 2 \<le> th_max_size V" and idV: "idx_ok V n" and z: "th_timer_ids V ! 0 < 0"
    and fl: "free_path (th_timer_ids V) (th_timer_ids_freelist V) fl (int (th_max_size V))"
      "distinct fl" "set fl = {1 ..< th_max_size V} - (\<lambda>e. nat (te_tid V e)) ` set (take n (th_heap V))"
  shows "timer_inv (ht'\<lparr>th_cur_size := n\<rparr>)"
    and "pending (ht'\<lparr>th_cur_size := n\<rparr>) =
           (\<lambda>e. if e \<in> set (take n (th_heap V)) then Some (te_value V e) else None)"
proof -
  note s = rearranged_simps [OF r]
  have same: "th_timer_ids ht' ! a = th_timer_ids V ! a" if "a \<in> set fl \<or> a = 0" for a
  proof -
    have "te_tid V e \<noteq> int a" if "e \<in> set (take n (th_heap V))" for e
      using idx_ok_used [OF idV that] that \<open>a \<in> set fl \<or> a = 0\<close> fl(3) by force
    then show ?thesis using r by (simp add: rearranged_def)
  qed
  have "free_path (th_timer_ids ht') (th_timer_ids_freelist V) fl (int (th_max_size V))"
    by (rule free_path_cong [OF _ _ fl(1)]) (simp_all add: s same)
  moreover have "idx_ok (ht'\<lparr>th_cur_size := n\<rparr>) n" using idx by (simp add: idx_ok_def)
  moreover have "heap_val (ht'\<lparr>th_cur_size := n\<rparr>) = heap_val ht'" by (rule ext) (simp add: heap_val_def)
  ultimately show "timer_inv (ht'\<lparr>th_cur_size := n\<rparr>)"
    unfolding timer_inv_def using fl(2,3) len n z ord same [of 0]
    by (auto simp: s used_ids_def intro!: exI [of _ fl])
  show "pending (ht'\<lparr>th_cur_size := n\<rparr>) =
          (\<lambda>e. if e \<in> set (take n (th_heap V)) then Some (te_value V e) else None)"
    by (rule ext) (simp add: pending_def s)
qed

subsection \<open>Removing a node\<close>

lemma take_remove_last:
  assumes "distinct (take n xs)" "slot < n" "n \<le> length xs"
  shows "set (take (n - 1) (xs[slot := xs ! (n - 1)])) = set (take n xs) - {xs ! slot}"
proof -
  obtain m where m: "n = Suc m" using assms(2) by (cases n) auto
  then have t: "take n xs = take m xs @ [xs ! m]"
    using assms(3) by (simp add: take_Suc_conv_app_nth)
  have nn: "take (n - 1) (xs[slot := xs ! (n - 1)]) = (take m xs)[slot := xs ! m]"
    by (simp add: m take_update_swap)
  show ?thesis
  proof (cases "slot = m")
    case True
    then show ?thesis using assms(1) nn t by (simp add: m)
  next
    case False
    then have sm: "slot < m" using assms(2) m by simp
    have d: "distinct (take m xs)" "xs ! m \<notin> set (take m xs)" using assms(1) t by auto
    have "set ((take m xs)[slot := xs ! m]) = insert (xs ! m) (set (take m xs) - {take m xs ! slot})"
      using sm assms(3) m d(1) by (intro set_update_distinct) auto
    then have new: "set ((take m xs)[slot := xs ! m]) = insert (xs ! m) (set (take m xs) - {xs ! slot})"
      using sm by simp
    have "xs ! slot \<in> set (take m xs)" using sm assms(3) m by (auto simp: in_set_conv_nth)
    then have "xs ! m \<noteq> xs ! slot" using d(2) by auto
    moreover have old: "set (take n xs) = insert (xs ! m) (set (take m xs))" using t by simp
    ultimately show ?thesis unfolding nn new old by (simp add: insert_Diff_if)
  qed
qed

text \<open>The state of \<open>remove_node\<close> after the id went back to the free list and the size went down.\<close>

definition unlinked :: "pj_timer_heap \<Rightarrow> nat \<Rightarrow> pj_timer_heap" where
  "unlinked ht slot =
     (let e = th_heap ht ! slot in
      ht\<lparr>th_timer_ids := (th_timer_ids ht)[nat (te_tid ht e) := - th_timer_ids_freelist ht],
         th_timer_ids_freelist := te_tid ht e,
         th_cur_size := th_cur_size ht - 1,
         th_mem := (th_mem ht)(e := (th_mem ht e)\<lparr>te_timer_id := -1\<rparr>)\<rparr>)"

lemma unlinked_simps [simp]:
  "th_heap (unlinked ht s) = th_heap ht" "th_cur_size (unlinked ht s) = th_cur_size ht - 1"
  "th_max_size (unlinked ht s) = th_max_size ht"
  "th_timer_ids_freelist (unlinked ht s) = te_tid ht (th_heap ht ! s)"
  "th_max_entries_per_poll (unlinked ht s) = th_max_entries_per_poll ht"
  "th_timer_ids (unlinked ht s) =
     (th_timer_ids ht)[nat (te_tid ht (th_heap ht ! s)) := - th_timer_ids_freelist ht]"
  by (simp_all add: unlinked_def Let_def)

lemma th_mem_unlinked:
  "th_mem (unlinked ht s) =
     (th_mem ht)(th_heap ht ! s := (th_mem ht (th_heap ht ! s))\<lparr>te_timer_id := -1\<rparr>)"
  by (simp add: unlinked_def Let_def)

lemma te_unlinked:
  "te_value (unlinked ht s) e = te_value ht e"
  "te_tid (unlinked ht s) e = (if e = th_heap ht ! s then -1 else te_tid ht e)"
  by (simp_all add: th_mem_unlinked)

lemma remove_node_unfold:
  assumes "idx_ok ht (th_cur_size ht)" "slot < th_cur_size ht"
  shows "remove_node ht slot =
     (if slot < th_cur_size ht - 1
      then do {
        moved_node \<leftarrow> rd (th_heap ht) (th_cur_size ht - 1);
        ht3 \<leftarrow> copy_node (unlinked ht slot) slot moved_node;
        p \<leftarrow> rd (th_heap ht3) (HEAP_PARENT slot);
        ht4 \<leftarrow> (if te_value ht3 p \<le> te_value ht3 moved_node
               then reheap_down ht3 moved_node slot (HEAP_LEFT slot)
               else reheap_up ht3 moved_node slot (HEAP_PARENT slot));
        Some (th_heap ht ! slot, ht4)
      }
      else Some (th_heap ht ! slot, unlinked ht slot))"
proof -
  let ?e = "th_heap ht ! slot"
  let ?ht1 = "ht\<lparr>th_timer_ids := (th_timer_ids ht)[nat (te_tid ht ?e) := - th_timer_ids_freelist ht],
                 th_timer_ids_freelist := te_tid ht ?e\<rparr>"
  have slot: "rd (th_heap ht) slot = Some ?e"
    using assms by (auto simp: idx_ok_def rd_def)
  have push: "push_freelist ht (te_tid ht ?e) = Some ?ht1"
    using idx_okD(1,2) [OF assms] by (simp add: push_freelist_def wr_int_def wr_Some)
  have ht2: "?ht1\<lparr>th_cur_size := th_cur_size ?ht1 - 1,
       th_mem := (th_mem ?ht1)(?e := (th_mem ?ht1 ?e)\<lparr>te_timer_id := -1\<rparr>)\<rparr> = unlinked ht slot"
    by (simp add: unlinked_def Let_def)
  show ?thesis
    unfolding remove_node_def slot Option.bind.bind_lunit push Let_def ht2
    by simp
qed

text \<open>The heap with the last node moved into the slot of the removed one (or just cut short, when
  the last node is the removed one).\<close>

definition vacated :: "pj_timer_heap \<Rightarrow> nat \<Rightarrow> pj_timer_heap" where
  "vacated ht slot =
     (let n = th_cur_size ht - 1 in
      if slot < n then place (unlinked ht slot) slot (th_heap ht ! n) else unlinked ht slot)"

lemma heap_nth_inj:
  assumes "idx_ok ht n" "i < n" "j < n" "th_heap ht ! i = th_heap ht ! j"
  shows "i = j"
  using idx_ok_inj [OF assms(1-3)] assms(4) by simp

lemma vacated_simps:
  "th_max_size (vacated ht slot) = th_max_size ht"
  "th_cur_size (vacated ht slot) = th_cur_size ht - 1"
  "th_max_entries_per_poll (vacated ht slot) = th_max_entries_per_poll ht"
  "length (th_heap (vacated ht slot)) = length (th_heap ht)"
  "length (th_timer_ids (vacated ht slot)) = length (th_timer_ids ht)"
  "th_mem (vacated ht slot) = th_mem (unlinked ht slot)"
  "th_timer_ids_freelist (vacated ht slot) = te_tid ht (th_heap ht ! slot)"
  by (simp_all add: vacated_def Let_def place_def)

lemma vacated_heap:
  assumes "idx_ok ht (th_cur_size ht)" "slot < th_cur_size ht" "i < th_cur_size ht - 1"
  shows "th_heap (vacated ht slot) ! i = th_heap ht ! (if i = slot then th_cur_size ht - 1 else i)"
  using assms by (auto simp: vacated_def Let_def idx_ok_def nth_list_update)

lemma vacated_set:
  assumes "idx_ok ht (th_cur_size ht)" "slot < th_cur_size ht"
  shows "set (take (th_cur_size ht - 1) (th_heap (vacated ht slot))) =
         set (take (th_cur_size ht) (th_heap ht)) - {th_heap ht ! slot}"
proof -
  have "th_cur_size ht \<le> length (th_heap ht)" using assms(1) by (simp add: idx_ok_def)
  moreover have "take (th_cur_size ht - 1) (th_heap (vacated ht slot)) =
      take (th_cur_size ht - 1) ((th_heap ht)[slot := th_heap ht ! (th_cur_size ht - 1)])"
    using assms(2) by (auto simp: vacated_def Let_def)
  ultimately show ?thesis
    using take_remove_last [OF idx_ok_distinct [OF assms(1)] assms(2)] by simp
qed

lemma vacated_tid:
  assumes "idx_ok ht (th_cur_size ht)" "slot < th_cur_size ht" "i < th_cur_size ht - 1"
  shows "te_tid (vacated ht slot) (th_heap (vacated ht slot) ! i) =
         te_tid ht (th_heap ht ! (if i = slot then th_cur_size ht - 1 else i))"
proof -
  let ?j = "if i = slot then th_cur_size ht - 1 else i"
  have "?j < th_cur_size ht" "?j \<noteq> slot" using assms(2,3) by auto
  then have "th_heap ht ! ?j \<noteq> th_heap ht ! slot"
    using heap_nth_inj [OF assms(1) _ assms(2)] by blast
  then show ?thesis
    using vacated_heap [OF assms] by (simp only: vacated_simps te_unlinked if_False)
qed

lemma vacated_ids:
  assumes "idx_ok ht (th_cur_size ht)" "slot < th_cur_size ht"
  shows "th_timer_ids (vacated ht slot) =
    (let n = th_cur_size ht - 1;
         ids = (th_timer_ids ht)[nat (te_tid ht (th_heap ht ! slot)) := - th_timer_ids_freelist ht]
     in if slot < n then ids[nat (te_tid ht (th_heap ht ! n)) := int slot] else ids)"
proof -
  let ?n = "th_cur_size ht - 1"
  have "th_heap ht ! ?n \<noteq> th_heap ht ! slot" if "slot < ?n"
    using heap_nth_inj [OF assms(1) _ assms(2), of ?n] that by force
  then show ?thesis
    by (simp add: vacated_def Let_def te_unlinked)
qed

lemma idx_ok_nat_neq:
  assumes "idx_ok ht n" "i < n" "j < n" "i \<noteq> j"
  shows "nat (te_tid ht (th_heap ht ! i)) \<noteq> nat (te_tid ht (th_heap ht ! j))"
proof
  assume "nat (te_tid ht (th_heap ht ! i)) = nat (te_tid ht (th_heap ht ! j))"
  then have "te_tid ht (th_heap ht ! i) = te_tid ht (th_heap ht ! j)"
    using idx_okD(1) [OF assms(1,2)] idx_okD(1) [OF assms(1,3)] by simp
  then show False using idx_ok_inj [OF assms(1-3)] assms(4) by simp
qed

lemma vacated_idx_ok:
  assumes idx: "idx_ok ht (th_cur_size ht)" and slot: "slot < th_cur_size ht"
  shows "idx_ok (vacated ht slot) (th_cur_size ht - 1)"
  unfolding idx_ok_def
proof (intro conjI allI impI)
  let ?n = "th_cur_size ht - 1" and ?t = "\<lambda>i. nat (te_tid ht (th_heap ht ! i))"
  show "?n \<le> length (th_heap (vacated ht slot))"
    using idx_ok_len [OF idx] by (simp add: vacated_simps)
  fix i assume i: "i < ?n"
  let ?j = "if i = slot then ?n else i"
  have j: "?j < th_cur_size ht" "?j \<noteq> slot" using i slot by auto
  show "1 \<le> te_tid (vacated ht slot) (th_heap (vacated ht slot) ! i)"
    unfolding vacated_tid [OF assms i] by (rule idx_okD(1) [OF idx j(1)])
  show "nat (te_tid (vacated ht slot) (th_heap (vacated ht slot) ! i))
      < length (th_timer_ids (vacated ht slot))"
    unfolding vacated_tid [OF assms i] vacated_simps(5) by (rule idx_okD(2) [OF idx j(1)])
  have ts: "?t ?j \<noteq> ?t slot" by (rule idx_ok_nat_neq [OF idx j(1) slot j(2)])
  have "th_timer_ids (vacated ht slot) ! ?t ?j = int i"
  proof (cases "i = slot")
    case True
    then show ?thesis
      using idx_okD(2) [OF idx j(1)] i by (simp add: vacated_ids [OF assms] Let_def)
  next
    case False
    then have "?t i \<noteq> ?t ?n" using i j(1) by (intro idx_ok_nat_neq [OF idx]) auto
    with False ts show ?thesis
      using idx_okD(3) [OF idx j(1)] by (simp add: vacated_ids [OF assms] Let_def)
  qed
  then show "th_timer_ids (vacated ht slot) !
      nat (te_tid (vacated ht slot) (th_heap (vacated ht slot) ! i)) = int i"
    by (simp only: vacated_tid [OF assms i])
qed

lemma heap_mem_used: "i < th_cur_size ht \<Longrightarrow> idx_ok ht (th_cur_size ht) \<Longrightarrow>
    nat (te_tid ht (th_heap ht ! i)) \<in> used_ids ht"
  unfolding used_ids_def by (rule imageI) (rule heap_mem_set)

lemma vacated_free:
  assumes inv: "timer_inv ht" and slot: "slot < th_cur_size ht"
  shows "\<exists>fl. free_path (th_timer_ids (vacated ht slot)) (th_timer_ids_freelist (vacated ht slot)) fl
              (int (th_max_size (vacated ht slot))) \<and> distinct fl \<and>
              set fl = {1 ..< th_max_size (vacated ht slot)} -
                (\<lambda>e. nat (te_tid (vacated ht slot) e)) ` set (take (th_cur_size ht - 1) (th_heap (vacated ht slot)))"
proof -
  let ?e = "th_heap ht ! slot" and ?n = "th_cur_size ht - 1"
  let ?k = "nat (te_tid ht ?e)"
  note idx = timer_invD(4) [OF inv]
  obtain fl where fl: "free_path (th_timer_ids ht) (th_timer_ids_freelist ht) fl (int (th_max_size ht))"
    "distinct fl" "set fl = {1 ..< th_max_size ht} - used_ids ht"
    using inv by (auto simp: timer_inv_def)
  have k: "1 \<le> te_tid ht ?e" "?k < length (th_timer_ids ht)" using idx_okD [OF idx slot] by auto
  have kfl: "?k \<notin> set fl" using fl(3) heap_mem_used [OF slot idx] by simp
  have nfl: "nat (te_tid ht (th_heap ht ! ?n)) \<notin> set fl"
    using fl(3) heap_mem_used [OF _ idx, of ?n] slot by simp
  have kn: "?k \<noteq> nat (te_tid ht (th_heap ht ! ?n))" if "slot < ?n"
    using idx_ok_nat_neq [OF idx slot, of ?n] slot that by simp
  let ?ids = "th_timer_ids (vacated ht slot)"
  have "free_path ?ids (th_timer_ids_freelist ht) fl (int (th_max_size ht))"
  proof (rule free_path_cong [OF _ _ fl(1)])
    fix a assume "a \<in> set fl"
    with kfl nfl have "?k \<noteq> a" "nat (te_tid ht (th_heap ht ! ?n)) \<noteq> a" by auto
    then show "?ids ! a = th_timer_ids ht ! a" by (simp add: vacated_ids [OF idx slot] Let_def)
  qed (simp add: vacated_simps)
  moreover have "- (?ids ! ?k) = th_timer_ids_freelist ht"
    using k kn by (auto simp: vacated_ids [OF idx slot] Let_def)
  ultimately have "free_path ?ids (te_tid ht ?e) (?k # fl) (int (th_max_size ht))"
    using k by (simp add: vacated_simps)
  moreover have "(\<lambda>e. nat (te_tid (vacated ht slot) e)) ` set (take ?n (th_heap (vacated ht slot)))
      = used_ids ht - {?k}"
  proof -
    have "nat (te_tid ht e) \<noteq> ?k" if "e \<in> set (take (th_cur_size ht) (th_heap ht))" "e \<noteq> ?e" for e
    proof -
      have "?e \<in> set (take (th_cur_size ht) (th_heap ht))"
        by (rule heap_mem_set [OF idx slot])
      then have "te_tid ht e \<noteq> te_tid ht ?e" using idx_ok_tid_inj [OF idx that(1)] that(2) by blast
      then show ?thesis using k(1) idx_ok_used [OF idx that(1)] by simp
    qed
    then show ?thesis
      unfolding vacated_set [OF idx slot] vacated_simps te_unlinked used_ids_def by force
  qed
  moreover have "?k \<in> {1 ..< th_max_size ht}" using k timer_invD(2) [OF inv] by simp
  moreover have "?k \<in> used_ids ht" by (rule heap_mem_used [OF slot idx])
  ultimately show ?thesis
    using fl(2,3) kfl by (intro exI [of _ "?k # fl"]) (auto simp: vacated_simps)
qed

lemma heap_val_vacated:
  assumes "idx_ok ht (th_cur_size ht)" "slot < th_cur_size ht" "i < th_cur_size ht - 1"
  shows "heap_val (vacated ht slot) i = heap_val ht (if i = slot then th_cur_size ht - 1 else i)"
  unfolding heap_val_def vacated_heap [OF assms] vacated_simps te_unlinked ..

lemma heap_ord_le: "heap_ord f n \<Longrightarrow> 0 < i \<Longrightarrow> i < n \<Longrightarrow> f (HEAP_PARENT i) \<le> f i"
  by (simp add: heap_ord_def)

lemma vacated_ord:
  assumes inv: "timer_inv ht" and slot: "slot < th_cur_size ht - 1"
  defines "n \<equiv> th_cur_size ht - 1" and "f \<equiv> heap_val (vacated ht slot)"
  shows "f (HEAP_PARENT slot) \<le> f slot \<Longrightarrow> heap_ord_down f n slot"
    and "f slot < f (HEAP_PARENT slot) \<Longrightarrow> heap_ord_up f n slot"
proof -
  let ?g = "heap_val ht"
  have f: "f i = ?g i" if "i < n" "i \<noteq> slot" for i
    using heap_val_vacated [OF timer_invD(4) [OF inv], of slot i] slot that by (simp add: n_def f_def)
  have g: "?g (HEAP_PARENT i) \<le> ?g i" if "0 < i" "i < n" for i
    using heap_ord_le [OF timer_invD(5) [OF inv]] that by (simp add: n_def)
  have par: "HEAP_PARENT i < n" if "i < n" for i
    using HEAP_PARENT_less [of i] that by (cases "i = 0") auto
  have other: "f (HEAP_PARENT i) \<le> f i" if "0 < i" "i < n" "i \<noteq> slot" "HEAP_PARENT i \<noteq> slot" for i
    using g [OF that(1,2)] f [OF that(2,3)] f [OF par [OF that(2)] that(4)] by simp
  have skip: "f (HEAP_PARENT slot) \<le> f i" if "0 < i" "i < n" "HEAP_PARENT i = slot" "0 < slot" for i
  proof -
    have "HEAP_PARENT slot \<noteq> slot" "i \<noteq> slot"
      using HEAP_PARENT_less [OF that(4)] HEAP_PARENT_less [OF that(1)] that(3) by auto
    moreover have "slot < n" using slot by (simp add: n_def)
    ultimately show ?thesis
      using g [OF that(4)] g [OF that(1,2)] that(2,3) f [OF par, of slot] f [of i] by simp
  qed
  show "f (HEAP_PARENT slot) \<le> f slot \<Longrightarrow> heap_ord_down f n slot"
    unfolding heap_ord_down_def using other skip by metis
  assume up: "f slot < f (HEAP_PARENT slot)"
  then have "0 < slot" by (cases slot) auto
  then have "f slot \<le> f i" if "0 < i" "i < n" "HEAP_PARENT i = slot" for i
    using skip [OF that] up by simp
  with other skip show "heap_ord_up f n slot"
    unfolding heap_ord_up_def by metis
qed

text \<open>What is left to do once the nodes are in order again.\<close>

lemma vacated_close:
  assumes inv: "timer_inv ht" and slot: "slot < th_cur_size ht"
    and r: "rearranged (th_cur_size ht - 1) (vacated ht slot) ht'"
    and idx': "idx_ok ht' (th_cur_size ht - 1)" and ord: "heap_ord (heap_val ht') (th_cur_size ht - 1)"
  defines "e \<equiv> th_heap ht ! slot"
  shows "timer_inv ht' \<and> pending ht' = (pending ht)(e := None) \<and>
         th_cur_size ht' = th_cur_size ht - 1 \<and>
         th_mem ht' = (th_mem ht)(e := (th_mem ht e)\<lparr>te_timer_id := -1\<rparr>) \<and>
         th_max_entries_per_poll ht' = th_max_entries_per_poll ht"
proof -
  let ?V = "vacated ht slot" and ?n = "th_cur_size ht - 1"
  note idx = timer_invD(4) [OF inv]
  obtain fl where fl: "free_path (th_timer_ids ?V) (th_timer_ids_freelist ?V) fl (int (th_max_size ?V))"
      "distinct fl" "set fl = {1 ..< th_max_size ?V} -
         (\<lambda>e. nat (te_tid ?V e)) ` set (take ?n (th_heap ?V))"
    using vacated_free [OF inv slot] by blast
  have zero: "th_timer_ids ?V ! 0 < 0"
    using timer_invD(6) [OF inv] idx_okD(1) [OF idx slot] idx_okD(1) [OF idx, of ?n] slot
    by (auto simp: vacated_ids [OF idx slot] Let_def nth_list_update)
  have ht': "ht'\<lparr>th_cur_size := ?n\<rparr> = ht'"
    using rearranged_simps(2) [OF r] by (simp add: vacated_simps)
  note close = timer_inv_rearranged [OF r idx' ord _ _ _ vacated_idx_ok [OF idx slot] zero fl, unfolded ht']
  have b: "length (th_heap ?V) = th_max_size ?V" "length (th_timer_ids ?V) = th_max_size ?V"
    "?n + 2 \<le> th_max_size ?V"
    using timer_invD(1-3) [OF inv] by (simp_all add: vacated_simps)
  have "pending ht' = (pending ht)(e := None)"
    unfolding close(2) [OF b] vacated_set [OF idx slot]
    by (rule ext) (simp add: pending_def vacated_simps te_unlinked e_def)
  then show ?thesis
    using close(1) [OF b] rearranged_simps [OF r]
    by (simp add: vacated_simps e_def th_mem_unlinked)
qed

lemma vacated_last_ord:
  assumes inv: "timer_inv ht" and slot: "slot = th_cur_size ht - 1" "slot < th_cur_size ht"
  shows "heap_ord (heap_val (vacated ht slot)) (th_cur_size ht - 1)"
  unfolding heap_ord_def
proof (intro allI impI)
  fix i assume i: "i < th_cur_size ht - 1" "0 < i"
  have val: "heap_val (vacated ht slot) j = heap_val ht j" if "j < th_cur_size ht - 1" for j
    using heap_val_vacated [OF timer_invD(4) [OF inv] slot(2) that] that slot(1) by simp
  show "heap_val (vacated ht slot) (HEAP_PARENT i) \<le> heap_val (vacated ht slot) i"
    using i val [of i] val [of "HEAP_PARENT i"] HEAP_PARENT_less [of i]
      heap_ord_le [OF timer_invD(5) [OF inv], of i] by simp
qed

text \<open>When a node moves into the vacated slot, what remains is one of the two loops.\<close>

lemma remove_node_run:
  assumes inv: "timer_inv ht" and slot: "slot < th_cur_size ht - 1"
  defines "V \<equiv> vacated ht slot" and "m \<equiv> th_heap ht ! (th_cur_size ht - 1)"
  shows "place V slot m = V"
    and "remove_node ht slot = map_option (Pair (th_heap ht ! slot))
          (if heap_val V (HEAP_PARENT slot) \<le> heap_val V slot
           then reheap_down V m slot (HEAP_LEFT slot)
           else reheap_up V m slot (HEAP_PARENT slot))"
proof -
  note idx = timer_invD(4) [OF inv]
  have slot': "slot < th_cur_size ht" using slot by simp
  have nn: "th_cur_size ht - 1 < length (th_heap ht)" "slot < length (th_heap ht)"
    using idx_ok_len [OF idx] slot' by auto
  have V: "V = place (unlinked ht slot) slot m" using slot by (simp add: V_def m_def vacated_def Let_def)
  then show "place V slot m = V" by (simp add: place_def)
  have neq: "m \<noteq> th_heap ht ! slot"
    using heap_nth_inj [OF idx _ slot', of "th_cur_size ht - 1"] slot by (auto simp: m_def)
  have copy: "copy_node (unlinked ht slot) slot m = Some V"
    unfolding V using idx_okD(1,2) [OF idx, of "th_cur_size ht - 1"] slot' nn neq
    by (intro copy_node_place) (simp_all add: te_unlinked m_def)
  have m: "th_heap V ! slot = m" using nn by (simp add: V)
  have par: "HEAP_PARENT slot < length (th_heap V)"
    using nn HEAP_PARENT_less [of slot] by (cases "slot = 0") (auto simp: V_def vacated_simps)
  show "remove_node ht slot = map_option (Pair (th_heap ht ! slot))
          (if heap_val V (HEAP_PARENT slot) \<le> heap_val V slot
           then reheap_down V m slot (HEAP_LEFT slot)
           else reheap_up V m slot (HEAP_PARENT slot))"
    using slot par m copy nn(1)
    by (simp add: remove_node_unfold [OF idx slot'] rd_Some heap_val_def map_conv_bind_option
        comp_def m_def)
qed

text \<open>The effect of \<open>remove_node\<close>: it cannot fault, keeps the invariant and removes exactly the
  node at the given slot, whose \<open>_timer_id\<close> becomes -1.\<close>

lemma remove_node_correct:
  assumes inv: "timer_inv ht" and slot: "slot < th_cur_size ht"
  defines "e \<equiv> th_heap ht ! slot"
  shows "\<exists>ht'. remove_node ht slot = Some (e, ht') \<and> timer_inv ht' \<and>
           pending ht' = (pending ht)(e := None) \<and> th_cur_size ht' = th_cur_size ht - 1 \<and>
           th_mem ht' = (th_mem ht)(e := (th_mem ht e)\<lparr>te_timer_id := -1\<rparr>) \<and>
           th_max_entries_per_poll ht' = th_max_entries_per_poll ht"
proof -
  let ?V = "vacated ht slot" and ?n = "th_cur_size ht - 1" and ?m = "th_heap ht ! (th_cur_size ht - 1)"
  note idx = timer_invD(4) [OF inv] and vidx = vacated_idx_ok [OF timer_invD(4) [OF inv] slot]
  have "\<exists>ht'. remove_node ht slot = Some (e, ht') \<and> rearranged ?n ?V ht' \<and> idx_ok ht' ?n \<and>
          heap_ord (heap_val ht') ?n"
  proof (cases "slot < ?n")
    case False
    then have s: "slot = ?n" using slot by simp
    have "remove_node ht slot = Some (e, ?V)"
      using False by (simp add: remove_node_unfold [OF idx slot] e_def vacated_def Let_def)
    with vidx vacated_last_ord [OF inv s slot] show ?thesis using rearranged_refl by blast
  next
    case True
    note run = remove_node_run [OF inv True]
    show ?thesis
    proof (cases "heap_val ?V (HEAP_PARENT slot) \<le> heap_val ?V slot")
      case P: True
      with reheap_down_correct [of slot ?n ?V ?m, unfolded run(1)] True vidx
        vacated_ord(1) [OF inv True] run(2)
      show ?thesis by (auto simp: vacated_simps e_def)
    next
      case P: False
      with reheap_up_correct [of slot ?n ?V ?m, unfolded run(1)] True vidx
        vacated_ord(2) [OF inv True] run(2)
      show ?thesis by (auto simp: not_le e_def)
    qed
  qed
  with vacated_close [OF inv slot] show ?thesis unfolding e_def by blast
qed

subsection \<open>Scheduling\<close>

lemma free_nonempty:
  assumes inv: "timer_inv ht" and fl: "set fl = {1 ..< th_max_size ht} - used_ids ht"
  shows "fl \<noteq> []"
proof
  assume "fl = []"
  with fl have "{1 ..< th_max_size ht} \<subseteq> used_ids ht" by auto
  moreover have fin: "finite (used_ids ht)" by (simp add: used_ids_def)
  ultimately have "card {1 ..< th_max_size ht} \<le> card (used_ids ht)" by (rule card_mono [rotated])
  also have "card (used_ids ht) \<le> card (set (take (th_cur_size ht) (th_heap ht)))"
    unfolding used_ids_def by (rule card_image_le) simp
  also have "\<dots> \<le> th_cur_size ht" using card_length [of "take (th_cur_size ht) (th_heap ht)"] by simp
  finally show False using timer_invD(3) [OF inv] by simp
qed

text \<open>Placing a new node behind the last one.\<close>

lemma place_new:
  assumes idx: "idx_ok P n" and n: "n < length (th_heap P)"
    and tid: "te_tid P e = int k" "1 \<le> k" "k < length (th_timer_ids P)"
    and new: "k \<notin> (\<lambda>f. nat (te_tid P f)) ` set (take n (th_heap P))"
  shows "idx_ok (place P n e) (Suc n)"
    and "set (take (Suc n) (th_heap (place P n e))) = insert e (set (take n (th_heap P)))"
    and "heap_ord (heap_val P) n \<Longrightarrow> heap_ord_up (heap_val (place P n e)) (Suc n) n"
proof -
  have old: "nat (te_tid P (th_heap P ! i)) \<noteq> k" if "i < n" for i
    using heap_mem_set [OF idx that] new by auto
  show "idx_ok (place P n e) (Suc n)"
    unfolding idx_ok_def
  proof (intro conjI allI impI)
    show "Suc n \<le> length (th_heap (place P n e))" using n by simp
    fix i assume "i < Suc n"
    then consider "i = n" | "i < n" by linarith
    note c = this
    show "1 \<le> te_tid (place P n e) (th_heap (place P n e) ! i)"
      using c by cases (use tid n idx_okD(1) [OF idx, of i] in simp_all)
    show "nat (te_tid (place P n e) (th_heap (place P n e) ! i)) < length (th_timer_ids (place P n e))"
      using c by cases (use tid n idx_okD(2) [OF idx, of i] in simp_all)
    show "th_timer_ids (place P n e) ! nat (te_tid (place P n e) (th_heap (place P n e) ! i)) = int i"
      using c
    proof cases
      case 1
      then show ?thesis using tid n by simp
    next
      case 2
      then have h: "th_heap (place P n e) ! i = th_heap P ! i" by simp
      show ?thesis unfolding h using old [OF 2] idx_okD(3) [OF idx 2] tid(1) by simp
    qed
  qed
  show "set (take (Suc n) (th_heap (place P n e))) = insert e (set (take n (th_heap P)))"
    using n by (simp add: take_Suc_conv_app_nth)
  assume ord: "heap_ord (heap_val P) n"
  show "heap_ord_up (heap_val (place P n e)) (Suc n) n"
    unfolding heap_ord_up_def
  proof (intro conjI allI impI)
    fix i assume i: "i < Suc n" "0 < i" "i \<noteq> n"
    then have "HEAP_PARENT i \<noteq> n" using HEAP_PARENT_less [of i] by simp
    then show "heap_val (place P n e) (HEAP_PARENT i) \<le> heap_val (place P n e) i"
      using ord i by (simp add: heap_val_place heap_ord_def)
  next
    fix i assume "i < Suc n" "0 < i" "HEAP_PARENT i = n"
    then have False using HEAP_PARENT_less [of i] by simp
    then show "heap_val (place P n e) (HEAP_PARENT n) \<le> heap_val (place P n e) i" ..
  qed
qed

lemma grow_heap_simps [simp]:
  "th_cur_size (grow_heap junk ht) = th_cur_size ht" "th_mem (grow_heap junk ht) = th_mem ht"
  "th_max_size (grow_heap junk ht) = th_max_size ht * 2"
  "th_timer_ids_freelist (grow_heap junk ht) = th_timer_ids_freelist ht"
  "th_max_entries_per_poll (grow_heap junk ht) = th_max_entries_per_poll ht"
  by (simp_all add: grow_heap_def Let_def)

lemma grow_heap_arrays:
  assumes len: "length (th_heap ht) = th_max_size ht" "length (th_timer_ids ht) = th_max_size ht"
  shows "length (th_heap (grow_heap junk ht)) = th_max_size ht * 2"
    and "length (th_timer_ids (grow_heap junk ht)) = th_max_size ht * 2"
    and "n \<le> th_max_size ht \<Longrightarrow> take n (th_heap (grow_heap junk ht)) = take n (th_heap ht)"
    and "i < th_max_size ht \<Longrightarrow> th_heap (grow_heap junk ht) ! i = th_heap ht ! i"
    and "i < th_max_size ht \<Longrightarrow> th_timer_ids (grow_heap junk ht) ! i = th_timer_ids ht ! i"
    and "th_max_size ht \<le> i \<Longrightarrow> i < th_max_size ht * 2 \<Longrightarrow>
           th_timer_ids (grow_heap junk ht) ! i = - (int i + 1)"
  using len by (simp_all add: grow_heap_def Let_def nth_append)

lemma grow_heap_free:
  assumes len: "length (th_heap ht) = th_max_size ht" "length (th_timer_ids ht) = th_max_size ht"
    and fl: "free_path (th_timer_ids ht) x fl (int (th_max_size ht))"
  shows "free_path (th_timer_ids (grow_heap junk ht)) x (fl @ [th_max_size ht ..< th_max_size ht * 2])
           (int (th_max_size ht * 2))"
proof (rule free_path_append)
  note arr = grow_heap_arrays [OF len]
  show "free_path (th_timer_ids (grow_heap junk ht)) x fl (int (th_max_size ht))"
    by (rule free_path_cong [OF _ _ fl]) (use arr free_path_bound [OF fl] len in auto)
  show "free_path (th_timer_ids (grow_heap junk ht)) (int (th_max_size ht))
          [th_max_size ht ..< th_max_size ht * 2] (int (th_max_size ht * 2))"
    by (rule free_path_fresh) (use arr in auto)
qed

text \<open>What the state must satisfy when \<open>insert_node\<close> calls \<open>reheap_up\<close> for a new node \<open>e\<close>: it is
  the invariant, but for an id \<open>k\<close> that is taken from the free list and not yet in use.\<close>

definition insertable :: "pj_timer_heap \<Rightarrow> entry_ptr \<Rightarrow> nat \<Rightarrow> bool" where
  "insertable P e k \<longleftrightarrow>
     length (th_heap P) = th_max_size P \<and> length (th_timer_ids P) = th_max_size P \<and>
     idx_ok P (th_cur_size P) \<and> heap_ord (heap_val P) (th_cur_size P) \<and> th_timer_ids P ! 0 < 0 \<and>
     1 \<le> k \<and> k < th_max_size P \<and> te_tid P e = int k \<and> k \<notin> used_ids P \<and>
     (\<exists>fl. free_path (th_timer_ids P) (th_timer_ids_freelist P) fl (int (th_max_size P)) \<and>
           distinct fl \<and> set fl = {1 ..< th_max_size P} - insert k (used_ids P))"

lemma insertable_grow:
  assumes P: "insertable P e k" and n: "th_cur_size P \<le> th_max_size P"
  shows "insertable (grow_heap junk P) e k"
proof -
  have len: "length (th_heap P) = th_max_size P" "length (th_timer_ids P) = th_max_size P"
    and idx: "idx_ok P (th_cur_size P)" using P by (auto simp: insertable_def)
  note arr = grow_heap_arrays [OF len]
  obtain fl where fl: "free_path (th_timer_ids P) (th_timer_ids_freelist P) fl (int (th_max_size P))"
    "distinct fl" "set fl = {1 ..< th_max_size P} - insert k (used_ids P)"
    using P by (auto simp: insertable_def)
  have used: "used_ids (grow_heap junk P) = used_ids P" using n by (simp add: used_ids_def arr)
  have usedlt: "u < th_max_size P" if "u \<in> used_ids P" for u
    using that idx_ok_used [OF idx] len by (auto simp: used_ids_def)
  have k: "1 \<le> k" "k < th_max_size P" using P by (auto simp: insertable_def)
  have idx': "idx_ok (grow_heap junk P) (th_cur_size P)"
    unfolding idx_ok_def
  proof (intro conjI allI impI)
    show "th_cur_size P \<le> length (th_heap (grow_heap junk P))" using n by (simp add: arr)
    fix i assume i: "i < th_cur_size P"
    then have h: "th_heap (grow_heap junk P) ! i = th_heap P ! i" using n by (simp add: arr)
    note t = idx_okD [OF idx i, unfolded len]
    show "1 \<le> te_tid (grow_heap junk P) (th_heap (grow_heap junk P) ! i)" using t(1) by (simp add: h)
    show "nat (te_tid (grow_heap junk P) (th_heap (grow_heap junk P) ! i)) <
            length (th_timer_ids (grow_heap junk P))"
      unfolding h arr(2) grow_heap_simps using t(2) by linarith
    show "th_timer_ids (grow_heap junk P) !
            nat (te_tid (grow_heap junk P) (th_heap (grow_heap junk P) ! i)) = int i"
      unfolding h grow_heap_simps arr(5) [OF t(2)] by (rule t(3))
  qed
  have val: "heap_val (grow_heap junk P) i = heap_val P i" if "i < th_cur_size P" for i
    using that n by (simp add: heap_val_def arr)
  have ord: "heap_ord (heap_val (grow_heap junk P)) (th_cur_size P)"
    unfolding heap_ord_def
  proof (intro allI impI)
    fix i assume i: "i < th_cur_size P" "0 < i"
    then have "HEAP_PARENT i < th_cur_size P" using HEAP_PARENT_less [of i] by simp
    then show "heap_val (grow_heap junk P) (HEAP_PARENT i) \<le> heap_val (grow_heap junk P) i"
      using P i val by (simp add: heap_ord_def insertable_def)
  qed
  have "{1 ..< th_max_size P * 2} - insert k (used_ids P) =
          ({1 ..< th_max_size P} - insert k (used_ids P)) \<union> {th_max_size P ..< th_max_size P * 2}"
    using k usedlt by (auto simp: not_less intro: less_le_trans dest: usedlt leD)
  then have "set (fl @ [th_max_size P ..< th_max_size P * 2]) =
          {1 ..< th_max_size P * 2} - insert k (used_ids P)"
    using fl(3) by simp
  moreover have "distinct (fl @ [th_max_size P ..< th_max_size P * 2])"
    unfolding distinct_append fl(3) using fl(2) by auto
  ultimately have free: "\<exists>fl. free_path (th_timer_ids (grow_heap junk P)) (th_timer_ids_freelist P) fl
      (int (th_max_size P * 2)) \<and> distinct fl \<and> set fl = {1 ..< th_max_size P * 2} - insert k (used_ids P)"
    using grow_heap_free [OF len fl(1), of junk] by blast
  have "th_timer_ids (grow_heap junk P) ! 0 < 0" using P k by (simp add: insertable_def arr(5))
  with P idx' ord k show ?thesis
    unfolding insertable_def used grow_heap_simps arr(1,2) using free by simp
qed

lemma insertable_inserted:
  assumes P: "insertable P e k" and n: "th_cur_size P + 3 \<le> th_max_size P"
  shows "\<exists>ht'. reheap_up P e (th_cur_size P) (HEAP_PARENT (th_cur_size P)) = Some ht' \<and>
           th_cur_size ht' = th_cur_size P \<and> th_mem ht' = th_mem P \<and>
           th_max_entries_per_poll ht' = th_max_entries_per_poll P \<and>
           timer_inv (ht'\<lparr>th_cur_size := th_cur_size P + 1\<rparr>) \<and>
           pending (ht'\<lparr>th_cur_size := th_cur_size P + 1\<rparr>) = (pending P)(e \<mapsto> te_value P e)"
proof -
  let ?n = "th_cur_size P" and ?V = "place P (th_cur_size P) e"
  have len: "length (th_heap P) = th_max_size P" "length (th_timer_ids P) = th_max_size P"
    and idx: "idx_ok P ?n" and ord: "heap_ord (heap_val P) ?n" and z: "th_timer_ids P ! 0 < 0"
    and k: "1 \<le> k" "k < th_max_size P" "te_tid P e = int k" "k \<notin> used_ids P"
    using P by (auto simp: insertable_def)
  obtain fl where fl: "free_path (th_timer_ids P) (th_timer_ids_freelist P) fl (int (th_max_size P))"
    "distinct fl" "set fl = {1 ..< th_max_size P} - insert k (used_ids P)"
    using P by (auto simp: insertable_def)
  have nl: "?n < length (th_heap P)" using n len by simp
  note new = place_new [OF idx nl k(3,1) k(2) [folded len(2)] k(4) [unfolded used_ids_def]]
  obtain ht' where ht': "reheap_up P e ?n (HEAP_PARENT ?n) = Some ht'" "rearranged (Suc ?n) ?V ht'"
    "idx_ok ht' (Suc ?n)" "heap_ord (heap_val ht') (Suc ?n)"
    using reheap_up_correct [OF _ new(1) new(3) [OF ord]] by auto
  have V: "th_max_size ?V = th_max_size P" "th_timer_ids_freelist ?V = th_timer_ids_freelist P"
    "th_max_entries_per_poll ?V = th_max_entries_per_poll P" by (simp_all add: place_def)
  have fp: "free_path (th_timer_ids ?V) (th_timer_ids_freelist P) fl (int (th_max_size P))"
    by (rule free_path_cong [OF _ _ fl(1)]) (use fl(3) k in auto)
  have used: "(\<lambda>e. nat (te_tid ?V e)) ` set (take (Suc ?n) (th_heap ?V)) = insert k (used_ids P)"
    unfolding new(2) by (simp add: k(3) used_ids_def)
  have z': "th_timer_ids ?V ! 0 < 0" using z k by simp
  note fin = timer_inv_rearranged [OF ht'(2-4) _ _ _ new(1) z', unfolded V, OF _ _ _ fp fl(2)]
  have "timer_inv (ht'\<lparr>th_cur_size := Suc ?n\<rparr>)"
    and pend: "pending (ht'\<lparr>th_cur_size := Suc ?n\<rparr>) =
       (\<lambda>f. if f \<in> set (take (Suc ?n) (th_heap ?V)) then Some (te_value ?V f) else None)"
    using fin len n fl(3) used by simp_all
  moreover have "pending (ht'\<lparr>th_cur_size := Suc ?n\<rparr>) = (pending P)(e \<mapsto> te_value P e)"
    unfolding pend new(2) by (rule ext) (simp add: pending_def)
  ultimately show ?thesis using ht'(1) rearranged_simps [OF ht'(2)] V by (simp add: place_simps)
qed

text \<open>The effect of \<open>schedule_entry\<close> on an entry that is not in the heap.\<close>

lemma schedule_entry_insertable:
  assumes inv: "timer_inv ht" and new: "pending ht e = None"
  obtains k P where "pop_freelist ht = Some (int k, P)" "1 \<le> k" "k < th_max_size ht"
    "insertable (P\<lparr>th_mem := (th_mem P)(e := (th_mem P e)\<lparr>te_timer_id := int k, te_timer_value := t\<rparr>)\<rparr>) e k"
    "P = ht\<lparr>th_timer_ids_freelist := - (th_timer_ids ht ! k)\<rparr>"
proof -
  obtain fl where fl: "free_path (th_timer_ids ht) (th_timer_ids_freelist ht) fl (int (th_max_size ht))"
    "distinct fl" "set fl = {1 ..< th_max_size ht} - used_ids ht"
    using inv by (auto simp: timer_inv_def)
  then obtain k fl' where cons: "fl = k # fl'" using free_nonempty [OF inv fl(3)] by (cases fl) auto
  have k: "1 \<le> k" "k < th_max_size ht" "k \<notin> used_ids ht" using fl(3) cons by auto
  let ?P = "ht\<lparr>th_timer_ids_freelist := - (th_timer_ids ht ! k)\<rparr>"
  let ?Q = "?P\<lparr>th_mem := (th_mem ht)(e := (th_mem ht e)\<lparr>te_timer_id := int k, te_timer_value := t\<rparr>)\<rparr>"
  have e: "f \<noteq> e" if "f \<in> set (take (th_cur_size ht) (th_heap ht))" for f
    using that new by (auto simp: pending_def)
  have same: "th_mem ?Q (th_heap ht ! i) = th_mem ht (th_heap ht ! i)" if "i < th_cur_size ht" for i
    using e [OF heap_mem_set [OF timer_invD(4) [OF inv] that]] by simp
  have used: "used_ids ?Q = used_ids ht" using e by (auto simp: used_ids_def intro!: image_cong)
  have idx: "idx_ok ?Q (th_cur_size ht)"
    using timer_invD(4) [OF inv] same unfolding idx_ok_def by simp
  have ord: "heap_ord (heap_val ?Q) (th_cur_size ht)"
    unfolding heap_ord_def
  proof (intro allI impI)
    fix i assume i: "i < th_cur_size ht" "0 < i"
    then have "HEAP_PARENT i < th_cur_size ht" using HEAP_PARENT_less [of i] by simp
    then show "heap_val ?Q (HEAP_PARENT i) \<le> heap_val ?Q i"
      using timer_invD(5) [OF inv] i same [of i] same [of "HEAP_PARENT i"]
      by (simp add: heap_ord_def heap_val_def)
  qed
  show thesis
  proof (rule that)
    show "pop_freelist ht = Some (int k, ?P)"
      using fl(1) cons by (simp add: pop_freelist_def rd_int_def rd_Some)
    show "insertable (?P\<lparr>th_mem := (th_mem ?P)(e := (th_mem ?P e)\<lparr>te_timer_id := int k,
                                                            te_timer_value := t\<rparr>)\<rparr>) e k"
      unfolding insertable_def using used idx ord k fl cons timer_invD [OF inv] by auto
  qed (use k in simp_all)
qed

lemma insert_node_correct:
  assumes P: "insertable P e k" and n: "th_cur_size P + 2 \<le> th_max_size P"
  shows "\<exists>ht'. insert_node junk P e = Some ht' \<and> timer_inv ht' \<and>
           th_mem ht' = th_mem P \<and> th_max_entries_per_poll ht' = th_max_entries_per_poll P \<and>
           pending ht' = (pending P)(e \<mapsto> te_value P e)"
proof (cases "th_cur_size P + 2 \<ge> th_max_size P")
  case True
  let ?G = "grow_heap junk P"
  have "length (th_heap P) = th_max_size P" "length (th_timer_ids P) = th_max_size P"
    using P by (simp_all add: insertable_def)
  then have "take (th_cur_size P) (th_heap ?G) = take (th_cur_size P) (th_heap P)"
    using n by (simp add: grow_heap_arrays)
  then have "pending ?G = pending P" by (simp add: pending_def fun_eq_iff)
  with insertable_inserted [OF insertable_grow [OF P, of junk]] True n show ?thesis
    by (auto simp: insert_node_def Let_def)
next
  case False
  then show ?thesis using insertable_inserted [OF P] by (auto simp: insert_node_def Let_def)
qed

lemma schedule_entry_correct:
  assumes inv: "timer_inv ht" and new: "pending ht e = None"
  shows "\<exists>ht' k. schedule_entry junk ht e t = Some (PJ_SUCCESS, ht') \<and> timer_inv ht' \<and>
           pending ht' = (pending ht)(e \<mapsto> t) \<and>
           th_mem ht' = (th_mem ht)(e := (th_mem ht e)\<lparr>te_timer_id := k, te_timer_value := t\<rparr>) \<and>
           th_max_entries_per_poll ht' = th_max_entries_per_poll ht"
proof -
  obtain k P where P: "pop_freelist ht = Some (int k, P)"
    "insertable (P\<lparr>th_mem := (th_mem P)(e := (th_mem P e)\<lparr>te_timer_id := int k, te_timer_value := t\<rparr>)\<rparr>) e k"
    "P = ht\<lparr>th_timer_ids_freelist := - (th_timer_ids ht ! k)\<rparr>"
    using schedule_entry_insertable [OF inv new] by metis
  let ?Q = "P\<lparr>th_mem := (th_mem P)(e := (th_mem P e)\<lparr>te_timer_id := int k, te_timer_value := t\<rparr>)\<rparr>"
  have "(pending ?Q)(e \<mapsto> te_value ?Q e) = (pending ht)(e \<mapsto> t)"
    by (rule ext) (simp add: pending_def P(3))
  moreover obtain ht' where "insert_node junk ?Q e = Some ht'" "timer_inv ht'" "th_mem ht' = th_mem ?Q"
    "th_max_entries_per_poll ht' = th_max_entries_per_poll ?Q"
    "pending ht' = (pending ?Q)(e \<mapsto> te_value ?Q e)"
    using insert_node_correct [OF P(2)] timer_invD(3) [OF inv] P(3) by auto
  ultimately show ?thesis
    using P(1,3) timer_invD(3) [OF inv]
    by (intro exI [of _ ht'] exI [of _ "int k"]) (simp add: schedule_entry_def)
qed

subsection \<open>The operations of the interface\<close>

text \<open>An entry in the hands of a client: initialised, and marked as scheduled exactly when it is.\<close>

definition entry_ok :: "pj_timer_heap \<Rightarrow> entry_ptr \<Rightarrow> bool" where
  "entry_ok ht e \<longleftrightarrow> te_cb (th_mem ht e) \<noteq> None \<and> (te_tid ht e < 1 \<longleftrightarrow> pending ht e = None)"

lemma create_correct:
  assumes "pj_timer_heap_create alloc junk mem sz = Inr ht"
  shows "timer_inv ht" "pending ht = Map.empty" "th_mem ht = mem"
    "th_max_entries_per_poll ht = DEFAULT_MAX_TIMED_OUT_PER_POLL"
proof -
  have ht: "th_heap ht = map junk [0 ..< sz + 2]" "th_cur_size ht = 0" "th_max_size ht = sz + 2"
    "th_timer_ids ht = map (\<lambda>i. - (int i + 1)) [0 ..< sz + 2]" "th_timer_ids_freelist ht = 1"
    "th_mem ht = mem" "th_max_entries_per_poll ht = DEFAULT_MAX_TIMED_OUT_PER_POLL"
    using assms by (auto simp: pj_timer_heap_create_def Let_def split: if_splits)
  show "th_mem ht = mem" "th_max_entries_per_poll ht = DEFAULT_MAX_TIMED_OUT_PER_POLL" by fact+
  have "free_path (th_timer_ids ht) (int 1) [1 ..< sz + 2] (int (sz + 2))"
    by (rule free_path_fresh) (simp_all add: ht del: upt_Suc)
  moreover have "used_ids ht = {}" by (simp add: used_ids_def ht)
  moreover have "th_timer_ids ht ! 0 < 0" by (simp add: ht del: upt_Suc)
  ultimately show "timer_inv ht"
    by (auto simp: timer_inv_def idx_ok_def heap_ord_def ht simp del: upt_Suc
        intro!: exI [of _ "[1 ..< sz + 2]"])
  show "pending ht = Map.empty" by (simp add: pending_def ht fun_eq_iff)
qed

text \<open>The heap does not look at entries that are not pending.\<close>

lemma idle_mem:
  assumes inv: "timer_inv ht" and idle: "\<And>e. pending ht e \<noteq> None \<Longrightarrow> mem e = th_mem ht e"
  shows "timer_inv (ht\<lparr>th_mem := mem\<rparr>)" "pending (ht\<lparr>th_mem := mem\<rparr>) = pending ht"
proof -
  let ?I = "ht\<lparr>th_mem := mem\<rparr>"
  have in_heap: "mem f = th_mem ht f" if "f \<in> set (take (th_cur_size ht) (th_heap ht))" for f
    using that idle [of f] by (simp add: pending_def)
  have used: "used_ids ?I = used_ids ht" by (simp add: used_ids_def) (rule image_cong, simp_all add: in_heap)
  have same: "mem (th_heap ht ! i) = th_mem ht (th_heap ht ! i)" if "i < th_cur_size ht" for i
    by (rule in_heap [OF heap_mem_set [OF timer_invD(4) [OF inv] that]])
  have "idx_ok ?I (th_cur_size ht)"
    using timer_invD(4) [OF inv] same unfolding idx_ok_def by simp
  moreover have "heap_ord (heap_val ?I) (th_cur_size ht)"
    using timer_invD(5) [OF inv] same by (simp add: heap_ord_def heap_val_def HEAP_PARENT_def)
  ultimately show "timer_inv ?I" using inv unfolding timer_inv_def used by simp
  show "pending ?I = pending ht" by (rule ext) (simp add: pending_def in_heap)
qed

lemma entry_init_correct:
  assumes inv: "timer_inv ht" and e: "pending ht e = None"
  shows "timer_inv (pj_timer_entry_init ht e i u cb)"
    "pending (pj_timer_entry_init ht e i u cb) = pending ht"
    "entry_ok (pj_timer_entry_init ht e i u cb) e"
    "f \<noteq> e \<Longrightarrow> entry_ok (pj_timer_entry_init ht e i u cb) f \<longleftrightarrow> entry_ok ht f"
proof -
  let ?I = "pj_timer_entry_init ht e i u cb"
  show "timer_inv ?I" and p: "pending ?I = pending ht"
    unfolding pj_timer_entry_init_def by (rule idle_mem [OF inv]; use e in auto)+
  show "entry_ok ?I e" "f \<noteq> e \<Longrightarrow> entry_ok ?I f \<longleftrightarrow> entry_ok ht f"
    using e p by (simp_all add: entry_ok_def) (simp_all add: pj_timer_entry_init_def)
qed

lemma schedule_correct:
  assumes inv: "timer_inv ht" and e: "entry_ok ht e" and new: "pending ht e = None"
  shows "\<exists>ht'. pj_timer_heap_schedule junk now ht e d = Some (PJ_SUCCESS, ht') \<and> timer_inv ht' \<and>
           pending ht' = (pending ht)(e \<mapsto> tv_add now d) \<and> (\<forall>f. entry_ok ht f \<longrightarrow> entry_ok ht' f)"
proof -
  obtain ht' k where ht': "schedule_entry junk ht e (tv_add now d) = Some (PJ_SUCCESS, ht')"
    "timer_inv ht'" "pending ht' = (pending ht)(e \<mapsto> tv_add now d)"
    "th_mem ht' = (th_mem ht)(e := (th_mem ht e)\<lparr>te_timer_id := k, te_timer_value := tv_add now d\<rparr>)"
    using schedule_entry_correct [OF inv new] by blast
  moreover have "entry_ok ht' f" if "entry_ok ht f" for f
    using that pending_tid [OF ht'(2), of f] ht'(3,4) by (cases "f = e") (auto simp: entry_ok_def)
  ultimately show ?thesis using e new by (simp add: pj_timer_heap_schedule_def entry_ok_def)
qed

lemma schedule_pending:
  "entry_ok ht e \<Longrightarrow> pending ht e \<noteq> None \<Longrightarrow>
     pj_timer_heap_schedule junk now ht e d = Some (PJ_EINVALIDOP, ht)"
  by (auto simp: pj_timer_heap_schedule_def entry_ok_def)

end
