(* ===== verification/Pj_Timer_Service.thy ===== *)
theory Pj_Timer_Service
  imports Pj_Timer_Spec
begin

text \<open>
  The timer heap as its clients see it: cancelling, polling and asking for the earliest
  expiry, and the contract \<open>timer_service\<close> under which the rest of the library uses it.
\<close>

subsection \<open>Cancelling\<close>

lemma pending_slot:
  assumes "timer_inv ht" "pending ht e = Some t"
  obtains i where "i < th_cur_size ht" "th_heap ht ! i = e" "te_value ht e = t"
    "th_timer_ids ht ! nat (te_tid ht e) = int i" "1 \<le> te_tid ht e" "nat (te_tid ht e) < th_max_size ht"
proof -
  note idx = timer_invD(4) [OF assms(1)]
  have "e \<in> set (take (th_cur_size ht) (th_heap ht))" and t: "te_value ht e = t"
    using assms(2) by (auto simp: pending_def split: if_splits)
  then obtain i where i: "i < th_cur_size ht" "th_heap ht ! i = e" by (auto simp: in_set_conv_nth)
  show thesis
    by (rule that [OF i t]) (use idx_okD [OF idx i(1)] i(2) timer_invD(2) [OF assms(1)] in simp_all)
qed

lemma cancel_idle:
  assumes inv: "timer_inv ht" and e: "entry_ok ht e" and idle: "pending ht e = None"
  shows "cancel hook ht e dont_call = Some (0, ht)"
proof -
  have "te_tid ht e < 1" using e idle by (simp add: entry_ok_def)
  then consider "te_tid ht e < 0" | "te_tid ht e = 0" by linarith
  then show ?thesis
  proof cases
    case 2
    have "0 < length (th_timer_ids ht)" using timer_invD(2,3) [OF inv] by linarith
    with 2 timer_invD(6) [OF inv] show ?thesis by (simp add: cancel_def rd_int_def rd_Some)
  qed (simp add: cancel_def)
qed

lemma cancel_pending:
  assumes inv: "timer_inv ht" and e: "pending ht e = Some t"
  shows "\<exists>ht'. (\<forall>hook. cancel hook ht e 1 = Some (1, ht')) \<and> timer_inv ht' \<and>
           pending ht' = (pending ht)(e := None) \<and>
           th_mem ht' = (th_mem ht)(e := (th_mem ht e)\<lparr>te_timer_id := -1\<rparr>) \<and>
           th_max_entries_per_poll ht' = th_max_entries_per_poll ht"
proof -
  obtain i where i: "i < th_cur_size ht" "th_heap ht ! i = e"
    "th_timer_ids ht ! nat (te_tid ht e) = int i" "1 \<le> te_tid ht e" "nat (te_tid ht e) < th_max_size ht"
    using pending_slot [OF inv e] .
  have il: "i < length (th_heap ht)" using i(1) timer_invD(1,3) [OF inv] by simp
  obtain ht' where ht': "remove_node ht i = Some (e, ht')" "timer_inv ht'"
    "pending ht' = (pending ht)(e := None)"
    "th_mem ht' = (th_mem ht)(e := (th_mem ht e)\<lparr>te_timer_id := -1\<rparr>)"
    "th_max_entries_per_poll ht' = th_max_entries_per_poll ht"
    using remove_node_correct [OF inv i(1)] unfolding i(2) by blast
  have "rd_int (th_timer_ids ht) (te_tid ht e) = Some (int i)"
    using i(3-5) timer_invD(2) [OF inv] by (simp add: rd_int_def rd_Some)
  then have "cancel hook ht e 1 = Some (1, ht')" for hook
    using i(2,4,5) il ht'(1) by (simp add: cancel_def rd_int_def rd_Some)
  with ht' show ?thesis by blast
qed

lemma entry_ok_removed:
  assumes "pending ht' = (pending ht)(e := None)"
    "th_mem ht' = (th_mem ht)(e := (th_mem ht e)\<lparr>te_timer_id := -1\<rparr>)" "entry_ok ht f"
  shows "entry_ok ht' f"
  using assms by (auto simp: entry_ok_def)

lemma cancel_correct:
  assumes inv: "timer_inv ht" and e: "entry_ok ht e"
  shows "\<exists>ht'. pj_timer_heap_cancel hook ht e = Some (if pending ht e = None then 0 else 1, ht') \<and>
           timer_inv ht' \<and> pending ht' = (pending ht)(e := None) \<and> (\<forall>f. entry_ok ht f \<longrightarrow> entry_ok ht' f)"
proof (cases "pending ht e")
  case None
  then have "(pending ht)(e := None) = pending ht" by auto
  with cancel_idle [OF inv e None] inv None show ?thesis by (simp add: pj_timer_heap_cancel_def)
next
  case (Some t)
  with cancel_pending [OF inv Some] entry_ok_removed show ?thesis
    by (auto simp: pj_timer_heap_cancel_def)
qed

subsection \<open>The earliest expiry\<close>

lemma root_least:
  assumes inv: "timer_inv ht" and ne: "0 < th_cur_size ht"
  shows "0 < length (th_heap ht)" "pending ht (th_heap ht ! 0) = Some (heap_val ht 0)"
    "pending ht e = Some t \<Longrightarrow> heap_val ht 0 \<le> t"
proof -
  show "0 < length (th_heap ht)" using ne timer_invD(1,3) [OF inv] by simp
  show "pending ht (th_heap ht ! 0) = Some (heap_val ht 0)"
    using heap_mem_set [OF timer_invD(4) [OF inv] ne] by (simp add: pending_def heap_val_def)
  assume e: "pending ht e = Some t"
  obtain i where "i < th_cur_size ht" "th_heap ht ! i = e" "te_value ht e = t"
    using pending_slot [OF inv e] .
  with heap_ord_root [OF timer_invD(5) [OF inv]] show "heap_val ht 0 \<le> t" by (auto simp: heap_val_def)
qed

lemma pending_empty_iff:
  assumes inv: "timer_inv ht"
  shows "pending ht = Map.empty \<longleftrightarrow> th_cur_size ht = 0"
proof
  assume "pending ht = Map.empty"
  with root_least(2) [OF inv] show "th_cur_size ht = 0" by (cases "th_cur_size ht") auto
qed (simp add: pending_def fun_eq_iff)

subsection \<open>Polling\<close>

lemma poll_loop_stop:
  assumes inv: "timer_inv ht"
    and stop: "th_max_entries_per_poll ht \<le> n \<or> (\<forall>e t. pending ht e = Some t \<longrightarrow> now < t)"
  shows "poll_loop run now n ht w = Some (n, ht, w)"
proof (cases "th_cur_size ht = 0")
  case False
  then have ne: "0 < th_cur_size ht" by simp
  have "th_max_entries_per_poll ht \<le> n \<or> now < heap_val ht 0"
    using stop root_least(2) [OF inv ne] by blast
  then show ?thesis
    using ne root_least(1) [OF inv ne]
    by (subst poll_loop.simps) (auto simp: rd_Some heap_val_def)
qed (subst poll_loop.simps, simp)

lemma poll_loop_step:
  assumes inv: "timer_inv ht" and lim: "n < th_max_entries_per_poll ht"
    and due: "pending ht e0 = Some t0" "t0 \<le> now"
  shows "\<exists>e t ht1. pending ht e = Some t \<and> t \<le> now \<and> (\<forall>f u. pending ht f = Some u \<longrightarrow> t \<le> u) \<and>
           timer_inv ht1 \<and> pending ht1 = (pending ht)(e := None) \<and>
           th_mem ht1 = (th_mem ht)(e := (th_mem ht e)\<lparr>te_timer_id := -1\<rparr>) \<and>
           th_max_entries_per_poll ht1 = th_max_entries_per_poll ht \<and>
           poll_loop run now n ht w =
             (case (case te_cb (th_mem ht e) of None \<Rightarrow> Some (ht1, w) | Some f \<Rightarrow> run f e ht1 w) of
                None \<Rightarrow> None | Some (ht2, w') \<Rightarrow> poll_loop run now (n + 1) ht2 w')"
proof -
  have "pending ht \<noteq> Map.empty" using due(1) by auto
  then have ne: "0 < th_cur_size ht" using pending_empty_iff [OF inv] by simp
  note root = root_least [OF inv ne]
  let ?e = "th_heap ht ! 0"
  obtain ht1 where ht1: "remove_node ht 0 = Some (?e, ht1)" "timer_inv ht1"
    "pending ht1 = (pending ht)(?e := None)"
    "th_mem ht1 = (th_mem ht)(?e := (th_mem ht ?e)\<lparr>te_timer_id := -1\<rparr>)"
    "th_max_entries_per_poll ht1 = th_max_entries_per_poll ht"
    using remove_node_correct [OF inv ne] by blast
  have le: "heap_val ht 0 \<le> now" using root(3) [OF due(1)] due(2) by simp
  then have "poll_loop run now n ht w =
      (case (case te_cb (th_mem ht ?e) of None \<Rightarrow> Some (ht1, w) | Some f \<Rightarrow> run f ?e ht1 w) of
         None \<Rightarrow> None | Some (ht2, w') \<Rightarrow> poll_loop run now (n + 1) ht2 w')"
    using ne root(1) lim ht1(1) by (subst poll_loop.simps) (simp add: rd_Some heap_val_def ht1(4))
  with root le ht1 show ?thesis by (intro exI conjI) blast+
qed

text \<open>Callbacks that may do anything with the heap that its invariant survives (schedule and
  cancel entries, their own included), as long as they return.\<close>

definition cb_total :: "'w timer_cb \<Rightarrow> bool" where
  "cb_total run \<longleftrightarrow>
     (\<forall>f e ht w. timer_inv ht \<longrightarrow>
        (\<exists>ht' w'. run f e ht w = Some (ht', w') \<and> timer_inv ht' \<and>
           th_max_entries_per_poll ht' = th_max_entries_per_poll ht))"

lemma poll_loop_total:
  assumes "cb_total run" "timer_inv ht" "n \<le> th_max_entries_per_poll ht"
  shows "\<exists>n' ht' w'. poll_loop run now n ht w = Some (n', ht', w') \<and> timer_inv ht' \<and>
           n \<le> n' \<and> n' \<le> th_max_entries_per_poll ht \<and>
           (n' = th_max_entries_per_poll ht \<or> (\<forall>e t. pending ht' e = Some t \<longrightarrow> now < t))"
  using assms
proof (induction "th_max_entries_per_poll ht - n" arbitrary: n ht w)
  case 0
  then show ?case using poll_loop_stop [of ht n now run w] by auto
next
  case (Suc d)
  then have lim: "n < th_max_entries_per_poll ht" by simp
  show ?case
  proof (cases "\<forall>e t. pending ht e = Some t \<longrightarrow> now < t")
    case True
    then show ?thesis using poll_loop_stop [of ht n now run w] Suc.prems lim by auto
  next
    case False
    then obtain e0 t0 where "pending ht e0 = Some t0" "t0 \<le> now" by (auto simp: not_less)
    then obtain e ht1 where ht1: "timer_inv ht1" "th_max_entries_per_poll ht1 = th_max_entries_per_poll ht"
      and step: "poll_loop run now n ht w =
        (case (case te_cb (th_mem ht e) of None \<Rightarrow> Some (ht1, w) | Some f \<Rightarrow> run f e ht1 w) of
           None \<Rightarrow> None | Some (ht2, w') \<Rightarrow> poll_loop run now (n + 1) ht2 w')"
      using poll_loop_step [OF Suc.prems(2) lim, of e0 t0 now run w] by blast
    obtain ht2 w2 where cb: "(case te_cb (th_mem ht e) of None \<Rightarrow> Some (ht1, w) | Some f \<Rightarrow> run f e ht1 w)
        = Some (ht2, w2)" and ht2: "timer_inv ht2" "th_max_entries_per_poll ht2 = th_max_entries_per_poll ht"
      using Suc.prems(1) ht1 unfolding cb_total_def by (cases "te_cb (th_mem ht e)") (simp, metis option.simps(5))
    have d: "d = th_max_entries_per_poll ht2 - (n + 1)" "n + 1 \<le> th_max_entries_per_poll ht2"
      using Suc.hyps(2) lim ht2(2) by simp_all
    obtain n' ht' w' where "poll_loop run now (n + 1) ht2 w2 = Some (n', ht', w')" "timer_inv ht'"
      "n + 1 \<le> n'" "n' \<le> th_max_entries_per_poll ht2"
      "n' = th_max_entries_per_poll ht2 \<or> (\<forall>e t. pending ht' e = Some t \<longrightarrow> now < t)"
      using Suc.hyps(1) [OF d(1) Suc.prems(1) ht2(1) d(2), of w2] by blast
    then show ?thesis using step cb ht2(2) by (intro exI [of _ n'] exI [of _ ht'] exI [of _ w']) simp
  qed
qed

text \<open>Callbacks that leave the heap alone: \<open>g\<close> is what they do to the rest of the state. The
  entries that a poll fires are then determined by the heap.\<close>

definition run_cb :: "(nat \<Rightarrow> entry_ptr \<Rightarrow> 'w \<Rightarrow> 'w) \<Rightarrow> pj_timer_heap \<Rightarrow> entry_ptr \<Rightarrow> 'w \<Rightarrow> 'w" where
  "run_cb g ht e w = (case te_cb (th_mem ht e) of None \<Rightarrow> w | Some f \<Rightarrow> g f e w)"

definition quiet_cb :: "(nat \<Rightarrow> entry_ptr \<Rightarrow> 'w \<Rightarrow> 'w) \<Rightarrow> 'w timer_cb" where
  "quiet_cb g f e ht w = Some (ht, g f e w)"

text \<open>\<open>fired ht now es\<close>: the entries \<open>es\<close> were due, are listed by their expiry time, and expire
  no later than any entry that is not in the list.\<close>

definition fired :: "pj_timer_heap \<Rightarrow> pj_time_val \<Rightarrow> entry_ptr list \<Rightarrow> bool" where
  "fired ht now es \<longleftrightarrow> distinct es \<and> sorted (map (te_value ht) es) \<and>
     (\<forall>e \<in> set es. pending ht e = Some (te_value ht e) \<and> te_value ht e \<le> now) \<and>
     (\<forall>e \<in> set es. \<forall>f t. pending ht f = Some t \<longrightarrow> f \<notin> set es \<longrightarrow> te_value ht e \<le> t)"

lemma fired_Cons:
  assumes e: "pending ht e = Some t" "t \<le> now" "\<forall>f u. pending ht f = Some u \<longrightarrow> t \<le> u"
    and ht1: "pending ht1 = (pending ht)(e := None)"
      "th_mem ht1 = (th_mem ht)(e := (th_mem ht e)\<lparr>te_timer_id := -1\<rparr>)"
    and es: "fired ht1 now es"
  shows "fired ht now (e # es)"
proof -
  have v: "te_value ht1 f = te_value ht f" for f using ht1(2) by simp
  have p: "pending ht f = Some (te_value ht f) \<and> te_value ht f \<le> now \<and> f \<noteq> e" if "f \<in> set es" for f
    using es that ht1(1) unfolding fired_def v by (metis fun_upd_apply option.distinct(1))
  have t: "te_value ht e = t" using e(1) by (auto simp: pending_def split: if_splits)
  have "sorted (map (te_value ht) (e # es))"
    using es e(3) p unfolding fired_def v by (auto simp: t)
  moreover have "te_value ht f \<le> u" if "f \<in> set (e # es)" "pending ht h = Some u" "h \<notin> set (e # es)" for f h u
  proof (cases "f = e")
    case True
    then show ?thesis using e(3) that(2) t by auto
  next
    case False
    then have "f \<in> set es" "h \<notin> set es" "pending ht1 h = Some u" using that ht1(1) by auto
    then show ?thesis using es unfolding fired_def v by blast
  qed
  ultimately show ?thesis using es p e(1,2) unfolding fired_def by (auto simp: t)
qed

lemma run_cb_removed:
  "th_mem ht1 = (th_mem ht)(e := (th_mem ht e)\<lparr>te_timer_id := -1\<rparr>) \<Longrightarrow> run_cb g ht1 = run_cb g ht"
  by (rule ext)+ (simp add: run_cb_def)

lemma poll_loop_quiet:
  assumes "timer_inv ht" "n \<le> th_max_entries_per_poll ht"
  shows "\<exists>es ht'. poll_loop (quiet_cb g) now n ht w = Some (n + length es, ht', fold (run_cb g ht) es w) \<and>
           timer_inv ht' \<and> fired ht now es \<and> n + length es \<le> th_max_entries_per_poll ht \<and>
           pending ht' = (\<lambda>e. if e \<in> set es then None else pending ht e) \<and>
           (n + length es = th_max_entries_per_poll ht \<or> (\<forall>e t. pending ht' e = Some t \<longrightarrow> now < t))"
  using assms
proof (induction "th_max_entries_per_poll ht - n" arbitrary: n ht w)
  case 0
  then show ?case using poll_loop_stop [of ht n now "quiet_cb g" w]
    by (intro exI [of _ "[]"] exI [of _ ht]) (auto simp: fired_def)
next
  case (Suc d)
  then have lim: "n < th_max_entries_per_poll ht" by simp
  show ?case
  proof (cases "\<forall>e t. pending ht e = Some t \<longrightarrow> now < t")
    case True
    then show ?thesis using poll_loop_stop [of ht n now "quiet_cb g" w] Suc.prems lim
      by (intro exI [of _ "[]"] exI [of _ ht]) (auto simp: fired_def)
  next
    case False
    then obtain e0 t0 where "pending ht e0 = Some t0" "t0 \<le> now" by (auto simp: not_less)
    then obtain e t ht1 where e: "pending ht e = Some t" "t \<le> now" "\<forall>f u. pending ht f = Some u \<longrightarrow> t \<le> u"
      and ht1: "timer_inv ht1" "pending ht1 = (pending ht)(e := None)"
        "th_mem ht1 = (th_mem ht)(e := (th_mem ht e)\<lparr>te_timer_id := -1\<rparr>)"
        "th_max_entries_per_poll ht1 = th_max_entries_per_poll ht"
      and step: "poll_loop (quiet_cb g) now n ht w =
        (case (case te_cb (th_mem ht e) of None \<Rightarrow> Some (ht1, w) | Some f \<Rightarrow> quiet_cb g f e ht1 w) of
           None \<Rightarrow> None | Some (ht2, w') \<Rightarrow> poll_loop (quiet_cb g) now (n + 1) ht2 w')"
      using poll_loop_step [OF Suc.prems(1) lim, of e0 t0 now "quiet_cb g" w] by blast
    have step': "poll_loop (quiet_cb g) now n ht w = poll_loop (quiet_cb g) now (n + 1) ht1 (run_cb g ht e w)"
      unfolding step by (simp add: quiet_cb_def run_cb_def split: option.split)
    have d: "d = th_max_entries_per_poll ht1 - (n + 1)" "n + 1 \<le> th_max_entries_per_poll ht1"
      using Suc.hyps(2) lim ht1(4) by simp_all
    obtain es ht' where es: "poll_loop (quiet_cb g) now (n + 1) ht1 (run_cb g ht e w) =
          Some (n + 1 + length es, ht', fold (run_cb g ht1) es (run_cb g ht e w))"
        "timer_inv ht'" "fired ht1 now es" "n + 1 + length es \<le> th_max_entries_per_poll ht1"
        "pending ht' = (\<lambda>e. if e \<in> set es then None else pending ht1 e)"
        "n + 1 + length es = th_max_entries_per_poll ht1 \<or> (\<forall>e t. pending ht' e = Some t \<longrightarrow> now < t)"
      using Suc.hyps(1) [OF d(1) ht1(1) d(2), of "run_cb g ht e w"] by blast
    have "pending ht' = (\<lambda>f. if f \<in> set (e # es) then None else pending ht f)"
      unfolding es(5) ht1(2) by (rule ext) simp
    with es ht1(4) fired_Cons [OF e ht1(2,3) es(3)] step' show ?thesis
      by (intro exI [of _ "e # es"] exI [of _ ht']) (simp add: run_cb_removed [OF ht1(3)])
  qed
qed

lemma poll_empty:
  "timer_inv ht \<Longrightarrow> th_cur_size ht = 0 \<Longrightarrow> poll_loop run now 0 ht w = Some (0, ht, w)"
  by (subst poll_loop.simps) simp

text \<open>With \<open>want\<close> the empty heap returns before the loop, with the result that the loop gives.\<close>

lemma poll_unfold:
  assumes inv: "timer_inv ht"
  shows "pj_timer_heap_poll run now want ht w =
    (case poll_loop run now 0 ht w of
       None \<Rightarrow> None
     | Some (n, ht', w') \<Rightarrow>
         map_option (\<lambda>d. (n, d, ht', w'))
           (if want then map_option Some (poll_next_delay now ht') else Some None))"
proof (cases "th_cur_size ht = 0 \<and> want")
  case True
  then show ?thesis using poll_empty [OF inv, of run now w]
    by (simp add: pj_timer_heap_poll_def poll_next_delay_def)
next
  case False
  then show ?thesis
    by (auto simp: pj_timer_heap_poll_def map_conv_bind_option comp_def split: option.split)
qed

lemma poll_next_delay_correct:
  assumes inv: "timer_inv ht"
  shows "th_cur_size ht = 0 \<Longrightarrow> poll_next_delay now ht = Some (TimeVal PJ_MAXINT32 PJ_MAXINT32)"
    and "th_cur_size ht \<noteq> 0 \<Longrightarrow>
      \<exists>d. poll_next_delay now ht = Some d \<and> tv_normal d \<and>
          tv_ms d = max 0 (tv_ms (heap_val ht 0) - tv_ms now)"
proof -
  assume "th_cur_size ht \<noteq> 0"
  then have h: "0 < length (th_heap ht)" using root_least(1) [OF inv] by simp
  let ?d = "tv_sub (heap_val ht 0) now"
  have n: "tv_normal ?d" "tv_ms ?d = tv_ms (heap_val ht 0) - tv_ms now"
    by (rule tv_sub_normal, rule tv_sub_ms)
  have neg: "tv_sec ?d < 0 \<or> tv_msec ?d < 0 \<longleftrightarrow> tv_ms ?d < 0"
    using n(1) unfolding tv_normal_def tv_ms_def by linarith
  show "\<exists>d. poll_next_delay now ht = Some d \<and> tv_normal d \<and>
          tv_ms d = max 0 (tv_ms (heap_val ht 0) - tv_ms now)"
    using n h neg \<open>th_cur_size ht \<noteq> 0\<close>
    by (auto simp: poll_next_delay_def rd_Some heap_val_def tv_normal_def tv_ms_def max_def Let_def)
qed (simp add: poll_next_delay_def)

lemma poll_next_delay_total: "timer_inv ht \<Longrightarrow> \<exists>d. poll_next_delay now ht = Some d"
  using poll_next_delay_correct by blast

subsection \<open>The contract of a timer service\<close>

text \<open>What the layers above use: they start and stop timers. A command is issued at the time
  that the clock shows then.\<close>

datatype ('e, 'd) timer_cmd = Start_timer 'e 'd | Stop_timer 'e

fun cmd_entry :: "('e, 'd) timer_cmd \<Rightarrow> 'e" where
  "cmd_entry (Start_timer e d) = e"
| "cmd_entry (Stop_timer e) = e"

fun run_cmds ::
  "('n \<Rightarrow> 's \<Rightarrow> 'e \<Rightarrow> 'd \<Rightarrow> ('r \<times> 's) option) \<Rightarrow> ('s \<Rightarrow> 'e \<Rightarrow> ('q \<times> 's) option) \<Rightarrow>
   ('n \<times> ('e, 'd) timer_cmd) list \<Rightarrow> 's \<Rightarrow> 's option" where
  "run_cmds sched canc [] s = Some s"
| "run_cmds sched canc ((now, Start_timer e d) # cs) s =
     do { (_, s') \<leftarrow> sched now s e d; run_cmds sched canc cs s' }"
| "run_cmds sched canc ((now, Stop_timer e) # cs) s =
     do { (_, s') \<leftarrow> canc s e; run_cmds sched canc cs s' }"

text \<open>The same commands on the map from running timers to expiry times: starting a timer that
  already runs has no effect.\<close>

fun spec_cmd :: "('n \<Rightarrow> 'd \<Rightarrow> 't) \<Rightarrow> ('n \<times> ('e, 'd) timer_cmd) \<Rightarrow> ('e \<rightharpoonup> 't) \<Rightarrow> ('e \<rightharpoonup> 't)" where
  "spec_cmd due (now, Start_timer e d) m = (if m e = None then m(e \<mapsto> due now d) else m)"
| "spec_cmd due (now, Stop_timer e) m = m(e := None)"

definition spec_cmds :: "('n \<Rightarrow> 'd \<Rightarrow> 't) \<Rightarrow> ('n \<times> ('e, 'd) timer_cmd) list \<Rightarrow> ('e \<rightharpoonup> 't) \<Rightarrow> ('e \<rightharpoonup> 't)" where
  "spec_cmds due cs m = fold (spec_cmd due) cs m"

locale timer_service =
  fixes inv :: "'s \<Rightarrow> bool" and known :: "'s \<Rightarrow> 'e \<Rightarrow> bool" and running :: "'s \<Rightarrow> 'e \<rightharpoonup> 't"
    and due :: "'n \<Rightarrow> 'd \<Rightarrow> 't"
    and sched :: "'n \<Rightarrow> 's \<Rightarrow> 'e \<Rightarrow> 'd \<Rightarrow> ('r \<times> 's) option" and canc :: "'s \<Rightarrow> 'e \<Rightarrow> ('q \<times> 's) option"
  assumes sched_idle: "inv s \<Longrightarrow> known s e \<Longrightarrow> running s e = None \<Longrightarrow>
      \<exists>r s'. sched now s e d = Some (r, s') \<and> inv s' \<and> running s' = (running s)(e \<mapsto> due now d) \<and>
             (\<forall>f. known s f \<longrightarrow> known s' f)"
    and sched_busy: "inv s \<Longrightarrow> known s e \<Longrightarrow> running s e \<noteq> None \<Longrightarrow> \<exists>r. sched now s e d = Some (r, s)"
    and canc_any: "inv s \<Longrightarrow> known s e \<Longrightarrow>
      \<exists>q s'. canc s e = Some (q, s') \<and> inv s' \<and> running s' = (running s)(e := None) \<and>
             (\<forall>f. known s f \<longrightarrow> known s' f)"
begin

lemma cmd_refines:
  assumes "inv s" "known s (cmd_entry (snd c))"
  shows "\<exists>s'. run_cmds sched canc (c # cs) s = run_cmds sched canc cs s' \<and> inv s' \<and>
           running s' = spec_cmd due c (running s) \<and> (\<forall>f. known s f \<longrightarrow> known s' f)"
proof (cases c)
  case (Pair now k)
  show ?thesis
  proof (cases k)
    case (Stop_timer e)
    with assms Pair canc_any [of s e] show ?thesis by auto
  next
    case (Start_timer e d)
    show ?thesis
    proof (cases "running s e")
      case None
      with assms Pair Start_timer sched_idle [of s e now d] show ?thesis by auto
    next
      case (Some t)
      with assms Pair Start_timer sched_busy [of s e now d] show ?thesis by auto
    qed
  qed
qed

lemma run_refines:
  assumes "inv s" "\<forall>c \<in> set cs. known s (cmd_entry (snd c))"
  shows "\<exists>s'. run_cmds sched canc cs s = Some s' \<and> inv s' \<and>
           running s' = spec_cmds due cs (running s) \<and> (\<forall>f. known s f \<longrightarrow> known s' f)"
  using assms
proof (induction cs arbitrary: s)
  case (Cons c cs)
  obtain s1 where s1: "run_cmds sched canc (c # cs) s = run_cmds sched canc cs s1" "inv s1"
    "running s1 = spec_cmd due c (running s)" "\<forall>f. known s f \<longrightarrow> known s1 f"
    using cmd_refines [of s c cs] Cons.prems by auto
  then have "\<forall>c \<in> set cs. known s1 (cmd_entry (snd c))" using Cons.prems(2) by simp
  from Cons.IH [OF s1(2) this] s1 show ?case by (auto simp: spec_cmds_def)
qed (simp add: spec_cmds_def)

end

interpretation heap_timers: timer_service timer_inv entry_ok pending tv_add
    "pj_timer_heap_schedule junk" "pj_timer_heap_cancel hook" for junk hook
proof
  fix s e and now d :: pj_time_val
  assume "timer_inv s" "entry_ok s e"
  then show "pending s e = None \<Longrightarrow>
      \<exists>r s'. pj_timer_heap_schedule junk now s e d = Some (r, s') \<and> timer_inv s' \<and>
        pending s' = (pending s)(e \<mapsto> tv_add now d) \<and> (\<forall>f. entry_ok s f \<longrightarrow> entry_ok s' f)"
    and "pending s e \<noteq> None \<Longrightarrow> \<exists>r. pj_timer_heap_schedule junk now s e d = Some (r, s)"
    and "\<exists>q s'. pj_timer_heap_cancel hook s e = Some (q, s') \<and> timer_inv s' \<and>
        pending s' = (pending s)(e := None) \<and> (\<forall>f. entry_ok s f \<longrightarrow> entry_ok s' f)"
    using schedule_correct [of s e junk now d] schedule_pending [of s e junk now d]
      cancel_correct [of s e hook] by blast+
qed

subsection \<open>Properties\<close>

text \<open>The entries that an owner initialises, each with its id, user data and callback.\<close>

fun init_entries :: "(entry_ptr \<times> int \<times> nat \<times> nat) list \<Rightarrow> pj_timer_heap \<Rightarrow> pj_timer_heap" where
  "init_entries [] ht = ht"
| "init_entries ((e, i, u, cb) # es) ht = init_entries es (pj_timer_entry_init ht e i u cb)"

lemma init_entries_correct:
  "timer_inv ht \<Longrightarrow> pending ht = Map.empty \<Longrightarrow>
     timer_inv (init_entries es ht) \<and> pending (init_entries es ht) = Map.empty \<and>
     (\<forall>e. entry_ok ht e \<or> e \<in> fst ` set es \<longrightarrow> entry_ok (init_entries es ht) e)"
proof (induction es ht rule: init_entries.induct)
  case (2 e i u cb es ht)
  then have idle: "pending ht e = None" by simp
  note I = entry_init_correct [OF "2.prems"(1) idle, where i = i and u = u and cb = cb]
  have "timer_inv (init_entries es (pj_timer_entry_init ht e i u cb)) \<and>
      pending (init_entries es (pj_timer_entry_init ht e i u cb)) = Map.empty \<and>
      (\<forall>f. entry_ok (pj_timer_entry_init ht e i u cb) f \<or> f \<in> fst ` set es \<longrightarrow>
           entry_ok (init_entries es (pj_timer_entry_init ht e i u cb)) f)"
    by (rule "2.IH") (use I(1,2) "2.prems"(2) in simp_all)
  moreover have "entry_ok (pj_timer_entry_init ht e i u cb) f" if "entry_ok ht f \<or> f = e" for f
    using I(3,4) that by (cases "f = e") auto
  ultimately show ?case by auto
qed simp

text \<open>
  C1: The timer heap refines a map from entries to expiry times. After
  \<open>pj_timer_heap_create\<close> and \<open>pj_timer_entry_init\<close> of some entries, any sequence of
  \<open>pj_timer_heap_schedule\<close> and \<open>pj_timer_heap_cancel\<close> calls on these entries runs without an
  out-of-range access to the heap array, the id array or the free list, keeps the invariant of
  the heap, and the pending entries with their times are those of the abstract map: a schedule
  of an idle entry adds it at now + delay, a schedule of a pending one is rejected without
  effect, a cancel removes the entry.
\<close>

theorem timer_heap_refines_map:
  assumes "pj_timer_heap_create alloc junk mem sz = Inr ht"
    and "\<forall>c \<in> set cs. cmd_entry (snd c) \<in> fst ` set es"
  shows "\<exists>ht'. run_cmds (pj_timer_heap_schedule junk') (pj_timer_heap_cancel hook) cs (init_entries es ht)
                 = Some ht' \<and>
               timer_inv ht' \<and> pending ht' = spec_cmds tv_add cs Map.empty"
proof -
  have I: "timer_inv (init_entries es ht)" "pending (init_entries es ht) = Map.empty"
    "\<forall>c \<in> set cs. entry_ok (init_entries es ht) (cmd_entry (snd c))"
    using init_entries_correct [OF create_correct(1,2) [OF assms(1)], of es] assms(2) by blast+
  from heap_timers.run_refines [OF I(1,3), of junk' hook] I(2) show ?thesis by auto
qed

theorem timer_heap_refines_map_witness:
  "\<exists>ht ht'. pj_timer_heap_create (\<lambda>_. True) (\<lambda>_. 0) (\<lambda>_. undefined) 0 = Inr ht \<and>
     run_cmds (pj_timer_heap_schedule (\<lambda>_. 0)) (pj_timer_heap_cancel (\<lambda>_ _. None))
       [(TimeVal 10 600, Start_timer 7 (TimeVal 1 500)), (TimeVal 10 700, Start_timer 8 (TimeVal 0 0)),
        (TimeVal 11 0, Start_timer 7 (TimeVal 9 0)), (TimeVal 12 0, Stop_timer 8)]
       (init_entries [(7, 1, 0, 5), (8, 2, 0, 5)] ht) = Some ht' \<and>
     pending ht' = [7 \<mapsto> TimeVal 12 100]"
proof -
  obtain ht where ht: "pj_timer_heap_create (\<lambda>_. True) (\<lambda>_. 0) (\<lambda>_. undefined) 0 = Inr ht"
    by (simp add: pj_timer_heap_create_def)
  have "spec_cmds tv_add
      [(TimeVal 10 600, Start_timer 7 (TimeVal 1 500)), (TimeVal 10 700, Start_timer 8 (TimeVal 0 0)),
       (TimeVal 11 0, Start_timer (7 :: nat) (TimeVal 9 0)), (TimeVal 12 0, Stop_timer 8)] Map.empty
      = [7 \<mapsto> TimeVal 12 100]"
    by (simp add: spec_cmds_def tv_add_def pj_time_val_normalize_def cdiv_def cmod_def fun_eq_iff)
  with timer_heap_refines_map [OF ht, of
      "[(TimeVal 10 600, Start_timer 7 (TimeVal 1 500)), (TimeVal 10 700, Start_timer 8 (TimeVal 0 0)),
       (TimeVal 11 0, Start_timer 7 (TimeVal 9 0)), (TimeVal 12 0, Stop_timer 8)]"
      "[(7, 1, 0, 5), (8, 2, 0, 5)]" "\<lambda>_. 0" "\<lambda>_ _. None"] ht
  show ?thesis by auto
qed

text \<open>A heap with two pending entries, for the examples below.\<close>

lemma example_heap:
  "\<exists>ht0 ht. pj_timer_heap_create (\<lambda>_. True) (\<lambda>_. 0) (\<lambda>_. undefined) 0 = Inr ht0 \<and>
     run_cmds (pj_timer_heap_schedule (\<lambda>_. 0)) (pj_timer_heap_cancel (\<lambda>_ _. None))
       [(TimeVal 10 600, Start_timer 7 (TimeVal 1 500)), (TimeVal 10 700, Start_timer 8 (TimeVal 0 0))]
       (init_entries [(7, 1, 0, 5), (8, 2, 0, 5)] ht0) = Some ht \<and>
     timer_inv ht \<and> pending ht = [7 \<mapsto> TimeVal 12 100, 8 \<mapsto> TimeVal 10 700] \<and>
     entry_ok ht 7 \<and> entry_ok ht 8"
proof -
  let ?es = "[(7, 1, 0, 5), (8, 2, 0, 5)] :: (entry_ptr \<times> int \<times> nat \<times> nat) list"
  let ?cs = "[(TimeVal 10 600, Start_timer 7 (TimeVal 1 500)), (TimeVal 10 700, Start_timer 8 (TimeVal 0 0))]
             :: (pj_time_val \<times> (entry_ptr, pj_time_val) timer_cmd) list"
  obtain ht where ht: "pj_timer_heap_create (\<lambda>_. True) (\<lambda>_. 0) (\<lambda>_. undefined) 0 = Inr ht"
    by (simp add: pj_timer_heap_create_def)
  note I = init_entries_correct [OF create_correct(1,2) [OF ht], of ?es]
  have "spec_cmds tv_add ?cs Map.empty = [7 \<mapsto> TimeVal 12 100, 8 \<mapsto> TimeVal 10 700]"
    by (simp add: spec_cmds_def tv_add_def pj_time_val_normalize_def cdiv_def cmod_def fun_eq_iff)
  with heap_timers.run_refines [of "init_entries ?es ht" ?cs "\<lambda>_. 0" "\<lambda>_ _. None"] I ht
  show ?thesis by auto
qed

text \<open>
  C11: A poll fires the due entries in the order of their expiry. With callbacks that leave the
  heap alone, \<open>pj_timer_heap_poll\<close> returns the number of entries fired, no more than
  \<open>max_entries_per_poll\<close>; these entries were due, are fired by nondecreasing expiry time and
  before any entry that stays pending; exactly they leave the heap; and unless the limit was
  reached, no entry that is due is left.
\<close>

theorem poll_fires_due_in_order:
  assumes "timer_inv ht"
  shows "\<exists>es d ht'. pj_timer_heap_poll (quiet_cb g) now want ht w =
             Some (length es, d, ht', fold (run_cb g ht) es w) \<and>
           timer_inv ht' \<and> fired ht now es \<and> length es \<le> th_max_entries_per_poll ht \<and>
           pending ht' = (\<lambda>e. if e \<in> set es then None else pending ht e) \<and>
           (length es = th_max_entries_per_poll ht \<or> (\<forall>e t. pending ht' e = Some t \<longrightarrow> now < t))"
proof -
  obtain es ht' where es: "poll_loop (quiet_cb g) now 0 ht w = Some (length es, ht', fold (run_cb g ht) es w)"
    "timer_inv ht'" "fired ht now es" "length es \<le> th_max_entries_per_poll ht"
    "pending ht' = (\<lambda>e. if e \<in> set es then None else pending ht e)"
    "length es = th_max_entries_per_poll ht \<or> (\<forall>e t. pending ht' e = Some t \<longrightarrow> now < t)"
    using poll_loop_quiet [OF assms, of 0 g now w] by auto
  obtain d where "poll_next_delay now ht' = Some d" using poll_next_delay_total [OF es(2)] ..
  then have "pj_timer_heap_poll (quiet_cb g) now want ht w =
      Some (length es, if want then Some d else None, ht', fold (run_cb g ht) es w)"
    by (simp add: poll_unfold [OF assms] es(1))
  with es(2-) show ?thesis by blast
qed



theorem poll_fires_due_in_order_witness:
  "\<exists>ht es d ht'. pending ht = [7 \<mapsto> TimeVal 12 100, 8 \<mapsto> TimeVal 10 700] \<and> timer_inv ht \<and>
     pj_timer_heap_poll (quiet_cb (\<lambda>f e w. w @ [e])) (TimeVal 11 0) True ht [] =
       Some (length es, d, ht', fold (run_cb (\<lambda>f e w. w @ [e]) ht) es []) \<and> fired ht (TimeVal 11 0) es"
  using example_heap poll_fires_due_in_order [of _ "\<lambda>f e w. w @ [e]" "TimeVal 11 0" True "[]"] by blast

text \<open>
  \<open>pj_timer_heap_cancel\<close> returns 1 exactly for a pending entry and then removes that entry
  and no other; it returns 0 and changes nothing otherwise.
\<close>

theorem cancel_exact:
  assumes "timer_inv ht" "entry_ok ht e"
  shows "\<exists>ht'. pj_timer_heap_cancel hook ht e = Some (if pending ht e = None then 0 else 1, ht') \<and>
           timer_inv ht' \<and> pending ht' = (pending ht)(e := None) \<and>
           (pending ht e = None \<longrightarrow> ht' = ht)"
proof (cases "pending ht e")
  case None
  then have "(pending ht)(e := None) = pending ht" by auto
  with cancel_idle [OF assms None] assms(1) None show ?thesis by (simp add: pj_timer_heap_cancel_def)
next
  case (Some t)
  with cancel_correct [OF assms, of hook] show ?thesis by auto
qed

theorem cancel_exact_witness:
  "\<exists>ht ht'. pending ht = [7 \<mapsto> TimeVal 12 100, 8 \<mapsto> TimeVal 10 700] \<and>
     pj_timer_heap_cancel (\<lambda>_ _. None) ht 8 = Some (1, ht') \<and> pending ht' = [7 \<mapsto> TimeVal 12 100]"
proof -
  obtain ht where ht: "timer_inv ht" "pending ht = [7 \<mapsto> TimeVal 12 100, 8 \<mapsto> TimeVal 10 700]" "entry_ok ht 8"
    using example_heap by blast
  have "[7 :: nat \<mapsto> TimeVal 12 100, 8 \<mapsto> TimeVal 10 700](8 := None) = [7 \<mapsto> TimeVal 12 100]"
    by (simp add: fun_eq_iff)
  with cancel_exact [OF ht(1,3), of "\<lambda>_ _. None"] ht(2) show ?thesis by auto
qed

text \<open>
  \<open>pj_timer_heap_earliest_time\<close> returns the least expiry time of the pending entries, and
  \<open>PJ_ENOTFOUND\<close> exactly when there is none; and the delay that a poll reports for the next
  expiry is, in milliseconds, the time from now to that expiry, or 0 if it has passed.
\<close>

theorem earliest_time_is_least:
  assumes "timer_inv ht"
  shows "case pj_timer_heap_earliest_time ht of
           None \<Rightarrow> False
         | Some (Inl st) \<Rightarrow> st = PJ_ENOTFOUND \<and> pending ht = Map.empty
         | Some (Inr t) \<Rightarrow> (\<exists>e. pending ht e = Some t) \<and> (\<forall>e u. pending ht e = Some u \<longrightarrow> t \<le> u) \<and>
             (\<exists>d. poll_next_delay now ht = Some d \<and> tv_normal d \<and> tv_ms d = max 0 (tv_ms t - tv_ms now))"
proof (cases "th_cur_size ht = 0")
  case True
  then show ?thesis using pending_empty_iff [OF assms] by (simp add: pj_timer_heap_earliest_time_def)
next
  case False
  then have ne: "0 < th_cur_size ht" by simp
  have "pj_timer_heap_earliest_time ht = Some (Inr (heap_val ht 0))"
    using False root_least(1) [OF assms ne] by (simp add: pj_timer_heap_earliest_time_def rd_Some heap_val_def)
  with root_least(2,3) [OF assms ne] poll_next_delay_correct(2) [OF assms False, of now]
  show ?thesis by auto
qed

theorem earliest_time_is_least_witness:
  "\<exists>ht. pending ht = [7 \<mapsto> TimeVal 12 100, 8 \<mapsto> TimeVal 10 700] \<and>
     (case pj_timer_heap_earliest_time ht of Some (Inr t) \<Rightarrow> t \<le> TimeVal 10 700 | _ \<Rightarrow> False)"
proof -
  obtain ht where ht: "timer_inv ht" "pending ht = [7 \<mapsto> TimeVal 12 100, 8 \<mapsto> TimeVal 10 700]"
    using example_heap by blast
  have p: "pending ht 8 = Some (TimeVal 10 700)" using ht(2) by simp
  then have "pending ht \<noteq> Map.empty" by auto
  then have "case pj_timer_heap_earliest_time ht of Some (Inr t) \<Rightarrow> t \<le> TimeVal 10 700 | _ \<Rightarrow> False"
    using earliest_time_is_least [OF ht(1), of "TimeVal 0 0"] p by (auto split: option.splits sum.splits)
  with ht(2) show ?thesis by blast
qed

text \<open>
  The time arithmetic is exact. \<open>PJ_TIME_VAL_ADD\<close> and \<open>PJ_TIME_VAL_SUB\<close>, which normalize
  their result, add and subtract durations in milliseconds, leave a normal form (less than a
  second of milliseconds, no mixed signs), and on normal forms the comparison macros, which
  compare seconds before milliseconds, compare durations.
\<close>

theorem time_arithmetic_exact:
  "tv_ms (tv_add a b) = tv_ms a + tv_ms b \<and> tv_ms (tv_sub a b) = tv_ms a - tv_ms b \<and>
   tv_normal (tv_add a b) \<and> tv_normal (tv_sub a b) \<and>
   (tv_lt (tv_add a b) (tv_add c d) \<longleftrightarrow> tv_ms a + tv_ms b < tv_ms c + tv_ms d)"
  using tv_normal_less_iff [OF tv_add_normal tv_add_normal, of a b c d]
  by (simp_all add: tv_add_ms tv_sub_ms tv_add_normal tv_sub_normal)

text \<open>The guard of \<open>cancel\<close> lets an id equal to \<open>max_size\<close> through, one past the end of the id
  array.\<close>

lemma cancel_guard_off_by_one:
  "te_tid ht e = int (th_max_size ht) \<Longrightarrow> length (th_timer_ids ht) = th_max_size ht \<Longrightarrow>
     cancel hook ht e dont_call = None"
  by (simp add: cancel_def rd_int_def rd_def)

end
