(* ===== verification/Pj_Math.thy ===== *)
theory Pj_Math
  imports Pj_Prelude
begin

text \<open>
  Integer statistics and square root (\<^verbatim>\<open>pjlib/include/pj/math.h\<close>), in the variant for builds
  without floating point (\<open>PJ_HAS_FLOATING_POINT\<close> is 0), where all of it is integer
  arithmetic.
\<close>

record pj_math_stat =
  st_n :: int
  st_max :: int
  st_min :: int
  st_last :: int
  st_mean :: int
  st_mean_res :: int
  st_m2 :: int

definition pj_math_stat_init :: pj_math_stat where
  "pj_math_stat_init = \<lparr>st_n = 0, st_max = 0, st_min = 0, st_last = 0, st_mean = 0,
                        st_mean_res = 0, st_m2 = 0\<rparr>"

definition pj_math_stat_update :: "pj_math_stat \<Rightarrow> int \<Rightarrow> pj_math_stat" where
  "pj_math_stat_update st val =
     (let n = st_n st + 1;
          mn = (if st_n st \<noteq> 0 then (if st_min st > val then val else st_min st) else val);
          mx = (if st_n st \<noteq> 0 then (if st_max st < val then val else st_max st) else val);
          delta = val - st_mean st;
          mean = st_mean st + cdiv delta n;
          res = st_mean_res st + cmod delta n;
          (mean', res') = (if res \<ge> n then (mean + 1, res - n)
                           else if res \<le> - n then (mean - 1, res + n)
                           else (mean, res))
      in \<lparr>st_n = n, st_max = mx, st_min = mn, st_last = val, st_mean = mean',
          st_mean_res = res', st_m2 = st_m2 st + delta * (val - mean')\<rparr>)"

text \<open>The first loop of \<open>pj_isqrt\<close>: one doubling of the guess per pair of bits.\<close>

function isqrt_guess :: "nat \<Rightarrow> nat \<Rightarrow> nat" where
  "isqrt_guess prev res = (if prev = 0 then res else isqrt_guess (prev div 4) (res * 2))"
  by pat_completeness auto
termination by (relation "measure fst") auto

declare isqrt_guess.simps [simp del]

text \<open>The second loop. It is entered with the old value in \<open>prev\<close> and, as written, may not
  end; that it does is lemma \<open>isqrt_loop_returns\<close>.\<close>

partial_function (option) isqrt_loop :: "nat \<Rightarrow> nat \<Rightarrow> nat option" where
  "isqrt_loop i prev =
     (if prev = 0 then None
      else let res = (prev + i div prev) div 2
           in if (prev + res) div 2 \<noteq> res then isqrt_loop i res else Some res)"

definition pj_isqrt :: "nat \<Rightarrow> nat option" where
  "pj_isqrt i = isqrt_loop i (isqrt_guess (i div 4) 1)"

definition pj_math_stat_get_stddev :: "pj_math_stat \<Rightarrow> nat option" where
  "pj_math_stat_get_stddev st =
     (if st_n st = 0 then Some 0 else pj_isqrt (wrap32 (cdiv (st_m2 st) (st_n st))))"

definition pj_math_stat_set_stddev :: "pj_math_stat \<Rightarrow> nat \<Rightarrow> pj_math_stat" where
  "pj_math_stat_set_stddev st dev =
     (let n = (if st_n st = 0 then 1 else st_n st)
      in st\<lparr>st_n := n, st_m2 := int (wrap32 (int dev * int dev * n))\<rparr>)"

subsection \<open>The running mean\<close>

text \<open>What the state says about the samples \<open>vs\<close> seen so far: the residue makes the integer
  mean exact.\<close>

definition stat_of :: "int list \<Rightarrow> pj_math_stat \<Rightarrow> bool" where
  "stat_of vs st \<longleftrightarrow>
     st_n st = int (length vs) \<and> sum_list vs = st_n st * st_mean st + st_mean_res st \<and>
     \<bar>st_mean_res st\<bar> \<le> max 0 (st_n st - 1) \<and>
     (vs \<noteq> [] \<longrightarrow> st_min st = Min (set vs) \<and> st_max st = Max (set vs) \<and> st_last st = last vs)"

lemma stat_init: "stat_of [] pj_math_stat_init"
  by (simp add: stat_of_def pj_math_stat_init_def)

lemma stat_mean_step:
  fixes n :: int
  assumes s: "s = n * m + r" and r: "\<bar>r\<bar> \<le> max 0 (n - 1)" and n: "0 \<le> n"
    and eq: "(m', r') = (let mean = m + cdiv (v - m) (n + 1); res = r + cmod (v - m) (n + 1)
                        in if res \<ge> n + 1 then (mean + 1, res - (n + 1))
                           else if res \<le> - (n + 1) then (mean - 1, res + (n + 1)) else (mean, res))"
  shows "s + v = (n + 1) * m' + r'" "\<bar>r'\<bar> \<le> n"
proof -
  let ?d = "v - m" and ?N = "n + 1"
  have dm: "cdiv ?d ?N * ?N + cmod ?d ?N = ?d" by (rule cdiv_cmod)
  have lt: "\<bar>cmod ?d ?N\<bar> < ?N" using cmod_abs_less [of ?N ?d] n by simp
  have base: "s + v = ?N * (m + cdiv ?d ?N) + (r + cmod ?d ?N)"
    using s dm by (simp add: algebra_simps)
  show "s + v = ?N * m' + r'"
  proof -
    obtain k where "m' = m + cdiv ?d ?N + k" "r' = r + cmod ?d ?N - k * ?N"
      using eq by (cases "r + cmod ?d ?N \<ge> ?N"; cases "r + cmod ?d ?N \<le> - ?N")
        (auto simp: Let_def intro: that [of 1] that [of "-1"] that [of 0])
    then show ?thesis using base by (simp add: algebra_simps)
  qed
  show "\<bar>r'\<bar> \<le> n" using eq lt r n by (auto simp: Let_def split: if_splits)
qed

lemma stat_update: "stat_of vs st \<Longrightarrow> stat_of (vs @ [v]) (pj_math_stat_update st v)"
proof -
  assume st: "stat_of vs st"
  let ?u = "pj_math_stat_update st v"
  have n: "0 \<le> st_n st" "st_n st = int (length vs)" using st by (auto simp: stat_of_def)
  have "(st_mean ?u, st_mean_res ?u) =
      (let mean = st_mean st + cdiv (v - st_mean st) (st_n st + 1);
           res = st_mean_res st + cmod (v - st_mean st) (st_n st + 1)
       in if res \<ge> st_n st + 1 then (mean + 1, res - (st_n st + 1))
          else if res \<le> - (st_n st + 1) then (mean - 1, res + (st_n st + 1)) else (mean, res))"
    by (simp add: pj_math_stat_update_def Let_def split: prod.split)
  from stat_mean_step [OF _ _ n(1) this] st
  have m: "sum_list vs + v = (st_n st + 1) * st_mean ?u + st_mean_res ?u" "\<bar>st_mean_res ?u\<bar> \<le> st_n st"
    by (auto simp: stat_of_def)
  have u: "st_n ?u = st_n st + 1" "st_last ?u = v"
    "st_min ?u = (if st_n st \<noteq> 0 then min v (st_min st) else v)"
    "st_max ?u = (if st_n st \<noteq> 0 then max v (st_max st) else v)"
    by (auto simp: pj_math_stat_update_def Let_def min_def max_def split: prod.split)
  have "st_min ?u = Min (set (vs @ [v]))" "st_max ?u = Max (set (vs @ [v]))"
    using st n(2) by (cases "vs = []"; simp add: u stat_of_def)+
  with m u n(2) show ?thesis by (simp add: stat_of_def)
qed

text \<open>
  The statistics are exact. After any samples \<open>vs\<close>, in order, \<open>pj_math_stat_update\<close> has
  counted them, holds their minimum, maximum and last value, and its integer mean together
  with the residue it carries is the exact sum: \<open>sum = n * mean + mean_res_\<close> with
  \<open>\<bar>mean_res_\<bar> < n\<close>, so the mean is less than 1 away from the true one.
\<close>

theorem math_stat_exact:
  "stat_of vs (fold (\<lambda>v st. pj_math_stat_update st v) vs pj_math_stat_init)"
  by (induction vs rule: rev_induct) (simp_all add: stat_init stat_update)

subsection \<open>The square root\<close>

lemma isqrt_guess_pos: "0 < res \<Longrightarrow> 0 < isqrt_guess prev res"
  by (induction prev res rule: isqrt_guess.induct) (subst isqrt_guess.simps, simp)

text \<open>One step from any positive value gives at least the root, by the inequality of the means.\<close>

lemma isqrt_step_ge:
  fixes p i :: nat
  assumes p: "0 < p"
  shows "i < ((p + i div p) div 2 + 1) * ((p + i div p) div 2 + 1)"
proof -
  define q where "q = i div p"
  define r where "r = (p + q) div 2"
  have i: "i < p * (q + 1)" using dividend_less_times_div [OF p, of i] by (simp add: q_def algebra_simps)
  have r: "p + (q + 1) \<le> 2 * (r + 1)" by (simp add: r_def)
  have "4 * (int p * int (q + 1)) \<le> (int p + int (q + 1)) * (int p + int (q + 1))"
    using zero_le_square [of "int p - int (q + 1)"] by (simp add: algebra_simps)
  then have "int (4 * (p * (q + 1))) \<le> int ((p + (q + 1)) * (p + (q + 1)))" by (simp add: algebra_simps)
  then have "4 * (p * (q + 1)) \<le> (p + (q + 1)) * (p + (q + 1))" by (simp only: of_nat_le_iff)
  also have "\<dots> \<le> (2 * (r + 1)) * (2 * (r + 1))" by (rule mult_le_mono [OF r r])
  finally have "p * (q + 1) \<le> (r + 1) * (r + 1)" by simp
  with i show ?thesis by (simp add: r_def q_def)
qed

lemma isqrt_step_less:
  fixes p i :: nat
  assumes "i < p * p"
  shows "(p + i div p) div 2 < p"
proof -
  have "i div p < p" using assms by (simp add: less_mult_imp_div_less)
  then show ?thesis by simp
qed

lemma square_less_cancel: "(s :: nat) * s \<le> i \<Longrightarrow> i < (r + 1) * (r + 1) \<Longrightarrow> s \<le> r"
  by (rule ccontr) (use mult_le_mono [of "r + 1" s "r + 1" s] in simp)

lemma isqrt_at_root:
  assumes s: "0 < s" "s * s \<le> i" "i < (s + 1) * (s + 1)"
  shows "\<exists>r. isqrt_loop i s = Some r"
proof -
  define r where "r = (s + i div s) div 2"
  have "i div s < s + 3" using s by (intro less_mult_imp_div_less) (simp add: algebra_simps)
  then have ub: "r \<le> s + 1" by (simp add: r_def)
  have lb: "s \<le> r" using square_less_cancel [OF s(2) isqrt_step_ge [OF s(1)]] by (simp add: r_def)
  have step: "isqrt_loop i s = (if (s + r) div 2 \<noteq> r then isqrt_loop i r else Some r)"
    using s(1) by (subst isqrt_loop.simps) (simp add: r_def)
  show ?thesis
  proof (cases "r = s")
    case True
    with step show ?thesis by simp
  next
    case False
    with lb ub have r: "r = s + 1" by simp
    define r' where "r' = (r + i div r) div 2"
    have "r' < r" using isqrt_step_less [of i r] s(3) by (simp add: r_def r'_def) (simp add: r [unfolded r_def])
    moreover have "s \<le> r'" using square_less_cancel [OF s(2) isqrt_step_ge, of r] r by (simp add: r'_def)
    ultimately have "r' = s" using r by simp
    moreover have "isqrt_loop i r = (if (r + r') div 2 \<noteq> r' then isqrt_loop i r' else Some r')"
      using r by (subst isqrt_loop.simps) (simp add: r'_def)
    ultimately have "isqrt_loop i r = Some s" using r by simp
    with step show ?thesis by auto
  qed
qed

lemma isqrt_above_root:
  assumes s: "0 < s" "s * s \<le> i" "i < (s + 1) * (s + 1)" and p: "s < p"
  shows "\<exists>r. isqrt_loop i p = Some r"
  using p
proof (induction p rule: less_induct)
  case (less p)
  define r where "r = (p + i div p) div 2"
  have "i < p * p" using s(3) mult_le_mono [of "s + 1" p "s + 1" p] less.prems by simp
  then have "r < p" by (simp add: r_def isqrt_step_less)
  moreover have "s \<le> r" using square_less_cancel [OF s(2) isqrt_step_ge, of p] less.prems by (simp add: r_def)
  moreover have "isqrt_loop i p = (if (p + r) div 2 \<noteq> r then isqrt_loop i r else Some r)"
    using less.prems by (subst isqrt_loop.simps) (simp add: r_def)
  ultimately show ?case using less.IH [of r] isqrt_at_root [OF s] by (cases "r = s") auto
qed

lemma square_root_exists: "\<exists>s :: nat. s * s \<le> i \<and> i < (s + 1) * (s + 1)"
proof (induction i)
  case (Suc i)
  then obtain s where s: "s * s \<le> i" "i < (s + 1) * (s + 1)" by blast
  show ?case
  proof (cases "Suc i < (s + 1) * (s + 1)")
    case True
    with s show ?thesis by (intro exI [of _ s]) simp
  next
    case False
    with s show ?thesis by (intro exI [of _ "s + 1"]) simp
  qed
qed (intro exI [of _ 0], simp)

lemma isqrt_loop_returns:
  assumes p: "0 < p"
  shows "\<exists>r. isqrt_loop i p = Some r"
proof -
  obtain s where s: "s * s \<le> i" "i < (s + 1) * (s + 1)" using square_root_exists by blast
  define r where "r = (p + i div p) div 2"
  have step: "isqrt_loop i p = (if (p + r) div 2 \<noteq> r then isqrt_loop i r else Some r)"
    using p by (subst isqrt_loop.simps) (simp add: r_def)
  have sr: "s \<le> r" using square_less_cancel [OF s(1) isqrt_step_ge [OF p]] by (simp add: r_def)
  show ?thesis
  proof (cases "s = 0")
    case True
    with s have "i = 0" by simp
    then have "r = p div 2" by (simp add: r_def)
    have "\<exists>r. isqrt_loop 0 p = Some r" if "0 < p" for p
      using that
    proof (induction p rule: less_induct)
      case (less p)
      show ?case
      proof (cases "p div 2 = 0")
        case True
        then have "p = 1" using less.prems by simp
        then show ?thesis by (subst isqrt_loop.simps) simp
      next
        case False
        then have "\<exists>r. isqrt_loop 0 (p div 2) = Some r" using less by simp
        then show ?thesis using less.prems by (subst isqrt_loop.simps) (auto simp: Let_def)
      qed
    qed
    with p \<open>i = 0\<close> show ?thesis by simp
  next
    case False
    then show ?thesis
      using step sr isqrt_at_root [of s i] isqrt_above_root [of s i r] s by (cases "r = s") auto
  qed
qed

lemma isqrt_stop:
  fixes p r i :: nat
  assumes p: "0 < p" and r: "r = (p + i div p) div 2" and stop: "(p + r) div 2 = r"
  shows "r * r \<le> i + 1 \<and> i < (r + 1) * (r + 1)"
proof
  show "i < (r + 1) * (r + 1)" using isqrt_step_ge [OF p, of i] r by simp
  have qi: "p * (i div p) \<le> i" by simp
  consider "p = r" | "p = r + 1" using stop by linarith
  then show "r * r \<le> i + 1"
  proof cases
    case 1
    then have "r \<le> i div p" using r by linarith
    then have "r * r \<le> p * (i div p)" using 1 by simp
    with qi show ?thesis by linarith
  next
    case 2
    then have "r - 1 \<le> i div p" using r by linarith
    then have "(r + 1) * (r - 1) \<le> p * (i div p)" using 2 by (intro mult_le_mono) simp_all
    moreover have "r * r \<le> (r + 1) * (r - 1) + 1" by (cases r) (simp_all add: algebra_simps)
    ultimately show ?thesis using qi by linarith
  qed
qed

lemma isqrt_loop_result:
  assumes "isqrt_loop i p = Some r"
  shows "r * r \<le> i + 1 \<and> i < (r + 1) * (r + 1)"
  using assms
proof (rule isqrt_loop.raw_induct [rotated])
  fix f :: "nat \<Rightarrow> nat \<Rightarrow> nat option" and i' p' y :: nat
  assume IH: "\<And>i p y. f i p = Some y \<Longrightarrow> y * y \<le> i + 1 \<and> i < (y + 1) * (y + 1)"
    and body: "(if p' = 0 then None
        else let res = (p' + i' div p') div 2
             in if (p' + res) div 2 \<noteq> res then f i' res else Some res) = Some y"
  show "y * y \<le> i' + 1 \<and> i' < (y + 1) * (y + 1)"
  proof (cases "(p' + (p' + i' div p') div 2) div 2 = (p' + i' div p') div 2")
    case True
    with body show ?thesis by (intro isqrt_stop [of p']) (simp_all split: if_splits)
  next
    case False
    with body have "f i' ((p' + i' div p') div 2) = Some y" by (simp add: Let_def split: if_splits)
    then show ?thesis by (rule IH)
  qed
qed

text \<open>
  C13: \<open>pj_isqrt\<close> always returns, and its result is the integer square root up to a known
  error: \<open>r\<^sup>2 \<le> i + 1\<close> and \<open>i < (r + 1)\<^sup>2\<close>. So it is the floor of the root for every
  argument except some of the form \<open>n\<^sup>2 - 1\<close>, where it may be \<open>n\<close>.
\<close>

theorem isqrt_returns_root:
  "\<exists>r. pj_isqrt i = Some r \<and> r * r \<le> i + 1 \<and> i < (r + 1) * (r + 1)"
  using isqrt_loop_returns [OF isqrt_guess_pos, of 1 i "i div 4"] isqrt_loop_result [of i "isqrt_guess (i div 4) 1"]
  by (auto simp: pj_isqrt_def)

text \<open>It is not the floor of the square root: for 48 it is 7.\<close>

lemma isqrt_48_is_7: "pj_isqrt 48 = Some 7"
proof -
  have "isqrt_guess 12 1 = 4" by (simp add: isqrt_guess.simps [of 12] isqrt_guess.simps [of 3] isqrt_guess.simps [of 0])
  moreover have "isqrt_loop 48 4 = Some 7" by (simp add: isqrt_loop.simps [of 48 4] isqrt_loop.simps [of 48 8])
  ultimately show ?thesis by (simp add: pj_isqrt_def)
qed

end
