(* ===== verification/Media_Framelist.thy ===== *)
theory Media_Framelist
  imports Pj_Prelude
begin

text \<open>
  The frame list of the jitter buffer (\<open>jb_framelist_t\<close> in \<^verbatim>\<open>pjmedia/src/pjmedia/jbuf.c\<close>): a
  ring of \<open>flist_max_count\<close> slots for frames of consecutive sequence numbers, of which the
  oldest has number \<open>flist_origin\<close>. The frames lie in one byte area, slot \<open>i\<close> at offset
  \<open>i * flist_frame_size\<close>. Unsigned fields are numbers below \<open>2^32\<close>, and the arithmetic on them
  wraps (\<open>wrap32\<close>).
\<close>

subsection \<open>The model\<close>

definition PJMEDIA_JB_MISSING_FRAME :: int where "PJMEDIA_JB_MISSING_FRAME = 0"
definition PJMEDIA_JB_NORMAL_FRAME :: int where "PJMEDIA_JB_NORMAL_FRAME = 1"
definition PJMEDIA_JB_ZERO_PREFETCH_FRAME :: int where "PJMEDIA_JB_ZERO_PREFETCH_FRAME = 2"
definition PJMEDIA_JB_ZERO_EMPTY_FRAME :: int where "PJMEDIA_JB_ZERO_EMPTY_FRAME = 3"

record jb_framelist_t =
  flist_buffer :: "u8 list"
  flist_frame_type :: "int list"
  flist_content_len :: "nat list"
  flist_bit_info :: "u32 list"
  flist_frame_size :: nat
  flist_max_count :: nat
  flist_empty :: bool
  flist_head :: nat
  flist_tail :: nat
  flist_origin :: nat

text \<open>The four areas come zeroed from the pool.\<close>

definition jb_framelist_init :: "nat \<Rightarrow> nat \<Rightarrow> jb_framelist_t" where
  "jb_framelist_init frame_size max_count =
     \<lparr>flist_buffer = replicate (wrap32 (int frame_size * int max_count)) 0,
      flist_frame_type = replicate max_count 0,
      flist_content_len = replicate max_count 0,
      flist_bit_info = replicate max_count 0,
      flist_frame_size = frame_size,
      flist_max_count = max_count,
      flist_empty = True, flist_head = 0, flist_tail = 0, flist_origin = 0\<rparr>"

definition jb_framelist_size :: "jb_framelist_t \<Rightarrow> nat" where
  "jb_framelist_size fl =
     (if flist_tail fl = flist_head fl then (if flist_empty fl then 0 else flist_max_count fl)
      else wrap32 (int (flist_tail fl) - int (flist_head fl) + int (flist_max_count fl))
             mod flist_max_count fl)"

text \<open>The byte offset of a slot.\<close>

definition slot_off :: "jb_framelist_t \<Rightarrow> nat \<Rightarrow> nat" where
  "slot_off fl i = wrap32 (int i * int (flist_frame_size fl))"

text \<open>What \<open>jb_framelist_get\<close> writes through its pointers: the bytes of the frame, its type,
  the length of its content and its bit info. A caller that passes no pointer for one of them
  does not look at it.\<close>

type_synonym jb_frame = "u8 list \<times> int \<times> nat \<times> u32"

definition jb_framelist_get :: "jb_framelist_t \<Rightarrow> (jb_frame option \<times> jb_framelist_t) option" where
  "jb_framelist_get fl =
     (if \<not> flist_empty fl then do {
        bytes \<leftarrow> memget (flist_buffer fl) (slot_off fl (flist_head fl)) (flist_frame_size fl);
        ftype \<leftarrow> rd (flist_frame_type fl) (flist_head fl);
        clen \<leftarrow> rd (flist_content_len fl) (flist_head fl);
        bits \<leftarrow> rd (flist_bit_info fl) (flist_head fl);
        buf \<leftarrow> memput (flist_buffer fl) (slot_off fl (flist_head fl))
                  (replicate (flist_frame_size fl) 0);
        types \<leftarrow> wr (flist_frame_type fl) (flist_head fl) PJMEDIA_JB_MISSING_FRAME;
        lens \<leftarrow> wr (flist_content_len fl) (flist_head fl) 0;
        let head = wrap32 (int (flist_head fl) + 1) mod flist_max_count fl;
        Some (Some (bytes, ftype, clen, bits),
              fl\<lparr>flist_buffer := buf, flist_frame_type := types, flist_content_len := lens,
                 flist_origin := wrap32 (int (flist_origin fl) + 1), flist_head := head,
                 flist_empty := (if head = flist_tail fl then True else flist_empty fl)\<rparr>)
      }
      else Some (None, fl))"

text \<open>\<open>pj_memset\<close> sets every byte of the \<open>int\<close>s, so each becomes the value with that byte four
  times; the type of a missing frame is 0. The next function clears \<open>n\<close> slots from slot \<open>i\<close>
  on.\<close>

definition clear_slots :: "jb_framelist_t \<Rightarrow> nat \<Rightarrow> nat \<Rightarrow> jb_framelist_t option" where
  "clear_slots fl i n = do {
     buf \<leftarrow> memput (flist_buffer fl) (slot_off fl i)
               (replicate (wrap32 (int n * int (flist_frame_size fl))) 0);
     types \<leftarrow> memput (flist_frame_type fl) i (replicate n (PJMEDIA_JB_MISSING_FRAME * 0x01010101));
     lens \<leftarrow> memput (flist_content_len fl) i (replicate n 0);
     Some (fl\<lparr>flist_buffer := buf, flist_frame_type := types, flist_content_len := lens\<rparr>)
   }"

definition jb_framelist_remove_head :: "jb_framelist_t \<Rightarrow> nat \<Rightarrow> jb_framelist_t option" where
  "jb_framelist_remove_head fl cnt0 =
     (let cur_size = jb_framelist_size fl;
          cnt = (if cnt0 > cur_size then cur_size else cnt0)
      in if cnt \<noteq> 0 then
           (let tmp = wrap32 (int (flist_head fl) + int cnt);
                step1 = (if tmp > flist_max_count fl
                         then wrap32 (int (flist_max_count fl) - int (flist_head fl)) else cnt);
                step2 = (if tmp > flist_max_count fl then wrap32 (int cnt - int step1) else 0)
            in do {
              fl1 \<leftarrow> clear_slots fl (flist_head fl) step1;
              fl2 \<leftarrow> (if step2 \<noteq> 0 then clear_slots fl1 0 step2 else Some fl1);
              let head = wrap32 (int (flist_head fl2) + int cnt) mod flist_max_count fl2;
              Some (fl2\<lparr>flist_origin := wrap32 (int (flist_origin fl2) + int cnt), flist_head := head,
                        flist_empty := (if head = flist_tail fl2 then True else flist_empty fl2)\<rparr>)
            })
         else Some fl)"

text \<open>\<open>jb_framelist_put_at\<close> in two parts: where the frame goes (\<open>None\<close> is a return of
  \<open>PJ_FALSE\<close>) with the new tail, origin and empty flag, and storing it there. \<open>assert\<close> is not
  part of the model: a frame longer than a slot is cut by the caller.\<close>

definition put_where :: "jb_framelist_t \<Rightarrow> nat \<Rightarrow> (nat \<times> jb_framelist_t) option" where
  "put_where fl index =
     (if \<not> flist_empty fl then
        if index < flist_origin fl then None
        else if index > wrap32 (int (flist_origin fl) + int (flist_max_count fl) - 1) then None
        else
          let where = wrap32 (int index - int (flist_origin fl) + int (flist_head fl)) mod flist_max_count fl;
              end_index = wrap32 (int (flist_origin fl) + int (jb_framelist_size fl))
          in if index \<ge> end_index
             then Some (where, fl\<lparr>flist_tail :=
                    wrap32 (int (flist_tail fl) + (int index - int end_index) + 1) mod flist_max_count fl\<rparr>)
             else Some (where, fl)
      else Some (flist_tail fl,
                 fl\<lparr>flist_origin := index,
                    flist_tail := wrap32 (int (flist_tail fl) + 1) mod flist_max_count fl,
                    flist_empty := False\<rparr>))"

definition jb_framelist_put_at ::
  "jb_framelist_t \<Rightarrow> nat \<Rightarrow> u8 list \<Rightarrow> nat \<Rightarrow> u32 \<Rightarrow> (bool \<times> jb_framelist_t) option" where
  "jb_framelist_put_at fl index frame frame_size bit_info =
     (case put_where fl index of
        None \<Rightarrow> Some (False, fl)
      | Some (where, fl1) \<Rightarrow> do {
          bytes \<leftarrow> memget frame 0 frame_size;
          buf \<leftarrow> memput (flist_buffer fl1) (slot_off fl1 where) bytes;
          types \<leftarrow> wr (flist_frame_type fl1) where PJMEDIA_JB_NORMAL_FRAME;
          lens \<leftarrow> wr (flist_content_len fl1) where frame_size;
          bits \<leftarrow> wr (flist_bit_info fl1) where bit_info;
          Some (True, fl1\<lparr>flist_buffer := buf, flist_frame_type := types,
                          flist_content_len := lens, flist_bit_info := bits\<rparr>)
        })"

end
