(* ===== verification/Media_Window.thy ===== *)
theory Media_Window
  imports Pj_Prelude
begin

text \<open>
  What the jitter buffer relies on: a window of frames with consecutive sequence numbers, as
  an abstract value with its operations, and the contract \<open>frame_window\<close> of an implementation.
\<close>

subsection \<open>Windows\<close>

text \<open>A frame behind the last one leaves missing frames in between.\<close>

definition put_frames :: "'a option list \<Rightarrow> nat \<Rightarrow> 'a \<Rightarrow> 'a option list" where
  "put_frames xs k f =
     (if k < length xs then xs[k := Some f] else xs @ replicate (k - length xs) None @ [Some f])"

lemma put_frames_length: "length (put_frames xs k f) = max (length xs) (k + 1)"
  by (auto simp: put_frames_def)

lemma put_frames_nth:
  "i < max (length xs) (k + 1) \<Longrightarrow>
     put_frames xs k f ! i = (if i = k then Some f else if i < length xs then xs ! i else None)"
  by (auto simp: put_frames_def nth_append nth_Cons')

text \<open>Which sequence numbers a window of capacity \<open>cap\<close> takes: any if it is empty, otherwise those
  of its slots.\<close>

definition accepts :: "nat \<Rightarrow> nat \<Rightarrow> 'a list \<Rightarrow> nat \<Rightarrow> bool" where
  "accepts cap origin xs index \<longleftrightarrow> xs = [] \<or> origin \<le> index \<and> index < origin + cap"

subsection \<open>The contract of a frame window\<close>

text \<open>The abstract window: the sequence number of its first frame, and its frames.\<close>

type_synonym 'f window = "nat \<times> 'f option list"

fun win_get :: "'f window \<Rightarrow> 'f option option \<times> 'f window" where
  "win_get (org, []) = (None, (org, []))"
| "win_get (org, x # xs) = (Some x, (org + 1, xs))"

fun win_del :: "nat \<Rightarrow> 'f window \<Rightarrow> 'f window" where
  "win_del n (org, xs) = (org + min n (length xs), drop n xs)"

fun win_put :: "nat \<Rightarrow> nat \<Rightarrow> 'f \<Rightarrow> 'f window \<Rightarrow> bool \<times> 'f window" where
  "win_put cap i f (org, xs) =
     (if accepts cap org xs i
      then (True, (if xs = [] then (i, [Some f]) else (org, put_frames xs (i - org) f)))
      else (False, (org, xs)))"

text \<open>Calls of the operations of a window, and what a list of calls returns.\<close>

datatype 'g win_call = Put_frame nat 'g | Get_frame | Drop_frames nat

datatype 'f win_result = Put_result bool | Get_result "'f option option" | Drop_result

fun spec_call :: "nat \<Rightarrow> ('g \<Rightarrow> 'f) \<Rightarrow> 'g win_call \<Rightarrow> 'f window \<Rightarrow> 'f win_result \<times> 'f window" where
  "spec_call cap val (Put_frame i g) w = (let (b, w') = win_put cap i (val g) w in (Put_result b, w'))"
| "spec_call cap val Get_frame w = (let (r, w') = win_get w in (Get_result r, w'))"
| "spec_call cap val (Drop_frames n) w = (Drop_result, win_del n w)"

fun spec_calls :: "nat \<Rightarrow> ('g \<Rightarrow> 'f) \<Rightarrow> 'g win_call list \<Rightarrow> 'f window \<Rightarrow> 'f win_result list \<times> 'f window" where
  "spec_calls cap val [] w = ([], w)"
| "spec_calls cap val (c # cs) w =
     (let (r, w1) = spec_call cap val c w; (rs, w2) = spec_calls cap val cs w1 in (r # rs, w2))"

fun run_call ::
  "('l \<Rightarrow> nat \<Rightarrow> 'g \<Rightarrow> (bool \<times> 'l) option) \<Rightarrow> ('l \<Rightarrow> ('r option \<times> 'l) option) \<Rightarrow> ('l \<Rightarrow> nat \<Rightarrow> 'l option) \<Rightarrow>
   ('r \<Rightarrow> 'f option) \<Rightarrow> 'g win_call \<Rightarrow> 'l \<Rightarrow> ('f win_result \<times> 'l) option" where
  "run_call put get del view (Put_frame i g) l = do { (b, l') \<leftarrow> put l i g; Some (Put_result b, l') }"
| "run_call put get del view Get_frame l = do { (r, l') \<leftarrow> get l; Some (Get_result (map_option view r), l') }"
| "run_call put get del view (Drop_frames n) l = do { l' \<leftarrow> del l n; Some (Drop_result, l') }"

fun run_calls ::
  "('l \<Rightarrow> nat \<Rightarrow> 'g \<Rightarrow> (bool \<times> 'l) option) \<Rightarrow> ('l \<Rightarrow> ('r option \<times> 'l) option) \<Rightarrow> ('l \<Rightarrow> nat \<Rightarrow> 'l option) \<Rightarrow>
   ('r \<Rightarrow> 'f option) \<Rightarrow> 'g win_call list \<Rightarrow> 'l \<Rightarrow> ('f win_result list \<times> 'l) option" where
  "run_calls put get del view [] l = Some ([], l)"
| "run_calls put get del view (c # cs) l = do {
     (r, l1) \<leftarrow> run_call put get del view c l;
     (rs, l2) \<leftarrow> run_calls put get del view cs l1;
     Some (r # rs, l2) }"

fun call_ok :: "(nat \<Rightarrow> 'g \<Rightarrow> bool) \<Rightarrow> 'g win_call \<Rightarrow> bool" where
  "call_ok ok (Put_frame i g) \<longleftrightarrow> ok i g"
| "call_ok ok _ \<longleftrightarrow> True"

text \<open>Putting a frame at any cost: while it is refused, drop \<open>k\<close> frames and try again.\<close>

partial_function (option) put_retry ::
  "('l \<Rightarrow> nat \<Rightarrow> 'g \<Rightarrow> (bool \<times> 'l) option) \<Rightarrow> ('l \<Rightarrow> nat \<Rightarrow> 'l option) \<Rightarrow> nat \<Rightarrow> nat \<Rightarrow> 'g \<Rightarrow> 'l \<Rightarrow> 'l option"
where
  "put_retry put del k i g l =
     (case put l i g of
        None \<Rightarrow> None
      | Some (done, l1) \<Rightarrow>
          if done then Some l1
          else (case del l1 k of None \<Rightarrow> None | Some l2 \<Rightarrow> put_retry put del k i g l2))"

declare put_retry.simps [code]

locale frame_window =
  fixes inv :: "'l \<Rightarrow> bool" and cap :: nat and win :: "'l \<Rightarrow> 'f window"
    and put :: "'l \<Rightarrow> nat \<Rightarrow> 'g \<Rightarrow> (bool \<times> 'l) option" and get :: "'l \<Rightarrow> ('r option \<times> 'l) option"
    and del :: "'l \<Rightarrow> nat \<Rightarrow> 'l option"
    and view :: "'r \<Rightarrow> 'f option" and val :: "'g \<Rightarrow> 'f" and ok :: "nat \<Rightarrow> 'g \<Rightarrow> bool"
  assumes put_law: "inv l \<Longrightarrow> ok i g \<Longrightarrow>
      \<exists>l'. put l i g = Some (fst (win_put cap i (val g) (win l)), l') \<and> inv l' \<and>
           win l' = snd (win_put cap i (val g) (win l))"
    and get_law: "inv l \<Longrightarrow>
      \<exists>r l'. get l = Some (r, l') \<and> map_option view r = fst (win_get (win l)) \<and> inv l' \<and>
             win l' = snd (win_get (win l))"
    and del_law: "inv l \<Longrightarrow>
      \<exists>l'. del l n = Some l' \<and> inv l' \<and> win l' = win_del n (win l)"
begin

lemma call_refines:
  assumes "inv l" "call_ok ok c"
  shows "\<exists>l'. run_call put get del view c l = Some (fst (spec_call cap val c (win l)), l') \<and> inv l' \<and>
           win l' = snd (spec_call cap val c (win l))"
proof (cases c)
  case (Put_frame i g)
  with assms put_law [of l i g] show ?thesis by (auto simp: split_def Let_def)
next
  case Get_frame
  with assms get_law [of l] show ?thesis by (auto simp: split_def Let_def)
next
  case (Drop_frames n)
  with assms del_law [of l n] show ?thesis by auto
qed

lemma calls_refine:
  assumes "inv l" "\<forall>c \<in> set cs. call_ok ok c"
  shows "\<exists>l'. run_calls put get del view cs l = Some (fst (spec_calls cap val cs (win l)), l') \<and> inv l' \<and>
           win l' = snd (spec_calls cap val cs (win l))"
  using assms
proof (induction cs arbitrary: l)
  case (Cons c cs)
  obtain l1 where l1: "run_call put get del view c l = Some (fst (spec_call cap val c (win l)), l1)" "inv l1"
    "win l1 = snd (spec_call cap val c (win l))"
    using call_refines [of l c] Cons.prems by auto
  obtain l2 where "run_calls put get del view cs l1 = Some (fst (spec_calls cap val cs (win l1)), l2)" "inv l2"
    "win l2 = snd (spec_calls cap val cs (win l1))"
    using Cons.IH [OF l1(2)] Cons.prems(2) by auto
  with l1 show ?case by (auto simp: split_def Let_def)
qed simp

text \<open>Retrying ends, and the frame goes into what is left of the window after the drops that
  were needed, \<open>j\<close> of them.\<close>

lemma retry_returns:
  assumes "inv l" "ok i g" "0 < k"
  shows "\<exists>l' j. put_retry put del k i g l = Some l' \<and> inv l' \<and>
           fst (win_put cap i (val g) (win_del (j * k) (win l))) \<and>
           win l' = snd (win_put cap i (val g) (win_del (j * k) (win l))) \<and>
           (\<forall>j' < j. \<not> fst (win_put cap i (val g) (win_del (j' * k) (win l))))"
  using assms
proof (induction "length (snd (win l))" arbitrary: l rule: less_induct)
  case less
  obtain org xs where w: "win l = (org, xs)" by fastforce
  obtain l1 where l1: "put l i g = Some (fst (win_put cap i (val g) (win l)), l1)" "inv l1"
    "win l1 = snd (win_put cap i (val g) (win l))"
    using put_law [OF less.prems(1,2)] by blast
  show ?case
  proof (cases "fst (win_put cap i (val g) (win l))")
    case True
    with l1 have "put_retry put del k i g l = Some l1" by (subst put_retry.simps) simp
    with l1 True show ?thesis by (intro exI [of _ l1] exI [of _ 0]) (simp add: w)
  next
    case False
    then have xs: "xs \<noteq> []" and same: "win l1 = win l" using l1(3) by (auto simp: w accepts_def split: if_splits)
    obtain l2 where l2: "del l1 k = Some l2" "inv l2" "win l2 = win_del k (win l)"
      using del_law [OF l1(2), of k] same by auto
    have shorter: "length (snd (win l2)) < length (snd (win l))" using xs less.prems(3) by (simp add: l2(3) w)
    have step: "put_retry put del k i g l = put_retry put del k i g l2"
      using False l1(1) l2(1) by (subst put_retry.simps) simp
    have dels: "win_del (j * k) (win l2) = win_del (Suc j * k) (win l)" for j
      by (auto simp: l2(3) w min_def add.commute)
    obtain l' j where l': "put_retry put del k i g l2 = Some l'" "inv l'"
      "fst (win_put cap i (val g) (win_del (Suc j * k) (win l)))"
      "win l' = snd (win_put cap i (val g) (win_del (Suc j * k) (win l)))"
      "\<forall>j' < j. \<not> fst (win_put cap i (val g) (win_del (Suc j' * k) (win l)))"
      using less.hyps [OF shorter l2(2)] less.prems(2,3) unfolding dels by auto
    have "\<not> fst (win_put cap i (val g) (win_del (j' * k) (win l)))" if "j' < Suc j" for j'
      using that l'(5) False by (cases j') (auto simp: w)
    with l' step show ?thesis by (intro exI [of _ l'] exI [of _ "Suc j"]) simp
  qed
qed

end

end
