(* ===== verification/Media_Framelist_Spec.thy ===== *)
theory Media_Framelist_Spec
  imports Media_Framelist Media_Window
begin

text \<open>
  The invariant of the frame list, its abstract view (the frames of a window of consecutive
  sequence numbers, some of which are missing) and the refinement of every operation to an
  operation on that window.
\<close>

subsection \<open>Blocks of a byte area\<close>

definition blk :: "nat \<Rightarrow> 'a list \<Rightarrow> nat \<Rightarrow> 'a list" where
  "blk fs buf i = take fs (drop (i * fs) buf)"

lemma slot_bound: "i < (n :: nat) \<Longrightarrow> i * fs + fs \<le> n * fs"
  using mult_le_mono1 [of "Suc i" n fs] by simp

lemma blk_length: "length buf = n * fs \<Longrightarrow> i < n \<Longrightarrow> length (blk fs buf i) = fs"
  using slot_bound [of i n fs] by (simp add: blk_def)

lemma blk_nth: "length buf = n * fs \<Longrightarrow> i < n \<Longrightarrow> k < fs \<Longrightarrow> blk fs buf i ! k = buf ! (i * fs + k)"
  using slot_bound [of i n fs] by (simp add: blk_def)

lemma slot_disjoint:
  assumes "i \<noteq> j" "k < fs" "l < (fs :: nat)"
  shows "i * fs + k \<noteq> j * fs + l"
proof
  assume eq: "i * fs + k = j * fs + l"
  have "(i * fs + k) div fs = i" "(j * fs + l) div fs = j" using assms by simp_all
  with eq assms(1) show False by simp
qed

lemma memput_blk:
  assumes len: "length buf = n * fs" and i: "i < n" and bs: "length bs \<le> fs"
  obtains buf' where "memput buf (i * fs) bs = Some buf'" "length buf' = n * fs"
    "blk fs buf' i = bs @ drop (length bs) (blk fs buf i)"
    "\<And>j. j < n \<Longrightarrow> j \<noteq> i \<Longrightarrow> blk fs buf' j = blk fs buf j"
proof -
  have fit: "i * fs + length bs \<le> length buf" using slot_bound [OF i, of fs] len bs by simp
  then obtain buf' where buf': "memput buf (i * fs) bs = Some buf'" by (simp add: memput_def)
  have len': "length buf' = n * fs" using memput_length [OF buf'] len by simp
  have same: "blk fs buf' i = bs @ drop (length bs) (blk fs buf i)"
  proof (rule nth_equalityI)
    show "length (blk fs buf' i) = length (bs @ drop (length bs) (blk fs buf i))"
      using bs by (simp add: blk_length [OF len i] blk_length [OF len' i])
    fix k assume "k < length (blk fs buf' i)"
    then have k: "k < fs" by (simp add: blk_length [OF len' i])
    have "i * fs + k < length buf" using slot_bound [OF i, of fs] k len by simp
    then show "blk fs buf' i ! k = (bs @ drop (length bs) (blk fs buf i)) ! k"
      using memput_nth [OF buf', of "i * fs + k"] k bs
      by (auto simp: blk_nth [OF len i] blk_nth [OF len' i] nth_append blk_length [OF len i])
  qed
  have other: "blk fs buf' j = blk fs buf j" if j: "j < n" "j \<noteq> i" for j
  proof (rule nth_equalityI)
    show "length (blk fs buf' j) = length (blk fs buf j)"
      by (simp add: blk_length [OF len j(1)] blk_length [OF len' j(1)])
    fix k assume "k < length (blk fs buf' j)"
    then have k: "k < fs" by (simp add: blk_length [OF len' j(1)])
    have lt: "j * fs + k < length buf" using slot_bound [OF j(1), of fs] k len by simp
    have "\<not> (i * fs \<le> j * fs + k \<and> j * fs + k < i * fs + length bs)"
    proof
      assume in_i: "i * fs \<le> j * fs + k \<and> j * fs + k < i * fs + length bs"
      then have "j * fs + k - i * fs < fs" using bs by linarith
      from slot_disjoint [OF j(2) k this] in_i show False by simp
    qed
    then show "blk fs buf' j ! k = blk fs buf j ! k"
      using memput_nth [OF buf' lt] by (auto simp: blk_nth [OF len j(1) k] blk_nth [OF len' j(1) k])
  qed
  show thesis by (rule that [OF buf' len' same other])
qed

lemma memput_clear_blks:
  assumes len: "length buf = n * fs" and m: "i + m \<le> n"
  obtains buf' where "memput buf (i * fs) (replicate (m * fs) c) = Some buf'" "length buf' = n * fs"
    "\<And>j. j < n \<Longrightarrow> blk fs buf' j = (if i \<le> j \<and> j < i + m then replicate fs c else blk fs buf j)"
proof -
  have "i * fs + m * fs \<le> n * fs" using mult_le_mono1 [OF m, of fs] by (simp add: algebra_simps)
  then obtain buf' where buf': "memput buf (i * fs) (replicate (m * fs) c) = Some buf'"
    using len by (simp add: memput_def)
  have len': "length buf' = n * fs" using memput_length [OF buf'] len by simp
  have blks: "blk fs buf' j = (if i \<le> j \<and> j < i + m then replicate fs c else blk fs buf j)" if j: "j < n" for j
  proof (rule nth_equalityI)
    show "length (blk fs buf' j) = length (if i \<le> j \<and> j < i + m then replicate fs c else blk fs buf j)"
      by (simp add: blk_length [OF len j] blk_length [OF len' j])
    fix k assume "k < length (blk fs buf' j)"
    then have k: "k < fs" by (simp add: blk_length [OF len' j])
    have lt: "j * fs + k < length buf" using slot_bound [OF j, of fs] k len by simp
    have "i * fs \<le> j * fs + k" if "i \<le> j" using mult_le_mono1 [OF that, of fs] by linarith
    moreover have "j * fs + k < i * fs" if "j < i" using slot_bound [OF that, of fs] k by linarith
    moreover have "j * fs + k < i * fs + m * fs" if "j < i + m"
      using slot_bound [OF that, of fs] k by (simp add: add_mult_distrib)
    moreover have "i * fs + m * fs \<le> j * fs + k" if "i + m \<le> j"
      using mult_le_mono1 [OF that, of fs] by (simp add: add_mult_distrib)
    ultimately have "i * fs \<le> j * fs + k \<longleftrightarrow> i \<le> j" "j * fs + k < i * fs + m * fs \<longleftrightarrow> j < i + m"
      by (meson not_le)+
    then show "blk fs buf' j ! k = (if i \<le> j \<and> j < i + m then replicate fs c else blk fs buf j) ! k"
      using memput_nth [OF buf' lt] k
      by (auto simp: blk_nth [OF len j k] blk_nth [OF len' j k])
  qed
  show thesis by (rule that [OF buf' len' blks])
qed

subsection \<open>The ring\<close>

text \<open>The slot of the \<open>k\<close>-th frame after the head.\<close>

definition ring :: "jb_framelist_t \<Rightarrow> nat \<Rightarrow> nat" where
  "ring fl k = (flist_head fl + k) mod flist_max_count fl"

text \<open>The shape of the frame list: sizes of the areas, and no overflow in the index arithmetic.
  \<open>jb_bound\<close> is half the range of an unsigned number: sequence numbers come from an \<open>int\<close>.\<close>

definition jb_bound :: nat where
  "jb_bound = 2 ^ 31"

definition fl_shape :: "jb_framelist_t \<Rightarrow> bool" where
  "fl_shape fl \<longleftrightarrow>
     0 < flist_max_count fl \<and> flist_max_count fl < jb_bound \<and>
     flist_max_count fl * flist_frame_size fl < 2 ^ 32 \<and>
     length (flist_buffer fl) = flist_max_count fl * flist_frame_size fl \<and>
     length (flist_frame_type fl) = flist_max_count fl \<and>
     length (flist_content_len fl) = flist_max_count fl \<and>
     length (flist_bit_info fl) = flist_max_count fl \<and>
     flist_head fl < flist_max_count fl \<and> flist_tail fl < flist_max_count fl \<and>
     (flist_empty fl \<longrightarrow> flist_head fl = flist_tail fl) \<and>
     flist_origin fl + jb_framelist_size fl \<le> jb_bound"

lemma fl_shapeD:
  assumes "fl_shape fl"
  shows "0 < flist_max_count fl" "flist_max_count fl < jb_bound"
    "length (flist_buffer fl) = flist_max_count fl * flist_frame_size fl"
    "length (flist_frame_type fl) = flist_max_count fl"
    "length (flist_content_len fl) = flist_max_count fl"
    "length (flist_bit_info fl) = flist_max_count fl"
    "flist_head fl < flist_max_count fl" "flist_tail fl < flist_max_count fl"
    "flist_empty fl \<Longrightarrow> flist_head fl = flist_tail fl"
    "flist_origin fl + jb_framelist_size fl \<le> jb_bound"
    "flist_max_count fl * flist_frame_size fl < 2 ^ 32"
  using assms by (simp_all add: fl_shape_def)

lemma fl_size_eq:
  assumes "flist_head fl < flist_max_count fl" "flist_tail fl < flist_max_count fl"
    "flist_max_count fl < jb_bound"
  shows "jb_framelist_size fl =
    (if flist_tail fl = flist_head fl then (if flist_empty fl then 0 else flist_max_count fl)
     else if flist_head fl < flist_tail fl then flist_tail fl - flist_head fl
     else flist_tail fl + flist_max_count fl - flist_head fl)"
proof -
  let ?h = "flist_head fl" and ?t = "flist_tail fl" and ?m = "flist_max_count fl"
  have w: "wrap32 (int ?t - int ?h + int ?m) = nat (int ?t - int ?h + int ?m)"
    using assms by (intro wrap32_id) (simp_all add: jb_bound_def)
  have "nat (int ?t - int ?h + int ?m) mod ?m = (if ?h < ?t then ?t - ?h else ?t + ?m - ?h)" if "?t \<noteq> ?h"
  proof (cases "?h < ?t")
    case True
    then have "nat (int ?t - int ?h + int ?m) = ?m + (?t - ?h)" by simp
    then have "nat (int ?t - int ?h + int ?m) mod ?m = (?t - ?h) mod ?m" by (simp only: mod_add_self1)
    then show ?thesis using True assms by simp
  next
    case False
    then have "nat (int ?t - int ?h + int ?m) = ?t + ?m - ?h" "?t + ?m - ?h < ?m" using that assms by simp_all
    then show ?thesis using False by simp
  qed
  then show ?thesis unfolding jb_framelist_size_def w by simp
qed

lemma fl_size_bounds:
  assumes fl: "fl_shape fl"
  shows "jb_framelist_size fl \<le> flist_max_count fl" "jb_framelist_size fl = 0 \<longleftrightarrow> flist_empty fl"
    "flist_tail fl = ring fl (jb_framelist_size fl)"
proof -
  note b = fl_shapeD(1,2,7,8,9) [OF fl] and eq = fl_size_eq [OF fl_shapeD(7,8,2) [OF fl]]
  show "jb_framelist_size fl \<le> flist_max_count fl" using b unfolding eq by (auto split: if_splits)
  show "jb_framelist_size fl = 0 \<longleftrightarrow> flist_empty fl" using b unfolding eq by (auto split: if_splits)
  show "flist_tail fl = ring fl (jb_framelist_size fl)"
  proof -
    consider "flist_tail fl = flist_head fl" | "flist_head fl < flist_tail fl" | "flist_tail fl < flist_head fl"
      by linarith
    then show ?thesis
    proof cases
      case 3
      then have "flist_head fl + (flist_tail fl + flist_max_count fl - flist_head fl) =
          flist_tail fl + flist_max_count fl" using b by simp
      then show ?thesis using 3 b unfolding eq ring_def by simp
    qed (use b in \<open>simp_all add: eq ring_def\<close>)
  qed
qed

lemma ring_less: "fl_shape fl \<Longrightarrow> ring fl k < flist_max_count fl"
  by (simp add: ring_def fl_shapeD(1))

lemma mod_sum_inj:
  fixes h m :: nat
  assumes eq: "(h + k) mod m = (h + l) mod m" and "k < m" "l < m"
  shows "k = l"
proof -
  have "k = l" if "k \<le> l" "(h + l) mod m = (h + k) mod m" "l < m" for k l
  proof -
    have "m dvd l - k" using that(1,2) mod_eq_dvd_iff_nat [of "h + k" "h + l" m] by simp
    then show ?thesis using that(1,3) by (auto dest: dvd_imp_le)
  qed
  from this [of k l] this [of l k] assms show ?thesis by (cases "k \<le> l") simp_all
qed

lemma ring_inj: "ring fl k = ring fl l \<Longrightarrow> k < flist_max_count fl \<Longrightarrow> l < flist_max_count fl \<Longrightarrow> k = l"
  unfolding ring_def by (rule mod_sum_inj)

lemma ring_surj:
  assumes "i < flist_max_count fl" "flist_head fl < flist_max_count fl"
  obtains k where "k < flist_max_count fl" "ring fl k = i"
proof (rule that)
  let ?k = "if flist_head fl \<le> i then i - flist_head fl else i + flist_max_count fl - flist_head fl"
  show "?k < flist_max_count fl" using assms by auto
  show "ring fl ?k = i" using assms by (auto simp: ring_def)
qed

subsection \<open>Invariant and window\<close>

text \<open>A slot that holds no frame is blank: its length is 0 and its bytes are 0. The slots behind
  the last frame are blank.\<close>

definition slot_ok :: "jb_framelist_t \<Rightarrow> nat \<Rightarrow> bool" where
  "slot_ok fl i \<longleftrightarrow>
     (flist_frame_type fl ! i = PJMEDIA_JB_NORMAL_FRAME \<and> flist_content_len fl ! i \<le> flist_frame_size fl) \<or>
     (flist_frame_type fl ! i = PJMEDIA_JB_MISSING_FRAME \<and> flist_content_len fl ! i = 0 \<and>
      blk (flist_frame_size fl) (flist_buffer fl) i = replicate (flist_frame_size fl) 0)"

definition fl_inv :: "jb_framelist_t \<Rightarrow> bool" where
  "fl_inv fl \<longleftrightarrow> fl_shape fl \<and> (\<forall>i < flist_max_count fl. slot_ok fl i) \<and>
     (\<forall>k. jb_framelist_size fl \<le> k \<longrightarrow> k < flist_max_count fl \<longrightarrow>
        flist_frame_type fl ! ring fl k = PJMEDIA_JB_MISSING_FRAME)"

text \<open>A frame is the content that was put and its bit info; \<open>None\<close> is a missing frame.\<close>

type_synonym frame = "u8 list \<times> u32"

definition slot_frame :: "jb_framelist_t \<Rightarrow> nat \<Rightarrow> frame option" where
  "slot_frame fl i =
     (if flist_frame_type fl ! i = PJMEDIA_JB_NORMAL_FRAME
      then Some (take (flist_content_len fl ! i) (blk (flist_frame_size fl) (flist_buffer fl) i),
                 flist_bit_info fl ! i)
      else None)"

definition frames :: "jb_framelist_t \<Rightarrow> frame option list" where
  "frames fl = map (\<lambda>k. slot_frame fl (ring fl k)) [0 ..< jb_framelist_size fl]"

lemma frames_length [simp]: "length (frames fl) = jb_framelist_size fl"
  by (simp add: frames_def)

lemma frames_nth: "k < jb_framelist_size fl \<Longrightarrow> frames fl ! k = slot_frame fl (ring fl k)"
  by (simp add: frames_def)

lemma fl_invD:
  assumes "fl_inv fl"
  shows "fl_shape fl" "i < flist_max_count fl \<Longrightarrow> slot_ok fl i"
    "jb_framelist_size fl \<le> k \<Longrightarrow> k < flist_max_count fl \<Longrightarrow>
       flist_frame_type fl ! ring fl k = PJMEDIA_JB_MISSING_FRAME"
  using assms by (simp_all add: fl_inv_def)

lemma frames_eqI:
  "n = jb_framelist_size fl \<Longrightarrow> length xs = n \<Longrightarrow>
     (\<And>k. k < n \<Longrightarrow> xs ! k = slot_frame fl (ring fl k)) \<Longrightarrow> frames fl = xs"
  by (rule nth_equalityI) (simp_all add: frames_nth)

text \<open>The size is determined by how far the tail is from the head.\<close>

lemma fl_size_tail:
  assumes h: "flist_head fl < flist_max_count fl" and m: "flist_max_count fl < jb_bound"
    and n: "1 \<le> n" "n \<le> flist_max_count fl" and t: "flist_tail fl = ring fl n" and e: "\<not> flist_empty fl"
  shows "jb_framelist_size fl = n"
proof -
  let ?h = "flist_head fl" and ?m = "flist_max_count fl"
  have tm: "flist_tail fl < ?m" using t h by (simp add: ring_def)
  note eq = fl_size_eq [OF h tm m]
  consider "?h + n < ?m" | "?m \<le> ?h + n" "n < ?m" | "n = ?m" using n by linarith
  then show ?thesis
  proof cases
    case 1
    then have "flist_tail fl = ?h + n" by (simp add: t ring_def)
    then show ?thesis using 1 n by (simp add: eq)
  next
    case 2
    then have "flist_tail fl = ?h + n - ?m" using h by (simp add: t ring_def mod_if)
    then show ?thesis unfolding eq using 2 h by auto
  next
    case 3
    then have "flist_tail fl = ?h" using h by (simp add: t ring_def)
    then show ?thesis using 3 e by (simp add: eq)
  qed
qed

definition slot_same :: "jb_framelist_t \<Rightarrow> jb_framelist_t \<Rightarrow> nat \<Rightarrow> bool" where
  "slot_same fl fl' i \<longleftrightarrow>
     flist_frame_type fl' ! i = flist_frame_type fl ! i \<and>
     flist_content_len fl' ! i = flist_content_len fl ! i \<and>
     flist_bit_info fl' ! i = flist_bit_info fl ! i \<and>
     blk (flist_frame_size fl) (flist_buffer fl') i = blk (flist_frame_size fl) (flist_buffer fl) i"

definition slot_blank :: "jb_framelist_t \<Rightarrow> nat \<Rightarrow> bool" where
  "slot_blank fl i \<longleftrightarrow>
     flist_frame_type fl ! i = PJMEDIA_JB_MISSING_FRAME \<and> flist_content_len fl ! i = 0 \<and>
     blk (flist_frame_size fl) (flist_buffer fl) i = replicate (flist_frame_size fl) 0"

lemma slot_same_frame:
  "slot_same fl fl' i \<Longrightarrow> flist_frame_size fl' = flist_frame_size fl \<Longrightarrow> slot_frame fl' i = slot_frame fl i"
  by (simp add: slot_same_def slot_frame_def)

lemma slot_same_ok:
  "slot_same fl fl' i \<Longrightarrow> flist_frame_size fl' = flist_frame_size fl \<Longrightarrow> slot_ok fl' i = slot_ok fl i"
  by (simp add: slot_same_def slot_ok_def)

lemma slot_blank_ok: "slot_blank fl i \<Longrightarrow> slot_ok fl i"
  by (simp add: slot_blank_def slot_ok_def)

text \<open>The areas of \<open>fl'\<close> have the sizes of those of \<open>fl\<close>.\<close>

definition same_areas :: "jb_framelist_t \<Rightarrow> jb_framelist_t \<Rightarrow> bool" where
  "same_areas fl fl' \<longleftrightarrow>
     flist_max_count fl' = flist_max_count fl \<and> flist_frame_size fl' = flist_frame_size fl \<and>
     length (flist_buffer fl') = length (flist_buffer fl) \<and>
     length (flist_frame_type fl') = length (flist_frame_type fl) \<and>
     length (flist_content_len fl') = length (flist_content_len fl) \<and>
     length (flist_bit_info fl') = length (flist_bit_info fl)"

text \<open>Dropping the first \<open>c\<close> frames, as \<open>jb_framelist_get\<close> and \<open>jb_framelist_remove_head\<close> do.\<close>

lemma drop_frames:
  assumes inv: "fl_inv fl" and c: "1 \<le> c" "c \<le> jb_framelist_size fl" and areas: "same_areas fl fl'"
    and ptr: "flist_head fl' = ring fl c" "flist_tail fl' = flist_tail fl"
      "flist_origin fl' = flist_origin fl + c"
      "flist_empty fl' \<longleftrightarrow> ring fl c = flist_tail fl \<or> flist_empty fl"
    and same: "\<And>i. i < flist_max_count fl \<Longrightarrow> (\<forall>k<c. ring fl k \<noteq> i) \<Longrightarrow> slot_same fl fl' i"
    and blank: "\<And>k. k < c \<Longrightarrow> slot_blank fl' (ring fl k)"
  shows "fl_inv fl'" "frames fl' = drop c (frames fl)" "jb_framelist_size fl' = jb_framelist_size fl - c"
proof -
  let ?m = "flist_max_count fl" and ?n = "jb_framelist_size fl"
  note sh = fl_invD(1) [OF inv] and b = fl_size_bounds [OF fl_invD(1) [OF inv]]
  have m: "flist_max_count fl' = ?m" "flist_frame_size fl' = flist_frame_size fl"
    using areas by (simp_all add: same_areas_def)
  have ring': "ring fl' k = ring fl (c + k)" for k
  proof -
    have "ring fl' k = (ring fl c + k) mod ?m" by (simp only: ring_def [of fl'] ptr(1) m)
    then show ?thesis by (simp only: ring_def mod_add_left_eq add.assoc)
  qed
  have ne: "\<not> flist_empty fl" using b(2) c by simp
  have h': "flist_head fl' < flist_max_count fl'" unfolding ptr(1) m by (rule ring_less [OF sh])
  have t': "flist_tail fl' < flist_max_count fl'" using fl_shapeD(8) [OF sh] by (simp add: ptr m)
  have m': "flist_max_count fl' < jb_bound" using fl_shapeD(2) [OF sh] by (simp add: m)
  have last: "ring fl c = flist_tail fl \<longleftrightarrow> c = ?n"
  proof
    assume eq: "ring fl c = flist_tail fl"
    show "c = ?n"
    proof (cases "?n = ?m")
      case False
      then have "c < ?m" "?n < ?m" "ring fl c = ring fl ?n" using eq b c by simp_all
      then show ?thesis using ring_inj by blast
    next
      case True
      then have "ring fl c = ring fl 0" using eq b(3) fl_shapeD(7) [OF sh] by (simp add: ring_def)
      then show ?thesis using ring_inj [of fl c 0] c True b(1) fl_shapeD(1) [OF sh] by (cases "c = ?m") auto
    qed
  qed (use b(3) in simp)
  show size': "jb_framelist_size fl' = ?n - c"
  proof (cases "c = ?n")
    case True
    then have "flist_empty fl'" "flist_tail fl' = flist_head fl'" using ptr b(3) by auto
    then show ?thesis using True by (simp add: jb_framelist_size_def)
  next
    case False
    then have "\<not> flist_empty fl'" using ptr(4) last ne by simp
    moreover have "flist_tail fl' = ring fl' (?n - c)" using c b(3) by (simp add: ring' ptr(2))
    ultimately show ?thesis using fl_size_tail [OF h' m', of "?n - c"] False c b(1) by (simp add: m)
  qed
  show "frames fl' = drop c (frames fl)"
  proof (rule frames_eqI [OF size' [symmetric]])
    fix k assume k: "k < ?n - c"
    have "slot_same fl fl' (ring fl (c + k))"
    proof (rule same [OF ring_less [OF sh]], intro allI impI notI)
      fix l assume l: "l < c" "ring fl l = ring fl (c + k)"
      have "l < ?m" "c + k < ?m" using l(1) k b(1) c by linarith+
      from ring_inj [OF l(2) this] l(1) show False by simp
    qed
    then show "drop c (frames fl) ! k = slot_frame fl' (ring fl' k)"
      using slot_same_frame m k by (simp add: frames_nth ring')
  qed simp
  have slots: "slot_ok fl' i \<and> (\<forall>k<c. ring fl k \<noteq> i \<or> flist_frame_type fl' ! i = PJMEDIA_JB_MISSING_FRAME)"
    if i: "i < ?m" for i
  proof (cases "\<forall>k<c. ring fl k \<noteq> i")
    case True
    then show ?thesis using same [OF i True] slot_same_ok fl_invD(2) [OF inv i] m by blast
  next
    case False
    then have "slot_blank fl' i" using blank by auto
    then show ?thesis by (simp add: slot_blank_ok) (simp add: slot_blank_def)
  qed
  have out: "flist_frame_type fl' ! ring fl' k = PJMEDIA_JB_MISSING_FRAME" if k: "?n - c \<le> k" "k < ?m" for k
  proof (cases "\<forall>l<c. ring fl l \<noteq> ring fl (c + k)")
    case True
    then have ss: "slot_same fl fl' (ring fl (c + k))" by (rule same [OF ring_less [OF sh]])
    have "c + k < ?m"
    proof (rule ccontr)
      assume "\<not> c + k < ?m"
      then have "ring fl (c + k) = ring fl (c + k - ?m)" "c + k - ?m < c"
        using k c b(1) by (simp_all add: ring_def) (metis add.commute add_diff_assoc2 le_mod_geq not_less trans_le_add2)
      with True show False by auto
    qed
    then have "flist_frame_type fl ! ring fl (c + k) = PJMEDIA_JB_MISSING_FRAME"
      using fl_invD(3) [OF inv] k by simp
    with ss show ?thesis by (simp add: slot_same_def ring')
  next
    case False
    then show ?thesis using slots [OF ring_less [OF sh], of "c + k"] by (auto simp: ring')
  qed
  have "fl_shape fl'"
    using sh areas h' t' m' ptr c size' ne unfolding fl_shape_def same_areas_def by auto
  with slots out show "fl_inv fl'" by (simp add: fl_inv_def m size')
qed

subsection \<open>Taking frames out\<close>

lemma slot_off_id:
  assumes "fl_shape fl" "i \<le> flist_max_count fl"
  shows "slot_off fl i = i * flist_frame_size fl"
proof -
  have "i * flist_frame_size fl < 2 ^ 32"
    using mult_le_mono1 [OF assms(2), of "flist_frame_size fl"] fl_shapeD(11) [OF assms(1)] by linarith
  then have "int i * int (flist_frame_size fl) < 2 ^ 32"
    by (metis of_nat_less_iff of_nat_mult of_nat_numeral of_nat_power)
  then show ?thesis unfolding slot_off_def by (subst wrap32_id) (simp_all add: nat_mult_distrib)
qed

text \<open>The frame in what \<open>jb_framelist_get\<close> returns.\<close>

fun frame_of :: "jb_frame \<Rightarrow> frame option" where
  "frame_of (bytes, ftype, clen, bits) =
     (if ftype = PJMEDIA_JB_NORMAL_FRAME then Some (take clen bytes, bits) else None)"

text \<open>A missing frame is returned as a frame of zeros of length 0.\<close>

fun well_typed :: "nat \<Rightarrow> jb_frame \<Rightarrow> bool" where
  "well_typed fs (bytes, ftype, clen, bits) \<longleftrightarrow> length bytes = fs \<and> clen \<le> fs \<and>
     (ftype = PJMEDIA_JB_NORMAL_FRAME \<or>
      ftype = PJMEDIA_JB_MISSING_FRAME \<and> clen = 0 \<and> bytes = replicate fs 0)"

lemma frame_type_distinct [simp]:
  "PJMEDIA_JB_NORMAL_FRAME \<noteq> PJMEDIA_JB_MISSING_FRAME" "PJMEDIA_JB_MISSING_FRAME \<noteq> PJMEDIA_JB_NORMAL_FRAME"
  by (simp_all add: PJMEDIA_JB_NORMAL_FRAME_def PJMEDIA_JB_MISSING_FRAME_def)

lemma wrap32_small: "x < 2 ^ 32 \<Longrightarrow> wrap32 (int x) = x"
proof -
  assume "x < 2 ^ 32"
  then have "int x < 2 ^ 32" by (metis of_nat_less_iff of_nat_numeral of_nat_power)
  then show ?thesis using wrap32_id [of "int x"] by simp
qed

lemma get_empty: "flist_empty fl \<Longrightarrow> jb_framelist_get fl = Some (None, fl)"
  by (simp add: jb_framelist_get_def)

lemma get_correct:
  assumes inv: "fl_inv fl" and ne: "\<not> flist_empty fl"
  shows "\<exists>f fl'. jb_framelist_get fl = Some (Some f, fl') \<and> fl_inv fl' \<and>
           frames fl = frame_of f # frames fl' \<and> flist_origin fl' = flist_origin fl + 1 \<and>
           well_typed (flist_frame_size fl) f \<and> same_areas fl fl' \<and>
           jb_framelist_size fl' = jb_framelist_size fl - 1"
proof -
  let ?h = "flist_head fl" and ?m = "flist_max_count fl" and ?fs = "flist_frame_size fl"
  note sh = fl_invD(1) [OF inv]
  note D = fl_shapeD [OF sh] and b = fl_size_bounds [OF sh]
  have off: "slot_off fl ?h = ?h * ?fs" using D(7) by (simp add: slot_off_id [OF sh])
  have fit: "?h * ?fs + ?fs \<le> length (flist_buffer fl)" using slot_bound [OF D(7), of ?fs] D(3) by simp
  obtain buf' where buf': "memput (flist_buffer fl) (?h * ?fs) (replicate ?fs 0) = Some buf'"
    "length buf' = ?m * ?fs" "blk ?fs buf' ?h = replicate ?fs 0 @ drop ?fs (blk ?fs (flist_buffer fl) ?h)"
    "\<And>j. j < ?m \<Longrightarrow> j \<noteq> ?h \<Longrightarrow> blk ?fs buf' j = blk ?fs (flist_buffer fl) j"
    using memput_blk [OF D(3,7), of "replicate ?fs 0"] by (metis length_replicate order_refl)
  have n: "1 \<le> jb_framelist_size fl" using b(2) ne by simp
  have r0: "ring fl 0 = ?h" using D(7) by (simp add: ring_def)
  have h1: "wrap32 (int ?h + 1) mod ?m = ring fl 1"
    using wrap32_small [of "?h + 1"] D(2,7) by (simp add: ring_def jb_bound_def add.commute)
  have o1: "wrap32 (int (flist_origin fl) + 1) = flist_origin fl + 1"
    using wrap32_small [of "flist_origin fl + 1"] D(10) n by (simp add: jb_bound_def add.commute)
  define fl' where "fl' = fl\<lparr>flist_buffer := buf',
      flist_frame_type := (flist_frame_type fl)[?h := PJMEDIA_JB_MISSING_FRAME],
      flist_content_len := (flist_content_len fl)[?h := 0],
      flist_origin := flist_origin fl + 1, flist_head := ring fl 1,
      flist_empty := (if ring fl 1 = flist_tail fl then True else flist_empty fl)\<rparr>"
  define f where "f = (blk ?fs (flist_buffer fl) ?h, flist_frame_type fl ! ?h,
      flist_content_len fl ! ?h, flist_bit_info fl ! ?h)"
  have get: "jb_framelist_get fl = Some (Some f, fl')"
    using ne fit buf'(1) D(4-7)
    by (simp add: jb_framelist_get_def off memget_def rd_Some wr_Some h1 o1 f_def fl'_def blk_def)
  have areas: "same_areas fl fl'" using buf'(2) D(3) by (simp add: same_areas_def fl'_def)
  have blank: "slot_blank fl' (ring fl k)" if "k < 1" for k
    using that D(4,5,7) buf'(3) by (simp add: r0 slot_blank_def fl'_def blk_length [OF D(3,7)])
  have same: "slot_same fl fl' i" if i: "i < ?m" "\<forall>k<1. ring fl k \<noteq> i" for i
  proof -
    have "i \<noteq> ?h" using i(2) r0 by auto
    then show ?thesis using buf'(4) [OF i(1)] by (simp add: slot_same_def fl'_def)
  qed
  have ptr: "flist_head fl' = ring fl 1" "flist_tail fl' = flist_tail fl"
    "flist_origin fl' = flist_origin fl + 1"
    "flist_empty fl' \<longleftrightarrow> ring fl 1 = flist_tail fl \<or> flist_empty fl"
    by (simp_all add: fl'_def)
  have drop: "fl_inv fl'" "frames fl' = drop 1 (frames fl)" "jb_framelist_size fl' = jb_framelist_size fl - 1"
    by (rule drop_frames [OF inv le_refl n areas ptr], erule (1) same, erule blank)+
  have ne_frames: "frames fl \<noteq> []" using n by (metis frames_length list.size(3) not_one_le_zero)
  have "frames fl ! 0 = frame_of f"
    using n by (simp add: frames_nth r0 f_def slot_frame_def)
  then have fr: "frames fl = frame_of f # frames fl'"
    using ne_frames by (cases "frames fl") (simp_all add: drop(2))
  have "well_typed ?fs f"
    using fl_invD(2) [OF inv D(7)] by (auto simp: slot_ok_def f_def blk_length [OF D(3,7)])
  with get drop(1,3) fr ptr(3) areas show ?thesis by blast
qed

text \<open>\<open>fl'\<close> differs from \<open>fl\<close> in the contents of the areas only, and these are blank in the slots
  of \<open>A\<close>.\<close>

definition cleared :: "jb_framelist_t \<Rightarrow> nat set \<Rightarrow> jb_framelist_t \<Rightarrow> bool" where
  "cleared fl A fl' \<longleftrightarrow> same_areas fl fl' \<and>
     flist_head fl' = flist_head fl \<and> flist_tail fl' = flist_tail fl \<and>
     flist_origin fl' = flist_origin fl \<and> flist_empty fl' = flist_empty fl \<and>
     (\<forall>j < flist_max_count fl. if j \<in> A then slot_blank fl' j else slot_same fl fl' j)"

lemma memput_const:
  assumes "memput xs i (replicate n c) = Some ys" "j < length xs"
  shows "ys ! j = (if i \<le> j \<and> j < i + n then c else xs ! j)"
  using memput_nth [OF assms] by (cases "i \<le> j \<and> j < i + n") auto

lemma clear_slots_ok:
  assumes sh: "fl_shape fl" and n: "i + n \<le> flist_max_count fl"
  shows "\<exists>fl'. clear_slots fl i n = Some fl' \<and> cleared fl {i ..< i + n} fl'"
proof -
  let ?m = "flist_max_count fl" and ?fs = "flist_frame_size fl"
  note D = fl_shapeD [OF sh]
  have off: "slot_off fl i = i * ?fs" using n by (simp add: slot_off_id [OF sh])
  have "n * ?fs < 2 ^ 32"
    using mult_le_mono1 [of n ?m ?fs] n D(11) by linarith
  from wrap32_small [OF this] have w: "wrap32 (int n * int ?fs) = n * ?fs" by simp
  obtain buf' where buf': "memput (flist_buffer fl) (i * ?fs) (replicate (n * ?fs) 0) = Some buf'"
    "length buf' = ?m * ?fs"
    "\<And>j. j < ?m \<Longrightarrow> blk ?fs buf' j = (if i \<le> j \<and> j < i + n then replicate ?fs 0 else blk ?fs (flist_buffer fl) j)"
    using memput_clear_blks [OF D(3) n, of 0] by metis
  obtain ty where ty: "memput (flist_frame_type fl) i (replicate n 0) = Some ty"
    using n D(4) by (simp add: memput_def)
  obtain ln where ln: "memput (flist_content_len fl) i (replicate n 0) = Some ln"
    using n D(5) by (simp add: memput_def)
  let ?fl' = "fl\<lparr>flist_buffer := buf', flist_frame_type := ty, flist_content_len := ln\<rparr>"
  have "clear_slots fl i n = Some ?fl'"
    unfolding clear_slots_def off w buf'(1) using ty ln by (simp add: PJMEDIA_JB_MISSING_FRAME_def)
  moreover have "cleared fl {i ..< i + n} ?fl'"
    unfolding cleared_def
  proof (intro conjI allI impI)
    show "same_areas fl ?fl'"
      using memput_length [OF ty] memput_length [OF ln] buf'(2) D(3) by (simp add: same_areas_def)
    fix j assume j: "j < ?m"
    have "ty ! j = (if i \<le> j \<and> j < i + n then 0 else flist_frame_type fl ! j)"
      "ln ! j = (if i \<le> j \<and> j < i + n then 0 else flist_content_len fl ! j)"
      using memput_const [OF ty, of j] memput_const [OF ln, of j] j D(4,5) by simp_all
    then show "if j \<in> {i ..< i + n} then slot_blank ?fl' j else slot_same fl ?fl' j"
      using buf'(3) [OF j] by (simp add: slot_blank_def slot_same_def PJMEDIA_JB_MISSING_FRAME_def)
  qed simp_all
  ultimately show ?thesis by blast
qed

lemma cleared_trans:
  assumes a: "cleared fl A fl1" and b: "cleared fl1 B fl2"
  shows "cleared fl (A \<union> B) fl2"
proof -
  have "if j \<in> A \<union> B then slot_blank fl2 j else slot_same fl fl2 j" if j: "j < flist_max_count fl" for j
  proof -
    have 1: "if j \<in> A then slot_blank fl1 j else slot_same fl fl1 j" using a j by (simp add: cleared_def)
    have 2: "if j \<in> B then slot_blank fl2 j else slot_same fl1 fl2 j"
      using a b j by (simp add: cleared_def same_areas_def)
    have fs: "flist_frame_size fl1 = flist_frame_size fl" "flist_frame_size fl2 = flist_frame_size fl"
      using a b by (simp_all add: cleared_def same_areas_def)
    show ?thesis
      using 1 2 by (auto simp: slot_same_def slot_blank_def fs split: if_splits)
  qed
  then show ?thesis using a b by (simp add: cleared_def same_areas_def)
qed

lemma cleared_size: "cleared fl A fl' \<Longrightarrow> jb_framelist_size fl' = jb_framelist_size fl"
  unfolding jb_framelist_size_def cleared_def same_areas_def by (elim conjE) (simp only:)

lemma cleared_shape:
  assumes "cleared fl A fl'" "fl_shape fl"
  shows "fl_shape fl'"
  using assms(2) unfolding fl_shape_def cleared_size [OF assms(1)]
  using assms(1) unfolding cleared_def same_areas_def by (elim conjE) (intro conjI; simp)

text \<open>The slots of the first \<open>c\<close> frames, which may wrap around the end of the ring.\<close>

lemma ring_range:
  assumes "flist_head fl < flist_max_count fl" "c \<le> flist_max_count fl"
  shows "ring fl ` {..<c} =
    (if flist_head fl + c > flist_max_count fl
     then {flist_head fl ..< flist_max_count fl} \<union> {0 ..< flist_head fl + c - flist_max_count fl}
     else {flist_head fl ..< flist_head fl + c})"
proof -
  let ?h = "flist_head fl" and ?m = "flist_max_count fl"
  have r: "ring fl k = (if ?h + k < ?m then ?h + k else ?h + k - ?m)" if "k < c" for k
    using that assms by (auto simp: ring_def mod_if)
  have E1: "i \<in> ring fl ` {..<c} \<longleftrightarrow> (\<exists>k<c. i = (if ?h + k < ?m then ?h + k else ?h + k - ?m))" for i
    using r by auto
  have E2: "(\<exists>k<c. i = (if ?h + k < ?m then ?h + k else ?h + k - ?m)) \<longleftrightarrow>
      (if ?h + c > ?m then ?h \<le> i \<and> i < ?m \<or> i < ?h + c - ?m else ?h \<le> i \<and> i < ?h + c)"
    (is "?L \<longleftrightarrow> ?R") for i
  proof
    assume ?R
    then consider "?h \<le> i" "i < ?h + c" "i < ?m" | "i < ?h + c - ?m" "i < ?h" using assms by (auto split: if_splits)
    then show ?L
    proof cases
      case 1
      then show ?thesis by (intro exI [of _ "i - ?h"]) auto
    next
      case 2
      then show ?thesis using assms by (intro exI [of _ "i + ?m - ?h"]) auto
    qed
  qed (use assms in \<open>auto split: if_splits\<close>)
  show ?thesis
  proof (rule set_eqI)
    fix i
    show "i \<in> ring fl ` {..<c} \<longleftrightarrow> i \<in> (if ?h + c > ?m then {?h ..< ?m} \<union> {0 ..< ?h + c - ?m} else {?h ..< ?h + c})"
      unfolding E1 E2 by simp
  qed
qed

lemma remove_head_correct:
  assumes inv: "fl_inv fl"
  shows "\<exists>fl'. jb_framelist_remove_head fl n = Some fl' \<and> fl_inv fl' \<and>
           frames fl' = drop n (frames fl) \<and>
           flist_origin fl' = flist_origin fl + min n (jb_framelist_size fl) \<and> same_areas fl fl' \<and>
           jb_framelist_size fl' = jb_framelist_size fl - n"
proof (cases "min n (jb_framelist_size fl) = 0")
  case True
  then have "jb_framelist_remove_head fl n = Some fl" "drop n (frames fl) = frames fl"
    "jb_framelist_size fl - n = jb_framelist_size fl"
    by (auto simp: jb_framelist_remove_head_def Let_def min_def frames_def split: if_splits)
  with inv True show ?thesis by (auto simp: same_areas_def)
next
  case False
  define c where "c = min n (jb_framelist_size fl)"
  let ?h = "flist_head fl" and ?m = "flist_max_count fl"
  note sh = fl_invD(1) [OF inv]
  note D = fl_shapeD [OF sh] and b = fl_size_bounds [OF sh]
  have c: "1 \<le> c" "c \<le> jb_framelist_size fl" "c \<le> ?m" using False b(1) by (auto simp: c_def)
  have cnt: "(if jb_framelist_size fl < n then jb_framelist_size fl else n) = c" by (simp add: c_def)
  have tmp: "wrap32 (int ?h + int c) = ?h + c"
    using wrap32_small [of "?h + c"] D(2,7) c by (simp add: jb_bound_def)
  have org: "wrap32 (int (flist_origin fl) + int c) = flist_origin fl + c"
    using wrap32_small [of "flist_origin fl + c"] D(10) c by (simp add: jb_bound_def)
  define s1 where "s1 = (if ?m < ?h + c then ?m - ?h else c)"
  define s2 where "s2 = (if ?m < ?h + c then c - s1 else 0)"
  have s: "?h + s1 \<le> ?m" "s2 \<le> ?m" using D(7) c by (auto simp: s1_def s2_def)
  have w1: "(if ?h + c > ?m then wrap32 (int ?m - int ?h) else c) = s1"
    using wrap32_small [of "?m - ?h"] D(2,7) by (auto simp: s1_def jb_bound_def of_nat_diff)
  have w2: "(if ?h + c > ?m then wrap32 (int c - int s1) else 0) = s2"
  proof -
    have "s1 \<le> c" "c - s1 < 2 ^ 32" using c D(2) by (auto simp: s1_def jb_bound_def)
    then show ?thesis using wrap32_small [of "c - s1"] by (simp add: s2_def of_nat_diff)
  qed
  obtain fl1 where fl1: "clear_slots fl ?h s1 = Some fl1" "cleared fl {?h ..< ?h + s1} fl1"
    using clear_slots_ok [OF sh s(1)] by blast
  have m1: "flist_max_count fl1 = ?m" using fl1(2) by (simp add: cleared_def same_areas_def)
  obtain fl2 where fl2: "(if s2 \<noteq> 0 then clear_slots fl1 0 s2 else Some fl1) = Some fl2"
    "cleared fl ({?h ..< ?h + s1} \<union> {0 ..< s2}) fl2"
  proof (cases "s2 = 0")
    case True
    then show thesis using that [of fl1] fl1(2) by simp
  next
    case False
    obtain fl2 where "clear_slots fl1 0 s2 = Some fl2" "cleared fl1 {0 ..< s2} fl2"
      using clear_slots_ok [OF cleared_shape [OF fl1(2) sh], of 0 s2] s(2) m1 by auto
    then show thesis using that [of fl2] cleared_trans [OF fl1(2)] False by simp
  qed
  have rr: "{?h ..< ?h + s1} \<union> {0 ..< s2} = ring fl ` {..<c}"
    unfolding ring_range [OF D(7) c(3)] s1_def s2_def using D(7) by auto
  note cl = fl2(2) [unfolded rr]
  have ptr2: "flist_head fl2 = ?h" "flist_tail fl2 = flist_tail fl" "flist_origin fl2 = flist_origin fl"
    "flist_empty fl2 = flist_empty fl" "flist_max_count fl2 = ?m"
    using cl by (simp_all add: cleared_def same_areas_def)
  define fl' where "fl' = fl2\<lparr>flist_origin := flist_origin fl + c, flist_head := ring fl c,
      flist_empty := (if ring fl c = flist_tail fl then True else flist_empty fl)\<rparr>"
  have run: "jb_framelist_remove_head fl n = Some fl'"
    unfolding jb_framelist_remove_head_def Let_def cnt tmp w1 w2 using c(1) fl1(1) fl2(1)
    by (simp add: tmp ptr2 org fl'_def ring_def)
  have areas: "same_areas fl fl'" using cl by (simp add: cleared_def same_areas_def fl'_def)
  have ptr: "flist_head fl' = ring fl c" "flist_tail fl' = flist_tail fl"
    "flist_origin fl' = flist_origin fl + c"
    "flist_empty fl' \<longleftrightarrow> ring fl c = flist_tail fl \<or> flist_empty fl"
    by (simp_all add: fl'_def ptr2)
  have blank: "slot_blank fl' (ring fl k)" if "k < c" for k
    using cl that ring_less [OF sh, of k] by (auto simp: cleared_def slot_blank_def fl'_def)
  have same: "slot_same fl fl' i" if "i < ?m" "\<forall>k<c. ring fl k \<noteq> i" for i
  proof -
    have "i \<notin> ring fl ` {..<c}" using that(2) by auto
    then have "slot_same fl fl2 i" using cl that(1) unfolding cleared_def by simp
    then show ?thesis by (simp add: slot_same_def fl'_def)
  qed
  have drop: "fl_inv fl'" "frames fl' = drop c (frames fl)" "jb_framelist_size fl' = jb_framelist_size fl - c"
    by (rule drop_frames [OF inv c(1,2) areas ptr], erule (1) same, erule blank)+
  have "drop c (frames fl) = drop n (frames fl)" "jb_framelist_size fl - c = jb_framelist_size fl - n"
    by (auto simp: c_def min_def)
  with run drop ptr(3) areas show ?thesis unfolding c_def by metis
qed

subsection \<open>Putting a frame in\<close>

lemma put_where_late:
  assumes sh: "fl_shape fl" and ne: "\<not> flist_empty fl" and i: "index < jb_bound"
    and out: "index < flist_origin fl \<or> flist_origin fl + flist_max_count fl \<le> index"
  shows "put_where fl index = None"
proof -
  note D = fl_shapeD [OF sh]
  have "wrap32 (int (flist_origin fl) + int (flist_max_count fl) - 1) = flist_origin fl + flist_max_count fl - 1"
    using wrap32_small [of "flist_origin fl + flist_max_count fl - 1"] D(1,2,10)
    by (simp add: jb_bound_def of_nat_diff)
  then show ?thesis using out ne D(1) by (auto simp: put_where_def)
qed

lemma put_where_in:
  assumes sh: "fl_shape fl" and ne: "\<not> flist_empty fl" and k: "k < flist_max_count fl"
    and i: "flist_origin fl + k < jb_bound"
  defines "n \<equiv> jb_framelist_size fl"
  shows "put_where fl (flist_origin fl + k) =
    Some (ring fl k, if n \<le> k then fl\<lparr>flist_tail := ring fl (k + 1)\<rparr> else fl)"
proof -
  let ?o = "flist_origin fl" and ?m = "flist_max_count fl"
  note D = fl_shapeD [OF sh] and b = fl_size_bounds [OF sh]
  have w1: "wrap32 (int ?o + int ?m - 1) = ?o + ?m - 1"
    using wrap32_small [of "?o + ?m - 1"] D(1,2,10) by (simp add: jb_bound_def of_nat_diff)
  have w2: "wrap32 (int (?o + k) - int ?o + int (flist_head fl)) mod ?m = ring fl k"
    using wrap32_small [of "k + flist_head fl"] k D(2,7) by (simp add: jb_bound_def ring_def add.commute)
  have w3: "wrap32 (int ?o + int n) = ?o + n"
    using wrap32_small [of "?o + n"] D(10) by (simp add: jb_bound_def n_def)
  have w4: "wrap32 (int (flist_tail fl) + (int (?o + k) - int (?o + n)) + 1) mod ?m = ring fl (k + 1)"
    if le: "n \<le> k"
  proof -
    have eq: "int (flist_tail fl) + (int (?o + k) - int (?o + n)) + 1 = int (flist_tail fl + (k - n) + 1)"
      using le by simp
    have "wrap32 (int (flist_tail fl + (k - n) + 1)) = flist_tail fl + (k - n) + 1"
      using wrap32_small [of "flist_tail fl + (k - n) + 1"] D(2,8) k by (simp add: jb_bound_def)
    moreover have "(flist_tail fl + (k - n) + 1) mod ?m = ring fl (k + 1)"
    proof -
      have "(flist_tail fl + (k - n + 1)) mod ?m = (flist_head fl + n + (k - n + 1)) mod ?m"
        unfolding b(3) ring_def n_def by (simp only: mod_add_left_eq)
      also have "flist_head fl + n + (k - n + 1) = flist_head fl + (k + 1)" using le by simp
      finally show ?thesis by (simp only: ring_def add.assoc)
    qed
    ultimately show ?thesis unfolding eq by (simp only:)
  qed
  show ?thesis
    using ne k w4 unfolding put_where_def n_def [symmetric] w1 w2 w3
    by (auto simp: Let_def)
qed

lemma put_where_empty:
  assumes sh: "fl_shape fl" and e: "flist_empty fl"
  shows "put_where fl index =
    Some (ring fl 0, fl\<lparr>flist_origin := index, flist_tail := ring fl 1, flist_empty := False\<rparr>)"
proof -
  note D = fl_shapeD [OF sh]
  have "wrap32 (int (flist_tail fl) + 1) = flist_tail fl + 1"
    using wrap32_small [of "flist_tail fl + 1"] D(2,8) by (simp add: jb_bound_def add.commute)
  then show ?thesis using e D(7,9) by (simp add: put_where_def ring_def)
qed

text \<open>Writing a frame to the slot of position \<open>k\<close>, with the tail moved behind it if it was not
  there yet.\<close>

lemma store_frame:
  assumes inv: "fl_inv fl" and k: "k < flist_max_count fl" and areas: "same_areas fl fl'"
    and ptr: "flist_head fl' = flist_head fl" "flist_tail fl' = ring fl (max (jb_framelist_size fl) (k + 1))"
      "flist_origin fl' + max (jb_framelist_size fl) (k + 1) \<le> jb_bound" "\<not> flist_empty fl'"
    and new: "slot_frame fl' (ring fl k) = Some f" "slot_ok fl' (ring fl k)"
    and same: "\<And>i. i < flist_max_count fl \<Longrightarrow> i \<noteq> ring fl k \<Longrightarrow> slot_same fl fl' i"
  shows "fl_inv fl'" "frames fl' = put_frames (frames fl) k f"
    "jb_framelist_size fl' = max (jb_framelist_size fl) (k + 1)"
proof -
  let ?m = "flist_max_count fl" and ?n = "jb_framelist_size fl"
  let ?n' = "max ?n (k + 1)"
  note sh = fl_invD(1) [OF inv]
  note D = fl_shapeD [OF sh] and b = fl_size_bounds [OF sh]
  have m: "flist_max_count fl' = ?m" "flist_frame_size fl' = flist_frame_size fl"
    using areas by (simp_all add: same_areas_def)
  have ring': "ring fl' = ring fl" by (rule ext) (simp add: ring_def ptr(1) m)
  have n': "1 \<le> ?n'" "?n' \<le> ?m" using b(1) k by auto
  show size': "jb_framelist_size fl' = ?n'"
    using fl_size_tail [of fl' ?n'] ptr(1,2,4) D(2,7) n' by (simp add: m ring')
  have miss: "slot_frame fl i = None" if "flist_frame_type fl ! i = PJMEDIA_JB_MISSING_FRAME" for i
    using that by (simp add: slot_frame_def)
  have slot: "slot_same fl fl' (ring fl j)" if "j < ?m" "j \<noteq> k" for j
    using that ring_inj [of fl j k] k same [OF ring_less [OF sh, of j]] by blast
  show "frames fl' = put_frames (frames fl) k f"
  proof (rule frames_eqI [OF size' [symmetric]])
    show "length (put_frames (frames fl) k f) = ?n'" by (simp add: put_frames_length)
    fix j assume j: "j < ?n'"
    show "put_frames (frames fl) k f ! j = slot_frame fl' (ring fl' j)"
    proof (cases "j = k")
      case True
      then show ?thesis using new(1) j by (simp add: put_frames_nth ring')
    next
      case False
      have "slot_frame fl' (ring fl j) = slot_frame fl (ring fl j)"
        using slot [OF _ False] j n'(2) slot_same_frame m(2) by (meson less_le_trans)
      moreover have "slot_frame fl (ring fl j) = None" if "?n \<le> j"
        using that fl_invD(3) [OF inv that] j n'(2) miss by (meson less_le_trans)
      ultimately show ?thesis using False j by (auto simp: put_frames_nth ring' frames_nth not_less)
    qed
  qed
  have ok: "slot_ok fl' i" if "i < ?m" for i
    using that same [OF that] slot_same_ok [of fl fl' i] new(2) fl_invD(2) [OF inv that] m(2)
    by (cases "i = ring fl k") auto
  have out: "flist_frame_type fl' ! ring fl' j = PJMEDIA_JB_MISSING_FRAME" if j: "?n' \<le> j" "j < ?m" for j
  proof -
    have "j \<noteq> k" using j by simp
    from slot [OF j(2) this] fl_invD(3) [OF inv _ j(2)] j(1) show ?thesis by (simp add: slot_same_def ring')
  qed
  have "flist_tail fl' < ?m" unfolding ptr(2) by (rule ring_less [OF sh])
  then have "fl_shape fl'"
    using sh areas ptr size' unfolding fl_shape_def same_areas_def by simp
  with ok out show "fl_inv fl'" by (simp add: fl_inv_def m size')
qed

text \<open>Writing the frame into the areas.\<close>

lemma store_bytes:
  assumes sh: "fl_shape fl" and w: "w < flist_max_count fl" and sz: "sz \<le> flist_frame_size fl" "sz \<le> length frame"
    and sh1: "slot_off fl1 w = slot_off fl w" "flist_buffer fl1 = flist_buffer fl"
      "flist_frame_type fl1 = flist_frame_type fl" "flist_content_len fl1 = flist_content_len fl"
      "flist_bit_info fl1 = flist_bit_info fl" "flist_max_count fl1 = flist_max_count fl"
      "flist_frame_size fl1 = flist_frame_size fl"
    and pw: "put_where fl index = Some (w, fl1)"
  shows "\<exists>fl'. jb_framelist_put_at fl index frame sz bits = Some (True, fl') \<and> same_areas fl fl' \<and>
           flist_head fl' = flist_head fl1 \<and> flist_tail fl' = flist_tail fl1 \<and>
           flist_origin fl' = flist_origin fl1 \<and> flist_empty fl' = flist_empty fl1 \<and>
           slot_frame fl' w = Some (take sz frame, bits) \<and> slot_ok fl' w \<and>
           (\<forall>i < flist_max_count fl. i \<noteq> w \<longrightarrow> slot_same fl fl' i)"
proof -
  let ?m = "flist_max_count fl" and ?fs = "flist_frame_size fl" and ?bs = "take sz frame"
  note D = fl_shapeD [OF sh]
  have bs: "length ?bs \<le> ?fs" "length ?bs = sz" using sz by simp_all
  obtain buf' where buf': "memput (flist_buffer fl) (w * ?fs) ?bs = Some buf'"
    "length buf' = ?m * ?fs" "blk ?fs buf' w = ?bs @ drop (length ?bs) (blk ?fs (flist_buffer fl) w)"
    "\<And>j. j < ?m \<Longrightarrow> j \<noteq> w \<Longrightarrow> blk ?fs buf' j = blk ?fs (flist_buffer fl) j"
    using memput_blk [OF D(3) w bs(1)] by metis
  define fl' where "fl' = fl1\<lparr>flist_buffer := buf',
      flist_frame_type := (flist_frame_type fl)[w := PJMEDIA_JB_NORMAL_FRAME],
      flist_content_len := (flist_content_len fl)[w := sz], flist_bit_info := (flist_bit_info fl)[w := bits]\<rparr>"
  have off: "slot_off fl1 w = w * ?fs" using w by (simp add: sh1(1) slot_off_id [OF sh])
  have "jb_framelist_put_at fl index frame sz bits = Some (True, fl')"
    unfolding jb_framelist_put_at_def pw using sz(2) buf'(1) w D(4-6)
    by (simp add: memget_def off sh1 wr_Some fl'_def)
  moreover have "same_areas fl fl'" using buf'(2) D(3) by (simp add: same_areas_def fl'_def sh1)
  moreover have "slot_frame fl' w = Some (?bs, bits)"
    using w D(4-6) buf'(3) bs(2) by (simp add: slot_frame_def fl'_def sh1)
  moreover have "slot_ok fl' w" using w D(4,5) sz(1) by (simp add: slot_ok_def fl'_def sh1)
  moreover have "slot_same fl fl' i" if "i < ?m" "i \<noteq> w" for i
    using buf'(4) [OF that] that(2) by (simp add: slot_same_def fl'_def)
  moreover have "flist_head fl' = flist_head fl1" "flist_tail fl' = flist_tail fl1"
    "flist_origin fl' = flist_origin fl1" "flist_empty fl' = flist_empty fl1" by (simp_all add: fl'_def)
  ultimately show ?thesis by blast
qed

lemma put_at_rejects:
  assumes sh: "fl_shape fl" and i: "index < jb_bound"
    and out: "\<not> accepts (flist_max_count fl) (flist_origin fl) (frames fl) index"
  shows "jb_framelist_put_at fl index frame sz bits = Some (False, fl)"
proof -
  have "frames fl \<noteq> []" using out by (simp add: accepts_def)
  then have "jb_framelist_size fl \<noteq> 0" by (metis frames_length length_0_conv)
  then have "\<not> flist_empty fl" using fl_size_bounds(2) [OF sh] by simp
  moreover have "index < flist_origin fl \<or> flist_origin fl + flist_max_count fl \<le> index"
    using out by (auto simp: accepts_def)
  ultimately show ?thesis using put_where_late [OF sh _ i] by (simp add: jb_framelist_put_at_def)
qed

lemma put_at_accepts:
  assumes inv: "fl_inv fl" and i: "index < jb_bound" and sz: "sz \<le> flist_frame_size fl" "sz \<le> length frame"
    and acc: "accepts (flist_max_count fl) (flist_origin fl) (frames fl) index"
  shows "\<exists>fl'. jb_framelist_put_at fl index frame sz bits = Some (True, fl') \<and> fl_inv fl' \<and>
           same_areas fl fl' \<and> flist_origin fl' = (if frames fl = [] then index else flist_origin fl) \<and>
           frames fl' = put_frames (frames fl) (if frames fl = [] then 0 else index - flist_origin fl)
                          (take sz frame, bits)"
proof (cases "frames fl = []")
  case True
  then have n: "jb_framelist_size fl = 0" by (metis frames_length list.size(3))
  note sh = fl_invD(1) [OF inv]
  have e: "flist_empty fl" using n fl_size_bounds(2) [OF sh] by simp
  let ?fl1 = "fl\<lparr>flist_origin := index, flist_tail := ring fl 1, flist_empty := False\<rparr>"
  obtain fl' where fl': "jb_framelist_put_at fl index frame sz bits = Some (True, fl')" "same_areas fl fl'"
      "flist_head fl' = flist_head fl" "flist_tail fl' = ring fl 1" "flist_origin fl' = index" "\<not> flist_empty fl'"
      "slot_frame fl' (ring fl 0) = Some (take sz frame, bits)" "slot_ok fl' (ring fl 0)"
      "\<And>i. i < flist_max_count fl \<Longrightarrow> i \<noteq> ring fl 0 \<Longrightarrow> slot_same fl fl' i"
    using store_bytes [OF sh ring_less [OF sh] sz _ _ _ _ _ _ _ put_where_empty [OF sh e], of index bits]
    by (auto simp: slot_off_def)
  have "fl_inv fl'" "frames fl' = put_frames (frames fl) 0 (take sz frame, bits)"
    by (rule store_frame [OF inv fl_shapeD(1) [OF sh] fl'(2,3) _ _ fl'(6,7,8) fl'(9)];
        use fl'(4,5) n i in simp)+
  with True fl' show ?thesis by auto
next
  case False
  then have "jb_framelist_size fl \<noteq> 0" by (metis frames_length length_0_conv)
  note sh = fl_invD(1) [OF inv]
  have ne: "\<not> flist_empty fl" using \<open>jb_framelist_size fl \<noteq> 0\<close> fl_size_bounds(2) [OF sh] by simp
  obtain k where k: "index = flist_origin fl + k" "k < flist_max_count fl"
    using acc False by (auto simp: accepts_def dest!: le_Suc_ex)
  let ?n = "jb_framelist_size fl"
  let ?fl1 = "if ?n \<le> k then fl\<lparr>flist_tail := ring fl (k + 1)\<rparr> else fl"
  have t1: "flist_tail ?fl1 = ring fl (max ?n (k + 1))"
    using fl_size_bounds(3) [OF sh] by (cases "?n \<le> k") (simp_all add: max_absorb1 max_absorb2)
  obtain fl' where fl': "jb_framelist_put_at fl index frame sz bits = Some (True, fl')" "same_areas fl fl'"
      "flist_head fl' = flist_head fl" "flist_tail fl' = flist_tail ?fl1" "flist_origin fl' = flist_origin fl"
      "\<not> flist_empty fl'"
      "slot_frame fl' (ring fl k) = Some (take sz frame, bits)" "slot_ok fl' (ring fl k)"
      "\<And>i. i < flist_max_count fl \<Longrightarrow> i \<noteq> ring fl k \<Longrightarrow> slot_same fl fl' i"
  proof -
    have s1: "slot_off ?fl1 (ring fl k) = slot_off fl (ring fl k)" "flist_buffer ?fl1 = flist_buffer fl"
      "flist_frame_type ?fl1 = flist_frame_type fl" "flist_content_len ?fl1 = flist_content_len fl"
      "flist_bit_info ?fl1 = flist_bit_info fl" "flist_max_count ?fl1 = flist_max_count fl"
      "flist_frame_size ?fl1 = flist_frame_size fl" by (simp_all add: slot_off_def)
    have p1: "flist_head ?fl1 = flist_head fl" "flist_origin ?fl1 = flist_origin fl" "\<not> flist_empty ?fl1"
      using ne by simp_all
    note pw = put_where_in [OF sh ne k(2) i [unfolded k(1)], folded k(1)]
    show thesis using store_bytes [OF sh ring_less [OF sh] sz s1 pw, of bits] p1 that by metis
  qed
  have "fl_inv fl'" "frames fl' = put_frames (frames fl) k (take sz frame, bits)"
    by (rule store_frame [OF inv k(2) fl'(2,3) _ _ fl'(6,7,8) fl'(9)];
        use fl'(4,5) t1 i k(1) fl_shapeD(10) [OF sh] in simp)+
  with False fl' k show ?thesis by auto
qed

lemma init_correct:
  assumes "0 < m" "m < jb_bound" "m * fs < 2 ^ 32"
  shows "fl_inv (jb_framelist_init fs m)" "frames (jb_framelist_init fs m) = []"
proof -
  let ?fl = "jb_framelist_init fs m"
  have w: "wrap32 (int fs * int m) = m * fs" using wrap32_small [OF assms(3)] by (simp add: mult.commute)
  have size: "jb_framelist_size ?fl = 0" by (simp add: jb_framelist_size_def jb_framelist_init_def)
  then show "frames ?fl = []" by (simp add: frames_def)
  have "fl_shape ?fl"
    using assms unfolding fl_shape_def size by (simp add: jb_framelist_init_def w)
  moreover have "slot_ok ?fl i" if "i < m" for i
    using that slot_bound [OF that, of fs]
    by (simp add: slot_ok_def jb_framelist_init_def PJMEDIA_JB_MISSING_FRAME_def w blk_def)
  moreover have "flist_frame_type ?fl ! ring ?fl k = PJMEDIA_JB_MISSING_FRAME" for k
    using assms(1) by (simp add: jb_framelist_init_def ring_def PJMEDIA_JB_MISSING_FRAME_def)
  ultimately show "fl_inv ?fl" by (simp add: fl_inv_def) (simp add: jb_framelist_init_def)
qed

subsection \<open>The frame list is a frame window\<close>

definition fl_win :: "jb_framelist_t \<Rightarrow> frame window" where
  "fl_win fl = (flist_origin fl, frames fl)"

text \<open>What is put: a source area, how many bytes of it are the frame, and the bit info.\<close>

type_synonym source = "u8 list \<times> nat \<times> u32"

fun fl_put :: "jb_framelist_t \<Rightarrow> nat \<Rightarrow> source \<Rightarrow> (bool \<times> jb_framelist_t) option" where
  "fl_put fl i (frame, sz, bits) = jb_framelist_put_at fl i frame sz bits"

fun fl_val :: "source \<Rightarrow> frame" where
  "fl_val (frame, sz, bits) = (take sz frame, bits)"

fun fl_ok :: "nat \<Rightarrow> nat \<Rightarrow> source \<Rightarrow> bool" where
  "fl_ok fs i (frame, sz, bits) \<longleftrightarrow> i < jb_bound \<and> sz \<le> fs \<and> sz \<le> length frame"

text \<open>A sound frame list of \<open>m\<close> slots of \<open>fs\<close> bytes.\<close>

definition fl_geom :: "nat \<Rightarrow> nat \<Rightarrow> jb_framelist_t \<Rightarrow> bool" where
  "fl_geom m fs fl \<longleftrightarrow> fl_inv fl \<and> flist_max_count fl = m \<and> flist_frame_size fl = fs"

lemma fl_geom_areas: "fl_geom m fs fl \<Longrightarrow> fl_inv fl' \<Longrightarrow> same_areas fl fl' \<Longrightarrow> fl_geom m fs fl'"
  by (simp add: fl_geom_def same_areas_def)

lemma fl_put_law:
  assumes geom: "fl_geom m fs fl" and ok: "fl_ok fs i g"
  shows "\<exists>fl'. fl_put fl i g = Some (fst (win_put m i (fl_val g) (fl_win fl)), fl') \<and>
           fl_geom m fs fl' \<and> fl_win fl' = snd (win_put m i (fl_val g) (fl_win fl))"
proof -
  have inv: "fl_inv fl" "flist_max_count fl = m" "flist_frame_size fl = fs" using geom by (simp_all add: fl_geom_def)
  obtain frame sz bits where g: "g = (frame, sz, bits)" by (cases g)
  show ?thesis
  proof (cases "accepts m (flist_origin fl) (frames fl) i")
    case True
    obtain fl' where fl': "jb_framelist_put_at fl i frame sz bits = Some (True, fl')" "fl_inv fl'"
      "same_areas fl fl'" "flist_origin fl' = (if frames fl = [] then i else flist_origin fl)"
      "frames fl' = put_frames (frames fl) (if frames fl = [] then 0 else i - flist_origin fl) (take sz frame, bits)"
      using put_at_accepts [OF inv(1), of i sz frame bits] True ok g inv(2,3) by auto
    then have "fl_win fl' = snd (win_put m i (fl_val g) (fl_win fl))"
      using True by (cases "frames fl = []") (simp_all add: fl_win_def g put_frames_def del: frames_length)
    with fl' True fl_geom_areas [OF geom fl'(2,3)] show ?thesis by (simp add: g fl_win_def)
  next
    case False
    with put_at_rejects [OF fl_invD(1) [OF inv(1)]] geom ok g inv(2) show ?thesis by (simp add: fl_win_def)
  qed
qed

lemma fl_get_law:
  assumes geom: "fl_geom m fs fl"
  shows "\<exists>r fl'. jb_framelist_get fl = Some (r, fl') \<and> map_option frame_of r = fst (win_get (fl_win fl)) \<and>
           fl_geom m fs fl' \<and> fl_win fl' = snd (win_get (fl_win fl))"
proof (cases "flist_empty fl")
  case True
  have "fl_inv fl" using geom by (simp add: fl_geom_def)
  then have "frames fl = []" using True fl_size_bounds(2) [OF fl_invD(1)] by (simp add: frames_def)
  with geom True show ?thesis by (simp add: get_empty fl_win_def)
next
  case False
  have inv: "fl_inv fl" using geom by (simp add: fl_geom_def)
  obtain f fl' where "jb_framelist_get fl = Some (Some f, fl')" "fl_inv fl'" "frames fl = frame_of f # frames fl'"
    "flist_origin fl' = flist_origin fl + 1" "same_areas fl fl'"
    using get_correct [OF inv False] by blast
  with fl_geom_areas [OF geom] show ?thesis
    by (intro exI [of _ "Some f"] exI [of _ fl']) (simp add: fl_win_def)
qed

lemma fl_del_law:
  assumes geom: "fl_geom m fs fl"
  shows "\<exists>fl'. jb_framelist_remove_head fl n = Some fl' \<and> fl_geom m fs fl' \<and> fl_win fl' = win_del n (fl_win fl)"
proof -
  have inv: "fl_inv fl" using geom by (simp add: fl_geom_def)
  obtain fl' where "jb_framelist_remove_head fl n = Some fl'" "fl_inv fl'" "frames fl' = drop n (frames fl)"
    "flist_origin fl' = flist_origin fl + min n (jb_framelist_size fl)" "same_areas fl fl'"
    using remove_head_correct [OF inv] by blast
  with fl_geom_areas [OF geom] show ?thesis by (simp add: fl_win_def)
qed

interpretation jb_window: frame_window "fl_geom m fs" m fl_win fl_put jb_framelist_get
    jb_framelist_remove_head frame_of fl_val "fl_ok fs" for m fs
  by unfold_locales (rule fl_put_law fl_get_law fl_del_law; assumption)+

text \<open>
  C2: The frame list refines a window of frames. From \<open>jb_framelist_init\<close> on, any sequence of
  \<open>jb_framelist_put_at\<close>, \<open>jb_framelist_get\<close> and \<open>jb_framelist_remove_head\<close> calls with frames
  that fit their source and a slot, and sequence numbers of an \<open>int\<close>, runs without an access
  outside the four areas, and returns what the same calls return on the abstract window: a
  frame is taken exactly if its number lies in the window (or the list is empty), a gap reads
  as missing frames, a frame comes out with the bytes and the bit info it was put with, and
  frames come out in the order of their numbers.
\<close>

theorem framelist_refines_window:
  assumes "0 < m" "m < jb_bound" "m * fs < 2 ^ 32"
    and "\<forall>c \<in> set cs. call_ok (fl_ok fs) c"
  shows "\<exists>fl. run_calls fl_put jb_framelist_get jb_framelist_remove_head frame_of cs (jb_framelist_init fs m)
                = Some (fst (spec_calls m fl_val cs (0, [])), fl) \<and>
              fl_inv fl \<and> (flist_origin fl, frames fl) = snd (spec_calls m fl_val cs (0, []))"
proof -
  have init: "fl_win (jb_framelist_init fs m) = (0, [])" "fl_geom m fs (jb_framelist_init fs m)"
    using init_correct [OF assms(1-3)] by (simp_all add: fl_win_def fl_geom_def) (simp_all add: jb_framelist_init_def)
  from jb_window.calls_refine [OF init(2) assms(4)] show ?thesis
    unfolding init(1) by (auto simp: fl_win_def fl_geom_def)
qed

theorem framelist_refines_window_witness:
  "\<exists>fl. run_calls fl_put jb_framelist_get jb_framelist_remove_head frame_of
     [Put_frame 7 ([1, 2], 2, 5), Put_frame 9 ([3], 1, 6), Put_frame 4 ([8], 1, 0), Get_frame, Get_frame, Get_frame, Get_frame]
     (jb_framelist_init 2 3) =
       Some ([Put_result True, Put_result True, Put_result False, Get_result (Some (Some ([1, 2], 5))),
              Get_result (Some None), Get_result (Some (Some ([3], 6))), Get_result None], fl)"
  using framelist_refines_window [of 3 2
      "[Put_frame 7 ([1, 2], 2, 5), Put_frame 9 ([3], 1, 6), Put_frame 4 ([8], 1, 0),
        Get_frame, Get_frame, Get_frame, Get_frame]"]
  by (auto simp: jb_bound_def jb_framelist_init_def accepts_def put_frames_def)

end
