(* ===== verification/Media_Jbuf.thy ===== *)
theory Media_Jbuf
  imports Media_Framelist_Spec Pj_Math
begin

text \<open>
  The adaptive jitter buffer (\<^verbatim>\<open>pjmedia/src/pjmedia/jbuf.c\<close>): the buffer itself, on top of the
  frame list. \<open>None\<close> is an access outside an area, a division by zero or a loop that does not
  end. Signed fields are unbounded integers.
\<close>

subsection \<open>The model\<close>

datatype pjmedia_jb_op = JB_OP_INIT | JB_OP_PUT | JB_OP_GET

datatype jb_status_t = JB_STATUS_INITIALIZING | JB_STATUS_PROCESSING | JB_STATUS_PREFETCHING

record pjmedia_jbuf =
  jb_name :: string
  jb_framelist :: jb_framelist_t
  jb_frame_size :: nat
  jb_frame_ptime :: nat
  jb_max_count :: nat
  jb_level :: int
  jb_max_hist_level :: int
  jb_stable_hist :: int
  jb_last_op :: pjmedia_jb_op
  jb_last_seq_no :: int
  jb_prefetch :: int
  jb_prefetch_cnt :: int
  jb_def_prefetch :: int
  jb_min_prefetch :: int
  jb_max_prefetch :: int
  jb_status :: jb_status_t
  jb_delay :: pj_math_stat
  jb_last_del_seq :: nat
  jb_min_shrink_gap :: nat

definition SAFE_SHRINKING_DIFF :: int where "SAFE_SHRINKING_DIFF = 1"
definition MIN_SHRINK_GAP_MSEC :: nat where "MIN_SHRINK_GAP_MSEC = 200"
definition PJMEDIA_JB_DEFAULT_INIT_DELAY :: nat where "PJMEDIA_JB_DEFAULT_INIT_DELAY = 15"

text \<open>Fields that the function does not set are 0 from the pool.\<close>

definition pjmedia_jbuf_create :: "string \<Rightarrow> nat \<Rightarrow> nat \<Rightarrow> nat \<Rightarrow> pjmedia_jbuf option" where
  "pjmedia_jbuf_create nm frame_size ptime max_count =
     (if ptime = 0 then None else Some
      \<lparr>jb_name = nm,
       jb_framelist = jb_framelist_init frame_size max_count,
       jb_frame_size = frame_size,
       jb_frame_ptime = ptime,
       jb_max_count = max_count,
       jb_level = 0,
       jb_max_hist_level = 0,
       jb_stable_hist = 0,
       jb_last_op = JB_OP_INIT,
       jb_last_seq_no = -1,
       jb_prefetch = int (if PJMEDIA_JB_DEFAULT_INIT_DELAY < wrap32 (int max_count * 4) div 5
                          then PJMEDIA_JB_DEFAULT_INIT_DELAY else wrap32 (int max_count * 4) div 5),
       jb_prefetch_cnt = 0,
       jb_def_prefetch = 0,
       jb_min_prefetch = 0,
       jb_max_prefetch = int (wrap32 (int max_count * 4) div 5),
       jb_status = JB_STATUS_INITIALIZING,
       jb_delay = pj_math_stat_init,
       jb_last_del_seq = 0,
       jb_min_shrink_gap = MIN_SHRINK_GAP_MSEC div ptime\<rparr>)"

definition pjmedia_jbuf_set_fixed :: "pjmedia_jbuf \<Rightarrow> nat \<Rightarrow> pj_status \<times> pjmedia_jbuf" where
  "pjmedia_jbuf_set_fixed jb prefetch =
     (if \<not> prefetch \<le> jb_max_count jb then (PJ_EINVAL, jb)
      else (PJ_SUCCESS, jb\<lparr>jb_min_prefetch := int prefetch, jb_max_prefetch := int prefetch,
                           jb_prefetch := int prefetch, jb_def_prefetch := int prefetch\<rparr>))"

definition pjmedia_jbuf_set_adaptive ::
  "pjmedia_jbuf \<Rightarrow> nat \<Rightarrow> nat \<Rightarrow> nat \<Rightarrow> pj_status \<times> pjmedia_jbuf" where
  "pjmedia_jbuf_set_adaptive jb prefetch min_prefetch max_prefetch =
     (if \<not> (min_prefetch < max_prefetch \<and> prefetch \<le> max_prefetch \<and> max_prefetch \<le> jb_max_count jb)
      then (PJ_EINVAL, jb)
      else (PJ_SUCCESS, jb\<lparr>jb_prefetch := int prefetch, jb_def_prefetch := int prefetch,
                           jb_min_prefetch := int min_prefetch, jb_max_prefetch := int max_prefetch\<rparr>))"

definition pjmedia_jbuf_reset :: "pjmedia_jbuf \<Rightarrow> (pj_status \<times> pjmedia_jbuf) option" where
  "pjmedia_jbuf_reset jb = do {
     let jb1 = jb\<lparr>jb_last_seq_no := -1, jb_level := 0, jb_last_op := JB_OP_INIT,
                  jb_prefetch_cnt := 0, jb_stable_hist := 0, jb_status := JB_STATUS_INITIALIZING,
                  jb_max_hist_level := 0\<rparr>;
     fl \<leftarrow> jb_framelist_remove_head (jb_framelist jb1) (jb_framelist_size (jb_framelist jb1));
     Some (PJ_SUCCESS, jb1\<lparr>jb_framelist := fl, jb_delay := pj_math_stat_init\<rparr>)
   }"

text \<open>Nothing to free: the memory belongs to the pool.\<close>

definition jb_framelist_destroy :: "jb_framelist_t \<Rightarrow> pj_status" where
  "jb_framelist_destroy fl = PJ_SUCCESS"

definition pjmedia_jbuf_destroy :: "pjmedia_jbuf \<Rightarrow> pj_status" where
  "pjmedia_jbuf_destroy jb = jb_framelist_destroy (jb_framelist jb)"

definition STABLE_HISTORY_LIMIT :: int where "STABLE_HISTORY_LIMIT = 100"

text \<open>The first part of \<open>jbuf_calculate_jitter\<close>: adapt the prefetch to the level reached by the
  puts since the last get.\<close>

definition jbuf_adapt_prefetch :: "pjmedia_jbuf \<Rightarrow> pjmedia_jbuf" where
  "jbuf_adapt_prefetch jb0 =
     (let jb = jb0\<lparr>jb_max_hist_level := (if jb_max_hist_level jb0 > jb_level jb0
                                         then jb_max_hist_level jb0 else jb_level jb0)\<rparr>
      in if jb_level jb < jb_prefetch jb then
           let jb1 = jb\<lparr>jb_stable_hist := jb_stable_hist jb + 1\<rparr>
           in if jb_stable_hist jb1 > STABLE_HISTORY_LIMIT then
                let d = cdiv (jb_prefetch jb1 - jb_max_hist_level jb1) 3;
                    diff = (if d < 1 then 1 else d);
                    pre = jb_prefetch jb1 - diff
                in jb1\<lparr>jb_max_hist_level := jb_prefetch jb1,
                       jb_prefetch := (if pre < jb_min_prefetch jb1 then jb_min_prefetch jb1 else pre),
                       jb_stable_hist := 0\<rparr>
              else jb1
         else if jb_level jb > jb_prefetch jb then
           let cap = int (wrap32 (int (jb_max_count jb) * 4) div 5);
               pre = (if jb_max_hist_level jb < cap then jb_max_hist_level jb else cap)
           in jb\<lparr>jb_prefetch := (if pre > jb_max_prefetch jb then jb_max_prefetch jb else pre),
                 jb_stable_hist := 0\<rparr>
         else jb\<lparr>jb_stable_hist := 0\<rparr>)"

definition jbuf_calculate_jitter :: "pjmedia_jbuf \<Rightarrow> pjmedia_jbuf option" where
  "jbuf_calculate_jitter jb0 =
     (let cur_size = int (jb_framelist_size (jb_framelist jb0));
          jb = (if jb_last_op jb0 = JB_OP_PUT then jbuf_adapt_prefetch jb0 else jb0);
          diff = cur_size - jb_max_hist_level jb
      in if diff > SAFE_SHRINKING_DIFF \<and>
            wrap32 (int (flist_origin (jb_framelist jb)) - int (jb_last_del_seq jb)) > jb_min_shrink_gap jb
         then do {
           fl \<leftarrow> jb_framelist_remove_head (jb_framelist jb) 1;
           Some (jb\<lparr>jb_framelist := fl, jb_last_del_seq := flist_origin fl,
                    jb_delay := pj_math_stat_update (jb_delay jb) (cur_size - 1), jb_level := 0\<rparr>)
         }
         else Some (jb\<lparr>jb_delay := pj_math_stat_update (jb_delay jb) cur_size, jb_level := 0\<rparr>))"

definition jbuf_update :: "pjmedia_jbuf \<Rightarrow> pjmedia_jb_op \<Rightarrow> pjmedia_jbuf option" where
  "jbuf_update jb oper =
     (if jb_last_op jb \<noteq> oper then do { jb1 \<leftarrow> jbuf_calculate_jitter jb; Some (jb1\<lparr>jb_last_op := oper\<rparr>) }
      else Some jb)"

text \<open>The first part of \<open>pjmedia_jbuf_put_frame2\<close>: the difference to the highest sequence number
  so far, and the state with the number, the level and the delay updated.\<close>

definition jbuf_put_enter :: "pjmedia_jbuf \<Rightarrow> int \<Rightarrow> (int \<times> pjmedia_jbuf) option" where
  "jbuf_put_enter jb0 frame_seq = do {
     let jb1 = (if jb_last_seq_no jb0 = -1 then jb0\<lparr>jb_last_seq_no := frame_seq - 1\<rparr> else jb0);
     let seq_diff = frame_seq - jb_last_seq_no jb1;
     let jb2 = jb1\<lparr>jb_last_seq_no := (if jb_last_seq_no jb1 > frame_seq then jb_last_seq_no jb1 else frame_seq),
                   jb_level := (if seq_diff > 0 then jb_level jb1 + seq_diff else jb_level jb1)\<rparr>;
     jb3 \<leftarrow> (if jb_status jb2 = JB_STATUS_INITIALIZING
            then Some (jb2\<lparr>jb_status := JB_STATUS_PROCESSING, jb_level := 0\<rparr>)
            else jbuf_update jb2 JB_OP_PUT);
     Some (seq_diff, jb3)
   }"

text \<open>Counting a new frame towards the prefetch.\<close>

definition jbuf_count_prefetch :: "pjmedia_jbuf \<Rightarrow> int \<Rightarrow> pjmedia_jbuf" where
  "jbuf_count_prefetch jb seq_diff =
     (if jb_prefetch_cnt jb < jb_prefetch jb then
        let jb1 = jb\<lparr>jb_prefetch_cnt := jb_prefetch_cnt jb + seq_diff\<rparr>
        in if jb_status jb1 = JB_STATUS_PREFETCHING \<and> jb_prefetch_cnt jb1 \<ge> jb_prefetch jb1
           then jb1\<lparr>jb_status := JB_STATUS_PROCESSING\<rparr> else jb1
      else jb)"

text \<open>\<open>frame\<close> is the area that the frame pointer points to. The sequence number, an \<open>int\<close>, is
  converted to \<open>unsigned\<close> when it is passed to the frame list. The result is the value of
  \<open>*discarded\<close> and the buffer.\<close>

definition pjmedia_jbuf_put_frame2 ::
  "pjmedia_jbuf \<Rightarrow> u8 list \<Rightarrow> nat \<Rightarrow> u32 \<Rightarrow> int \<Rightarrow> (bool \<times> pjmedia_jbuf) option" where
  "pjmedia_jbuf_put_frame2 jb frame frame_size bit_info frame_seq = do {
     (seq_diff, jb3) \<leftarrow> jbuf_put_enter jb frame_seq;
     let min_frame_size = (if frame_size < jb_frame_size jb3 then frame_size else jb_frame_size jb3);
     if seq_diff > 0 then do {
       fl \<leftarrow> put_retry fl_put jb_framelist_remove_head
              (if jb_max_count jb3 div 4 > 1 then jb_max_count jb3 div 4 else 1)
              (wrap32 frame_seq) (frame, min_frame_size, bit_info) (jb_framelist jb3);
       Some (False, jbuf_count_prefetch (jb3\<lparr>jb_framelist := fl\<rparr>) seq_diff)
     }
     else do {
       (res, fl) \<leftarrow> jb_framelist_put_at (jb_framelist jb3) (wrap32 frame_seq) frame min_frame_size bit_info;
       Some (\<not> res, jb3\<lparr>jb_framelist := fl\<rparr>)
     }
   }"

definition pjmedia_jbuf_put_frame ::
  "pjmedia_jbuf \<Rightarrow> u8 list \<Rightarrow> nat \<Rightarrow> int \<Rightarrow> pjmedia_jbuf option" where
  "pjmedia_jbuf_put_frame jb frame frame_size frame_seq =
     map_option snd (pjmedia_jbuf_put_frame2 jb frame frame_size 0 frame_seq)"

text \<open>The result: the bytes written to the frame area, the frame type, the size and the bit info
  (\<open>None\<close> where it is not written).\<close>

type_synonym jb_result = "u8 list \<times> int \<times> nat \<times> u32 option"

definition pjmedia_jbuf_get_frame2 :: "pjmedia_jbuf \<Rightarrow> (jb_result \<times> pjmedia_jbuf) option" where
  "pjmedia_jbuf_get_frame2 jb0 = do {
     jb1 \<leftarrow> jbuf_update (jb0\<lparr>jb_level := jb_level jb0 + 1\<rparr>) JB_OP_GET;
     let jb2 = (if jb_framelist_size (jb_framelist jb1) = 0
                then let jb' = jb1\<lparr>jb_prefetch_cnt := 0\<rparr>
                     in if jb_def_prefetch jb' \<noteq> 0 then jb'\<lparr>jb_status := JB_STATUS_PREFETCHING\<rparr> else jb'
                else jb1);
     if jb_status jb2 = JB_STATUS_PREFETCHING \<and> jb_prefetch_cnt jb2 < jb_prefetch jb2
     then Some ((replicate (jb_frame_size jb2) 0,
                 (if jb_framelist_size (jb_framelist jb2) = 0 then PJMEDIA_JB_ZERO_EMPTY_FRAME
                  else PJMEDIA_JB_ZERO_PREFETCH_FRAME), 0, None), jb2)
     else do {
       (r, fl) \<leftarrow> jb_framelist_get (jb_framelist jb2);
       let jb3 = jb2\<lparr>jb_framelist := fl\<rparr>;
       case r of
         None \<Rightarrow> Some ((replicate (jb_frame_size jb3) 0, PJMEDIA_JB_ZERO_EMPTY_FRAME, 0, None), jb3)
       | Some (bytes, ftype, clen, bits) \<Rightarrow>
           Some ((bytes, if ftype = PJMEDIA_JB_NORMAL_FRAME then PJMEDIA_JB_NORMAL_FRAME
                         else PJMEDIA_JB_MISSING_FRAME, clen, Some bits), jb3)
     }
   }"

text \<open>A caller of \<open>pjmedia_jbuf_get_frame\<close> gets the bytes and the type only.\<close>

definition pjmedia_jbuf_get_frame :: "pjmedia_jbuf \<Rightarrow> ((u8 list \<times> int) \<times> pjmedia_jbuf) option" where
  "pjmedia_jbuf_get_frame jb = do {
     ((bytes, ftype, _, _), jb') \<leftarrow> pjmedia_jbuf_get_frame2 jb;
     Some ((bytes, ftype), jb')
   }"

record pjmedia_jb_state =
  jbs_frame_size :: nat
  jbs_prefetch :: nat
  jbs_min_prefetch :: nat
  jbs_max_prefetch :: nat
  jbs_size :: nat
  jbs_avg_delay :: nat
  jbs_min_delay :: nat
  jbs_max_delay :: nat
  jbs_dev_delay :: nat

definition pjmedia_jbuf_get_state :: "pjmedia_jbuf \<Rightarrow> pjmedia_jb_state option" where
  "pjmedia_jbuf_get_state jb = do {
     dev \<leftarrow> pj_math_stat_get_stddev (jb_delay jb);
     Some \<lparr>jbs_frame_size = wrap32 (int (jb_frame_size jb)),
           jbs_prefetch = wrap32 (jb_prefetch jb),
           jbs_min_prefetch = wrap32 (jb_min_prefetch jb),
           jbs_max_prefetch = wrap32 (jb_max_prefetch jb),
           jbs_size = jb_framelist_size (jb_framelist jb),
           jbs_avg_delay = wrap32 (st_mean (jb_delay jb) * int (jb_frame_ptime jb)),
           jbs_min_delay = wrap32 (st_min (jb_delay jb) * int (jb_frame_ptime jb)),
           jbs_max_delay = wrap32 (st_max (jb_delay jb) * int (jb_frame_ptime jb)),
           jbs_dev_delay = wrap32 (int dev * int (jb_frame_ptime jb))\<rparr>
   }"

end
