(* ===== verification/Media_Jbuf_Spec.thy ===== *)
theory Media_Jbuf_Spec
  imports Media_Jbuf
begin

text \<open>
  The invariant of the jitter buffer, and what putting and getting frames does to the window of
  frames that it holds.
\<close>

subsection \<open>Invariant\<close>

definition jb_inv :: "pjmedia_jbuf \<Rightarrow> bool" where
  "jb_inv jb \<longleftrightarrow>
     fl_geom (jb_max_count jb) (jb_frame_size jb) (jb_framelist jb) \<and>
     0 \<le> jb_min_prefetch jb \<and> jb_min_prefetch jb \<le> jb_max_prefetch jb \<and>
     0 \<le> jb_prefetch jb \<and> jb_prefetch jb \<le> jb_max_prefetch jb \<and> jb_max_prefetch jb \<le> int (jb_max_count jb) \<and>
     0 \<le> jb_level jb \<and> 0 \<le> jb_max_hist_level jb"

abbreviation jb_win :: "pjmedia_jbuf \<Rightarrow> frame window" where
  "jb_win jb \<equiv> fl_win (jb_framelist jb)"

lemma jb_invD:
  assumes "jb_inv jb"
  shows "fl_geom (jb_max_count jb) (jb_frame_size jb) (jb_framelist jb)"
    "0 \<le> jb_min_prefetch jb" "jb_min_prefetch jb \<le> jb_max_prefetch jb" "0 \<le> jb_prefetch jb"
    "jb_prefetch jb \<le> jb_max_prefetch jb" "jb_max_prefetch jb \<le> int (jb_max_count jb)"
    "0 \<le> jb_level jb" "0 \<le> jb_max_hist_level jb"
  using assms by (simp_all add: jb_inv_def)

lemma win_length: "length (snd (jb_win jb)) = jb_framelist_size (jb_framelist jb)"
  by (simp add: fl_win_def)

text \<open>The fields that the adaptation of the delay leaves alone.\<close>

definition same_config :: "pjmedia_jbuf \<Rightarrow> pjmedia_jbuf \<Rightarrow> bool" where
  "same_config jb jb' \<longleftrightarrow>
     jb_frame_size jb' = jb_frame_size jb \<and> jb_max_count jb' = jb_max_count jb \<and>
     jb_last_seq_no jb' = jb_last_seq_no jb \<and> jb_prefetch_cnt jb' = jb_prefetch_cnt jb \<and>
     jb_def_prefetch jb' = jb_def_prefetch jb \<and> jb_min_prefetch jb' = jb_min_prefetch jb \<and>
     jb_max_prefetch jb' = jb_max_prefetch jb \<and> jb_status jb' = jb_status jb"

lemma create_inv:
  assumes "pjmedia_jbuf_create nm fs ptime m = Some jb" "0 < m" "m < jb_bound" "m * fs < 2 ^ 32"
  shows "jb_inv jb" "snd (jb_win jb) = []"
proof -
  have jb: "jb_framelist jb = jb_framelist_init fs m" "jb_frame_size jb = fs" "jb_max_count jb = m"
    "jb_level jb = 0" "jb_max_hist_level jb = 0" "jb_min_prefetch jb = 0"
    "jb_max_prefetch jb = int (wrap32 (int m * 4) div 5)"
    "0 \<le> jb_prefetch jb" "jb_prefetch jb \<le> int (wrap32 (int m * 4) div 5)"
    using assms(1) by (auto simp: pjmedia_jbuf_create_def split: if_splits)
  have "wrap32 (int m * 4) \<le> m * 4"
  proof -
    have "int m * 4 mod 2 ^ 32 \<le> int m * 4" by (intro zmod_le_nonneg_dividend) simp
    then show ?thesis by (simp add: wrap32_def nat_le_iff)
  qed
  then have "wrap32 (int m * 4) div 5 \<le> m" by simp
  then show "jb_inv jb"
    using init_correct(1) [OF assms(2-4)] jb
    by (simp add: jb_inv_def fl_geom_def) (simp add: jb_framelist_init_def)
  show "snd (jb_win jb) = []" using init_correct(2) [OF assms(2-4)] by (simp add: fl_win_def jb)
qed

lemma set_fixed_inv: "jb_inv jb \<Longrightarrow> jb_inv (snd (pjmedia_jbuf_set_fixed jb p))"
  by (auto simp: pjmedia_jbuf_set_fixed_def jb_inv_def)

lemma set_adaptive_inv: "jb_inv jb \<Longrightarrow> jb_inv (snd (pjmedia_jbuf_set_adaptive jb p mn mx))"
  by (auto simp: pjmedia_jbuf_set_adaptive_def jb_inv_def)

lemma reset_inv:
  assumes inv: "jb_inv jb"
  shows "\<exists>jb'. pjmedia_jbuf_reset jb = Some (PJ_SUCCESS, jb') \<and> jb_inv jb' \<and> snd (jb_win jb') = [] \<and>
           jb_frame_size jb' = jb_frame_size jb"
proof -
  obtain fl where "jb_framelist_remove_head (jb_framelist jb) (jb_framelist_size (jb_framelist jb)) = Some fl"
    "fl_geom (jb_max_count jb) (jb_frame_size jb) fl"
    "fl_win fl = win_del (jb_framelist_size (jb_framelist jb)) (jb_win jb)"
    using fl_del_law [OF jb_invD(1) [OF inv]] by blast
  with inv show ?thesis by (auto simp: pjmedia_jbuf_reset_def Let_def jb_inv_def fl_win_def)
qed

subsection \<open>Adapting the delay\<close>

lemma adapt_inv:
  assumes inv: "jb_inv jb"
  shows "jb_inv (jbuf_adapt_prefetch jb)" "same_config jb (jbuf_adapt_prefetch jb)"
    "jb_framelist (jbuf_adapt_prefetch jb) = jb_framelist jb"
    "jb_last_op (jbuf_adapt_prefetch jb) = jb_last_op jb"
proof -
  note D = jb_invD [OF inv]
  show "jb_inv (jbuf_adapt_prefetch jb)"
    using D by (auto simp: jbuf_adapt_prefetch_def Let_def jb_inv_def)
qed (auto simp: jbuf_adapt_prefetch_def Let_def same_config_def)

text \<open>An update keeps the window, or drops its first frame and leaves at least one.\<close>

definition shrunk :: "frame window \<Rightarrow> frame window \<Rightarrow> bool" where
  "shrunk w w' \<longleftrightarrow> w' = w \<or> 2 \<le> length (snd w) \<and> w' = win_del 1 w"

lemma calculate_jitter_correct:
  assumes inv: "jb_inv jb"
  shows "\<exists>jb'. jbuf_calculate_jitter jb = Some jb' \<and> jb_inv jb' \<and> same_config jb jb' \<and>
           shrunk (jb_win jb) (jb_win jb')"
proof -
  define jb1 where "jb1 = (if jb_last_op jb = JB_OP_PUT then jbuf_adapt_prefetch jb else jb)"
  have 1: "jb_inv jb1" "same_config jb jb1" "jb_framelist jb1 = jb_framelist jb"
    using inv adapt_inv [OF inv] by (auto simp: jb1_def same_config_def)
  let ?n = "jb_framelist_size (jb_framelist jb)"
  obtain fl where fl: "jb_framelist_remove_head (jb_framelist jb) 1 = Some fl"
    "fl_geom (jb_max_count jb) (jb_frame_size jb) fl" "fl_win fl = win_del 1 (jb_win jb)"
    using fl_del_law [OF jb_invD(1) [OF inv], of 1] by blast
  show ?thesis
  proof (cases "int ?n - jb_max_hist_level jb1 > SAFE_SHRINKING_DIFF \<and>
      wrap32 (int (flist_origin (jb_framelist jb)) - int (jb_last_del_seq jb1)) > jb_min_shrink_gap jb1")
    case True
    let ?jb' = "jb1\<lparr>jb_framelist := fl, jb_last_del_seq := flist_origin fl,
        jb_delay := pj_math_stat_update (jb_delay jb1) (int ?n - 1), jb_level := 0\<rparr>"
    have "jbuf_calculate_jitter jb = Some ?jb'"
      using True fl(1) 1(3) unfolding jbuf_calculate_jitter_def jb1_def [symmetric] Let_def by simp
    moreover have "jb_inv ?jb'" using 1 fl(2) by (simp add: jb_inv_def same_config_def)
    moreover have "2 \<le> ?n" using True jb_invD(8) [OF 1(1)] by (simp add: SAFE_SHRINKING_DIFF_def)
    ultimately show ?thesis using 1(2) fl(3) by (auto simp: shrunk_def win_length same_config_def)
  next
    case False
    let ?jb' = "jb1\<lparr>jb_delay := pj_math_stat_update (jb_delay jb1) (int ?n), jb_level := 0\<rparr>"
    have "jbuf_calculate_jitter jb = Some ?jb'"
      using False 1(3) unfolding jbuf_calculate_jitter_def jb1_def [symmetric] Let_def by auto
    moreover have "jb_inv ?jb'" using 1 by (simp add: jb_inv_def)
    ultimately show ?thesis using 1(2,3) by (auto simp: shrunk_def same_config_def)
  qed
qed

lemma update_correct:
  assumes inv: "jb_inv jb"
  shows "\<exists>jb'. jbuf_update jb oper = Some jb' \<and> jb_inv jb' \<and> same_config jb jb' \<and>
           shrunk (jb_win jb) (jb_win jb')"
proof (cases "jb_last_op jb = oper")
  case True
  with inv show ?thesis by (simp add: jbuf_update_def shrunk_def same_config_def)
next
  case False
  obtain jb1 where "jbuf_calculate_jitter jb = Some jb1" "jb_inv jb1" "same_config jb jb1"
    "shrunk (jb_win jb) (jb_win jb1)" using calculate_jitter_correct [OF inv] by blast
  with False show ?thesis
    by (intro exI [of _ "jb1\<lparr>jb_last_op := oper\<rparr>"]) (simp add: jbuf_update_def jb_inv_def same_config_def)
qed

subsection \<open>Putting a frame\<close>

text \<open>The frame with sequence number \<open>i\<close> in a window.\<close>

fun win_at :: "'f window \<Rightarrow> nat \<Rightarrow> 'f option" where
  "win_at (org, xs) i = (if org \<le> i \<and> i < org + length xs then xs ! (i - org) else None)"

lemma win_put_at:
  assumes "fst (win_put cap i f w)"
  shows "win_at (snd (win_put cap i f w)) i = Some f"
    "j \<noteq> i \<Longrightarrow> snd w \<noteq> [] \<Longrightarrow> win_at (snd (win_put cap i f w)) j = win_at w j"
proof -
  obtain org xs where w: "w = (org, xs)" by fastforce
  have acc: "accepts cap org xs i" using assms by (simp add: w split: if_splits)
  show "win_at (snd (win_put cap i f w)) i = Some f"
    using acc by (auto simp: w accepts_def put_frames_length put_frames_nth)
  show "win_at (snd (win_put cap i f w)) j = win_at w j" if j: "j \<noteq> i" "snd w \<noteq> []"
  proof -
    have i: "org \<le> i" using acc j(2) by (simp add: w accepts_def)
    show ?thesis
      using acc j i by (auto simp: w put_frames_length put_frames_nth less_diff_conv2 less_max_iff_disj)
  qed
qed

lemma seq_index_nonneg: "0 \<le> s \<Longrightarrow> s < 2 ^ 31 \<Longrightarrow> wrap32 s = nat s \<and> nat s < jb_bound"
  by (auto simp: wrap32_id jb_bound_def nat_less_iff)

text \<open>A frame is new if its number is above all numbers so far.\<close>

definition is_new :: "pjmedia_jbuf \<Rightarrow> int \<Rightarrow> bool" where
  "is_new jb s \<longleftrightarrow> jb_last_seq_no jb = -1 \<or> jb_last_seq_no jb < s"

text \<open>The state with the number and the level noted, before the delay is updated.\<close>

definition put_noted :: "pjmedia_jbuf \<Rightarrow> int \<Rightarrow> pjmedia_jbuf" where
  "put_noted jb s =
     (let jb1 = (if jb_last_seq_no jb = -1 then jb\<lparr>jb_last_seq_no := s - 1\<rparr> else jb); d = s - jb_last_seq_no jb1
      in jb1\<lparr>jb_last_seq_no := (if jb_last_seq_no jb1 > s then jb_last_seq_no jb1 else s),
             jb_level := (if d > 0 then jb_level jb1 + d else jb_level jb1)\<rparr>)"

lemma put_enter_unfold:
  "jbuf_put_enter jb s =
     map_option (Pair (s - (if jb_last_seq_no jb = -1 then s - 1 else jb_last_seq_no jb)))
       (if jb_status (put_noted jb s) = JB_STATUS_INITIALIZING
        then Some ((put_noted jb s)\<lparr>jb_status := JB_STATUS_PROCESSING, jb_level := 0\<rparr>)
        else jbuf_update (put_noted jb s) JB_OP_PUT)"
  by (cases "jb_last_seq_no jb = -1")
    (simp_all add: jbuf_put_enter_def put_noted_def Let_def map_conv_bind_option comp_def)

lemma put_noted_simps:
  "jb_framelist (put_noted jb s) = jb_framelist jb" "jb_frame_size (put_noted jb s) = jb_frame_size jb"
  "jb_max_count (put_noted jb s) = jb_max_count jb" "jb_prefetch (put_noted jb s) = jb_prefetch jb"
  "jb_min_prefetch (put_noted jb s) = jb_min_prefetch jb" "jb_max_prefetch (put_noted jb s) = jb_max_prefetch jb"
  "jb_last_seq_no (put_noted jb s) = (if is_new jb s then s else jb_last_seq_no jb)"
  by (auto simp: put_noted_def Let_def is_new_def)

lemma put_noted_inv: "jb_inv jb \<Longrightarrow> jb_inv (put_noted jb s)"
  by (auto simp: put_noted_def Let_def jb_inv_def)

lemma put_enter_correct:
  assumes inv: "jb_inv jb"
  shows "\<exists>d jb'. jbuf_put_enter jb s = Some (d, jb') \<and> (d > 0 \<longleftrightarrow> is_new jb s) \<and> jb_inv jb' \<and>
           shrunk (jb_win jb) (jb_win jb') \<and> jb_frame_size jb' = jb_frame_size jb \<and>
           jb_max_count jb' = jb_max_count jb \<and>
           jb_last_seq_no jb' = (if is_new jb s then s else jb_last_seq_no jb)"
proof -
  define d where "d = s - (if jb_last_seq_no jb = -1 then s - 1 else jb_last_seq_no jb)"
  let ?jb2 = "put_noted jb s"
  have d: "d > 0 \<longleftrightarrow> is_new jb s" by (auto simp: d_def is_new_def)
  note inv2 = put_noted_inv [OF inv, of s] and run = put_enter_unfold [of jb s, folded d_def]
  show ?thesis
  proof (cases "jb_status ?jb2 = JB_STATUS_INITIALIZING")
    case True
    then show ?thesis using d run inv2
      by (intro exI [of _ d] exI [of _ "?jb2\<lparr>jb_status := JB_STATUS_PROCESSING, jb_level := 0\<rparr>"])
        (simp add: jb_inv_def shrunk_def put_noted_simps)
  next
    case False
    then show ?thesis using run d update_correct [OF inv2, of JB_OP_PUT]
      by (auto simp: same_config_def put_noted_simps)
  qed
qed

lemma count_prefetch_inv [simp]:
  "jb_inv (jbuf_count_prefetch jb d) = jb_inv jb"
  "jb_framelist (jbuf_count_prefetch jb d) = jb_framelist jb"
  "jb_last_seq_no (jbuf_count_prefetch jb d) = jb_last_seq_no jb"
  "jb_frame_size (jbuf_count_prefetch jb d) = jb_frame_size jb"
  "jb_max_count (jbuf_count_prefetch jb d) = jb_max_count jb"
  by (simp_all add: jbuf_count_prefetch_def Let_def jb_inv_def)

text \<open>The window after a put of a frame \<open>f\<close> with number \<open>i\<close>: a new frame always goes in, if
  need be after \<open>j\<close> frames were dropped; another one only if the window takes it.\<close>

definition put_window :: "bool \<Rightarrow> nat \<Rightarrow> nat \<Rightarrow> 'f \<Rightarrow> 'f window \<Rightarrow> bool \<Rightarrow> 'f window \<Rightarrow> bool" where
  "put_window new cap i f w discarded w' \<longleftrightarrow>
     (if new then \<not> discarded \<and> (\<exists>j. win_put cap i f (win_del j w) = (True, w'))
      else (\<not> discarded, w') = win_put cap i f w)"

lemma put_frame2_correct:
  fixes bits :: u32
  assumes inv: "jb_inv jb" and s: "0 \<le> s" "s < 2 ^ 31" and sz: "sz \<le> length frame"
  defines "f \<equiv> (take (min sz (jb_frame_size jb)) frame, bits)"
  shows "\<exists>d jb' w. pjmedia_jbuf_put_frame2 jb frame sz bits s = Some (d, jb') \<and> jb_inv jb' \<and>
           shrunk (jb_win jb) w \<and> put_window (is_new jb s) (jb_max_count jb) (nat s) f w d (jb_win jb') \<and>
           jb_last_seq_no jb' = (if is_new jb s then s else jb_last_seq_no jb) \<and>
           jb_frame_size jb' = jb_frame_size jb \<and> jb_max_count jb' = jb_max_count jb"
proof -
  obtain sd jb3 where jb3: "jbuf_put_enter jb s = Some (sd, jb3)" "sd > 0 \<longleftrightarrow> is_new jb s" "jb_inv jb3"
    "shrunk (jb_win jb) (jb_win jb3)" "jb_frame_size jb3 = jb_frame_size jb" "jb_max_count jb3 = jb_max_count jb"
    "jb_last_seq_no jb3 = (if is_new jb s then s else jb_last_seq_no jb)"
    using put_enter_correct [OF inv] by blast
  note D = jb_invD [OF jb3(3)]
  let ?n = "min sz (jb_frame_size jb)" and ?i = "nat s"
  have n: "(if sz < jb_frame_size jb3 then sz else jb_frame_size jb3) = ?n" by (simp add: jb3(5) min_def)
  have i: "wrap32 s = ?i" "?i < jb_bound" using seq_index_nonneg [OF s] by simp_all
  have ok: "fl_ok (jb_frame_size jb3) ?i (frame, ?n, bits)" using i(2) sz jb3(5) by simp
  show ?thesis
  proof (cases "is_new jb s")
    case True
    define k where "k = (if jb_max_count jb3 div 4 > 1 then jb_max_count jb3 div 4 else 1)"
    have "0 < k" by (simp add: k_def)
    then obtain fl j where fl: "put_retry fl_put jb_framelist_remove_head k ?i (frame, ?n, bits) (jb_framelist jb3) = Some fl"
      "fl_geom (jb_max_count jb3) (jb_frame_size jb3) fl"
      "win_put (jb_max_count jb) ?i f (win_del (j * k) (jb_win jb3)) = (True, fl_win fl)"
      using jb_window.retry_returns [OF D(1) ok, of k] jb3(6) by (auto simp: f_def prod_eq_iff)
    then have "jb_inv (jb3\<lparr>jb_framelist := fl\<rparr>)" using jb3(3) by (simp add: jb_inv_def)
    moreover have "pjmedia_jbuf_put_frame2 jb frame sz bits s =
        Some (False, jbuf_count_prefetch (jb3\<lparr>jb_framelist := fl\<rparr>) sd)"
      using True jb3(1,2) fl(1) unfolding pjmedia_jbuf_put_frame2_def k_def
      by (simp add: Let_def n i(1) del: fl_put.simps)
    ultimately show ?thesis using True jb3 fl(3) unfolding put_window_def
      by (intro exI [of _ False] exI [of _ "jbuf_count_prefetch (jb3\<lparr>jb_framelist := fl\<rparr>) sd"]
          exI [of _ "jb_win jb3"]) auto
  next
    case False
    obtain fl where fl: "jb_framelist_put_at (jb_framelist jb3) ?i frame ?n bits =
        Some (fst (win_put (jb_max_count jb) ?i f (jb_win jb3)), fl)"
      "fl_geom (jb_max_count jb3) (jb_frame_size jb3) fl"
      "fl_win fl = snd (win_put (jb_max_count jb) ?i f (jb_win jb3))"
      using fl_put_law [OF D(1) ok] jb3(6) by (auto simp: f_def)
    then have "jb_inv (jb3\<lparr>jb_framelist := fl\<rparr>)" using jb3(3) by (simp add: jb_inv_def)
    moreover have "pjmedia_jbuf_put_frame2 jb frame sz bits s =
        Some (\<not> fst (win_put (jb_max_count jb) ?i f (jb_win jb3)), jb3\<lparr>jb_framelist := fl\<rparr>)"
      using False jb3(1,2) fl(1) unfolding pjmedia_jbuf_put_frame2_def by (simp add: Let_def n i(1))
    ultimately show ?thesis using False jb3 fl(3) unfolding put_window_def
      by (intro exI [of _ "\<not> fst (win_put (jb_max_count jb) ?i f (jb_win jb3))"]
          exI [of _ "jb3\<lparr>jb_framelist := fl\<rparr>"] exI [of _ "jb_win jb3"]) auto
  qed
qed

subsection \<open>Getting a frame\<close>

text \<open>What a get returns in terms of the window: the first frame, or a frame of zeros while the
  buffer is empty or fills up to the prefetch.\<close>

fun get_ok :: "nat \<Rightarrow> frame window \<Rightarrow> frame window \<Rightarrow> jb_result \<Rightarrow> bool" where
  "get_ok fs w w' (bytes, ftype, n, bits) \<longleftrightarrow> length bytes = fs \<and> n \<le> fs \<and>
     (ftype = PJMEDIA_JB_NORMAL_FRAME \<and>
        (\<exists>b. bits = Some b \<and> win_get w = (Some (Some (take n bytes, b)), w')) \<or>
      n = 0 \<and> bytes = replicate fs 0 \<and>
        (ftype = PJMEDIA_JB_MISSING_FRAME \<and> win_get w = (Some None, w') \<or>
         ftype = PJMEDIA_JB_ZERO_EMPTY_FRAME \<and> snd w = [] \<and> w' = w \<or>
         ftype = PJMEDIA_JB_ZERO_PREFETCH_FRAME \<and> snd w \<noteq> [] \<and> w' = w))"

lemma fl_get_typed:
  assumes geom: "fl_geom m fs fl"
  shows "\<exists>r fl'. jb_framelist_get fl = Some (r, fl') \<and> map_option frame_of r = fst (win_get (fl_win fl)) \<and>
           fl_geom m fs fl' \<and> fl_win fl' = snd (win_get (fl_win fl)) \<and> (\<forall>f. r = Some f \<longrightarrow> well_typed fs f)"
proof (cases "flist_empty fl")
  case True
  with fl_get_law [OF geom] get_empty [OF True] show ?thesis by auto
next
  case False
  have "fl_inv fl" "flist_frame_size fl = fs" using geom by (simp_all add: fl_geom_def)
  with get_correct [OF _ False] obtain f fl' where "jb_framelist_get fl = Some (Some f, fl')" "well_typed fs f" by blast
  with fl_get_law [OF geom] show ?thesis by auto
qed

lemma get_frame2_correct:
  assumes inv: "jb_inv jb"
  shows "\<exists>r jb' w. pjmedia_jbuf_get_frame2 jb = Some (r, jb') \<and> jb_inv jb' \<and> shrunk (jb_win jb) w \<and>
           get_ok (jb_frame_size jb) w (jb_win jb') r \<and>
           jb_last_seq_no jb' = jb_last_seq_no jb \<and> jb_frame_size jb' = jb_frame_size jb \<and>
           jb_max_count jb' = jb_max_count jb"
proof -
  have "jb_inv (jb\<lparr>jb_level := jb_level jb + 1\<rparr>)" using inv by (simp add: jb_inv_def)
  from update_correct [OF this, of JB_OP_GET] obtain jb1 where jb1:
    "jbuf_update (jb\<lparr>jb_level := jb_level jb + 1\<rparr>) JB_OP_GET = Some jb1" "jb_inv jb1"
    "jb_frame_size jb1 = jb_frame_size jb" "jb_max_count jb1 = jb_max_count jb"
    "jb_last_seq_no jb1 = jb_last_seq_no jb" "shrunk (jb_win jb) (jb_win jb1)"
    by (auto simp: same_config_def)
  define jb2 where "jb2 = (if jb_framelist_size (jb_framelist jb1) = 0
      then let jb' = jb1\<lparr>jb_prefetch_cnt := 0\<rparr>
           in if jb_def_prefetch jb' \<noteq> 0 then jb'\<lparr>jb_status := JB_STATUS_PREFETCHING\<rparr> else jb'
      else jb1)"
  have jb2: "jb_framelist jb2 = jb_framelist jb1" "jb_inv jb2" "jb_frame_size jb2 = jb_frame_size jb"
    "jb_max_count jb2 = jb_max_count jb" "jb_last_seq_no jb2 = jb_last_seq_no jb"
    using jb1 by (auto simp: jb2_def Let_def jb_inv_def)
  have empty: "jb_framelist_size (jb_framelist jb2) = 0 \<longleftrightarrow> snd (jb_win jb2) = []"
    by (metis win_length length_0_conv)
  note geom = jb_invD(1) [OF jb2(2), unfolded jb2(3,4)]
  obtain r fl where fl: "jb_framelist_get (jb_framelist jb2) = Some (r, fl)"
    "map_option frame_of r = fst (win_get (jb_win jb2))" "fl_geom (jb_max_count jb) (jb_frame_size jb) fl"
    "fl_win fl = snd (win_get (jb_win jb2))" "\<And>f. r = Some f \<Longrightarrow> well_typed (jb_frame_size jb) f"
    using fl_get_typed [OF geom] by blast
  have inv3: "jb_inv (jb2\<lparr>jb_framelist := fl\<rparr>)" using jb2(2-4) fl(3) by (simp add: jb_inv_def)
  show ?thesis
  proof (cases "jb_status jb2 = JB_STATUS_PREFETCHING \<and> jb_prefetch_cnt jb2 < jb_prefetch jb2")
    case True
    then have "pjmedia_jbuf_get_frame2 jb =
        Some ((replicate (jb_frame_size jb2) 0, (if jb_framelist_size (jb_framelist jb2) = 0
          then PJMEDIA_JB_ZERO_EMPTY_FRAME else PJMEDIA_JB_ZERO_PREFETCH_FRAME), 0, None), jb2)"
      by (simp add: pjmedia_jbuf_get_frame2_def jb1(1) jb2_def [symmetric])
    moreover have "get_ok (jb_frame_size jb) (jb_win jb2) (jb_win jb2) (replicate (jb_frame_size jb2) 0,
        (if jb_framelist_size (jb_framelist jb2) = 0 then PJMEDIA_JB_ZERO_EMPTY_FRAME
         else PJMEDIA_JB_ZERO_PREFETCH_FRAME), 0, None)"
      using empty jb2(3) by simp
    ultimately show ?thesis using jb2 jb1(6) by metis
  next
    case False
    have run: "pjmedia_jbuf_get_frame2 jb =
        (case r of
           None \<Rightarrow> Some ((replicate (jb_frame_size jb) 0, PJMEDIA_JB_ZERO_EMPTY_FRAME, 0, None), jb2\<lparr>jb_framelist := fl\<rparr>)
         | Some (bytes, ftype, clen, bits) \<Rightarrow>
             Some ((bytes, if ftype = PJMEDIA_JB_NORMAL_FRAME then PJMEDIA_JB_NORMAL_FRAME
                           else PJMEDIA_JB_MISSING_FRAME, clen, Some bits), jb2\<lparr>jb_framelist := fl\<rparr>))"
      using False by (auto simp: pjmedia_jbuf_get_frame2_def jb1(1) jb2_def [symmetric] fl(1) jb2(3) split: option.split)
    show ?thesis
    proof (cases r)
      case None
      then have "snd (jb_win jb2) = []" "fl_win fl = jb_win jb2" using fl(2,4) by (cases "jb_win jb2" rule: win_get.cases; simp)+
      then have "get_ok (jb_frame_size jb) (jb_win jb2) (fl_win fl)
          (replicate (jb_frame_size jb) 0, PJMEDIA_JB_ZERO_EMPTY_FRAME, 0, None)" by simp
      with run None inv3 jb2 jb1(6) show ?thesis
        by (intro exI [of _ "(replicate (jb_frame_size jb) 0, PJMEDIA_JB_ZERO_EMPTY_FRAME, 0, None)"]
            exI [of _ "jb2\<lparr>jb_framelist := fl\<rparr>"] exI [of _ "jb_win jb2"]) (simp del: get_ok.simps)
    next
      case (Some f)
      obtain bytes ftype clen bits where f: "f = (bytes, ftype, clen, bits)" by (cases f)
      have wt: "well_typed (jb_frame_size jb) f" using fl(5) Some by simp
      have wg: "win_get (jb_win jb2) = (Some (frame_of f), fl_win fl)"
        using fl(2,4) Some by (simp add: prod_eq_iff)
      let ?r = "(bytes, if ftype = PJMEDIA_JB_NORMAL_FRAME then PJMEDIA_JB_NORMAL_FRAME
          else PJMEDIA_JB_MISSING_FRAME, clen, Some bits)"
      have "get_ok (jb_frame_size jb) (jb_win jb2) (fl_win fl) ?r"
        using wt wg unfolding f by (auto split: if_splits)
      with run Some f inv3 jb2 jb1(6) show ?thesis
        by (intro exI [of _ ?r] exI [of _ "jb2\<lparr>jb_framelist := fl\<rparr>"] exI [of _ "jb_win jb2"])
          (simp del: get_ok.simps)
    qed
  qed
qed

subsection \<open>Runs\<close>

datatype jb_call = Jb_put "u8 list" nat u32 int | Jb_get | Jb_reset | Jb_fixed nat | Jb_adaptive nat nat nat

text \<open>A run of the buffer and its trace: the normal frames that the gets returned, each with its
  sequence number, which is the one before the number of the frame that is first then.\<close>

fun jb_trace :: "jb_call list \<Rightarrow> pjmedia_jbuf \<Rightarrow> ((nat \<times> frame) list \<times> pjmedia_jbuf) option" where
  "jb_trace [] jb = Some ([], jb)"
| "jb_trace (Jb_put frame sz bits s # cs) jb =
     do { (_, jb') \<leftarrow> pjmedia_jbuf_put_frame2 jb frame sz bits s; jb_trace cs jb' }"
| "jb_trace (Jb_get # cs) jb = do {
     ((bytes, ftype, n, bits), jb') \<leftarrow> pjmedia_jbuf_get_frame2 jb;
     (tr, jb'') \<leftarrow> jb_trace cs jb';
     Some (if ftype = PJMEDIA_JB_NORMAL_FRAME
           then (flist_origin (jb_framelist jb') - 1, (take n bytes, the bits)) # tr else tr, jb'') }"
| "jb_trace (Jb_reset # cs) jb = do { (_, jb') \<leftarrow> pjmedia_jbuf_reset jb; jb_trace cs jb' }"
| "jb_trace (Jb_fixed p # cs) jb = jb_trace cs (snd (pjmedia_jbuf_set_fixed jb p))"
| "jb_trace (Jb_adaptive p mn mx # cs) jb = jb_trace cs (snd (pjmedia_jbuf_set_adaptive jb p mn mx))"

fun jb_call_ok :: "jb_call \<Rightarrow> bool" where
  "jb_call_ok (Jb_put frame sz bits s) \<longleftrightarrow> 0 \<le> s \<and> s < 2 ^ 31 \<and> sz \<le> length frame"
| "jb_call_ok _ \<longleftrightarrow> True"

text \<open>The frames that the calls put, with their numbers.\<close>

fun jb_puts :: "nat \<Rightarrow> jb_call list \<Rightarrow> (nat \<times> frame) list" where
  "jb_puts fs [] = []"
| "jb_puts fs (Jb_put frame sz bits s # cs) = (nat s, (take (min sz fs) frame, bits)) # jb_puts fs cs"
| "jb_puts fs (_ # cs) = jb_puts fs cs"

text \<open>The frames in a window, with their numbers.\<close>

definition win_frames :: "'f window \<Rightarrow> (nat \<times> 'f) set" where
  "win_frames w = {(i, f). win_at w i = Some f}"

lemma win_frames_put: "win_frames (snd (win_put cap i f w)) \<subseteq> insert (i, f) (win_frames w)"
proof -
  obtain org xs where w: "w = (org, xs)" by fastforce
  consider "\<not> accepts cap org xs i" | "xs = []" | "accepts cap org xs i" "xs \<noteq> []" by blast
  then show ?thesis
  proof cases
    case 3
    then have acc: "fst (win_put cap i f w)" by (simp add: w)
    have "(j, g) \<in> insert (i, f) (win_frames w)" if "(j, g) \<in> win_frames (snd (win_put cap i f w))" for j g
      using that win_put_at(1) [OF acc] win_put_at(2) [OF acc, of j] 3(2)
      by (cases "j = i") (auto simp: win_frames_def w)
    then show ?thesis by auto
  qed (auto simp: w win_frames_def accepts_def split: if_splits)
qed

lemma win_frames_del: "win_frames (win_del n w) \<subseteq> win_frames w"
proof -
  obtain org xs where w: "w = (org, xs)" by fastforce
  show ?thesis by (auto simp: w win_frames_def min_def split: if_splits)
qed

lemma win_frames_shrunk: "shrunk w w' \<Longrightarrow> win_frames w' \<subseteq> win_frames w"
  by (metis order_refl shrunk_def win_frames_del)

lemma win_frames_get:
  assumes "win_get w = (Some x, w')"
  shows "win_frames w' \<subseteq> win_frames w" "x = Some f \<Longrightarrow> (fst w' - 1, f) \<in> win_frames w"
    "fst w' = fst w + 1" "length (snd w) = Suc (length (snd w'))"
proof -
  obtain org y ys where w: "w = (org, y # ys)" "w' = (org + 1, ys)" "x = y"
    using assms by (cases w rule: win_get.cases) auto
  show "win_frames w' \<subseteq> win_frames w" by (auto simp: win_frames_def w nth_Cons' split: if_splits)
  show "x = Some f \<Longrightarrow> (fst w' - 1, f) \<in> win_frames w" by (simp add: win_frames_def w)
  show "fst w' = fst w + 1" "length (snd w) = Suc (length (snd w'))" by (simp_all add: w)
qed

lemma put_window_frames:
  assumes "put_window new cap i f w d w'"
  shows "win_frames w' \<subseteq> insert (i, f) (win_frames w)"
proof (cases new)
  case True
  then obtain j where "w' = snd (win_put cap i f (win_del j w))"
    using assms by (metis put_window_def snd_conv)
  with win_frames_put [of cap i f "win_del j w"] win_frames_del [of j w] show ?thesis by blast
next
  case False
  then have "w' = snd (win_put cap i f w)" using assms by (metis put_window_def snd_conv)
  with win_frames_put [of cap i f w] show ?thesis by blast
qed

lemma get_ok_frames:
  assumes "get_ok fs w w' (bytes, ftype, n, bits)"
  shows "win_frames w' \<subseteq> win_frames w"
    "ftype = PJMEDIA_JB_NORMAL_FRAME \<Longrightarrow> (fst w' - 1, (take n bytes, the bits)) \<in> win_frames w"
proof -
  have neq: "PJMEDIA_JB_ZERO_EMPTY_FRAME \<noteq> PJMEDIA_JB_NORMAL_FRAME"
    "PJMEDIA_JB_ZERO_PREFETCH_FRAME \<noteq> PJMEDIA_JB_NORMAL_FRAME"
    by (simp_all add: PJMEDIA_JB_ZERO_EMPTY_FRAME_def PJMEDIA_JB_ZERO_PREFETCH_FRAME_def PJMEDIA_JB_NORMAL_FRAME_def)
  from assms consider "\<exists>x. win_get w = (Some x, w')" | "w' = w" by auto
  then show "win_frames w' \<subseteq> win_frames w" by cases (use win_frames_get(1) [of w _ w'] in blast)+
  show "(fst w' - 1, (take n bytes, the bits)) \<in> win_frames w" if normal: "ftype = PJMEDIA_JB_NORMAL_FRAME"
  proof -
    obtain b where "bits = Some b" "win_get w = (Some (Some (take n bytes, b)), w')"
      using assms neq normal by auto
    with win_frames_get(2) [OF this(2) refl] show ?thesis by simp
  qed
qed

lemma jb_trace_delivers:
  assumes "jb_inv jb" "\<forall>c \<in> set cs. jb_call_ok c" "jb_frame_size jb = fs"
  shows "\<exists>tr jb'. jb_trace cs jb = Some (tr, jb') \<and> jb_inv jb' \<and>
           set tr \<subseteq> win_frames (jb_win jb) \<union> set (jb_puts fs cs)"
  using assms
proof (induction cs arbitrary: jb)
  case (Cons c cs)
  have IH: "\<exists>tr jb''. jb_trace cs jb' = Some (tr, jb'') \<and> jb_inv jb'' \<and>
      set tr \<subseteq> win_frames (jb_win jb') \<union> set (jb_puts fs cs)" if "jb_inv jb'" "jb_frame_size jb' = fs" for jb'
    using Cons.IH [OF that(1) _ that(2)] Cons.prems(2) by simp
  show ?case
  proof (cases c)
    case (Jb_put frame sz bits s)
    let ?f = "(take (min sz fs) frame, bits)"
    obtain d jb' w where put: "pjmedia_jbuf_put_frame2 jb frame sz bits s = Some (d, jb')" "jb_inv jb'"
      "shrunk (jb_win jb) w" "put_window (is_new jb s) (jb_max_count jb) (nat s) ?f w d (jb_win jb')"
      "jb_frame_size jb' = fs"
      using put_frame2_correct [OF Cons.prems(1), of s sz frame bits] Cons.prems(2,3) Jb_put by auto
    have "win_frames (jb_win jb') \<subseteq> insert (nat s, ?f) (win_frames (jb_win jb))"
      using put_window_frames [OF put(4)] win_frames_shrunk [OF put(3)] by blast
    with IH [OF put(2,5)] put(1) show ?thesis by (auto simp: Jb_put)
  next
    case Jb_get
    obtain bytes ftype n bits jb' w where get: "pjmedia_jbuf_get_frame2 jb = Some ((bytes, ftype, n, bits), jb')"
      "jb_inv jb'" "shrunk (jb_win jb) w" "get_ok fs w (jb_win jb') (bytes, ftype, n, bits)" "jb_frame_size jb' = fs"
      using get_frame2_correct [OF Cons.prems(1)] Cons.prems(3) by (auto simp del: get_ok.simps)
    have normal: "(flist_origin (jb_framelist jb') - 1, (take n bytes, the bits)) \<in> win_frames (jb_win jb)"
      if "ftype = PJMEDIA_JB_NORMAL_FRAME"
      using get_ok_frames(2) [OF get(4) that] win_frames_shrunk [OF get(3)] by (auto simp: fl_win_def)
    have "win_frames (jb_win jb') \<subseteq> win_frames (jb_win jb)"
      using get_ok_frames(1) [OF get(4)] win_frames_shrunk [OF get(3)] by blast
    moreover obtain tr jb'' where tr: "jb_trace cs jb' = Some (tr, jb'')" "jb_inv jb''"
      "set tr \<subseteq> win_frames (jb_win jb') \<union> set (jb_puts fs cs)" using IH [OF get(2,5)] by blast
    ultimately have "set tr \<subseteq> win_frames (jb_win jb) \<union> set (jb_puts fs cs)" by blast
    with tr(1,2) get(1) normal show ?thesis by (simp add: Jb_get)
  next
    case Jb_reset
    obtain jb' where reset: "pjmedia_jbuf_reset jb = Some (PJ_SUCCESS, jb')" "jb_inv jb'" "snd (jb_win jb') = []"
      "jb_frame_size jb' = fs" using reset_inv [OF Cons.prems(1)] Cons.prems(3) by auto
    have "win_frames (jb_win jb') = {}" using reset(3) by (cases "jb_win jb'") (auto simp: win_frames_def)
    with IH [OF reset(2,4)] reset(1) show ?thesis by (auto simp: Jb_reset)
  next
    case (Jb_fixed p)
    have "jb_frame_size (snd (pjmedia_jbuf_set_fixed jb p)) = fs" "jb_win (snd (pjmedia_jbuf_set_fixed jb p)) = jb_win jb"
      using Cons.prems(3) by (simp_all add: pjmedia_jbuf_set_fixed_def)
    with IH [OF set_fixed_inv [OF Cons.prems(1), of p]] show ?thesis by (simp add: Jb_fixed)
  next
    case (Jb_adaptive p mn mx)
    have "jb_frame_size (snd (pjmedia_jbuf_set_adaptive jb p mn mx)) = fs"
      "jb_win (snd (pjmedia_jbuf_set_adaptive jb p mn mx)) = jb_win jb"
      using Cons.prems(3) by (simp_all add: pjmedia_jbuf_set_adaptive_def)
    with IH [OF set_adaptive_inv [OF Cons.prems(1), of p mn mx]] show ?thesis by (simp add: Jb_adaptive)
  qed
qed simp

text \<open>Without frames that are late, the window only moves forward. \<open>win_end\<close> is the number after
  the last frame.\<close>

fun win_end :: "'f window \<Rightarrow> nat" where
  "win_end (org, xs) = org + length xs"

lemma win_del_end: "win_end (win_del n w) = win_end w" "fst w \<le> fst (win_del n w)"
  by (cases w; simp add: min_def)+

lemma shrunk_end: "shrunk w w' \<Longrightarrow> win_end w' = win_end w \<and> fst w \<le> fst w'"
  using win_del_end [where n = 1 and w = w] by (auto simp: shrunk_def simp del: win_del.simps win_end.simps)

lemma put_new_end:
  assumes "put_window True cap i f w d w'" "win_end w \<le> i"
  shows "win_end w' = i + 1" "fst w \<le> fst w'"
proof -
  obtain j where j: "win_put cap i f (win_del j w) = (True, w')" using assms(1) by (auto simp: put_window_def)
  obtain org xs where w: "win_del j w = (org, xs)" by fastforce
  have le: "org + length xs \<le> i" "fst w \<le> org"
    using win_del_end [where n = j and w = w] assms(2) unfolding w by simp_all
  have "w' = (if xs = [] then (i, [Some f]) else (org, put_frames xs (i - org) f))"
    using j unfolding w by (auto split: if_splits)
  then show "win_end w' = i + 1" "fst w \<le> fst w'"
    using le by (auto simp: put_frames_length max_def split: if_splits)
qed

lemma get_ok_end:
  assumes "get_ok fs w w' (bytes, ftype, n, bits)"
  shows "win_end w' = win_end w" "fst w \<le> fst w'"
    "ftype = PJMEDIA_JB_NORMAL_FRAME \<Longrightarrow> fst w' = fst w + 1"
proof -
  have neq: "PJMEDIA_JB_ZERO_EMPTY_FRAME \<noteq> PJMEDIA_JB_NORMAL_FRAME"
    "PJMEDIA_JB_ZERO_PREFETCH_FRAME \<noteq> PJMEDIA_JB_NORMAL_FRAME"
    by (simp_all add: PJMEDIA_JB_ZERO_EMPTY_FRAME_def PJMEDIA_JB_ZERO_PREFETCH_FRAME_def PJMEDIA_JB_NORMAL_FRAME_def)
  have step: "win_end w' = win_end w \<and> fst w' = fst w + 1" if "win_get w = (Some x, w')" for x
    using that by (cases w rule: win_get.cases) auto
  from assms consider x where "win_get w = (Some x, w')" | "w' = w" "ftype \<noteq> PJMEDIA_JB_NORMAL_FRAME"
    using neq by auto
  then show "win_end w' = win_end w" "fst w \<le> fst w'" "ftype = PJMEDIA_JB_NORMAL_FRAME \<Longrightarrow> fst w' = fst w + 1"
    by (cases; use step in auto)+
qed

fun jb_seqs :: "jb_call list \<Rightarrow> int list" where
  "jb_seqs [] = []"
| "jb_seqs (Jb_put frame sz bits s # cs) = s # jb_seqs cs"
| "jb_seqs (_ # cs) = jb_seqs cs"

lemma jb_trace_ordered:
  assumes "jb_inv jb" "\<forall>c \<in> set cs. jb_call_ok c \<and> c \<noteq> Jb_reset" "int (win_end (jb_win jb)) \<le> jb_last_seq_no jb + 1"
    and "sorted_wrt (<) (jb_last_seq_no jb # jb_seqs cs)" "jb_trace cs jb = Some (tr, jb')"
  shows "sorted_wrt (<) (map fst tr) \<and> (\<forall>x \<in> set tr. fst (jb_win jb) \<le> fst x)"
  using assms
proof (induction cs arbitrary: jb tr)
  case (Cons c cs)
  show ?case
  proof (cases c)
    case (Jb_put frame sz bits s)
    have new: "is_new jb s" and s: "0 \<le> s" "s < 2 ^ 31" "sz \<le> length frame"
      using Cons.prems(2,4) Jb_put by (auto simp: is_new_def)
    obtain d jb1 w where put: "pjmedia_jbuf_put_frame2 jb frame sz bits s = Some (d, jb1)" "jb_inv jb1"
      "shrunk (jb_win jb) w" "put_window True (jb_max_count jb) (nat s) (take (min sz (jb_frame_size jb)) frame, bits) w d (jb_win jb1)"
      "jb_last_seq_no jb1 = s"
      using put_frame2_correct [OF Cons.prems(1) s, of bits] new by auto
    have le: "win_end w \<le> nat s" using shrunk_end [OF put(3)] Cons.prems(3,4) Jb_put by auto
    have e: "win_end (jb_win jb1) = nat s + 1" "fst (jb_win jb) \<le> fst (jb_win jb1)"
      using put_new_end [OF put(4) le] shrunk_end [OF put(3)] by auto
    have "sorted_wrt (<) (map fst tr) \<and> (\<forall>x \<in> set tr. fst (jb_win jb1) \<le> fst x)"
      by (rule Cons.IH [OF put(2)]) (use Cons.prems put(1,5) e s Jb_put in auto)
    with e(2) show ?thesis by auto
  next
    case Jb_get
    obtain bytes ftype n bits jb1 w where get: "pjmedia_jbuf_get_frame2 jb = Some ((bytes, ftype, n, bits), jb1)"
      "jb_inv jb1" "shrunk (jb_win jb) w" "get_ok (jb_frame_size jb) w (jb_win jb1) (bytes, ftype, n, bits)"
      "jb_last_seq_no jb1 = jb_last_seq_no jb"
      using get_frame2_correct [OF Cons.prems(1)] by (auto simp del: get_ok.simps)
    obtain tr1 where tr1: "jb_trace cs jb1 = Some (tr1, jb')"
      "tr = (if ftype = PJMEDIA_JB_NORMAL_FRAME
             then (flist_origin (jb_framelist jb1) - 1, (take n bytes, the bits)) # tr1 else tr1)"
      using Cons.prems(5) get(1) Jb_get by (auto split: Option.bind_splits)
    have e: "win_end (jb_win jb1) = win_end (jb_win jb)" "fst (jb_win jb) \<le> fst w" "fst w \<le> fst (jb_win jb1)"
      "ftype = PJMEDIA_JB_NORMAL_FRAME \<Longrightarrow> fst (jb_win jb1) = fst w + 1"
      using get_ok_end [OF get(4)] shrunk_end [OF get(3)] by auto
    have IH: "sorted_wrt (<) (map fst tr1) \<and> (\<forall>x \<in> set tr1. fst (jb_win jb1) \<le> fst x)"
      by (rule Cons.IH [OF get(2) _ _ _ tr1(1)]) (use Cons.prems get(5) e(1) Jb_get in auto)
    show ?thesis
      using IH tr1(2) e(2-4) by (auto simp: fl_win_def split: if_splits)
  next
    case (Jb_fixed p)
    let ?jb = "snd (pjmedia_jbuf_set_fixed jb p)"
    have "jb_win ?jb = jb_win jb" "jb_last_seq_no ?jb = jb_last_seq_no jb" by (simp_all add: pjmedia_jbuf_set_fixed_def)
    with Cons.IH [OF set_fixed_inv [OF Cons.prems(1)], of p tr] Cons.prems Jb_fixed show ?thesis by auto
  next
    case (Jb_adaptive p mn mx)
    let ?jb = "snd (pjmedia_jbuf_set_adaptive jb p mn mx)"
    have "jb_win ?jb = jb_win jb" "jb_last_seq_no ?jb = jb_last_seq_no jb" by (simp_all add: pjmedia_jbuf_set_adaptive_def)
    with Cons.IH [OF set_adaptive_inv [OF Cons.prems(1)], of p mn mx tr] Cons.prems Jb_adaptive show ?thesis by auto
  qed (use Cons.prems in simp)
qed simp

subsection \<open>Fixed delay\<close>

definition fixed_at :: "int \<Rightarrow> pjmedia_jbuf \<Rightarrow> bool" where
  "fixed_at p jb \<longleftrightarrow> jb_prefetch jb = p \<and> jb_min_prefetch jb = p \<and> jb_max_prefetch jb = p \<and>
     p \<le> int (wrap32 (int (jb_max_count jb) * 4) div 5)"

lemma fixed_adapt: "fixed_at p jb \<Longrightarrow> fixed_at p (jbuf_adapt_prefetch jb)"
  by (auto simp: fixed_at_def jbuf_adapt_prefetch_def Let_def)

lemma fixed_update: "fixed_at p jb \<Longrightarrow> jbuf_update jb oper = Some jb' \<Longrightarrow> fixed_at p jb'"
  using fixed_adapt [of p jb]
  by (auto simp: jbuf_update_def jbuf_calculate_jitter_def Let_def fixed_at_def split: if_splits Option.bind_splits)

lemma fixed_put: 
  assumes "fixed_at p jb" "pjmedia_jbuf_put_frame2 jb frame sz bits s = Some (d, jb')"
  shows "fixed_at p jb'"
proof -
  obtain sd jb3 where jb3: "jbuf_put_enter jb s = Some (sd, jb3)"
    using assms(2) by (auto simp: pjmedia_jbuf_put_frame2_def split: Option.bind_splits)
  have "fixed_at p jb3"
  proof -
    have "fixed_at p (put_noted jb s)" using assms(1) by (simp add: fixed_at_def put_noted_simps)
    moreover from this have "fixed_at p jb3" if "jbuf_update (put_noted jb s) JB_OP_PUT = Some jb3"
      using that by (rule fixed_update)
    ultimately show ?thesis using jb3 by (auto simp: put_enter_unfold fixed_at_def split: if_splits)
  qed
  then show ?thesis
    using assms(2) jb3
    by (auto simp: pjmedia_jbuf_put_frame2_def Let_def fixed_at_def jbuf_count_prefetch_def split: if_splits Option.bind_splits)
qed

lemma fixed_get:
  assumes "fixed_at p jb" "pjmedia_jbuf_get_frame2 jb = Some (r, jb')"
  shows "fixed_at p jb'"
proof -
  obtain jb1 where jb1: "jbuf_update (jb\<lparr>jb_level := jb_level jb + 1\<rparr>) JB_OP_GET = Some jb1"
    using assms(2) by (auto simp: pjmedia_jbuf_get_frame2_def split: Option.bind_splits)
  have "fixed_at p (jb\<lparr>jb_level := jb_level jb + 1\<rparr>)" using assms(1) by (simp add: fixed_at_def)
  from fixed_update [OF this jb1] show ?thesis
    using assms(2) jb1
    by (auto simp: pjmedia_jbuf_get_frame2_def Let_def fixed_at_def
        split: if_splits option.splits prod.splits Option.bind_splits)
qed

fun is_traffic :: "jb_call \<Rightarrow> bool" where
  "is_traffic (Jb_put _ _ _ _) \<longleftrightarrow> True"
| "is_traffic Jb_get \<longleftrightarrow> True"
| "is_traffic Jb_reset \<longleftrightarrow> True"
| "is_traffic _ \<longleftrightarrow> False"

lemma fixed_trace:
  "fixed_at p jb \<Longrightarrow> \<forall>c \<in> set cs. is_traffic c \<Longrightarrow> jb_trace cs jb = Some (tr, jb') \<Longrightarrow> fixed_at p jb'"
proof (induction cs arbitrary: jb tr)
  case (Cons c cs)
  show ?case
  proof (cases c)
    case (Jb_put frame sz bits s)
    then obtain d jb1 where g: "pjmedia_jbuf_put_frame2 jb frame sz bits s = Some (d, jb1)" "jb_trace cs jb1 = Some (tr, jb')"
      using Cons.prems(3) by (auto split: Option.bind_splits)
    show ?thesis using Cons.IH [OF fixed_put [OF Cons.prems(1) g(1)] _ g(2)] Cons.prems(2) by simp
  next
    case Jb_get
    then obtain r jb1 tr1 where g: "pjmedia_jbuf_get_frame2 jb = Some (r, jb1)" "jb_trace cs jb1 = Some (tr1, jb')"
      using Cons.prems(3) by (auto split: Option.bind_splits)
    show ?thesis using Cons.IH [OF fixed_get [OF Cons.prems(1) g(1)] _ g(2)] Cons.prems(2) by simp
  next
    case Jb_reset
    then obtain st jb1 where g: "pjmedia_jbuf_reset jb = Some (st, jb1)" "jb_trace cs jb1 = Some (tr, jb')"
      using Cons.prems(3) by (auto split: Option.bind_splits)
    then have "fixed_at p jb1"
      using Cons.prems(1) by (auto simp: pjmedia_jbuf_reset_def fixed_at_def Let_def split: Option.bind_splits)
    then show ?thesis using Cons.IH [OF _ _ g(2)] Cons.prems(2) by simp
  qed (use Cons.prems(2) in simp_all)
qed simp

subsection \<open>Properties\<close>

text \<open>
  C14: The jitter buffer is safe and delivers only what was put. From
  \<open>pjmedia_jbuf_create\<close> on, any sequence of puts (sequence numbers of a non-negative \<open>int\<close>, frames
  within their area), gets, resets and changes of the delay mode runs to its end without an
  access outside the frame list and without looping forever, keeps the invariant, and every
  normal frame that a get returns was put with the same sequence number, content (cut to the
  frame size) and bit info.
\<close>

theorem jbuf_delivers_what_was_put:
  assumes "pjmedia_jbuf_create nm fs ptime m = Some jb" "0 < m" "m < jb_bound" "m * fs < 2 ^ 32"
    and "\<forall>c \<in> set cs. jb_call_ok c"
  shows "\<exists>tr jb'. jb_trace cs jb = Some (tr, jb') \<and> jb_inv jb' \<and> set tr \<subseteq> set (jb_puts fs cs)"
proof -
  note inv = create_inv [OF assms(1-4)]
  have "jb_frame_size jb = fs" using assms(1) by (auto simp: pjmedia_jbuf_create_def split: if_splits)
  moreover have "win_frames (jb_win jb) = {}" using inv(2) by (cases "jb_win jb") (auto simp: win_frames_def)
  ultimately show ?thesis using jb_trace_delivers [OF inv(1) assms(5)] by simp
qed

theorem jbuf_delivers_what_was_put_witness:
  "\<exists>jb tr jb'. pjmedia_jbuf_create ''jb'' 2 20 4 = Some jb \<and>
     jb_trace [Jb_put [1, 2, 3] 3 0 7, Jb_put [4, 5] 2 0 6, Jb_get, Jb_get, Jb_put [6] 1 0 40, Jb_get] jb = Some (tr, jb') \<and>
     set tr \<subseteq> {(7, ([1, 2], 0)), (6, ([4, 5], 0)), (40, ([6], 0))}"
proof -
  obtain jb where jb: "pjmedia_jbuf_create ''jb'' 2 20 4 = Some jb" by (simp add: pjmedia_jbuf_create_def)
  from jbuf_delivers_what_was_put [OF jb, of
      "[Jb_put [1, 2, 3] 3 0 7, Jb_put [4, 5] 2 0 6, Jb_get, Jb_get, Jb_put [6] 1 0 40, Jb_get]"]
  show ?thesis using jb by (auto simp: jb_bound_def)
qed

text \<open>
  C15: Frames come out in order. If the sequence numbers of the puts increase (no packet is late
  or doubled) and the buffer is not reset, the numbers of the frames that the gets return
  increase strictly, whatever the buffer drops to shorten the delay or to make room.
\<close>

theorem jbuf_delivers_in_order:
  assumes "pjmedia_jbuf_create nm fs ptime m = Some jb" "0 < m" "m < jb_bound" "m * fs < 2 ^ 32"
    and "\<forall>c \<in> set cs. jb_call_ok c \<and> c \<noteq> Jb_reset" "sorted_wrt (<) (jb_seqs cs)" "jb_trace cs jb = Some (tr, jb')"
  shows "sorted_wrt (<) (map fst tr)"
proof -
  have nonneg: "\<forall>s \<in> set (jb_seqs cs). 0 \<le> s" using assms(5) by (induction cs rule: jb_seqs.induct) auto
  have jb: "jb_last_seq_no jb = -1" "jb_win jb = (0, [])"
    using assms(1) init_correct(2) [OF assms(2-4)]
    by (auto simp: pjmedia_jbuf_create_def fl_win_def split: if_splits) (simp_all add: jb_framelist_init_def)
  then have "sorted_wrt (<) (jb_last_seq_no jb # jb_seqs cs)" using nonneg assms(6) by force
  from jb_trace_ordered [OF create_inv(1) [OF assms(1-4)] assms(5) _ this assms(7)] jb show ?thesis by simp
qed

theorem jbuf_delivers_in_order_witness:
  "\<exists>jb tr jb'. pjmedia_jbuf_create ''jb'' 2 20 4 = Some jb \<and>
     jb_trace [Jb_put [1] 1 0 6, Jb_put [2] 1 0 8, Jb_get, Jb_get, Jb_get, Jb_put [3] 1 0 30, Jb_get] jb = Some (tr, jb') \<and>
     sorted_wrt (<) (map fst tr)"
proof -
  let ?cs = "[Jb_put [1] 1 0 6, Jb_put [2] 1 0 8, Jb_get, Jb_get, Jb_get, Jb_put [3] 1 0 30, Jb_get]"
  obtain jb where jb: "pjmedia_jbuf_create ''jb'' 2 20 4 = Some jb" by (simp add: pjmedia_jbuf_create_def)
  have "jb_inv jb" by (rule create_inv(1) [OF jb]) (simp_all add: jb_bound_def)
  then obtain tr jb' where tr: "jb_trace ?cs jb = Some (tr, jb')" using jb_trace_delivers [of jb ?cs] by auto
  have "sorted_wrt (<) (map fst tr)"
    by (rule jbuf_delivers_in_order [OF jb _ _ _ _ _ tr]) (simp_all add: jb_bound_def)
  with jb tr show ?thesis by blast
qed

text \<open>
  C16: A frame with a new highest sequence number is always taken: the put never reports it as
  discarded, and afterwards the buffer holds it under its number with the content (cut to the
  frame size) and the bit info given.
\<close>

theorem jbuf_stores_new_frame:
  assumes "jb_inv jb" "0 \<le> s" "s < 2 ^ 31" "sz \<le> length frame" "jb_last_seq_no jb < s"
  shows "\<exists>jb'. pjmedia_jbuf_put_frame2 jb frame sz bits s = Some (False, jb') \<and> jb_inv jb' \<and>
           jb_last_seq_no jb' = s \<and>
           win_at (flist_origin (jb_framelist jb'), frames (jb_framelist jb')) (nat s) =
             Some (take (min sz (jb_frame_size jb)) frame, bits)"
proof -
  have new: "is_new jb s" using assms(5) by (simp add: is_new_def)
  obtain d jb' w where put: "pjmedia_jbuf_put_frame2 jb frame sz bits s = Some (d, jb')" "jb_inv jb'"
    "put_window True (jb_max_count jb) (nat s) (take (min sz (jb_frame_size jb)) frame, bits) w d (jb_win jb')"
    "jb_last_seq_no jb' = s"
    using put_frame2_correct [OF assms(1-4), of bits] new by auto
  obtain j where j: "win_put (jb_max_count jb) (nat s) (take (min sz (jb_frame_size jb)) frame, bits) (win_del j w) =
      (True, jb_win jb')" and d: "\<not> d" using put(3) by (auto simp: put_window_def)
  have "win_at (jb_win jb') (nat s) = Some (take (min sz (jb_frame_size jb)) frame, bits)"
    using win_put_at(1) [of "jb_max_count jb" "nat s"
        "(take (min sz (jb_frame_size jb)) frame, bits)" "win_del j w"] unfolding j by simp
  with put d show ?thesis by (simp add: fl_win_def)
qed

theorem jbuf_stores_new_frame_witness:
  "\<exists>jb jb'. pjmedia_jbuf_create ''jb'' 2 20 4 = Some jb \<and>
     pjmedia_jbuf_put_frame2 jb [1, 2, 3] 3 9 6 = Some (False, jb') \<and>
     win_at (flist_origin (jb_framelist jb'), frames (jb_framelist jb')) 6 = Some ([1, 2], 9)"
proof -
  obtain jb where jb: "pjmedia_jbuf_create ''jb'' 2 20 4 = Some jb" "jb_last_seq_no jb = -1" "jb_frame_size jb = 2"
    by (simp add: pjmedia_jbuf_create_def)
  have "jb_inv jb" by (rule create_inv(1) [OF jb(1)]) (simp_all add: jb_bound_def)
  from jbuf_stores_new_frame [OF this, of 6 3 "[1, 2, 3]" 9] jb show ?thesis
    by (auto simp del: win_at.simps)
qed

text \<open>
  C17: A fixed delay stays fixed. After \<open>pjmedia_jbuf_set_fixed\<close> with a prefetch of at most four
  fifths of the capacity, any traffic (puts, gets, resets) is processed without a fault and leaves
  the prefetch as it was set. The capacity is below \<open>2 ^ 30\<close>, where the unsigned product that
  computes the four fifths does not wrap.
\<close>

theorem jbuf_fixed_delay_stays:
  assumes "jb_inv jb" "jb_max_count jb < 2 ^ 30"
    and "pjmedia_jbuf_set_fixed jb p = (PJ_SUCCESS, jb1)" "5 * p \<le> 4 * jb_max_count jb"
    and "\<forall>c \<in> set cs. is_traffic c \<and> jb_call_ok c"
  shows "\<exists>tr jb'. jb_trace cs jb1 = Some (tr, jb') \<and> jb_prefetch jb' = int p"
proof -
  have "wrap32 (int (jb_max_count jb) * 4) = jb_max_count jb * 4" using assms(2) by (simp add: wrap32_def)
  then have "fixed_at (int p) jb1"
    using assms(3,4) by (auto simp: pjmedia_jbuf_set_fixed_def fixed_at_def split: if_splits)
  moreover have "jb_inv jb1" using set_fixed_inv [OF assms(1), of p] assms(3) by simp
  then obtain tr jb' where "jb_trace cs jb1 = Some (tr, jb')" using jb_trace_delivers [of jb1 cs] assms(5) by auto
  ultimately show ?thesis using fixed_trace [of "int p" jb1 cs tr jb'] assms(5) by (auto simp: fixed_at_def)
qed

theorem jbuf_fixed_delay_stays_witness:
  "\<exists>jb jb1. pjmedia_jbuf_set_fixed jb 3 = (PJ_SUCCESS, jb1) \<and>
     (\<exists>tr jb'. jb_trace [Jb_put [1] 1 0 6, Jb_get, Jb_put [1] 1 0 30, Jb_get] jb1 = Some (tr, jb') \<and> jb_prefetch jb' = int 3)"
proof -
  obtain jb where jb: "pjmedia_jbuf_create ''jb'' 2 20 4 = Some jb" "jb_max_count jb = 4"
    by (simp add: pjmedia_jbuf_create_def)
  then obtain jb1 where jb1: "pjmedia_jbuf_set_fixed jb 3 = (PJ_SUCCESS, jb1)" by (simp add: pjmedia_jbuf_set_fixed_def)
  have inv: "jb_inv jb" by (rule create_inv(1) [OF jb(1)]) (simp_all add: jb_bound_def)
  from jbuf_fixed_delay_stays [OF inv _ jb1, of "[Jb_put [1] 1 0 6, Jb_get, Jb_put [1] 1 0 30, Jb_get]"] jb(2) jb1
  show ?thesis by (auto simp del: jb_trace.simps)
qed

text \<open>
  A duplicate that arrives when the buffer has run empty is played again: the check for late
  frames is skipped for an empty frame list, so the frame with number 5 is returned twice.
\<close>

theorem jbuf_replays_duplicate:
  "map_option fst (jb_trace [Jb_put [1] 1 0 5, Jb_get, Jb_put [1] 1 0 5, Jb_get] (the (pjmedia_jbuf_create ''jb'' 1 20 4)))
     = Some [(5, ([1], 0)), (5, ([1], 0))]"
  by code_simp

end
