(* ===== verification/Media_Rtp.thy ===== *)
theory Media_Rtp
  imports Pj_Prelude
begin

text \<open>
  RTP sessions (\<^verbatim>\<open>pjmedia/src/pjmedia/rtp.c\<close>, \<^verbatim>\<open>pjmedia/include/pjmedia/rtp.h\<close>) on a little-endian
  host: packet headers, the outgoing side of a session and the sequence number control of the
  incoming side.

  The fields of a header are words of their width in the struct; \<open>rh_seq\<close>, \<open>rh_ts\<close> and \<open>rh_ssrc\<close>
  hold numbers in network byte order, as in the code, and \<open>hdr_bytes\<close> and \<open>hdr_read\<close> say how the
  struct lies in memory. Comparisons and sums are on \<open>uint\<close> where C promotes the 16-bit operands to
  \<open>int\<close>. The two results of \<open>pj_rand\<close> are arguments.
\<close>

unbundle bit_operations_syntax

subsection \<open>Byte order and memory layout\<close>

definition pj_htons :: "u16 \<Rightarrow> u16" where
  "pj_htons x = push_bit 8 x OR drop_bit 8 x"

definition pj_ntohs :: "u16 \<Rightarrow> u16" where
  "pj_ntohs x = push_bit 8 x OR drop_bit 8 x"

definition pj_htonl :: "u32 \<Rightarrow> u32" where
  "pj_htonl x = push_bit 24 (take_bit 8 x) OR push_bit 16 (take_bit 8 (drop_bit 8 x)) OR
     push_bit 8 (take_bit 8 (drop_bit 16 x)) OR take_bit 8 (drop_bit 24 x)"

definition pj_ntohl :: "u32 \<Rightarrow> u32" where
  "pj_ntohl x = push_bit 24 (take_bit 8 x) OR push_bit 16 (take_bit 8 (drop_bit 8 x)) OR
     push_bit 8 (take_bit 8 (drop_bit 16 x)) OR take_bit 8 (drop_bit 24 x)"

definition put16 :: "u16 \<Rightarrow> u8 list" where
  "put16 x = [ucast x, ucast (drop_bit 8 x)]"

definition put32 :: "u32 \<Rightarrow> u8 list" where
  "put32 x = [ucast x, ucast (drop_bit 8 x), ucast (drop_bit 16 x), ucast (drop_bit 24 x)]"

definition get16 :: "u8 list \<Rightarrow> nat \<Rightarrow> u16 option" where
  "get16 b i = do { l \<leftarrow> rd b i; h \<leftarrow> rd b (i + 1); Some (ucast l OR push_bit 8 (ucast h)) }"

definition get32 :: "u8 list \<Rightarrow> nat \<Rightarrow> u32 option" where
  "get32 b i = do {
     b0 \<leftarrow> rd b i; b1 \<leftarrow> rd b (i + 1); b2 \<leftarrow> rd b (i + 2); b3 \<leftarrow> rd b (i + 3);
     Some (ucast b0 OR push_bit 8 (ucast b1) OR push_bit 16 (ucast b2) OR push_bit 24 (ucast b3))
   }"

record pjmedia_rtp_hdr =
  rh_cc :: "4 word"
  rh_x :: "1 word"
  rh_p :: "1 word"
  rh_v :: "2 word"
  rh_pt :: "7 word"
  rh_m :: "1 word"
  rh_seq :: u16
  rh_ts :: u32
  rh_ssrc :: u32

definition sizeof_rtp_hdr :: nat where "sizeof_rtp_hdr = 12"

definition hdr_byte0 :: "pjmedia_rtp_hdr \<Rightarrow> u8" where
  "hdr_byte0 h =
     ucast (rh_cc h) OR push_bit 4 (ucast (rh_x h)) OR push_bit 5 (ucast (rh_p h)) OR push_bit 6 (ucast (rh_v h))"

definition hdr_byte1 :: "pjmedia_rtp_hdr \<Rightarrow> u8" where
  "hdr_byte1 h = ucast (rh_pt h) OR push_bit 7 (ucast (rh_m h))"

definition hdr_bytes :: "pjmedia_rtp_hdr \<Rightarrow> u8 list" where
  "hdr_bytes h = [hdr_byte0 h, hdr_byte1 h]
     @ put16 (rh_seq h) @ put32 (rh_ts h) @ put32 (rh_ssrc h)"

definition hdr_read :: "u8 list \<Rightarrow> pjmedia_rtp_hdr option" where
  "hdr_read b = do {
     b0 \<leftarrow> rd b 0; b1 \<leftarrow> rd b 1; seq \<leftarrow> get16 b 2; ts \<leftarrow> get32 b 4; ssrc \<leftarrow> get32 b 8;
     Some \<lparr>rh_cc = ucast b0, rh_x = ucast (drop_bit 4 b0), rh_p = ucast (drop_bit 5 b0),
           rh_v = ucast (drop_bit 6 b0), rh_pt = ucast b1, rh_m = ucast (drop_bit 7 b1),
           rh_seq = seq, rh_ts = ts, rh_ssrc = ssrc\<rparr>
   }"

text \<open>The header extension \<open>pjmedia_rtp_ext_hdr\<close> is two 16-bit numbers, the profile data and then
  the length; the code reads the second.\<close>

definition ext_length :: "u8 list \<Rightarrow> nat \<Rightarrow> u16 option" where
  "ext_length b off = get16 b (off + 2)"

subsection \<open>Sessions\<close>

record pjmedia_rtp_seq_session =
  max_seq :: u16
  cycles :: u32
  base_seq :: u32
  bad_seq :: u32
  probation :: u32

record pjmedia_rtp_session =
  out_hdr :: pjmedia_rtp_hdr
  seq_ctrl :: pjmedia_rtp_seq_session
  out_pt :: u16
  out_extseq :: u32
  peer_ssrc :: u32
  received :: u32

text \<open>The flags of \<open>status.flag\<close>; assigning \<open>status.value\<close> assigns all of them.\<close>

record rtp_flags =
  f_bad :: bool
  f_badpt :: bool
  f_badssrc :: bool
  f_dup :: bool
  f_outorder :: bool
  f_probation :: bool
  f_restart :: bool

definition no_flags :: rtp_flags where
  "no_flags = \<lparr>f_bad = False, f_badpt = False, f_badssrc = False, f_dup = False, f_outorder = False,
               f_probation = False, f_restart = False\<rparr>"

record pjmedia_rtp_status =
  rs_flags :: rtp_flags
  rs_diff :: u16

record pjmedia_rtp_session_setting =
  set_flags :: u8
  set_default_pt :: int
  set_sender_ssrc :: u32
  set_seq :: u16
  set_ts :: u32

datatype rtp_error = PJMEDIA_RTP_EINVER | PJMEDIA_RTP_EINLEN

definition RTP_VERSION :: "2 word" where "RTP_VERSION = 2"
definition RTP_SEQ_MOD :: int where "RTP_SEQ_MOD = 65536"
definition MAX_DROPOUT :: int where "MAX_DROPOUT = 3000"
definition MAX_MISORDER :: int where "MAX_MISORDER = 100"
definition MIN_SEQUENTIAL :: int where "MIN_SEQUENTIAL = 2"

definition zero_hdr :: pjmedia_rtp_hdr where
  "zero_hdr = \<lparr>rh_cc = 0, rh_x = 0, rh_p = 0, rh_v = 0, rh_pt = 0, rh_m = 0, rh_seq = 0, rh_ts = 0, rh_ssrc = 0\<rparr>"

definition zero_seq :: pjmedia_rtp_seq_session where
  "zero_seq = \<lparr>max_seq = 0, cycles = 0, base_seq = 0, bad_seq = 0, probation = 0\<rparr>"

text \<open>\<open>sizeof(struct pjmedia_rtp_hdr)\<close> is 12 in the layout above, so the packing check passes.\<close>

definition pjmedia_rtp_session_init :: "u32 \<Rightarrow> u32 \<Rightarrow> int \<Rightarrow> u32 \<Rightarrow> pjmedia_rtp_session" where
  "pjmedia_rtp_session_init rand1 rand2 default_pt sender_ssrc =
     (let ssrc = (if sender_ssrc = 0 \<or> sender_ssrc = -1 then pj_htonl rand1 else pj_htonl sender_ssrc);
          extseq = rand2 AND 0x7FFF;
          hdr = zero_hdr\<lparr>rh_v := RTP_VERSION, rh_p := 0, rh_x := 0, rh_cc := 0, rh_m := 0,
                         rh_pt := ucast (word_of_int default_pt :: u8),
                         rh_seq := pj_htons (ucast extseq), rh_ts := 0, rh_ssrc := ssrc\<rparr>
      in \<lparr>out_hdr = hdr, seq_ctrl = zero_seq, out_pt = word_of_int default_pt, out_extseq = extseq,
          peer_ssrc = 0, received = 0\<rparr>)"

definition pjmedia_rtp_session_init2 ::
  "u32 \<Rightarrow> u32 \<Rightarrow> pjmedia_rtp_session_setting \<Rightarrow> pjmedia_rtp_session" where
  "pjmedia_rtp_session_init2 rand1 rand2 settings =
     (let pt = (if set_flags settings AND 1 \<noteq> 0 then set_default_pt settings else 0);
          sender_ssrc = (if set_flags settings AND 2 \<noteq> 0 then set_sender_ssrc settings else 0);
          ses = pjmedia_rtp_session_init rand1 rand2 pt sender_ssrc;
          ses1 = (if set_flags settings AND 4 \<noteq> 0
                  then let e = ucast (set_seq settings)
                       in ses\<lparr>out_extseq := e, out_hdr := (out_hdr ses)\<lparr>rh_seq := pj_htons (ucast e)\<rparr>\<rparr>
                  else ses)
      in if set_flags settings AND 8 \<noteq> 0
         then ses1\<lparr>out_hdr := (out_hdr ses1)\<lparr>rh_ts := pj_htonl (set_ts settings)\<rparr>\<rparr>
         else ses1)"

text \<open>The result is the header to send, \<open>None\<close> for a clock frame, where \<open>*rtphdr\<close> and \<open>*hdrlen\<close>
  are not set.\<close>

definition pjmedia_rtp_encode_rtp ::
  "pjmedia_rtp_session \<Rightarrow> int \<Rightarrow> int \<Rightarrow> int \<Rightarrow> int \<Rightarrow> (pjmedia_rtp_hdr \<times> nat) option \<times> pjmedia_rtp_session" where
  "pjmedia_rtp_encode_rtp ses0 pt m payload_len ts_len =
     (let ses = ses0\<lparr>out_hdr := (out_hdr ses0)\<lparr>rh_ts := pj_htonl (pj_ntohl (rh_ts (out_hdr ses0)) + word_of_int ts_len)\<rparr>\<rparr>
      in if payload_len = 0 then (None, ses)
         else let extseq = out_extseq ses + 1;
                  hdr = (out_hdr ses)\<lparr>rh_pt := ucast (word_of_int (if pt = -1 then uint (out_pt ses) else pt) :: u8),
                                      rh_m := ucast (word_of_int m :: u16),
                                      rh_seq := pj_htons (ucast extseq)\<rparr>
              in (Some (hdr, sizeof_rtp_hdr), ses\<lparr>out_extseq := extseq, out_hdr := hdr\<rparr>))"

text \<open>\<open>pkt\<close> is the memory the packet pointer points to, \<open>pkt_len\<close> the length argument. A read
  outside of \<open>pkt\<close> is \<open>None\<close>: the version, the CSRC count and the extension flag are in the first
  byte. On success the result is the header, the offset of the payload and its length.\<close>

definition pjmedia_rtp_decode_rtp ::
  "u8 list \<Rightarrow> int \<Rightarrow> (rtp_error + pjmedia_rtp_hdr \<times> nat \<times> nat) option" where
  "pjmedia_rtp_decode_rtp pkt pkt_len = do {
     b0 \<leftarrow> rd pkt 0;
     if (ucast (drop_bit 6 b0) :: 2 word) \<noteq> RTP_VERSION then Some (Inl PJMEDIA_RTP_EINVER)
     else do {
       let offset = sizeof_rtp_hdr + unat (ucast b0 :: 4 word) * 4;
       offset' \<leftarrow> (if (ucast (drop_bit 4 b0) :: 1 word) \<noteq> 0
                  then do { len \<leftarrow> ext_length pkt offset; Some (offset + unat (pj_ntohs len) * 4) }
                  else Some offset);
       if int offset' > pkt_len then Some (Inl PJMEDIA_RTP_EINLEN)
       else do { hdr \<leftarrow> hdr_read pkt; Some (Inr (hdr, offset', nat (pkt_len - int offset'))) }
     }
   }"

definition pjmedia_rtp_seq_restart :: "pjmedia_rtp_seq_session \<Rightarrow> u16 \<Rightarrow> pjmedia_rtp_seq_session" where
  "pjmedia_rtp_seq_restart sess seq =
     sess\<lparr>base_seq := ucast seq, max_seq := seq, bad_seq := word_of_int (RTP_SEQ_MOD + 1), cycles := 0\<rparr>"

definition pjmedia_rtp_seq_init :: "pjmedia_rtp_seq_session \<Rightarrow> u16 \<Rightarrow> pjmedia_rtp_seq_session" where
  "pjmedia_rtp_seq_init sess seq =
     (pjmedia_rtp_seq_restart sess seq)\<lparr>max_seq := seq - 1, probation := word_of_int MIN_SEQUENTIAL\<rparr>"

definition seq_probation ::
  "pjmedia_rtp_seq_session \<Rightarrow> u16 \<Rightarrow> pjmedia_rtp_status \<times> pjmedia_rtp_seq_session" where
  "seq_probation sess seq =
     (if uint seq = uint (max_seq sess) + 1
      then let left = probation sess - 1
           in (\<lparr>rs_flags = no_flags\<lparr>f_probation := left \<noteq> 0\<rparr>, rs_diff = 1\<rparr>,
               sess\<lparr>probation := left, max_seq := seq\<rparr>)
      else (\<lparr>rs_flags = no_flags\<lparr>f_probation := True, f_bad := True,
                                f_dup := (seq = max_seq sess), f_outorder := (seq \<noteq> max_seq sess)\<rparr>,
             rs_diff = 0\<rparr>,
            sess\<lparr>probation := word_of_int (MIN_SEQUENTIAL - 1), max_seq := seq\<rparr>))"

definition pjmedia_rtp_seq_update ::
  "pjmedia_rtp_seq_session \<Rightarrow> u16 \<Rightarrow> pjmedia_rtp_status \<times> pjmedia_rtp_seq_session" where
  "pjmedia_rtp_seq_update sess seq =
     (let udelta = seq - max_seq sess
      in if probation sess \<noteq> 0 then seq_probation sess seq
         else if udelta = 0 then (\<lparr>rs_flags = no_flags\<lparr>f_dup := True\<rparr>, rs_diff = 0\<rparr>, sess)
         else if uint udelta < MAX_DROPOUT
         then (\<lparr>rs_flags = no_flags, rs_diff = udelta\<rparr>,
               sess\<lparr>cycles := (if seq < max_seq sess then cycles sess + word_of_int RTP_SEQ_MOD else cycles sess),
                    max_seq := seq\<rparr>)
         else if uint udelta \<le> RTP_SEQ_MOD - MAX_MISORDER
         then if ucast seq = bad_seq sess
              then (\<lparr>rs_flags = no_flags\<lparr>f_restart := True, f_probation := True\<rparr>, rs_diff = 1\<rparr>,
                    pjmedia_rtp_seq_restart sess seq)
              else (\<lparr>rs_flags = no_flags\<lparr>f_bad := True, f_outorder := True\<rparr>, rs_diff = 0\<rparr>,
                    sess\<lparr>bad_seq := word_of_int (uint seq + 1) AND word_of_int (RTP_SEQ_MOD - 1)\<rparr>)
         else (\<lparr>rs_flags = no_flags\<lparr>f_outorder := True\<rparr>, rs_diff = 0\<rparr>, sess))"

text \<open>The status argument is \<open>None\<close> for a null pointer; for a bad payload type \<open>diff\<close> is left as it
  was. \<open>pjmedia_rtp_seq_update\<close> assigns the whole status, the \<open>badssrc\<close> flag included.\<close>

definition pjmedia_rtp_session_update2 ::
  "pjmedia_rtp_session \<Rightarrow> pjmedia_rtp_hdr \<Rightarrow> pjmedia_rtp_status option \<Rightarrow> bool
     \<Rightarrow> pjmedia_rtp_status option \<times> pjmedia_rtp_session" where
  "pjmedia_rtp_session_update2 ses0 hdr p_seq_st check_pt =
     (let ses1 = (if peer_ssrc ses0 = 0 then ses0\<lparr>peer_ssrc := pj_ntohl (rh_ssrc hdr)\<rparr> else ses0);
          badssrc = (pj_ntohl (rh_ssrc hdr) \<noteq> peer_ssrc ses1);
          flags = no_flags\<lparr>f_badssrc := badssrc\<rparr>;
          ses2 = (if badssrc then ses1\<lparr>peer_ssrc := pj_ntohl (rh_ssrc hdr)\<rparr> else ses1)
      in if check_pt \<and> uint (rh_pt hdr) \<noteq> uint (out_pt ses2)
         then (map_option (\<lambda>st. st\<lparr>rs_flags := flags\<lparr>f_bad := True, f_badpt := True\<rparr>\<rparr>) p_seq_st, ses2)
         else let ses3 = (if received ses2 = 0
                          then ses2\<lparr>seq_ctrl := pjmedia_rtp_seq_init (seq_ctrl ses2) (pj_ntohs (rh_seq hdr))\<rparr>
                          else ses2);
                  (seq_st, ctrl) = pjmedia_rtp_seq_update (seq_ctrl ses3) (pj_ntohs (rh_seq hdr));
                  ses4 = ses3\<lparr>seq_ctrl := ctrl\<rparr>;
                  ses5 = (if f_restart (rs_flags seq_st) then ses4\<lparr>received := received ses4 + 1\<rparr>
                          else if \<not> f_bad (rs_flags seq_st) then ses4\<lparr>received := received ses4 + 1\<rparr>
                          else ses4)
              in (map_option (\<lambda>_. seq_st) p_seq_st, ses5))"

definition pjmedia_rtp_session_update ::
  "pjmedia_rtp_session \<Rightarrow> pjmedia_rtp_hdr \<Rightarrow> pjmedia_rtp_status option
     \<Rightarrow> pjmedia_rtp_status option \<times> pjmedia_rtp_session" where
  "pjmedia_rtp_session_update ses hdr p_seq_st = pjmedia_rtp_session_update2 ses hdr p_seq_st True"

end
