(* ===== verification/Media_Rtp_Spec.thy ===== *)
theory Media_Rtp_Spec
  imports Media_Rtp
begin

text \<open>
  Properties of RTP sessions: a header survives the way over the wire, the packets of a session are
  numbered and time-stamped without gaps, decoding stays inside the packet, and the receiver tracks
  the highest extended sequence number over reordering, loss and wrap-around.
\<close>

subsection \<open>Byte order and layout\<close>

lemma ntohs_htons [simp]: "pj_ntohs (pj_htons x) = x"
  by (rule bit_word_eqI) (auto simp: pj_ntohs_def pj_htons_def bit_simps)

text \<open>Byte \<open>k\<close> of a swapped number is byte \<open>3 - k\<close> of the number.\<close>

lemma bit_htonl: "n < 32 \<Longrightarrow> bit (pj_htonl x) n = bit x (8 * (3 - n div 8) + n mod 8)"
proof -
  assume "n < 32"
  define j where "j = n mod 8"
  have j: "j < 8" by (simp add: j_def)
  have "n div 8 < 4" using \<open>n < 32\<close> by (simp add: less_mult_imp_div_less)
  then have "n div 8 = 0 \<or> n div 8 = 1 \<or> n div 8 = 2 \<or> n div 8 = 3" by linarith
  then consider "n = j" | "n = 8 + j" | "n = 16 + j" | "n = 24 + j"
    using div_mult_mod_eq [of n 8] unfolding j_def by fastforce
  moreover have "(8 + j) div 8 = 1" "(16 + j) div 8 = 2" "(24 + j) div 8 = 3"
    "(8 + j) mod 8 = j" "(16 + j) mod 8 = j" "(24 + j) mod 8 = j"
    using j by presburger+
  ultimately show ?thesis
    by cases (use j in \<open>simp_all add: pj_htonl_def bit_simps\<close>)
qed

lemma ntohl_is_htonl: "pj_ntohl = pj_htonl"
  by (simp add: fun_eq_iff pj_ntohl_def pj_htonl_def)

lemma ntohl_htonl [simp]: "pj_ntohl (pj_htonl x) = x"
proof (rule bit_word_eqI)
  fix n assume "n < LENGTH(32)"
  then have n: "n < 32" by simp
  define k where "k = 8 * (3 - n div 8) + n mod 8"
  have "n div 8 < 4" using n by (simp add: less_mult_imp_div_less)
  then have k: "k < 32" "k div 8 = 3 - n div 8" "k mod 8 = n mod 8"
    unfolding k_def by auto
  have "3 - k div 8 = n div 8" using k(2) \<open>n div 8 < 4\<close> by simp
  then show "bit (pj_ntohl (pj_htonl x)) n = bit x n"
    using bit_htonl [OF n, of "pj_htonl x"] bit_htonl [OF k(1), of x] k(3)
    by (simp add: ntohl_is_htonl k_def [symmetric])
qed

lemma bytes16: "ucast (ucast x :: u8) OR push_bit 8 (ucast (ucast (drop_bit 8 x) :: u8)) = (x :: u16)"
  by (rule bit_word_eqI) (auto simp: bit_simps)

lemma bytes32_lo:
  "ucast (ucast x :: u8) OR push_bit 8 (ucast (ucast (drop_bit 8 x) :: u8)) = take_bit 16 (x :: u32)"
  by (rule bit_word_eqI) (auto simp: bit_simps)

lemma bytes32_hi:
  "push_bit 16 (ucast (ucast (drop_bit 16 x) :: u8)) OR push_bit 24 (ucast (ucast (drop_bit 24 x) :: u8)) =
     push_bit 16 (drop_bit 16 (x :: u32))"
proof (rule bit_word_eqI)
  fix n assume "n < LENGTH(32)"
  then show "bit (push_bit 16 (ucast (ucast (drop_bit 16 x) :: u8)) OR
      push_bit 24 (ucast (ucast (drop_bit 24 x) :: u8)) :: u32) n = bit (push_bit 16 (drop_bit 16 x)) n"
    by (cases "n < 24") (auto simp: bit_simps)
qed

lemma bytes32:
  "ucast (ucast x :: u8) OR push_bit 8 (ucast (ucast (drop_bit 8 x) :: u8)) OR
     push_bit 16 (ucast (ucast (drop_bit 16 x) :: u8)) OR push_bit 24 (ucast (ucast (drop_bit 24 x) :: u8)) = (x :: u32)"
proof -
  have "take_bit 16 x OR push_bit 16 (drop_bit 16 x) = x"
  proof (rule bit_word_eqI)
    fix n assume "n < LENGTH(32)"
    then show "bit (take_bit 16 x OR push_bit 16 (drop_bit 16 x)) n = bit x n"
      by (cases "n < 16") (auto simp: bit_simps)
  qed
  then show ?thesis by (simp add: bytes32_lo bytes32_hi or.assoc [symmetric])
qed

lemma hdr_byte0_fields [simp]:
  "ucast (hdr_byte0 h) = rh_cc h" "ucast (drop_bit 4 (hdr_byte0 h)) = rh_x h"
  "ucast (drop_bit 5 (hdr_byte0 h)) = rh_p h" "ucast (drop_bit 6 (hdr_byte0 h)) = rh_v h"
proof -
  show "ucast (hdr_byte0 h) = rh_cc h"
    by (rule bit_word_eqI) (auto simp: hdr_byte0_def bit_simps dest: bit_imp_le_length)
  show "ucast (drop_bit 4 (hdr_byte0 h)) = rh_x h"
    by (rule bit_word_eqI) (auto simp: hdr_byte0_def bit_simps dest: bit_imp_le_length)
  show "ucast (drop_bit 5 (hdr_byte0 h)) = rh_p h"
    by (rule bit_word_eqI) (auto simp: hdr_byte0_def bit_simps dest: bit_imp_le_length)
  show "ucast (drop_bit 6 (hdr_byte0 h)) = rh_v h"
    by (rule bit_word_eqI) (auto simp: hdr_byte0_def bit_simps dest: bit_imp_le_length)
qed

lemma hdr_byte1_fields [simp]:
  "ucast (hdr_byte1 h) = rh_pt h" "ucast (drop_bit 7 (hdr_byte1 h)) = rh_m h"
proof -
  show "ucast (hdr_byte1 h) = rh_pt h"
    by (rule bit_word_eqI) (auto simp: hdr_byte1_def bit_simps dest: bit_imp_le_length)
  show "ucast (drop_bit 7 (hdr_byte1 h)) = rh_m h"
    by (rule bit_word_eqI) (auto simp: hdr_byte1_def bit_simps dest: bit_imp_le_length)
qed

lemma hdr_bytes_length [simp]: "length (hdr_bytes h) = sizeof_rtp_hdr"
  by (simp add: hdr_bytes_def put16_def put32_def sizeof_rtp_hdr_def)

lemma hdr_read_bytes: "hdr_read (hdr_bytes h @ rest) = Some h"
  by (simp add: hdr_read_def hdr_bytes_def put16_def put32_def get16_def get32_def rd_def bytes16 bytes32)

lemma hdr_bytes_0: "rd (hdr_bytes h @ rest) 0 = Some (hdr_byte0 h)"
  by (simp add: hdr_bytes_def rd_def)

lemma decode_plain:
  assumes "rh_v h = RTP_VERSION" "rh_x h = 0" "rh_cc h = 0"
  shows "pjmedia_rtp_decode_rtp (hdr_bytes h @ payload) (int (12 + length payload)) =
           Some (Inr (h, 12, length payload))"
  using assms
  by (simp add: pjmedia_rtp_decode_rtp_def hdr_bytes_0 hdr_read_bytes sizeof_rtp_hdr_def del: of_nat_add)

subsection \<open>Tracking the sequence number\<close>

text \<open>A valid source whose highest extended sequence number is \<open>e\<close>: \<open>cycles\<close> counts the
  wrap-arounds (in units of \<open>2 ^ 16\<close>, at 32 bits) and \<open>max_seq\<close> is the rest.\<close>

definition tracks :: "pjmedia_rtp_seq_session \<Rightarrow> nat \<Rightarrow> bool" where
  "tracks sess e \<longleftrightarrow> probation sess = 0 \<and> max_seq sess = of_nat e \<and> cycles sess = of_nat (65536 * (e div 65536))"

lemma tracks_ext: "tracks sess e \<Longrightarrow> cycles sess + ucast (max_seq sess) = of_nat e"
proof -
  assume t: "tracks sess e"
  have "(ucast (of_nat e :: u16) :: u32) = of_nat (e mod 65536)"
    by (simp add: word_eq_iff_unsigned unsigned_ucast_eq unsigned_of_nat take_bit_eq_mod)
  then have "cycles sess + ucast (max_seq sess) = of_nat (65536 * (e div 65536) + e mod 65536)"
    using t unfolding tracks_def of_nat_add by simp
  then show ?thesis by (simp only: mult_div_mod_eq)
qed

lemma u16_of_nat_diff:
  assumes "e \<le> e'" "e' < e + 65536"
  shows "(of_nat e' - of_nat e :: u16) = of_nat (e' - e)" "uint (of_nat (e' - e) :: u16) = int (e' - e)"
proof -
  show "(of_nat e' - of_nat e :: u16) = of_nat (e' - e)" using assms by (simp add: of_nat_diff)
  show "uint (of_nat (e' - e) :: u16) = int (e' - e)"
    using assms by (simp add: unsigned_of_nat take_bit_eq_mod del: of_nat_diff)
qed

lemma u16_of_nat_late:
  assumes "e' < e" "e < e' + 65536"
  shows "(of_nat e' - of_nat e :: u16) = of_nat (65536 - (e - e'))"
    "uint (of_nat (65536 - (e - e')) :: u16) = int (65536 - (e - e'))"
proof -
  have "(65536 :: u16) = 0" by simp
  moreover have "(of_nat (65536 - (e - e')) :: u16) = of_nat 65536 - (of_nat e - of_nat e')"
    using assms by (simp add: of_nat_diff del: of_nat_numeral)
  ultimately show "(of_nat e' - of_nat e :: u16) = of_nat (65536 - (e - e'))" by simp
  show "uint (of_nat (65536 - (e - e')) :: u16) = int (65536 - (e - e'))"
    using assms by (simp add: unsigned_of_nat take_bit_eq_mod del: of_nat_diff)
qed

lemma u16_of_nat_less:
  assumes "e < e'" "e' < e + 65536"
  shows "(of_nat e' :: u16) < of_nat e \<longleftrightarrow> e' div 65536 \<noteq> e div 65536"
    "e' div 65536 \<noteq> e div 65536 \<Longrightarrow> e' div 65536 = e div 65536 + 1"
proof -
  have eq: "e = 65536 * (e div 65536) + e mod 65536" "e' = 65536 * (e' div 65536) + e' mod 65536" by simp_all
  have lt: "e mod 65536 < 65536" "e' mod 65536 < 65536" by simp_all
  have div: "e' div 65536 = e div 65536 \<or> e' div 65536 = e div 65536 + 1"
    using eq lt assms by linarith
  show "e' div 65536 \<noteq> e div 65536 \<Longrightarrow> e' div 65536 = e div 65536 + 1" using div by simp
  have "e' mod 65536 < e mod 65536 \<longleftrightarrow> e' div 65536 \<noteq> e div 65536"
    using div eq lt assms by linarith
  then show "(of_nat e' :: u16) < of_nat e \<longleftrightarrow> e' div 65536 \<noteq> e div 65536"
    by (simp add: word_less_nat_alt unsigned_of_nat take_bit_eq_mod)
qed

lemma update_newer:
  assumes "tracks sess e" "e < e'" "e' < e + 3000"
  shows "\<exists>sess'. pjmedia_rtp_seq_update sess (of_nat e') = (\<lparr>rs_flags = no_flags, rs_diff = of_nat (e' - e)\<rparr>, sess') \<and>
           tracks sess' e' \<and> bad_seq sess' = bad_seq sess"
proof -
  have d: "(of_nat e' - of_nat e :: u16) = of_nat (e' - e)" "uint (of_nat (e' - e) :: u16) = int (e' - e)"
    using u16_of_nat_diff [of e e'] assms by auto
  have "(of_nat (e' - e) :: u16) \<noteq> 0"
  proof
    assume "(of_nat (e' - e) :: u16) = 0"
    then have "int (e' - e) = 0" using d(2) by simp
    then show False using assms by simp
  qed
  moreover have "(of_nat e' :: u16) < of_nat e \<longleftrightarrow> e' div 65536 \<noteq> e div 65536"
    "e' div 65536 \<noteq> e div 65536 \<Longrightarrow> e' div 65536 = e div 65536 + 1"
    using u16_of_nat_less [of e e'] assms by auto
  moreover have "e' - e < 3000" using assms(2,3) by simp
  ultimately show ?thesis
    using assms d
    by (cases "e' div 65536 = e div 65536")
      (simp_all add: pjmedia_rtp_seq_update_def Let_def tracks_def MAX_DROPOUT_def RTP_SEQ_MOD_def
         distrib_left del: of_nat_diff)
qed

lemma update_same:
  "tracks sess e \<Longrightarrow> pjmedia_rtp_seq_update sess (of_nat e) = (\<lparr>rs_flags = no_flags\<lparr>f_dup := True\<rparr>, rs_diff = 0\<rparr>, sess)"
  by (simp add: pjmedia_rtp_seq_update_def tracks_def)

lemma update_older:
  assumes "tracks sess e" "e' < e" "e < e' + 100"
  shows "pjmedia_rtp_seq_update sess (of_nat e') = (\<lparr>rs_flags = no_flags\<lparr>f_outorder := True\<rparr>, rs_diff = 0\<rparr>, sess)"
proof -
  have d: "(of_nat e' - of_nat e :: u16) = of_nat (65536 - (e - e'))"
    "uint (of_nat (65536 - (e - e')) :: u16) = int (65536 - (e - e'))"
    using u16_of_nat_late [of e' e] assms by auto
  have "(of_nat (65536 - (e - e')) :: u16) \<noteq> 0"
  proof
    assume "(of_nat (65536 - (e - e')) :: u16) = 0"
    then have "int (65536 - (e - e')) = 0" using d(2) by simp
    then show False using assms by simp
  qed
  then show ?thesis
    using assms d
    by (simp add: pjmedia_rtp_seq_update_def Let_def tracks_def MAX_DROPOUT_def MAX_MISORDER_def RTP_SEQ_MOD_def
        del: of_nat_diff)
qed

text \<open>The specification: extended numbers are unbounded, the receiver keeps the highest.\<close>

definition status_of :: "nat \<Rightarrow> nat \<Rightarrow> pjmedia_rtp_status" where
  "status_of e x = \<lparr>rs_flags = no_flags\<lparr>f_dup := (x = e), f_outorder := (x < e)\<rparr>, rs_diff = of_nat (x - e)\<rparr>"

fun track_all :: "nat \<Rightarrow> nat list \<Rightarrow> pjmedia_rtp_status list \<times> nat" where
  "track_all e [] = ([], e)"
| "track_all e (x # xs) = (let (sts, h) = track_all (max e x) xs in (status_of e x # sts, h))"

fun seq_run :: "pjmedia_rtp_seq_session \<Rightarrow> u16 list \<Rightarrow> pjmedia_rtp_status list \<times> pjmedia_rtp_seq_session" where
  "seq_run sess [] = ([], sess)"
| "seq_run sess (q # qs) =
     (let (st, sess1) = pjmedia_rtp_seq_update sess q; (sts, sess2) = seq_run sess1 qs in (st # sts, sess2))"

text \<open>Every number is less than \<open>MAX_MISORDER\<close> behind and less than \<open>MAX_DROPOUT\<close> ahead of the
  highest before it.\<close>

fun in_window :: "nat \<Rightarrow> nat list \<Rightarrow> bool" where
  "in_window e [] = True"
| "in_window e (x # xs) = (e < x + 100 \<and> x < e + 3000 \<and> in_window (max e x) xs)"

lemma update_in_window:
  assumes "tracks sess e" "e < x + 100" "x < e + 3000"
  shows "\<exists>sess'. pjmedia_rtp_seq_update sess (of_nat x) = (status_of e x, sess') \<and> tracks sess' (max e x)"
proof -
  have eta: "no_flags\<lparr>f_dup := False, f_outorder := False\<rparr> = no_flags" "no_flags\<lparr>f_dup := False, f_outorder := True\<rparr> = no_flags\<lparr>f_outorder := True\<rparr>"
    "no_flags\<lparr>f_dup := True, f_outorder := False\<rparr> = no_flags\<lparr>f_dup := True\<rparr>"
    by (simp_all add: no_flags_def)
  consider "x < e" | "x = e" | "e < x" by linarith
  then show ?thesis
  proof cases
    case 1 then show ?thesis using update_older [of sess e x] assms by (simp add: status_of_def eta max_def)
  next
    case 2 then show ?thesis using update_same [of sess e] assms by (simp add: status_of_def eta)
  next
    case 3 then show ?thesis using update_newer [of sess e x] assms by (auto simp: status_of_def eta max_def simp del: of_nat_diff)
  qed
qed

lemma seq_run_tracks:
  "tracks sess e \<Longrightarrow> in_window e xs \<Longrightarrow>
     \<exists>sess'. seq_run sess (map of_nat xs) = (fst (track_all e xs), sess') \<and> tracks sess' (snd (track_all e xs))"
proof (induction xs arbitrary: sess e)
  case (Cons x xs)
  obtain sess1 where s1: "pjmedia_rtp_seq_update sess (of_nat x) = (status_of e x, sess1)" "tracks sess1 (max e x)"
    using update_in_window [of sess e x] Cons.prems by auto
  obtain sess2 where "seq_run sess1 (map of_nat xs) = (fst (track_all (max e x) xs), sess2)"
    "tracks sess2 (snd (track_all (max e x) xs))"
    using Cons.IH [OF s1(2)] Cons.prems by auto
  with s1 show ?case by (auto simp: Let_def split: prod.split)
qed simp

subsection \<open>From the sender to the receiver\<close>

text \<open>A sender and a receiver as a media stream uses the session: each frame is a marker, a payload
  and the duration in timestamp units, and an empty payload only advances the clock.\<close>

type_synonym rtp_frame = "int \<times> u8 list \<times> int"

fun send_all :: "pjmedia_rtp_session \<Rightarrow> rtp_frame list \<Rightarrow> u8 list list" where
  "send_all ses [] = []"
| "send_all ses ((m, payload, ts_len) # fs) =
     (case pjmedia_rtp_encode_rtp ses (-1) m (int (length payload)) ts_len of
        (None, ses1) \<Rightarrow> send_all ses1 fs
      | (Some (hdr, _), ses1) \<Rightarrow> (hdr_bytes hdr @ payload) # send_all ses1 fs)"

type_synonym rtp_arrival = "rtp_error + pjmedia_rtp_hdr \<times> pjmedia_rtp_status option \<times> u8 list"

definition recv_pkt :: "pjmedia_rtp_session \<Rightarrow> u8 list \<Rightarrow> (rtp_arrival \<times> pjmedia_rtp_session) option" where
  "recv_pkt ses pkt = do {
     r \<leftarrow> pjmedia_rtp_decode_rtp pkt (int (length pkt));
     (case r of
        Inl err \<Rightarrow> Some (Inl err, ses)
      | Inr (hdr, off, n) \<Rightarrow> do {
          payload \<leftarrow> memget pkt off n;
          let (st, ses1) = pjmedia_rtp_session_update ses hdr (Some \<lparr>rs_flags = no_flags, rs_diff = 0\<rparr>);
          Some (Inr (hdr, st, payload), ses1)
        })
   }"

fun recv_all :: "pjmedia_rtp_session \<Rightarrow> u8 list list \<Rightarrow> (rtp_arrival list \<times> pjmedia_rtp_session) option" where
  "recv_all ses [] = Some ([], ses)"
| "recv_all ses (pkt # pkts) = do {
     (r, ses1) \<leftarrow> recv_pkt ses pkt;
     (rs, ses2) \<leftarrow> recv_all ses1 pkts;
     Some (r # rs, ses2)
   }"

text \<open>What is to arrive: the frames with a payload, numbered from \<open>e + 1\<close> and stamped with the sum
  of the durations up to and including their own.\<close>

fun expected :: "u16 \<Rightarrow> u32 \<Rightarrow> rtp_frame list \<Rightarrow> (u16 \<times> u32 \<times> 1 word \<times> u8 list) list" where
  "expected e ts [] = []"
| "expected e ts ((m, payload, ts_len) # fs) =
     (let ts1 = ts + word_of_int ts_len
      in if payload = [] then expected e ts1 fs
         else (e + 1, ts1, word_of_int m, payload) # expected (e + 1) ts1 fs)"

fun arrived :: "rtp_arrival \<Rightarrow> (u16 \<times> u32 \<times> 1 word \<times> u8 list) option" where
  "arrived (Inr (hdr, Some st, payload)) =
     (if f_bad (rs_flags st) \<or> rs_diff st \<noteq> 1 then None
      else Some (pj_ntohs (rh_seq hdr), pj_ntohl (rh_ts hdr), rh_m hdr, payload))"
| "arrived _ = None"

definition sends :: "pjmedia_rtp_session \<Rightarrow> nat \<Rightarrow> u32 \<Rightarrow> u32 \<Rightarrow> u16 \<Rightarrow> bool" where
  "sends ses e ts ssrc pt \<longleftrightarrow>
     rh_v (out_hdr ses) = RTP_VERSION \<and> rh_x (out_hdr ses) = 0 \<and> rh_cc (out_hdr ses) = 0 \<and>
     pj_ntohl (rh_ts (out_hdr ses)) = ts \<and> rh_ssrc (out_hdr ses) = ssrc \<and>
     out_pt ses = pt \<and> uint pt < 128 \<and> out_extseq ses = of_nat e"

definition receives :: "pjmedia_rtp_session \<Rightarrow> nat \<Rightarrow> nat \<Rightarrow> u32 \<Rightarrow> u16 \<Rightarrow> bool" where
  "receives ses k e ssrc pt \<longleftrightarrow>
     out_pt ses = pt \<and> received ses = of_nat k \<and>
     peer_ssrc ses = (if k = 0 then 0 else pj_ntohl ssrc) \<and>
     (k = 1 \<longrightarrow> e < 65535 \<and> probation (seq_ctrl ses) = 1 \<and> max_seq (seq_ctrl ses) = of_nat e \<and> cycles (seq_ctrl ses) = 0) \<and>
     (1 < k \<longrightarrow> tracks (seq_ctrl ses) e)"

text \<open>Encoding keeps the sender's invariant.\<close>

lemma u16_pt: "uint (pt :: u16) < 128 \<Longrightarrow> uint (ucast (word_of_int (uint pt) :: u8) :: 7 word) = uint pt"
proof -
  assume pt: "uint pt < 128"
  have 7: "uint (ucast w :: 7 word) = take_bit 7 (uint w)" for w :: u8 by (simp add: unsigned_ucast_eq)
  have 8: "uint (word_of_int (uint pt) :: u8) = uint pt"
    using pt by (simp only: unsigned_of_int) (simp add: take_bit_int_eq_self)
  show ?thesis unfolding 7 8 using pt by (simp add: take_bit_int_eq_self)
qed

lemma u16_of_u32: "(ucast (of_nat e :: u32) :: u16) = of_nat e"
  by (rule word_unat_eq_iff [THEN iffD2]) (simp add: unsigned_ucast_eq unsigned_of_nat take_bit_eq_mod mod_mod_cancel)

lemma encode_clock:
  "sends ses e ts ssrc pt \<Longrightarrow>
     \<exists>ses'. pjmedia_rtp_encode_rtp ses (-1) m 0 ts_len = (None, ses') \<and> sends ses' e (ts + word_of_int ts_len) ssrc pt"
  by (simp add: pjmedia_rtp_encode_rtp_def sends_def Let_def)

lemma marker_bit: "(ucast (word_of_int m :: u16) :: 1 word) = word_of_int m"
  by (rule bit_word_eqI) (simp add: bit_simps)

lemma encode_frame:
  assumes "sends ses e ts ssrc pt" "plen \<noteq> 0"
  shows "\<exists>hdr ses'. pjmedia_rtp_encode_rtp ses (-1) m plen ts_len = (Some (hdr, 12), ses') \<and>
           sends ses' (e + 1) (ts + word_of_int ts_len) ssrc pt \<and>
           rh_v hdr = RTP_VERSION \<and> rh_x hdr = 0 \<and> rh_cc hdr = 0 \<and> rh_m hdr = word_of_int m \<and>
           uint (rh_pt hdr) = uint pt \<and> pj_ntohs (rh_seq hdr) = of_nat (e + 1) \<and>
           pj_ntohl (rh_ts hdr) = ts + word_of_int ts_len \<and> rh_ssrc hdr = ssrc"
  using assms u16_pt [of pt] u16_of_u32 [of "e + 1"]
  by (simp add: pjmedia_rtp_encode_rtp_def sends_def Let_def marker_bit sizeof_rtp_hdr_def add.commute)

text \<open>The receiver's step, by the number of packets received before: the first packet initializes
  the sequence control, the second ends probation, the others are tracked.\<close>

lemma next_u16: "e < 65535 \<Longrightarrow> uint (of_nat (e + 1) :: u16) = uint (of_nat e :: u16) + 1"
  by (simp add: unsigned_of_nat take_bit_eq_mod del: of_nat_add of_nat_Suc)

lemma seq_first:
  assumes "e < 65535"
  shows "\<exists>st sess'. pjmedia_rtp_seq_update (pjmedia_rtp_seq_init sess (of_nat (e + 1))) (of_nat (e + 1)) = (st, sess') \<and>
           \<not> f_bad (rs_flags st) \<and> rs_diff st = 1 \<and>
           probation sess' = 1 \<and> max_seq sess' = of_nat (e + 1) \<and> cycles sess' = 0"
proof -
  have "max_seq (pjmedia_rtp_seq_init sess (of_nat (e + 1))) = of_nat e"
    by (simp add: pjmedia_rtp_seq_init_def)
  then show ?thesis
    using next_u16 [OF assms]
    by (simp add: pjmedia_rtp_seq_update_def seq_probation_def Let_def no_flags_def)
      (simp add: pjmedia_rtp_seq_init_def pjmedia_rtp_seq_restart_def MIN_SEQUENTIAL_def)
qed

lemma seq_second:
  assumes "e < 65535" "probation sess = 1" "max_seq sess = of_nat e" "cycles sess = 0"
  shows "\<exists>st sess'. pjmedia_rtp_seq_update sess (of_nat (e + 1)) = (st, sess') \<and>
           \<not> f_bad (rs_flags st) \<and> rs_diff st = 1 \<and> tracks sess' (e + 1)"
proof -
  have "(e + 1) div 65536 = 0" using assms(1) by simp
  then show ?thesis
    using assms next_u16 [OF assms(1)]
    by (simp add: pjmedia_rtp_seq_update_def seq_probation_def Let_def no_flags_def tracks_def)
qed

lemma seq_later:
  assumes "tracks sess e"
  shows "\<exists>st sess'. pjmedia_rtp_seq_update sess (of_nat (e + 1)) = (st, sess') \<and>
           \<not> f_bad (rs_flags st) \<and> rs_diff st = 1 \<and> tracks sess' (e + 1)"
  using update_newer [OF assms, of "e + 1"] by (auto simp: no_flags_def)

lemma session_step:
  assumes rx: "receives ses k e ssrc pt" and k: "k + 1 < 2 ^ 32" "k \<le> 1 \<Longrightarrow> e + 1 < 65535"
    and hdr: "uint (rh_pt hdr) = uint pt" "pj_ntohs (rh_seq hdr) = of_nat (e + 1)" "rh_ssrc hdr = ssrc"
  shows "\<exists>st ses'. pjmedia_rtp_session_update ses hdr (Some st0) = (Some st, ses') \<and>
           \<not> f_bad (rs_flags st) \<and> rs_diff st = 1 \<and> receives ses' (k + 1) (e + 1) ssrc pt"
proof -
  have recv: "received ses = 0 \<longleftrightarrow> k = 0"
    using rx k(1) by (simp add: receives_def word_unat_eq_iff unsigned_of_nat take_bit_eq_mod)
  define ctrl where "ctrl = (if k = 0 then pjmedia_rtp_seq_init (seq_ctrl ses) (of_nat (e + 1)) else seq_ctrl ses)"
  obtain st sess' where st: "pjmedia_rtp_seq_update ctrl (of_nat (e + 1)) = (st, sess')"
      "\<not> f_bad (rs_flags st)" "rs_diff st = 1"
    and first: "k = 0 \<Longrightarrow> probation sess' = 1 \<and> max_seq sess' = of_nat (e + 1) \<and> cycles sess' = 0"
    and later: "0 < k \<Longrightarrow> tracks sess' (e + 1)"
  proof -
    consider "k = 0" | "k = 1" | "1 < k" by linarith
    then show thesis
    proof cases
      case 1 with seq_first [of e "seq_ctrl ses"] k(2) that show ?thesis by (auto simp: ctrl_def)
    next
      case 2 with seq_second [of e "seq_ctrl ses"] rx that show ?thesis by (auto simp: ctrl_def receives_def)
    next
      case 3 with seq_later [of "seq_ctrl ses" e] rx that show ?thesis by (auto simp: ctrl_def receives_def)
    qed
  qed
  have "pjmedia_rtp_session_update ses hdr (Some st0) =
      (Some st, ses\<lparr>peer_ssrc := pj_ntohl ssrc, seq_ctrl := sess', received := of_nat (k + 1)\<rparr>)"
    using rx hdr recv st
    by (cases "k = 0") (auto simp: pjmedia_rtp_session_update_def pjmedia_rtp_session_update2_def Let_def
        receives_def ctrl_def add.commute)
  moreover have "receives (ses\<lparr>peer_ssrc := pj_ntohl ssrc, seq_ctrl := sess', received := of_nat (k + 1)\<rparr>) (k + 1) (e + 1) ssrc pt"
    using rx first later k(2) by (auto simp: receives_def)
  ultimately show ?thesis using st by blast
qed

lemma stream_arrives:
  "sends tx e ts ssrc pt \<Longrightarrow> receives rx k e ssrc pt \<Longrightarrow> k + length fs < 2 ^ 32 \<Longrightarrow> (k \<le> 1 \<Longrightarrow> e < 65000 + k) \<Longrightarrow>
     \<exists>rs rx'. recv_all rx (send_all tx fs) = Some (rs, rx') \<and> map arrived rs = map Some (expected (of_nat e) ts fs) \<and>
       received rx' = of_nat (k + length rs)"
proof (induction fs arbitrary: tx rx e ts k)
  case Nil
  then show ?case by (simp add: receives_def)
next
  case (Cons f fs)
  obtain m payload ts_len where f: "f = (m, payload, ts_len)" by (cases f)
  show ?case
  proof (cases "payload = []")
    case True
    obtain tx' where tx': "pjmedia_rtp_encode_rtp tx (-1) m 0 ts_len = (None, tx')"
      "sends tx' e (ts + word_of_int ts_len) ssrc pt"
      using encode_clock [OF Cons.prems(1)] by blast
    from Cons.IH [OF tx'(2) Cons.prems(2)] Cons.prems(3,4) tx'(1) True show ?thesis by (simp add: f Let_def)
  next
    case False
    obtain hdr tx' where h: "pjmedia_rtp_encode_rtp tx (-1) m (int (length payload)) ts_len = (Some (hdr, 12), tx')"
      "sends tx' (e + 1) (ts + word_of_int ts_len) ssrc pt" "rh_v hdr = RTP_VERSION" "rh_x hdr = 0" "rh_cc hdr = 0"
      "rh_m hdr = word_of_int m" "uint (rh_pt hdr) = uint pt" "pj_ntohs (rh_seq hdr) = of_nat (e + 1)"
      "pj_ntohl (rh_ts hdr) = ts + word_of_int ts_len" "rh_ssrc hdr = ssrc"
      using encode_frame [OF Cons.prems(1), of "int (length payload)" m ts_len] False by auto
    obtain st rx1 where st: "pjmedia_rtp_session_update rx hdr (Some \<lparr>rs_flags = no_flags, rs_diff = 0\<rparr>) = (Some st, rx1)"
      "\<not> f_bad (rs_flags st)" "rs_diff st = 1" "receives rx1 (k + 1) (e + 1) ssrc pt"
      using session_step [OF Cons.prems(2) _ _ h(7,8,10)] Cons.prems(3,4) by fastforce
    have pkt: "recv_pkt rx (hdr_bytes hdr @ payload) = Some (Inr (hdr, Some st, payload), rx1)"
      using decode_plain [OF h(3-5), of payload] st(1)
      by (simp add: recv_pkt_def memget_def sizeof_rtp_hdr_def)
    have "\<exists>rs rx'. recv_all rx1 (send_all tx' fs) = Some (rs, rx') \<and>
        map arrived rs = map Some (expected (of_nat (e + 1)) (ts + word_of_int ts_len) fs) \<and>
        received rx' = of_nat (k + 1 + length rs)"
      using Cons.prems(3,4) by (intro Cons.IH [OF h(2) st(4)]) auto
    then obtain rs rx' where "recv_all rx1 (send_all tx' fs) = Some (rs, rx')"
      "map arrived rs = map Some (expected (of_nat (e + 1)) (ts + word_of_int ts_len) fs)"
      "received rx' = of_nat (k + 1 + length rs)" by blast
    then show ?thesis
      using h(1,6,8,9) st(2,3) pkt False by (simp add: f Let_def add.commute)
  qed
qed

lemma init_sends:
  assumes "0 \<le> pt" "pt < 128"
  shows "sends (pjmedia_rtp_session_init r1 r2 pt s) (unat (r2 AND 0x7FFF)) 0
           (if s = 0 \<or> s = -1 then pj_htonl r1 else pj_htonl s) (word_of_int pt)"
proof -
  have "uint (word_of_int pt :: u16) = pt" using assms by (simp add: unsigned_of_int take_bit_int_eq_self)
  moreover have "pj_ntohl 0 = 0" by (simp add: pj_ntohl_def)
  ultimately show ?thesis using assms(2) by (simp add: pjmedia_rtp_session_init_def sends_def Let_def zero_hdr_def)
qed

lemma init_receives: "receives (pjmedia_rtp_session_init r1 r2 pt s) 0 e ssrc (word_of_int pt)"
  by (simp add: pjmedia_rtp_session_init_def receives_def Let_def)

lemma init_extseq_bound: "unat ((r2 :: u32) AND 0x7FFF) < 32768"
proof -
  have "r2 AND 0x7FFF \<le> 0x7FFF" by (rule word_and_le1)
  then show ?thesis by (simp add: word_le_nat_alt)
qed

text \<open>The number after a bad one, as the code computes it at 32 bits.\<close>

lemma next_bad_seq: "(word_of_int (uint q + 1) AND word_of_int (65536 - 1) :: u32) = ucast ((q :: u16) + 1)"
proof -
  have m: "(word_of_int (65536 - 1) :: u32) = mask 16" by (simp add: mask_eq_exp_minus_1)
  have "(word_of_int (uint q + 1) :: u32) = ucast q + 1" by simp
  moreover have "take_bit 16 (ucast q + 1 :: u32) = ucast (q + 1)"
  proof -
    have q: "0 \<le> uint q" "uint q < 65536" using unsigned_less [of q, where 'a = int] by simp_all
    then have "uint (ucast q + 1 :: u32) = uint q + 1" by (simp add: uint_word_ariths unsigned_ucast_eq take_bit_int_eq_self)
    then have "uint (take_bit 16 (ucast q + 1 :: u32)) = (uint q + 1) mod 65536"
      by (simp only: unsigned_take_bit_eq) (simp add: take_bit_eq_mod)
    moreover have "uint (ucast (q + 1) :: u32) = (uint q + 1) mod 65536"
      using q by (simp add: unsigned_ucast_eq uint_word_ariths take_bit_int_eq_self_iff)
    ultimately show ?thesis by (simp add: word_uint_eq_iff)
  qed
  ultimately show ?thesis unfolding m by (simp add: take_bit_eq_mask)
qed

subsection \<open>Decoding\<close>

lemma ext_flag: "(ucast (drop_bit 4 b) :: 1 word) = 0 \<longleftrightarrow> \<not> bit (b :: u8) 4"
proof -
  let ?w = "ucast (drop_bit 4 b) :: 1 word"
  have bit: "bit ?w 0 = bit b 4" by (simp add: bit_simps)
  have "?w = 0" if "\<not> bit b 4" by (rule bit_word_eqI) (use bit that in simp)
  moreover have "\<not> bit b 4" if "?w = 0" using bit unfolding that by simp
  ultimately show ?thesis by blast
qed

lemma hdr_read_long:
  "12 \<le> length b \<Longrightarrow> \<exists>h. hdr_read b = Some h \<and> rh_v h = ucast (drop_bit 6 (hd b)) \<and> rh_cc h = ucast (hd b)"
  by (cases b) (auto simp: hdr_read_def get16_def get32_def rd_def)

lemma ext_length_inside: "off + 4 \<le> length b \<Longrightarrow> \<exists>l. ext_length b off = Some l"
  by (simp add: ext_length_def get16_def rd_def)

lemma decode_from_offset:
  assumes "pkt \<noteq> []" "(ucast (drop_bit 6 (hd pkt)) :: 2 word) = RTP_VERSION"
    and "bit (hd pkt) 4 \<longrightarrow> 16 + 4 * unat (ucast (hd pkt) :: 4 word) \<le> length pkt"
  shows "\<exists>off. 12 + 4 * unat (ucast (hd pkt) :: 4 word) \<le> off \<and>
           pjmedia_rtp_decode_rtp pkt (int (length pkt)) =
             (if length pkt < off then Some (Inl PJMEDIA_RTP_EINLEN)
              else Some (Inr (the (hdr_read pkt), off, length pkt - off)))"
proof -
  let ?o = "12 + unat (ucast (hd pkt) :: 4 word) * 4"
  have "\<exists>off. ?o \<le> off \<and> (if (ucast (drop_bit 4 (hd pkt)) :: 1 word) \<noteq> 0
      then do { len \<leftarrow> ext_length pkt ?o; Some (?o + unat (pj_ntohs len) * 4) } else Some ?o) = Some off"
    using ext_length_inside [of ?o pkt] assms(3) by (auto simp: ext_flag)
  then obtain off where off: "?o \<le> off" "(if (ucast (drop_bit 4 (hd pkt)) :: 1 word) \<noteq> 0
      then do { len \<leftarrow> ext_length pkt ?o; Some (?o + unat (pj_ntohs len) * 4) } else Some ?o) = Some off" by blast
  have "rd pkt 0 = Some (hd pkt)" using assms(1) by (cases pkt) (simp_all add: rd_def)
  moreover have "\<exists>h. hdr_read pkt = Some h" if "off \<le> length pkt" using hdr_read_long [of pkt] off(1) that by auto
  ultimately show ?thesis
    using off assms(2)
    by (intro exI [of _ off]) (auto simp: pjmedia_rtp_decode_rtp_def sizeof_rtp_hdr_def Let_def)
qed

subsection \<open>Properties\<close>

text \<open>
  C18: An RTP stream arrives as it was sent. Both sides initialize a session with the same payload
  type; the sender encodes any list of frames (fewer than \<open>2 ^ 32\<close>) and every packet is decoded and
  accounted by the receiver in order. No packet is rejected or marked bad, each is one ahead of the
  one before, payload, marker, sequence number (modulo \<open>2 ^ 16\<close>) and timestamp (modulo \<open>2 ^ 32\<close>) are the
  sender's, and the receiver counts every packet.
\<close>

theorem rtp_stream_end_to_end:
  assumes "0 \<le> pt" "pt < 128" "length fs < 2 ^ 32"
  shows "\<exists>rs rx'. recv_all (pjmedia_rtp_session_init r3 r4 pt s') (send_all (pjmedia_rtp_session_init r1 r2 pt s) fs) = Some (rs, rx') \<and>
           map arrived rs = map Some (expected (ucast (r2 AND 0x7FFF)) 0 fs) \<and>
           received rx' = of_nat (length rs)"
proof -
  have "(ucast (r2 AND 0x7FFF) :: u16) = of_nat (unat (r2 AND 0x7FFF))" by simp
  moreover have "unat (r2 AND 0x7FFF) < 65000" using init_extseq_bound [of r2] by simp
  ultimately show ?thesis
    using stream_arrives [OF init_sends [OF assms(1,2), of r1 r2 s] init_receives, of fs r3 r4 s'] assms(3) by simp
qed

theorem rtp_stream_end_to_end_witness:
  "\<exists>rs rx'. recv_all (pjmedia_rtp_session_init 1 2 8 0)
      (send_all (pjmedia_rtp_session_init 3 0x1FFFF 8 77) [(1, [10, 20], 160), (0, [], 160), (0, [30], 160)]) = Some (rs, rx') \<and>
     map arrived rs = [Some (0x8000, 160, 1, [10, 20]), Some (0x8001, 480, 0, [30])] \<and> received rx' = of_nat (length rs)"
  using rtp_stream_end_to_end [of 8 "[(1, [10, 20], 160), (0, [], 160), (0, [30], 160)]" 1 2 0 3 "0x1FFFF" 77]
  by (simp add: Let_def del: recv_all.simps send_all.simps)

text \<open>
  C6: The receiver tracks the highest sequence number. From a valid source, as long as every packet
  is less than 100 behind and less than 3000 ahead of the highest number before it, the 16-bit
  numbers that arrive (in any order, with losses, duplicates and any number of wrap-arounds) are
  classified exactly as their unbounded extended numbers would be (duplicate, out of order, or
  ahead by \<open>diff\<close>, never bad), and \<open>cycles + max_seq\<close> is the highest extended number modulo
  \<open>2 ^ 32\<close>.
\<close>

theorem rtp_seq_tracks_highest:
  assumes "tracks sess e" "in_window e xs"
  shows "\<exists>sess'. seq_run sess (map of_nat xs) = (fst (track_all e xs), sess') \<and>
           cycles sess' + ucast (max_seq sess') = of_nat (snd (track_all e xs)) \<and> tracks sess' (snd (track_all e xs))"
  using seq_run_tracks [OF assms] tracks_ext by blast

theorem rtp_seq_tracks_highest_witness:
  "\<exists>sess'. seq_run \<lparr>max_seq = 65534, cycles = 0, base_seq = 0, bad_seq = 0, probation = 0\<rparr> [0, 65535, 0, 1] =
       ([status_of 65534 65536, status_of 65536 65535, status_of 65536 65536, status_of 65536 65537], sess') \<and>
     cycles sess' + ucast (max_seq sess') = 65537"
proof -
  let ?s = "\<lparr>max_seq = 65534, cycles = 0, base_seq = 0, bad_seq = 0, probation = 0\<rparr>" and ?xs = "[65536, 65535, 65536, 65537]"
  have "tracks ?s 65534" "in_window 65534 ?xs" by (simp_all add: tracks_def)
  moreover have "map of_nat ?xs = [0, 65535, 0, 1 :: u16]" by simp
  moreover have "track_all 65534 ?xs = ([status_of 65534 65536, status_of 65536 65535, status_of 65536 65536, status_of 65536 65537], 65537)"
    by (simp add: max_def)
  ultimately show ?thesis using rtp_seq_tracks_highest [of ?s 65534 ?xs] by (auto simp del: seq_run.simps track_all.simps list.map)
qed

text \<open>
  C19: Decoding stays inside the packet. For a packet with at least one byte and, when the extension
  flag is set, room for the extension header after the CSRC list, no byte outside of the packet is
  read; a successful decode finds the payload inside of the packet, after the header, and ending
  with it, and another version or an offset past the end is an error.
\<close>

theorem rtp_decode_in_bounds:
  assumes "pkt \<noteq> []" "bit (hd pkt) 4 \<longrightarrow> 16 + 4 * unat (ucast (hd pkt) :: 4 word) \<le> length pkt"
  shows "\<exists>r. pjmedia_rtp_decode_rtp pkt (int (length pkt)) = Some r \<and>
           (case r of Inl err \<Rightarrow> err = PJMEDIA_RTP_EINVER \<longleftrightarrow> (ucast (drop_bit 6 (hd pkt)) :: 2 word) \<noteq> 2
            | Inr (hdr, off, n) \<Rightarrow> rh_v hdr = 2 \<and> 12 + 4 * unat (rh_cc hdr) \<le> off \<and> off + n = length pkt)"
proof (cases "(ucast (drop_bit 6 (hd pkt)) :: 2 word) = RTP_VERSION")
  case True
  obtain off where off: "12 + 4 * unat (ucast (hd pkt) :: 4 word) \<le> off"
    "pjmedia_rtp_decode_rtp pkt (int (length pkt)) =
       (if length pkt < off then Some (Inl PJMEDIA_RTP_EINLEN)
        else Some (Inr (the (hdr_read pkt), off, length pkt - off)))"
    using decode_from_offset [OF assms(1) True assms(2)] by blast
  with True hdr_read_long [of pkt] show ?thesis by (auto simp: RTP_VERSION_def)
next
  case False
  have "rd pkt 0 = Some (hd pkt)" using assms(1) by (cases pkt) (simp_all add: rd_def)
  with False show ?thesis by (simp add: pjmedia_rtp_decode_rtp_def RTP_VERSION_def)
qed

theorem rtp_decode_in_bounds_witness:
  "\<exists>r. pjmedia_rtp_decode_rtp (0x91 # replicate 19 0) (int 20) = Some r \<and>
     (case r of Inl err \<Rightarrow> err \<noteq> PJMEDIA_RTP_EINVER
      | Inr (hdr, off, n) \<Rightarrow> rh_v hdr = 2 \<and> 12 + 4 * unat (rh_cc hdr) \<le> off \<and> off + n = 20)"
proof -
  let ?p = "0x91 # replicate 19 0 :: u8 list"
  have p: "?p \<noteq> []" "hd ?p = 0x91" "length ?p = 20" by simp_all
  have "(ucast (0x91 :: u8) :: 4 word) = 1" "(ucast (drop_bit 6 (0x91 :: u8)) :: 2 word) = 2" by simp_all
  with rtp_decode_in_bounds [OF p(1)] show ?thesis unfolding p(2,3) by (simp only:) (auto split: sum.splits)
qed


text \<open>
  A restarted sender is picked up again. When a valid source jumps to \<open>q\<close>, more than allowed
  in either direction, the first packet is marked bad and changes only \<open>bad_seq\<close>; when \<open>q + 1\<close> follows,
  the sequence control restarts there, the packet is not marked bad, and from then on the receiver
  tracks the new numbering.
\<close>

theorem rtp_resync_after_jump:
  assumes "probation sess = 0" "3000 \<le> uint (q - max_seq sess)" "uint (q - max_seq sess) < 65436"
    and "bad_seq sess \<noteq> ucast q"
  shows "\<exists>st1 st2 sess'. seq_run sess [q, q + 1] = ([st1, st2], sess') \<and> f_bad (rs_flags st1) \<and>
           \<not> f_bad (rs_flags st2) \<and> f_restart (rs_flags st2) \<and> base_seq sess' = ucast (q + 1) \<and>
           tracks sess' (unat (q + 1))"
proof -
  let ?s1 = "sess\<lparr>bad_seq := ucast (q + 1)\<rparr>"
  have n0: "q - max_seq sess \<noteq> 0" using assms(2) by auto
  have "uint (q + 1 - max_seq sess) = uint (q - max_seq sess) + 1"
  proof -
    have "uint ((q - max_seq sess) + 1) = (uint (q - max_seq sess) + 1) mod 2 ^ 16"
      by (simp add: uint_word_ariths)
    moreover have "q + 1 - max_seq sess = (q - max_seq sess) + 1" by simp
    ultimately show ?thesis using assms(2,3) by (simp only:) simp
  qed
  then have d2: "3000 \<le> uint (q + 1 - max_seq sess)" "uint (q + 1 - max_seq sess) \<le> 65436"
    "q + 1 - max_seq sess \<noteq> 0" using assms(2,3) by auto
  have bad: "(word_of_int (uint q + 1) AND word_of_int (RTP_SEQ_MOD - 1) :: u32) = ucast (q + 1)"
    unfolding RTP_SEQ_MOD_def by (rule next_bad_seq)
  have 1: "\<exists>st1. pjmedia_rtp_seq_update sess q = (st1, ?s1) \<and> f_bad (rs_flags st1)"
    using assms n0 bad
    by (simp add: pjmedia_rtp_seq_update_def Let_def MAX_DROPOUT_def MAX_MISORDER_def) (simp add: RTP_SEQ_MOD_def)
  have 2: "\<exists>st2. pjmedia_rtp_seq_update ?s1 (q + 1) = (st2, pjmedia_rtp_seq_restart ?s1 (q + 1)) \<and>
      \<not> f_bad (rs_flags st2) \<and> f_restart (rs_flags st2)"
    using assms(1) d2
    by (simp add: pjmedia_rtp_seq_update_def Let_def MAX_DROPOUT_def MAX_MISORDER_def RTP_SEQ_MOD_def no_flags_def)
  have "tracks (pjmedia_rtp_seq_restart ?s1 (q + 1)) (unat (q + 1))" "base_seq (pjmedia_rtp_seq_restart ?s1 (q + 1)) = ucast (q + 1)"
    using assms(1) unsigned_less [of "q + 1", where 'a = nat]
    by (simp_all add: pjmedia_rtp_seq_restart_def tracks_def)
  with 1 2 show ?thesis by auto
qed

theorem rtp_resync_after_jump_witness:
  "\<exists>st1 st2 sess'. seq_run \<lparr>max_seq = 7, cycles = 65536, base_seq = 0, bad_seq = 0, probation = 0\<rparr> [30000, 30001] = ([st1, st2], sess') \<and>
     f_bad (rs_flags st1) \<and> \<not> f_bad (rs_flags st2) \<and> tracks sess' 30001"
  using rtp_resync_after_jump [of "\<lparr>max_seq = 7, cycles = 65536, base_seq = 0, bad_seq = 0, probation = 0\<rparr>" 30000]
  by (auto simp del: seq_run.simps)

text \<open>
  A source is put back on probation when its second packet wraps. The check for the next
  number during probation is done in \<open>int\<close> arithmetic, so 0 is not the successor of 65535: the
  packet is marked bad and out of order although the stream is in sequence, and a stream that
  starts with number 0 has its first packet marked bad.
\<close>

theorem rtp_probation_rejects_wrap:
  "f_bad (rs_flags (fst (pjmedia_rtp_seq_update (pjmedia_rtp_seq_init sess 0) 0))) \<and>
   (\<exists>st1 st2 sess'. seq_run (pjmedia_rtp_seq_init sess 65535) [65535, 0] = ([st1, st2], sess') \<and>
      \<not> f_bad (rs_flags st1) \<and> f_bad (rs_flags st2) \<and> f_outorder (rs_flags st2))"
proof -
  have "uint (- 1 :: u16) = 65535" by (simp add: unsigned_minus_1_eq_mask mask_eq_exp_minus_1)
  then show ?thesis
    by (simp add: pjmedia_rtp_seq_update_def seq_probation_def pjmedia_rtp_seq_init_def
      pjmedia_rtp_seq_restart_def MIN_SEQUENTIAL_def no_flags_def Let_def)
qed

text \<open>
  A changed SSRC is not reported. When the payload type is accepted, the status that the
  caller gets never has \<open>badssrc\<close> set, whatever SSRC the packet has: \<open>pjmedia_rtp_seq_update\<close>
  overwrites the flag.
\<close>

theorem rtp_badssrc_not_reported:
  assumes "uint (rh_pt hdr) = uint (out_pt ses)"
  shows "\<exists>st. fst (pjmedia_rtp_session_update ses hdr (Some st0)) = Some st \<and> \<not> f_badssrc (rs_flags st)"
proof -
  have "\<not> f_badssrc (rs_flags (fst (pjmedia_rtp_seq_update ctrl q)))" for ctrl q
    by (simp add: pjmedia_rtp_seq_update_def seq_probation_def Let_def no_flags_def)
  then show ?thesis
    using assms
    by (simp add: pjmedia_rtp_session_update_def pjmedia_rtp_session_update2_def Let_def split_beta)
qed

theorem rtp_badssrc_not_reported_witness:
  "\<exists>st. fst (pjmedia_rtp_session_update \<lparr>out_hdr = zero_hdr, seq_ctrl = zero_seq, out_pt = 0, out_extseq = 0, peer_ssrc = 5, received = 9\<rparr>
       (zero_hdr\<lparr>rh_ssrc := 6\<rparr>) (Some \<lparr>rs_flags = no_flags, rs_diff = 0\<rparr>)) = Some st \<and> \<not> f_badssrc (rs_flags st)"
  using rtp_badssrc_not_reported [of "zero_hdr\<lparr>rh_ssrc := 6\<rparr>"
      "\<lparr>out_hdr = zero_hdr, seq_ctrl = zero_seq, out_pt = 0, out_extseq = 0, peer_ssrc = 5, received = 9\<rparr>"]
  by (simp add: zero_hdr_def)

end
