(* ===== verification/Pj_String.thy ===== *)
theory Pj_String
  imports Pj_Prelude
begin

text \<open>
  Strings with a length (\<^verbatim>\<open>pjlib/include/pj/string_i.h\<close>, \<^verbatim>\<open>pjlib/src/pj/string.c\<close>): comparison, searching,
  trimming and conversion from and to numbers. A \<open>pj_str_t\<close> whose bytes are only read is a character
  list; where a function moves the pointer, \<open>pj_strref\<close> is the memory that the pointer points into,
  the position and the length. \<open>unsigned long\<close> has 32 bits, as on the Windows targets.
\<close>

subsection \<open>Comparison\<close>

text \<open>The sign of \<open>memcmp\<close> on the first \<open>n\<close> bytes.\<close>

fun pj_memcmp :: "string \<Rightarrow> string \<Rightarrow> nat \<Rightarrow> int" where
  "pj_memcmp (c # cs) (d # ds) (Suc n) =
     (if c = d then pj_memcmp cs ds n else if (of_char c :: nat) < of_char d then -1 else 1)"
| "pj_memcmp _ _ _ = 0"

definition pj_strcmp :: "string \<Rightarrow> string \<Rightarrow> int" where
  "pj_strcmp s1 s2 =
     (if length s1 = 0 then (if length s2 = 0 then 0 else -1)
      else if length s2 = 0 then 1
      else let mn = (if length s1 < length s2 then length s1 else length s2);
               res = pj_memcmp s1 s2 mn
           in if res = 0 then (if length s1 < length s2 then -1 else if length s1 = length s2 then 0 else 1)
              else res)"

definition pj_strncmp :: "string \<Rightarrow> string \<Rightarrow> nat \<Rightarrow> int" where
  "pj_strncmp s1 s2 len =
     pj_strcmp (if len < length s1 then take len s1 else s1) (if len < length s2 then take len s2 else s2)"

subsection \<open>Searching\<close>

text \<open>\<open>strncmp\<close>, which also stops at a null byte.\<close>

fun pj_ansi_strncmp :: "string \<Rightarrow> string \<Rightarrow> nat \<Rightarrow> int" where
  "pj_ansi_strncmp (c # cs) (d # ds) (Suc n) =
     (if c \<noteq> d then (if (of_char c :: nat) < of_char d then -1 else 1)
      else if c = CHR 0x00 then 0 else pj_ansi_strncmp cs ds n)"
| "pj_ansi_strncmp _ _ _ = 0"

text \<open>The loop of \<open>pj_strstr\<close>: the first position from \<open>i\<close> up to \<open>ends\<close> where the bytes match.\<close>

fun strstr_loop :: "string \<Rightarrow> string \<Rightarrow> nat \<Rightarrow> nat \<Rightarrow> nat option" where
  "strstr_loop str sub i 0 = None"
| "strstr_loop str sub i (Suc left) =
     (if pj_ansi_strncmp (drop i str) sub (length sub) = 0 then Some i else strstr_loop str sub (i + 1) left)"

definition pj_strstr :: "string \<Rightarrow> string \<Rightarrow> nat option" where
  "pj_strstr str sub =
     (if length sub = 0 then Some 0
      else strstr_loop str sub 0 (length str + 1 - length sub))"

subsection \<open>Trimming\<close>

definition pj_isspace :: "char \<Rightarrow> bool" where
  "pj_isspace c \<longleftrightarrow> (of_char c :: nat) \<in> {9, 10, 11, 12, 13, 32}"

record pj_strref =
  sr_mem :: string
  sr_ptr :: nat
  sr_slen :: int

definition str_of :: "pj_strref \<Rightarrow> string" where
  "str_of s = take (nat (sr_slen s)) (drop (sr_ptr s) (sr_mem s))"

text \<open>The loop of \<open>pj_strltrim\<close> runs to the first byte that is not a space, without looking at the
  length; it is \<open>None\<close> when it leaves the memory.\<close>

fun skip_space :: "string \<Rightarrow> nat \<Rightarrow> nat option" where
  "skip_space [] p = None"
| "skip_space (c # cs) p = (if pj_isspace c then skip_space cs (p + 1) else Some p)"

definition pj_strltrim :: "pj_strref \<Rightarrow> pj_strref option" where
  "pj_strltrim s = do {
     p \<leftarrow> skip_space (drop (sr_ptr s) (sr_mem s)) (sr_ptr s);
     Some (s\<lparr>sr_slen := sr_slen s - (int p - int (sr_ptr s)), sr_ptr := p\<rparr>)
   }"

text \<open>The loop of \<open>pj_strrtrim\<close>: the number of spaces at the end of the string.\<close>

fun trailing_space :: "string \<Rightarrow> nat" where
  "trailing_space [] = 0"
| "trailing_space (c # cs) = (if pj_isspace c then 1 + trailing_space cs else 0)"

definition pj_strrtrim :: "pj_strref \<Rightarrow> pj_strref" where
  "pj_strrtrim s = s\<lparr>sr_slen := sr_slen s - int (trailing_space (rev (str_of s)))\<rparr>"

definition pj_strtrim :: "pj_strref \<Rightarrow> pj_strref option" where
  "pj_strtrim s = do { s1 \<leftarrow> pj_strltrim s; Some (pj_strrtrim s1) }"

subsection \<open>Numbers\<close>

definition pj_isdigit :: "char \<Rightarrow> bool" where
  "pj_isdigit c \<longleftrightarrow> 48 \<le> (of_char c :: nat) \<and> (of_char c :: nat) \<le> 57"

fun strtoul_loop :: "nat \<Rightarrow> string \<Rightarrow> nat" where
  "strtoul_loop value [] = value"
| "strtoul_loop value (c # cs) =
     (if \<not> pj_isdigit c then value
      else strtoul_loop (wrap32 (int value * 10 + (int (of_char c) - 48))) cs)"

definition pj_strtoul :: "string \<Rightarrow> nat" where
  "pj_strtoul str = strtoul_loop 0 str"

text \<open>\<open>pj_strtoul2\<close> for a base up to 10: the value and the rest of the string.\<close>

fun strtoul2_loop :: "nat \<Rightarrow> nat \<Rightarrow> string \<Rightarrow> nat \<times> string" where
  "strtoul2_loop base value [] = (value, [])"
| "strtoul2_loop base value (c # cs) =
     (let d = wrap32 (int (of_char c) - 48)
      in if d \<ge> base then (value, c # cs)
         else strtoul2_loop base (wrap32 (int value * int base + int d)) cs)"

text \<open>The digits of \<open>pj_utoa_pad\<close> in the order of its first loop, and the string after its last.\<close>

fun utoa_loop :: "nat \<Rightarrow> string" where
  "utoa_loop val = char_of (val mod 10 + 48) # (if val div 10 > 0 then utoa_loop (val div 10) else [])"

definition pj_utoa_pad :: "nat \<Rightarrow> nat \<Rightarrow> char \<Rightarrow> string" where
  "pj_utoa_pad val min_dig pad =
     (let ds = utoa_loop val in rev (ds @ replicate (min_dig - length ds) pad))"

definition pj_utoa :: "nat \<Rightarrow> string" where
  "pj_utoa val = pj_utoa_pad val 0 (CHR 0x00)"

declare utoa_loop.simps [simp del]

subsection \<open>Comparison is equality\<close>

lemma memcmp_0: "length s = n \<Longrightarrow> length t = n \<Longrightarrow> pj_memcmp s t n = 0 \<longleftrightarrow> s = t"
  by (induction s t n rule: pj_memcmp.induct) auto

lemma memcmp_prefix: "n \<le> length s \<Longrightarrow> n \<le> length t \<Longrightarrow> pj_memcmp s t n = pj_memcmp (take n s) (take n t) n"
  by (induction s t n rule: pj_memcmp.induct) auto

lemma strcmp_0: "pj_strcmp s t = 0 \<longleftrightarrow> s = t"
proof (cases "length s = length t")
  case True
  then have "pj_memcmp s t (length t) = 0 \<longleftrightarrow> s = t" by (rule memcmp_0) simp
  then show ?thesis using True by (cases "t = []") (simp_all add: pj_strcmp_def Let_def)
next
  case False
  then have "s \<noteq> t" by auto
  moreover have "pj_strcmp s t \<noteq> 0" using False by (cases "t = []") (auto simp: pj_strcmp_def Let_def)
  ultimately show ?thesis by simp
qed

lemma strncmp_0: "pj_strncmp s t n = 0 \<longleftrightarrow> take n s = take n t"
  by (auto simp: pj_strncmp_def strcmp_0)

subsection \<open>Searching finds the first occurrence\<close>

lemma memcmp_occurs:
  "length sub \<le> length s \<Longrightarrow> pj_memcmp s sub (length sub) = 0 \<longleftrightarrow> take (length sub) s = sub"
  using memcmp_prefix [of "length sub" s sub] memcmp_0 [of "take (length sub) s" "length sub" sub] by simp

lemma strncmp_memcmp: "CHR 0x00 \<notin> set t \<Longrightarrow> pj_ansi_strncmp s t n = pj_memcmp s t n"
  by (induction s t n rule: pj_ansi_strncmp.induct) auto

definition occurs :: "string \<Rightarrow> string \<Rightarrow> nat \<Rightarrow> bool" where
  "occurs str sub j \<longleftrightarrow> take (length sub) (drop j str) = sub"

definition first_from :: "string \<Rightarrow> string \<Rightarrow> nat \<Rightarrow> nat \<Rightarrow> bool" where
  "first_from str sub i j \<longleftrightarrow> i \<le> j \<and> occurs str sub j \<and> (\<forall>k. i \<le> k \<longrightarrow> k < j \<longrightarrow> \<not> occurs str sub k)"

lemma first_from_here: "occurs str sub i \<Longrightarrow> first_from str sub i j \<longleftrightarrow> j = i"
  unfolding first_from_def by (meson le_less_linear le_antisym order_refl leD)

lemma first_from_next: "\<not> occurs str sub i \<Longrightarrow> first_from str sub i j \<longleftrightarrow> first_from str sub (Suc i) j"
  unfolding first_from_def by (metis Suc_leD Suc_leI le_neq_implies_less)

lemma strstr_loop_first:
  assumes "i + left + length sub \<le> length str + 1" "0 < length sub" "CHR 0x00 \<notin> set sub"
  shows "strstr_loop str sub i left = Some j \<longleftrightarrow> j < i + left \<and> first_from str sub i j"
  using assms
proof (induction left arbitrary: i)
  case 0
  then show ?case by (auto simp: first_from_def)
next
  case (Suc left)
  have here: "pj_ansi_strncmp (drop i str) sub (length sub) = 0 \<longleftrightarrow> occurs str sub i"
    unfolding occurs_def strncmp_memcmp [OF Suc.prems(3)] using Suc.prems by (intro memcmp_occurs) simp
  show ?case
  proof (cases "occurs str sub i")
    case True
    then show ?thesis using here first_from_here [OF True, of j] by auto
  next
    case False
    have "strstr_loop str sub (Suc i) left = Some j \<longleftrightarrow> j < Suc i + left \<and> first_from str sub (Suc i) j"
      using Suc.prems by (intro Suc.IH) simp_all
    then show ?thesis using False here first_from_next [OF False, of j] by simp
  qed
qed

subsection \<open>Printing and reading numbers\<close>

text \<open>Reading appends a digit to the number read so far.\<close>

lemma digit_char: "d < 10 \<Longrightarrow> pj_isdigit (char_of (d + 48))" "d < 10 \<Longrightarrow> (of_char (char_of (d + 48) :: char) :: nat) = d + 48"
  by (simp_all add: pj_isdigit_def of_char_of)

lemma strtoul_append:
  "(\<forall>c \<in> set s. pj_isdigit c) \<Longrightarrow> strtoul_loop v (s @ t) = strtoul_loop (strtoul_loop v s) t"
  by (induction s arbitrary: v) auto

lemma utoa_digits: "\<forall>c \<in> set (utoa_loop n). pj_isdigit c"
proof (induction n rule: utoa_loop.induct)
  case (1 n)
  then show ?case by (subst utoa_loop.simps) (auto simp: digit_char)
qed

lemma strtoul_utoa_loop: "n < 2 ^ 32 \<Longrightarrow> strtoul_loop 0 (rev (utoa_loop n)) = n"
proof (induction n rule: utoa_loop.induct)
  case (1 n)
  have last: "strtoul_loop v [char_of (n mod 10 + 48)] = wrap32 (int v * 10 + int (n mod 10))" for v
    by (simp add: digit_char)
  show ?case
  proof (cases "n div 10 > 0")
    case True
    have "strtoul_loop 0 (rev (utoa_loop (n div 10))) = n div 10" using 1 True by simp
    moreover have "rev (utoa_loop n) = rev (utoa_loop (n div 10)) @ [char_of (n mod 10 + 48)]"
      using True by (subst utoa_loop.simps) simp
    moreover have "\<forall>c \<in> set (rev (utoa_loop (n div 10))). pj_isdigit c" using utoa_digits by simp
    moreover have "int (n div 10) * 10 + int (n mod 10) = int n" by (simp add: zdiv_int zmod_int)
    ultimately show ?thesis
      using strtoul_append [of "rev (utoa_loop (n div 10))" 0 "[char_of (n mod 10 + 48)]"] last 1(2)
      by (simp add: wrap32_id)
  next
    case False
    then have "n mod 10 = n" by auto
    then show ?thesis using False last [of 0] 1(2) by (subst utoa_loop.simps) (simp add: wrap32_id)
  qed
qed

text \<open>
  Printing and reading a number is the identity: for every 32-bit number, \<open>pj_strtoul\<close> of the
  text that \<open>pj_utoa\<close> writes, followed by anything that does not start with a digit, is the number.
\<close>

theorem utoa_strtoul_roundtrip:
  assumes "n < 2 ^ 32" "rest = [] \<or> \<not> pj_isdigit (hd rest)"
  shows "pj_strtoul (pj_utoa n @ rest) = n"
proof -
  have "pj_utoa n = rev (utoa_loop n)" by (simp add: pj_utoa_def pj_utoa_pad_def)
  moreover have "strtoul_loop v rest = v" for v using assms(2) by (cases rest) auto
  ultimately show ?thesis
    using strtoul_append [of "rev (utoa_loop n)" 0 rest] utoa_digits strtoul_utoa_loop [OF assms(1)]
    by (simp add: pj_strtoul_def)
qed

theorem utoa_strtoul_roundtrip_witness: "pj_strtoul (pj_utoa 4294967295 @ '';x'') = 4294967295"
  by (rule utoa_strtoul_roundtrip) (simp_all add: pj_isdigit_def)

text \<open>
  \<open>pj_strstr\<close> returns the position of the first occurrence of a non-empty string without null
  bytes, and nothing exactly when there is none.
\<close>

theorem strstr_finds_first:
  assumes "sub \<noteq> []" "CHR 0x00 \<notin> set sub"
  shows "pj_strstr str sub = Some j \<longleftrightarrow> occurs str sub j \<and> (\<forall>k < j. \<not> occurs str sub k)"
    (is "?L \<longleftrightarrow> ?R")
proof -
  have fits: "j + length sub \<le> length str" if "occurs str sub j" for j
  proof -
    have "length (take (length sub) (drop j str)) = length sub" using that by (simp add: occurs_def)
    then have "length sub \<le> length str - j" by simp
    moreover have "0 < length sub" using assms by simp
    ultimately show ?thesis by linarith
  qed
  show ?thesis
  proof (cases "length sub \<le> length str")
    case True
    with strstr_loop_first [of 0 "length str + 1 - length sub" sub str j] assms fits [of j] show ?thesis
      by (auto simp: pj_strstr_def first_from_def)
  next
    case False
    then show ?thesis using fits [of j] assms by (auto simp: pj_strstr_def)
  qed
qed

theorem strstr_finds_first_witness:
  "pj_strstr ''to:sip:host'' ''sip'' = Some 3 \<longleftrightarrow> occurs ''to:sip:host'' ''sip'' 3 \<and> (\<forall>k < 3. \<not> occurs ''to:sip:host'' ''sip'' k)"
  by (rule strstr_finds_first) simp_all

text \<open>
  \<open>pj_strltrim\<close> does not stop at the end of the string: a string of two spaces that is followed
  by a third space in memory gets a negative length, and one at the end of the memory is read
  past its end.
\<close>

theorem strltrim_runs_past_end:
  "map_option sr_slen (pj_strltrim \<lparr>sr_mem = ''   x'', sr_ptr = 0, sr_slen = 2\<rparr>) = Some (-1) \<and>
   pj_strltrim \<lparr>sr_mem = ''  '', sr_ptr = 0, sr_slen = 2\<rparr> = None"
  by (simp add: pj_strltrim_def pj_isspace_def)

end
