(* ===== verification/Pj_Hash.thy ===== *)
theory Pj_Hash
  imports Pj_String
begin

text \<open>
  Hash tables (\<^verbatim>\<open>pjlib/src/pj/hash.c\<close>): the hash function, and the table of chained entries with its
  operations. A chain is the list of its entries in the order of the links; the pointer to a link that
  \<open>find_entry\<close> returns is the row and the position in the chain. An entry of a table is identified by
  its key, which is how an iterator refers to it. The memory at a key pointer is a character list; a
  read past its end is \<open>None\<close>. A null value is \<open>None\<close>.
\<close>

unbundle bit_operations_syntax

subsection \<open>The hash function\<close>

definition PJ_HASH_MULTIPLIER :: u32 where "PJ_HASH_MULTIPLIER = 33"

definition byte :: "char \<Rightarrow> u32" where "byte c = of_nat (of_char c)"

fun hash_loop :: "u32 \<Rightarrow> string \<Rightarrow> u32" where
  "hash_loop hash [] = hash"
| "hash_loop hash (c # cs) = hash_loop (hash * PJ_HASH_MULTIPLIER + byte c) cs"

text \<open>A key is given with its length, or it is a string that ends with a null byte
  (\<open>PJ_HASH_KEY_STRING\<close>).\<close>

datatype keylen = Key_string | Key_len nat

fun key_bytes :: "string \<Rightarrow> keylen \<Rightarrow> string option" where
  "key_bytes key Key_string = (if CHR 0x00 \<in> set key then Some (takeWhile (\<lambda>c. c \<noteq> CHR 0x00) key) else None)"
| "key_bytes key (Key_len n) = (if n \<le> length key then Some (take n key) else None)"

definition pj_hash_calc :: "u32 \<Rightarrow> string \<Rightarrow> keylen \<Rightarrow> u32 option" where
  "pj_hash_calc hash key len = map_option (hash_loop hash) (key_bytes key len)"

definition pj_tolower :: "char \<Rightarrow> char" where
  "pj_tolower c = (if 65 \<le> (of_char c :: nat) \<and> (of_char c :: nat) \<le> 90 then char_of ((of_char c :: nat) + 32) else c)"

text \<open>A \<open>char\<close> is signed when it is added to the hash.\<close>

definition signed_byte :: "char \<Rightarrow> u32" where
  "signed_byte c = (if (of_char c :: nat) < 128 then byte c else byte c - 256)"

fun tolower_loop :: "u32 \<Rightarrow> string \<Rightarrow> u32 \<times> string" where
  "tolower_loop hval [] = (hval, [])"
| "tolower_loop hval (c # cs) =
     (let r = pj_tolower c; (h, rs) = tolower_loop (hval * PJ_HASH_MULTIPLIER + signed_byte r) cs in (h, r # rs))"

definition pj_hash_calc_tolower :: "u32 \<Rightarrow> string \<Rightarrow> u32 \<times> string" where
  "pj_hash_calc_tolower hval key = tolower_loop hval key"

subsection \<open>Tables\<close>

record 'v pj_hash_entry =
  he_key :: string
  he_hash :: u32
  he_keylen :: nat
  he_value :: 'v

record 'v pj_hash_table_t =
  ht_table :: "'v pj_hash_entry list list"
  ht_count :: nat
  ht_rows :: nat

text \<open>Doubling the size; from 0 it does not end.\<close>

partial_function (option) size_loop :: "nat \<Rightarrow> nat \<Rightarrow> nat option" where
  "size_loop table_size sz =
     (let t = wrap32 (int table_size * 2) in if t < sz then size_loop t sz else Some t)"

definition pj_hash_create :: "nat \<Rightarrow> 'v pj_hash_table_t option" where
  "pj_hash_create sz = do {
     t \<leftarrow> size_loop 8 sz;
     let table_size = wrap32 (int t - 1);
     Some \<lparr>ht_table = replicate (table_size + 1) [], ht_count = 0, ht_rows = table_size\<rparr>
   }"

text \<open>The position of the first entry with the key, or the end of the chain.\<close>

definition entry_matches :: "u32 \<Rightarrow> string \<Rightarrow> 'v pj_hash_entry \<Rightarrow> bool" where
  "entry_matches hash key e \<longleftrightarrow> he_hash e = hash \<and> he_keylen e = length key \<and> pj_memcmp (he_key e) key (length key) = 0"

fun scan_chain :: "u32 \<Rightarrow> string \<Rightarrow> 'v pj_hash_entry list \<Rightarrow> nat" where
  "scan_chain hash key [] = 0"
| "scan_chain hash key (e # es) = (if entry_matches hash key e then 0 else Suc (scan_chain hash key es))"

text \<open>\<open>mem\<close> says whether there is memory for a new entry (a pool or a buffer). The result is the hash
  that is reported back, the link and the table; without memory the link is a null pointer, which
  every caller dereferences.\<close>

definition find_entry ::
  "bool \<Rightarrow> 'v pj_hash_table_t \<Rightarrow> string \<Rightarrow> keylen \<Rightarrow> 'v option \<Rightarrow> u32 \<Rightarrow> (u32 \<times> nat \<times> nat \<times> 'v pj_hash_table_t) option" where
  "find_entry mem ht key len val hval = do {
     bytes \<leftarrow> key_bytes key len;
     let hash = (if hval \<noteq> 0 then hval else hash_loop 0 bytes);
     let row = unat (hash AND of_nat (ht_rows ht));
     chain \<leftarrow> rd (ht_table ht) row;
     let pos = scan_chain hash bytes chain;
     (case val of
        None \<Rightarrow> Some (hash, row, pos, ht)
      | Some v \<Rightarrow>
          if pos < length chain then Some (hash, row, pos, ht)
          else if \<not> mem then None
          else Some (hash, row, pos,
                 ht\<lparr>ht_table := (ht_table ht)[row := chain @
                        [\<lparr>he_key = bytes, he_hash = hash, he_keylen = length bytes, he_value = v\<rparr>]],
                    ht_count := wrap32 (int (ht_count ht) + 1)\<rparr>))
   }"

definition pj_hash_get :: "'v pj_hash_table_t \<Rightarrow> string \<Rightarrow> keylen \<Rightarrow> u32 \<Rightarrow> ('v option \<times> u32) option" where
  "pj_hash_get ht key len hval = do {
     (hash, row, pos, ht1) \<leftarrow> find_entry False ht key len None hval;
     chain \<leftarrow> rd (ht_table ht1) row;
     Some (if pos < length chain then Some (he_value (chain ! pos)) else None, hash)
   }"

text \<open>What \<open>pj_hash_set\<close> and \<open>pj_hash_set_np\<close> do with the entry.\<close>

definition set_entry :: "'v option \<Rightarrow> nat \<Rightarrow> nat \<Rightarrow> 'v pj_hash_table_t \<Rightarrow> 'v pj_hash_table_t option" where
  "set_entry val row pos ht = do {
     chain \<leftarrow> rd (ht_table ht) row;
     Some (if pos < length chain
           then (case val of
                   None \<Rightarrow> ht\<lparr>ht_table := (ht_table ht)[row := take pos chain @ drop (Suc pos) chain],
                              ht_count := wrap32 (int (ht_count ht) - 1)\<rparr>
                 | Some v \<Rightarrow> ht\<lparr>ht_table := (ht_table ht)[row := chain[pos := (chain ! pos)\<lparr>he_value := v\<rparr>]]\<rparr>)
           else ht)
   }"

definition pj_hash_set ::
  "bool \<Rightarrow> 'v pj_hash_table_t \<Rightarrow> string \<Rightarrow> keylen \<Rightarrow> u32 \<Rightarrow> 'v option \<Rightarrow> 'v pj_hash_table_t option" where
  "pj_hash_set pool ht key len hval val = do {
     (_, row, pos, ht1) \<leftarrow> find_entry pool ht key len val hval;
     set_entry val row pos ht1
   }"

definition pj_hash_set_np ::
  "'v pj_hash_table_t \<Rightarrow> string \<Rightarrow> keylen \<Rightarrow> u32 \<Rightarrow> 'v option \<Rightarrow> 'v pj_hash_table_t option" where
  "pj_hash_set_np ht key len hval val = do {
     (_, row, pos, ht1) \<leftarrow> find_entry True ht key len val hval;
     set_entry val row pos ht1
   }"

definition pj_hash_count :: "'v pj_hash_table_t \<Rightarrow> nat" where
  "pj_hash_count ht = ht_count ht"

subsection \<open>Iteration\<close>

record pj_hash_iterator_t =
  it_index :: nat
  it_entry :: "string option"

text \<open>The loop over the rows, from \<open>index\<close> with \<open>left\<close> rows to go: the first entry found.\<close>

fun next_row :: "'v pj_hash_entry list list \<Rightarrow> nat \<Rightarrow> nat \<Rightarrow> pj_hash_iterator_t option option" where
  "next_row table index 0 = Some None"
| "next_row table index (Suc left) =
     (case rd table index of
        None \<Rightarrow> None
      | Some [] \<Rightarrow> next_row table (index + 1) left
      | Some (e # _) \<Rightarrow> Some (Some \<lparr>it_index = index, it_entry = Some (he_key e)\<rparr>))"

definition pj_hash_first :: "'v pj_hash_table_t \<Rightarrow> pj_hash_iterator_t option option" where
  "pj_hash_first ht = next_row (ht_table ht) 0 (ht_rows ht + 1)"

text \<open>The part of the chain from the entry of the iterator on; an entry that was removed from the table is
  not looked at again.\<close>

definition from_entry :: "'v pj_hash_table_t \<Rightarrow> pj_hash_iterator_t \<Rightarrow> 'v pj_hash_entry list option" where
  "from_entry ht it = do {
     key \<leftarrow> it_entry it;
     chain \<leftarrow> rd (ht_table ht) (it_index it);
     (case dropWhile (\<lambda>e. he_key e \<noteq> key) chain of [] \<Rightarrow> None | es \<Rightarrow> Some es)
   }"

definition pj_hash_next :: "'v pj_hash_table_t \<Rightarrow> pj_hash_iterator_t \<Rightarrow> pj_hash_iterator_t option option" where
  "pj_hash_next ht it = do {
     es \<leftarrow> from_entry ht it;
     (case tl es of
        e # _ \<Rightarrow> Some (Some (it\<lparr>it_entry := Some (he_key e)\<rparr>))
      | [] \<Rightarrow> next_row (ht_table ht) (it_index it + 1) (ht_rows ht - it_index it))
   }"

definition pj_hash_this :: "'v pj_hash_table_t \<Rightarrow> pj_hash_iterator_t \<Rightarrow> 'v option" where
  "pj_hash_this ht it = do { es \<leftarrow> from_entry ht it; Some (he_value (hd es)) }"

end
