(* ===== verification/Pj_Hash_Spec.thy ===== *)
theory Pj_Hash_Spec
  imports Pj_Hash
begin

text \<open>
  The hash table as a map from strings: the contract of a table of named objects (\<open>string_map\<close>), the
  invariant of the chained table and its interpretation of the contract, creation, iteration, and the
  agreement of the two hash functions.
\<close>

subsection \<open>The contract\<close>

text \<open>A sequence of updates; an update with \<open>None\<close> removes the key.\<close>

fun run_puts :: "('t \<Rightarrow> string \<Rightarrow> 'v option \<Rightarrow> 't option) \<Rightarrow> (string \<times> 'v option) list \<Rightarrow> 't \<Rightarrow> 't option" where
  "run_puts put [] t = Some t"
| "run_puts put ((k, v) # us) t = do { t1 \<leftarrow> put t k v; run_puts put us t1 }"

locale string_map =
  fixes look :: "'t \<Rightarrow> string \<Rightarrow> 'v option"
    and put :: "'t \<Rightarrow> string \<Rightarrow> 'v option \<Rightarrow> 't option"
    and ok :: "'t \<Rightarrow> bool"
  assumes put_law: "ok t \<Longrightarrow> \<exists>t'. put t k v = Some t' \<and> ok t' \<and> look t' = (look t)(k := v)"
begin

lemma put_ok: "ok t \<Longrightarrow> put t k v = Some t' \<Longrightarrow> ok t' \<and> look t' = (look t)(k := v)"
  using put_law [of t k v] by auto

lemma put_defined: "ok t \<Longrightarrow> put t k v \<noteq> None"
  using put_law [of t k v] by auto

lemma run_puts_map: "ok t \<Longrightarrow> \<exists>t'. run_puts put us t = Some t' \<and> ok t' \<and> look t' = fold (\<lambda>(k, v) m. m(k := v)) us (look t)"
proof (induction us arbitrary: t)
  case (Cons u us)
  obtain k v where u: "u = (k, v)" by (cases u)
  obtain t1 where t1: "put t k v = Some t1" "ok t1" "look t1 = (look t)(k := v)" using put_law [OF Cons.prems] by blast
  from Cons.IH [OF t1(2)] t1 u show ?case by auto
qed simp

end

subsection \<open>The invariant of the table\<close>

definition row_of :: "nat \<Rightarrow> string \<Rightarrow> nat" where
  "row_of rows k = unat (hash_loop 0 k AND of_nat rows)"

definition chain_ok :: "nat \<Rightarrow> nat \<Rightarrow> 'v pj_hash_entry list \<Rightarrow> bool" where
  "chain_ok rows r chain \<longleftrightarrow> distinct (map he_key chain) \<and>
     (\<forall>e \<in> set chain. he_keylen e = length (he_key e) \<and> he_hash e = hash_loop 0 (he_key e) \<and> row_of rows (he_key e) = r)"

definition ht_inv :: "'v pj_hash_table_t \<Rightarrow> bool" where
  "ht_inv ht \<longleftrightarrow> length (ht_table ht) = ht_rows ht + 1 \<and> ht_rows ht < 2 ^ 32 \<and>
     ht_count ht = wrap32 (int (length (concat (ht_table ht)))) \<and>
     (\<forall>r < length (ht_table ht). chain_ok (ht_rows ht) r (ht_table ht ! r))"

definition chain_find :: "string \<Rightarrow> 'v pj_hash_entry list \<Rightarrow> 'v option" where
  "chain_find k chain = map_option he_value (List.find (\<lambda>e. he_key e = k) chain)"

definition ht_map :: "'v pj_hash_table_t \<Rightarrow> string \<Rightarrow> 'v option" where
  "ht_map ht k = chain_find k (ht_table ht ! row_of (ht_rows ht) k)"

definition pos_of :: "string \<Rightarrow> 'v pj_hash_entry list \<Rightarrow> nat" where
  "pos_of k chain = length (takeWhile (\<lambda>e. he_key e \<noteq> k) chain)"

lemma row_bound:
  assumes "ht_rows ht < 2 ^ 32"
  shows "row_of (ht_rows ht) k \<le> ht_rows ht"
proof -
  have "hash_loop 0 k AND of_nat (ht_rows ht) \<le> of_nat (ht_rows ht)" by (rule word_and_le1)
  then have "unat (hash_loop 0 k AND of_nat (ht_rows ht)) \<le> unat (of_nat (ht_rows ht) :: u32)" by (simp add: word_le_nat_alt)
  also have "\<dots> = ht_rows ht" using assms by (simp add: unat_of_nat)
  finally show ?thesis by (simp add: row_of_def)
qed

lemma entry_matches_key:
  "he_keylen e = length (he_key e) \<Longrightarrow> he_hash e = hash_loop 0 (he_key e) \<Longrightarrow>
    entry_matches (hash_loop 0 k) k e \<longleftrightarrow> he_key e = k"
  using memcmp_0 [of "he_key e" "length k" k] by (auto simp: entry_matches_def)

lemma scan_chain_pos: "chain_ok rows r chain \<Longrightarrow> scan_chain (hash_loop 0 k) k chain = pos_of k chain"
proof (induction chain)
  case (Cons e es)
  then have "chain_ok rows r es" by (simp add: chain_ok_def)
  moreover have "entry_matches (hash_loop 0 k) k e \<longleftrightarrow> he_key e = k"
    using Cons.prems by (intro entry_matches_key) (simp_all add: chain_ok_def)
  ultimately show ?case using Cons.IH by (simp add: pos_of_def)
qed (simp add: pos_of_def)

lemma pos_of_found: "pos_of k chain < length chain \<longleftrightarrow> k \<in> he_key ` set chain"
  by (induction chain) (auto simp: pos_of_def)

lemma pos_of_key: "pos_of k chain < length chain \<Longrightarrow> he_key (chain ! pos_of k chain) = k"
  by (induction chain) (auto simp: pos_of_def)

lemma chain_find_pos:
  "chain_find k chain = (if pos_of k chain < length chain then Some (he_value (chain ! pos_of k chain)) else None)"
  by (induction chain) (auto simp: chain_find_def pos_of_def)

lemma chain_find_append: "k' \<notin> he_key ` set chain \<Longrightarrow> he_key e = k' \<Longrightarrow>
    chain_find k (chain @ [e]) = (if k = k' then Some (he_value e) else chain_find k chain)"
  by (induction chain) (auto simp: chain_find_def)

lemma chain_find_update: "pos_of k' chain < length chain \<Longrightarrow>
    chain_find k (chain[pos_of k' chain := (chain ! pos_of k' chain)\<lparr>he_value := v\<rparr>]) =
      (if k = k' then Some v else chain_find k chain)"
  by (induction chain) (auto simp: chain_find_def pos_of_def)

lemma chain_find_delete: "distinct (map he_key chain) \<Longrightarrow>
    chain_find k (take (pos_of k' chain) chain @ drop (Suc (pos_of k' chain)) chain) =
      (if k = k' then None else chain_find k chain)"
  by (induction chain) (auto simp: chain_find_def pos_of_def find_None_iff image_iff)

lemma chain_ok_parts:
  "chain_ok rows r chain \<Longrightarrow> chain_ok rows r (take p chain @ drop (Suc p) chain)"
  "chain_ok rows r chain \<Longrightarrow> chain_ok rows r (chain[p := (chain ! p)\<lparr>he_value := v\<rparr>])"
  "chain_ok rows r chain \<Longrightarrow> k \<notin> he_key ` set chain \<Longrightarrow> row_of rows k = r \<Longrightarrow>
     chain_ok rows r (chain @ [\<lparr>he_key = k, he_hash = hash_loop 0 k, he_keylen = length k, he_value = v\<rparr>])"
proof -
  assume c: "chain_ok rows r chain"
  have "mset_set' \<subseteq> set chain" if "mset_set' = set (take p chain @ drop (Suc p) chain)" for mset_set'
    using that by (auto dest: in_set_takeD in_set_dropD)
  moreover have "distinct (map he_key (take p chain @ drop (Suc p) chain))"
  proof (cases "p < length chain")
    case True
    then have "map he_key chain = map he_key (take p chain) @ he_key (chain ! p) # map he_key (drop (Suc p) chain)"
      by (metis id_take_nth_drop list.map(2) map_append)
    then show ?thesis using c by (auto simp: chain_ok_def)
  qed (use c in \<open>simp add: chain_ok_def\<close>)
  ultimately show "chain_ok rows r (take p chain @ drop (Suc p) chain)" using c by (auto simp: chain_ok_def)
next
  assume c: "chain_ok rows r chain"
  have "map he_key (chain[p := (chain ! p)\<lparr>he_value := v\<rparr>]) = map he_key chain"
    by (cases "p < length chain") (simp_all add: map_update list_update_same_conv list_update_beyond)
  moreover have "\<forall>e \<in> set (chain[p := (chain ! p)\<lparr>he_value := v\<rparr>]). \<exists>e' \<in> set chain.
      he_key e = he_key e' \<and> he_hash e = he_hash e' \<and> he_keylen e = he_keylen e'"
  proof (cases "p < length chain")
    case True
    then show ?thesis by (auto dest!: set_update_subset_insert [THEN subsetD])
  qed (auto simp: list_update_beyond)
  ultimately show "chain_ok rows r (chain[p := (chain ! p)\<lparr>he_value := v\<rparr>])" using c by (fastforce simp: chain_ok_def)
next
  assume "chain_ok rows r chain" "k \<notin> he_key ` set chain" "row_of rows k = r"
  then show "chain_ok rows r (chain @ [\<lparr>he_key = k, he_hash = hash_loop 0 k, he_keylen = length k, he_value = v\<rparr>])"
    by (auto simp: chain_ok_def)
qed

text \<open>Replacing one chain.\<close>

lemma length_concat_update:
  "r < length xss \<Longrightarrow> int (length (concat (xss[r := xs]))) = int (length (concat xss)) - int (length (xss ! r)) + int (length xs)"
proof (induction xss arbitrary: r)
  case (Cons ys xss)
  then show ?case by (cases r) simp_all
qed simp

lemma ht_update:
  assumes "ht_inv ht" "r = row_of (ht_rows ht) k" "chain_ok (ht_rows ht) r chain"
    and "\<And>k'. chain_find k' chain = (if k' = k then v else chain_find k' (ht_table ht ! r))"
    and "n = wrap32 (int (ht_count ht) - int (length (ht_table ht ! r)) + int (length chain))"
  shows "ht_inv (ht\<lparr>ht_table := (ht_table ht)[r := chain], ht_count := n\<rparr>)"
    and "ht_map (ht\<lparr>ht_table := (ht_table ht)[r := chain], ht_count := n\<rparr>) = (ht_map ht)(k := v)"
proof -
  have r: "r < length (ht_table ht)" using assms(1,2) row_bound [of ht k] by (auto simp: ht_inv_def)
  have "wrap32 (int (wrap32 a) + b) = wrap32 (a + b)" for a b by (simp add: wrap32_def mod_add_left_eq)
  from this [of "int (length (concat (ht_table ht)))" "int (length chain) - int (length (ht_table ht ! r))"]
  have "n = wrap32 (int (length (concat (ht_table ht))) + (int (length chain) - int (length (ht_table ht ! r))))"
    using assms(1,5) by (simp add: ht_inv_def algebra_simps)
  also have "\<dots> = wrap32 (int (length (concat ((ht_table ht)[r := chain]))))"
    unfolding length_concat_update [OF r] by (simp add: algebra_simps)
  finally have "n = wrap32 (int (length (concat ((ht_table ht)[r := chain]))))" .
  then show "ht_inv (ht\<lparr>ht_table := (ht_table ht)[r := chain], ht_count := n\<rparr>)"
    using assms(1,3) r by (auto simp: ht_inv_def nth_list_update)
  show "ht_map (ht\<lparr>ht_table := (ht_table ht)[r := chain], ht_count := n\<rparr>) = (ht_map ht)(k := v)"
  proof
    fix k' show "ht_map (ht\<lparr>ht_table := (ht_table ht)[r := chain], ht_count := n\<rparr>) k' = ((ht_map ht)(k := v)) k'"
      using assms(2,4) r by (auto simp: ht_map_def nth_list_update)
  qed
qed

subsection \<open>The operations\<close>

text \<open>A hash value is passed as 0 or as the hash of the key.\<close>

definition hval_ok :: "u32 \<Rightarrow> string \<Rightarrow> bool" where
  "hval_ok hval k \<longleftrightarrow> hval = 0 \<or> hval = hash_loop 0 k"

lemma find_entry_eq:
  assumes "ht_inv ht" "key_bytes key len = Some k" "hval_ok hval k"
  shows "find_entry mem ht key len val hval =
    (let r = row_of (ht_rows ht) k; chain = ht_table ht ! r; p = pos_of k chain
     in if val = None \<or> p < length chain then Some (hash_loop 0 k, r, p, ht)
        else if \<not> mem then None
        else Some (hash_loop 0 k, r, p, ht\<lparr>ht_table := (ht_table ht)[r := chain @
             [\<lparr>he_key = k, he_hash = hash_loop 0 k, he_keylen = length k, he_value = the val\<rparr>]],
           ht_count := wrap32 (int (ht_count ht) + 1)\<rparr>))"
proof -
  have r: "row_of (ht_rows ht) k < length (ht_table ht)" using assms(1) row_bound [of ht k] by (auto simp: ht_inv_def)
  then have "chain_ok (ht_rows ht) (row_of (ht_rows ht) k) (ht_table ht ! row_of (ht_rows ht) k)"
    using assms(1) by (simp add: ht_inv_def)
  note scan = scan_chain_pos [OF this, of k]
  have hash: "(if hval \<noteq> 0 then hval else hash_loop 0 k) = hash_loop 0 k" using assms(3) by (auto simp: hval_ok_def)
  show ?thesis
    unfolding find_entry_def assms(2) bind.bind_lunit Let_def hash row_of_def [symmetric] rd_Some [OF r] scan
    by (simp split: option.split)
qed

lemma hash_get:
  assumes "ht_inv ht" "key_bytes key len = Some k" "hval_ok hval k"
  shows "pj_hash_get ht key len hval = Some (ht_map ht k, hash_loop 0 k)"
proof -
  have r: "row_of (ht_rows ht) k < length (ht_table ht)" using assms(1) row_bound [of ht k] by (auto simp: ht_inv_def)
  then show ?thesis
    by (simp add: pj_hash_get_def find_entry_eq [OF assms] Let_def rd_Some ht_map_def chain_find_pos)
qed

lemma count_table_swap: "ht\<lparr>ht_count := n, ht_table := t\<rparr> = ht\<lparr>ht_table := t, ht_count := n\<rparr>"
  by simp

lemma hash_store:
  assumes "ht_inv ht" "key_bytes key len = Some k" "hval_ok hval k"
  shows "\<exists>ht'. find_entry True ht key len (Some v) hval \<bind> (\<lambda>(_, row, pos, ht1). set_entry (Some v) row pos ht1) = Some ht' \<and>
    ht_inv ht' \<and> ht_map ht' = (ht_map ht)(k \<mapsto> v)"
proof -
  define r where "r = row_of (ht_rows ht) k"
  define chain where "chain = ht_table ht ! r"
  have r: "r < length (ht_table ht)" using assms(1) row_bound [of ht k] by (auto simp: ht_inv_def r_def)
  have c: "chain_ok (ht_rows ht) r chain" using assms(1) r by (simp add: ht_inv_def chain_def)
  show ?thesis
  proof (cases "pos_of k chain < length chain")
    case True
    let ?c = "chain[pos_of k chain := (chain ! pos_of k chain)\<lparr>he_value := v\<rparr>]"
    have "wrap32 (int (ht_count ht)) = ht_count ht" using assms(1) by (simp add: ht_inv_def wrap32_def)
    then have "ht_inv (ht\<lparr>ht_table := (ht_table ht)[r := ?c], ht_count := ht_count ht\<rparr>) \<and>
        ht_map (ht\<lparr>ht_table := (ht_table ht)[r := ?c], ht_count := ht_count ht\<rparr>) = (ht_map ht)(k \<mapsto> v)"
      using ht_update [OF assms(1) r_def chain_ok_parts(2) [OF c, of "pos_of k chain" v], where v = "Some v" and n = "ht_count ht"] True
      by (simp add: chain_find_update chain_def)
    then show ?thesis
      using True r by (simp add: find_entry_eq [OF assms] Let_def set_entry_def rd_Some r_def [symmetric] chain_def [symmetric])
  next
    case False
    let ?e = "\<lparr>he_key = k, he_hash = hash_loop 0 k, he_keylen = length k, he_value = v\<rparr>"
    let ?ht = "ht\<lparr>ht_table := (ht_table ht)[r := chain @ [?e]], ht_count := wrap32 (int (ht_count ht) + 1)\<rparr>"
    have new: "k \<notin> he_key ` set chain" using False by (simp add: pos_of_found)
    have "ht_inv ?ht \<and> ht_map ?ht = (ht_map ht)(k \<mapsto> v)"
      using ht_update [OF assms(1) r_def chain_ok_parts(3) [OF c new r_def [symmetric], of v],
          where v = "Some v" and n = "wrap32 (int (ht_count ht) + 1)"] new
      by (simp add: chain_find_append chain_def)
    moreover have "(chain @ [?e])[pos_of k chain := ((chain @ [?e]) ! pos_of k chain)\<lparr>he_value := v\<rparr>] = chain @ [?e]"
    proof -
      have "pos_of k chain = length chain" using False by (simp add: pos_of_def takeWhile_eq_all_conv length_takeWhile_le le_antisym not_less)
      then show ?thesis by simp
    qed
    moreover have "pos_of k chain \<le> length chain" by (simp add: pos_of_def length_takeWhile_le)
    ultimately show ?thesis
      using False r by (simp add: find_entry_eq [OF assms] Let_def set_entry_def rd_Some count_table_swap r_def [symmetric] chain_def [symmetric])
  qed
qed

lemma hash_remove:
  assumes "ht_inv ht" "key_bytes key len = Some k" "hval_ok hval k"
  shows "\<exists>ht'. find_entry mem ht key len None hval \<bind> (\<lambda>(_, row, pos, ht1). set_entry None row pos ht1) = Some ht' \<and>
    ht_inv ht' \<and> ht_map ht' = (ht_map ht)(k := None)"
proof -
  define r where "r = row_of (ht_rows ht) k"
  define chain where "chain = ht_table ht ! r"
  have r: "r < length (ht_table ht)" using assms(1) row_bound [of ht k] by (auto simp: ht_inv_def r_def)
  have c: "chain_ok (ht_rows ht) r chain" using assms(1) r by (simp add: ht_inv_def chain_def)
  show ?thesis
  proof (cases "pos_of k chain < length chain")
    case True
    let ?c = "take (pos_of k chain) chain @ drop (Suc (pos_of k chain)) chain"
    let ?ht = "ht\<lparr>ht_table := (ht_table ht)[r := ?c], ht_count := wrap32 (int (ht_count ht) - 1)\<rparr>"
    have "int (length ?c) = int (length chain) - 1" using True by (simp add: of_nat_diff)
    then have "ht_inv ?ht \<and> ht_map ?ht = (ht_map ht)(k := None)"
      using ht_update [OF assms(1) r_def chain_ok_parts(1) [OF c, of "pos_of k chain"],
          where v = None and n = "wrap32 (int (ht_count ht) - 1)"] c
      by (simp add: chain_find_delete chain_ok_def chain_def)
    then show ?thesis
      using True r by (simp add: find_entry_eq [OF assms] Let_def set_entry_def rd_Some r_def [symmetric] chain_def [symmetric])
  next
    case False
    then have "(ht_map ht)(k := None) = ht_map ht"
      by (auto simp: ht_map_def chain_find_pos r_def [symmetric] chain_def [symmetric])
    then show ?thesis
      using False r assms(1) by (simp add: find_entry_eq [OF assms] Let_def set_entry_def rd_Some r_def [symmetric] chain_def [symmetric])
  qed
qed

lemma hash_set:
  assumes "ht_inv ht" "key_bytes key len = Some k" "hval_ok hval k" "val \<noteq> None \<longrightarrow> pool"
  shows "\<exists>ht'. pj_hash_set pool ht key len hval val = Some ht' \<and> ht_inv ht' \<and> ht_map ht' = (ht_map ht)(k := val)"
  using hash_store [OF assms(1-3)] hash_remove [OF assms(1-3)] assms(4) by (cases val) (auto simp: pj_hash_set_def)

text \<open>The table as a map: a look-up with an unknown hash, and an update with the hash that was computed
  before, as the clients of the table do.\<close>

definition ht_look :: "'v pj_hash_table_t \<Rightarrow> string \<Rightarrow> 'v option" where
  "ht_look ht k = (case pj_hash_get ht k (Key_len (length k)) 0 of Some (v, _) \<Rightarrow> v | None \<Rightarrow> None)"

definition ht_put :: "'v pj_hash_table_t \<Rightarrow> string \<Rightarrow> 'v option \<Rightarrow> 'v pj_hash_table_t option" where
  "ht_put ht k v = pj_hash_set (v \<noteq> None) ht k (Key_len (length k)) (hash_loop 0 k) v"

lemma ht_look_map: "ht_inv ht \<Longrightarrow> ht_look ht k = ht_map ht k"
  by (simp add: ht_look_def hash_get [where k = k] hval_ok_def)

interpretation tsx_table: string_map ht_look ht_put ht_inv
proof
  fix t :: "'v pj_hash_table_t" and k :: string and v :: "'v option"
  assume inv: "ht_inv t"
  from hash_set [OF inv, of k "Key_len (length k)" k "hash_loop 0 k" v "v \<noteq> None"]
  obtain t' where t': "ht_put t k v = Some t'" "ht_inv t'" "ht_map t' = (ht_map t)(k := v)"
    by (auto simp: ht_put_def hval_ok_def)
  then have "ht_look t' = (ht_look t)(k := v)" using inv by (auto simp: ht_look_map)
  with t' show "\<exists>t'. ht_put t k v = Some t' \<and> ht_inv t' \<and> ht_look t' = (ht_look t)(k := v)" by blast
qed

subsection \<open>Creation\<close>

lemma size_loop_power:
  assumes "sz \<le> 2 ^ 31" "3 \<le> n" "n \<le> 30"
  shows "\<exists>m. size_loop (2 ^ n) sz = Some (2 ^ m) \<and> n < m \<and> m \<le> 31 \<and> sz \<le> 2 ^ m"
  using assms(2,3)
proof (induction "30 - n" arbitrary: n)
  case 0
  then have "n = 30" by simp
  then show ?case using assms(1) by (subst size_loop.simps) (auto simp: wrap32_def intro!: exI [of _ "31 :: nat"])
next
  case (Suc k)
  have "(2 :: int) ^ Suc n < 2 ^ 32" using Suc.prems by (intro power_strict_increasing) simp_all
  then have w: "wrap32 (2 ^ n * 2) = 2 ^ Suc n"
    using wrap32_id [of "int (2 ^ Suc n)"] nat_int [of "2 ^ Suc n"] by (simp add: mult.commute del: nat_int)
  show ?case
  proof (cases "2 ^ Suc n < sz")
    case True
    have "k = 30 - Suc n" "3 \<le> Suc n" "Suc n \<le> 30" using Suc.hyps(2) Suc.prems by simp_all
    from Suc.hyps(1) [OF this] obtain m where "size_loop (2 ^ Suc n) sz = Some (2 ^ m)" "Suc n < m" "m \<le> 31" "sz \<le> 2 ^ m" by blast
    then show ?thesis using True by (subst size_loop.simps) (auto simp: w Let_def simp del: power_Suc)
  next
    case False
    then show ?thesis using Suc.prems by (subst size_loop.simps) (auto simp: w Let_def simp del: power_Suc intro!: exI [of _ "Suc n"])
  qed
qed

lemma hash_create_inv:
  assumes "sz \<le> 2 ^ 31"
  shows "\<exists>m ht. pj_hash_create sz = Some (ht :: 'v pj_hash_table_t) \<and> ht_inv ht \<and> (\<forall>k. ht_map ht k = None) \<and>
    ht_rows ht + 1 = 2 ^ m \<and> sz \<le> 2 ^ m"
proof -
  obtain m where m: "size_loop (2 ^ 3) sz = Some (2 ^ m)" "m \<le> 31" "sz \<le> 2 ^ m" using size_loop_power [OF assms, of 3] by auto
  have m31: "(2 :: nat) ^ m \<le> 2 ^ 31" using m(2) by (intro power_increasing) simp_all
  have "(2 :: int) ^ m \<le> 2 ^ 31" using m(2) by (intro power_increasing) simp_all
  then have w: "wrap32 (int (2 ^ m) - 1) = 2 ^ m - 1" by (subst wrap32_id) (simp_all add: nat_diff_distrib nat_power_eq)
  let ?ht = "\<lparr>ht_table = replicate (2 ^ m - 1 + 1) [], ht_count = 0, ht_rows = 2 ^ m - 1\<rparr> :: 'v pj_hash_table_t"
  have "pj_hash_create sz = Some ?ht" using m(1) w by (simp add: pj_hash_create_def Let_def del: replicate.simps Suc_pred)
  moreover have "ht_inv ?ht" using m31 by (auto simp: ht_inv_def chain_ok_def wrap32_def simp del: replicate.simps)
  moreover have "ht_map ?ht k = None" for k
  proof -
    have "row_of (2 ^ m - 1) k \<le> 2 ^ m - 1" using row_bound [of ?ht k] \<open>ht_inv ?ht\<close> by (simp add: ht_inv_def)
    then have "row_of (2 ^ m - 1) k < 2 ^ m" using zero_less_power [of "2 :: nat" m] by linarith
    then show ?thesis by (simp add: ht_map_def chain_find_def del: replicate.simps)
  qed
  ultimately show ?thesis using m(3) by (intro exI [of _ m] exI [of _ ?ht]) simp
qed

text \<open>A size above \<open>2^31\<close> makes the loop shift the size to 0 and never end.\<close>

lemma size_loop_diverges:
  assumes "size_loop t sz = Some r" "2 ^ 31 < sz" "t = 0 \<or> (\<exists>n \<le> 31. t = 2 ^ n)"
  shows False
proof -
  have "2 ^ 31 < sz \<longrightarrow> \<not> (t = 0 \<or> (\<exists>n \<le> 31. t = 2 ^ n))"
  proof (rule size_loop.raw_induct [OF _ assms(1), where P = "\<lambda>t sz r. 2 ^ 31 < sz \<longrightarrow> \<not> (t = 0 \<or> (\<exists>n \<le> 31. t = 2 ^ n))"])
    fix loop :: "nat \<Rightarrow> nat \<Rightarrow> nat option" and t sz r
    assume IH: "\<And>t sz r. loop t sz = Some r \<Longrightarrow> 2 ^ 31 < sz \<longrightarrow> \<not> (t = 0 \<or> (\<exists>n \<le> 31. t = 2 ^ n))"
      and run: "(let t' = wrap32 (int t * 2) in if t' < sz then loop t' sz else Some t') = Some r"
    show "2 ^ 31 < sz \<longrightarrow> \<not> (t = 0 \<or> (\<exists>n \<le> 31. t = 2 ^ n))"
    proof (intro impI notI)
      assume sz: "2 ^ 31 < sz" and t: "t = 0 \<or> (\<exists>n \<le> 31. t = 2 ^ n)"
      have t': "wrap32 (int t * 2) = 0 \<or> (\<exists>n \<le> 31. wrap32 (int t * 2) = 2 ^ n)"
      proof (cases "t = 0 \<or> t = 2 ^ 31")
        case True
        then show ?thesis by (auto simp: wrap32_def)
      next
        case False
        with t obtain n where n: "t = 2 ^ n" "n \<le> 31" by auto
        then have "n \<noteq> 31" using False by (intro notI) simp
        then have "Suc n < 32" using n by simp
        then have "(2 :: int) ^ Suc n < 2 ^ 32" by (intro power_strict_increasing) simp_all
        then have "wrap32 (int t * 2) = 2 ^ Suc n"
          using wrap32_id [of "int (2 ^ Suc n)"] nat_int [of "2 ^ Suc n"] n(1) by (simp add: mult.commute del: nat_int)
        then show ?thesis using \<open>Suc n < 32\<close> by (intro disjI2 exI [of _ "Suc n"]) simp
      qed
      then have "wrap32 (int t * 2) \<le> 2 ^ 31"
      proof
        assume "\<exists>n \<le> 31. wrap32 (int t * 2) = 2 ^ n"
        then obtain n where "n \<le> 31" "wrap32 (int t * 2) = 2 ^ n" by blast
        then show ?thesis using power_increasing [of n 31 "2 :: nat"] by simp
      qed simp
      then have "loop (wrap32 (int t * 2)) sz = Some r" using run sz by (simp add: Let_def)
      from IH [OF this] t' sz show False by blast
    qed
  qed
  then show False using assms by blast
qed

subsection \<open>Number of entries\<close>

lemma in_concat: "e \<in> set (concat t) \<longleftrightarrow> (\<exists>r < length t. e \<in> set (t ! r))"
  by (auto simp: set_conv_nth [of t])

lemma ht_keys_distinct:
  assumes "\<And>r. r < length t \<Longrightarrow> chain_ok rows (r + off) (t ! r)"
  shows "distinct (map he_key (concat t))"
  using assms
proof (induction t arbitrary: off)
  case (Cons c t)
  have c: "chain_ok rows off c" using Cons.prems [of 0] by simp
  have t: "chain_ok rows (r + Suc off) (t ! r)" if "r < length t" for r using Cons.prems [of "Suc r"] that by simp
  have other: "row_of rows (he_key e) \<noteq> off" if "e \<in> set (concat t)" for e
  proof -
    from that obtain r where r: "r < length t" "e \<in> set (t ! r)" unfolding in_concat by blast
    then have "row_of rows (he_key e) = r + Suc off" using t [OF r(1)] by (simp add: chain_ok_def)
    then show ?thesis by simp
  qed
  have "he_key ` set c \<inter> he_key ` set (concat t) = {}"
  proof (intro equals0I, elim IntE imageE)
    fix k e e' assume "k = he_key e" "e \<in> set c" "k = he_key e'" "e' \<in> set (concat t)"
    then show False using other [of e'] c by (simp add: chain_ok_def)
  qed
  moreover have "distinct (map he_key (concat t))" using t by (rule Cons.IH)
  ultimately show ?case using c by (simp add: chain_ok_def)
qed simp

lemma ht_dom:
  assumes "ht_inv ht"
  shows "dom (ht_map ht) = he_key ` set (concat (ht_table ht))"
proof -
  have A: "k \<in> dom (ht_map ht) \<longleftrightarrow> k \<in> he_key ` set (ht_table ht ! row_of (ht_rows ht) k)" for k
    by (simp add: ht_map_def chain_find_pos pos_of_found domIff)
  have B: "k \<in> he_key ` set (ht_table ht ! row_of (ht_rows ht) k) \<longleftrightarrow> k \<in> he_key ` set (concat (ht_table ht))" for k
  proof
    assume "k \<in> he_key ` set (ht_table ht ! row_of (ht_rows ht) k)"
    moreover have "row_of (ht_rows ht) k < length (ht_table ht)" using assms row_bound [of ht k] by (auto simp: ht_inv_def)
    ultimately show "k \<in> he_key ` set (concat (ht_table ht))" unfolding image_iff Bex_def in_concat by blast
  next
    assume "k \<in> he_key ` set (concat (ht_table ht))"
    then obtain r e where e: "r < length (ht_table ht)" "e \<in> set (ht_table ht ! r)" "k = he_key e" unfolding image_iff Bex_def in_concat by blast
    then have "row_of (ht_rows ht) k = r" using assms by (auto simp: ht_inv_def chain_ok_def)
    with e show "k \<in> he_key ` set (ht_table ht ! row_of (ht_rows ht) k)" by blast
  qed
  show ?thesis by (rule set_eqI) (rule trans [OF A B])
qed

lemma ht_count_card: "ht_inv ht \<Longrightarrow> length (concat (ht_table ht)) = card (dom (ht_map ht))"
proof -
  assume inv: "ht_inv ht"
  have "distinct (map he_key (concat (ht_table ht)))"
    by (rule ht_keys_distinct [where off = 0 and rows = "ht_rows ht"]) (use inv in \<open>simp add: ht_inv_def\<close>)
  from distinct_card [OF this] show ?thesis using ht_dom [OF inv] by simp
qed

lemma entry_found:
  assumes "ht_inv ht" "e \<in> set (concat (ht_table ht))"
  shows "ht_map ht (he_key e) = Some (he_value e)"
proof -
  obtain r where r: "r < length (ht_table ht)" "e \<in> set (ht_table ht ! r)" using assms(2) unfolding in_concat by blast
  then have c: "chain_ok (ht_rows ht) r (ht_table ht ! r)" using assms(1) by (simp add: ht_inv_def)
  then have "row_of (ht_rows ht) (he_key e) = r" using r(2) by (simp add: chain_ok_def)
  moreover have "List.find (\<lambda>x. he_key x = he_key e) chain = Some e" if "distinct (map he_key chain)" "e \<in> set chain" for chain
    using that by (induction chain) (auto simp: image_iff)
  ultimately show ?thesis using c r(2) by (simp add: ht_map_def chain_find_def chain_ok_def)
qed

subsection \<open>Iteration\<close>

text \<open>The loop of a client: the value at the iterator, and then the rest.\<close>

partial_function (option) hash_walk :: "'v pj_hash_table_t \<Rightarrow> pj_hash_iterator_t option \<Rightarrow> 'v list option" where
  "hash_walk ht it =
     (case it of
        None \<Rightarrow> Some []
      | Some i \<Rightarrow> do { v \<leftarrow> pj_hash_this ht i; n \<leftarrow> pj_hash_next ht i; vs \<leftarrow> hash_walk ht n; Some (v # vs) })"

text \<open>The entries from an iterator on.\<close>

fun it_rest :: "'v pj_hash_entry list list \<Rightarrow> pj_hash_iterator_t option \<Rightarrow> 'v pj_hash_entry list \<Rightarrow> bool" where
  "it_rest t None es \<longleftrightarrow> es = []"
| "it_rest t (Some i) es \<longleftrightarrow> (\<exists>pre e post. it_index i < length t \<and> t ! it_index i = pre @ e # post \<and>
     it_entry i = Some (he_key e) \<and> es = e # post @ concat (drop (Suc (it_index i)) t))"

lemma next_row_rest: "i + left = length t \<Longrightarrow> \<exists>it. next_row t i left = Some it \<and> it_rest t it (concat (drop i t))"
proof (induction t i left rule: next_row.induct)
  case (2 t i left)
  have i: "i < length t" using 2(2) by simp
  then have d: "concat (drop i t) = t ! i @ concat (drop (Suc i) t)" by (metis Cons_nth_drop_Suc concat.simps(2))
  show ?case
  proof (cases "t ! i")
    case Nil
    then show ?thesis using 2(1) [of "[]"] 2(2) i d by (simp add: rd_Some)
  next
    case (Cons e es)
    then show ?thesis using i d by (auto simp: rd_Some intro!: exI [of _ "[]"])
  qed
qed simp

lemma dropWhile_key: "distinct (map he_key (pre @ e # post)) \<Longrightarrow> dropWhile (\<lambda>x. he_key x \<noteq> he_key e) (pre @ e # post) = e # post"
  by (induction pre) auto

lemma walk_rest:
  assumes "ht_inv ht" "it_rest (ht_table ht) it es"
  shows "hash_walk ht it = Some (map he_value es)"
  using assms(2)
proof (induction es arbitrary: it)
  case Nil
  then show ?case by (cases it) (subst hash_walk.simps, simp)+
next
  case (Cons e es)
  obtain i where i: "it = Some i" using Cons.prems by (cases it) simp_all
  then obtain pre post where p: "it_index i < length (ht_table ht)" "ht_table ht ! it_index i = pre @ e # post"
    "it_entry i = Some (he_key e)" "es = post @ concat (drop (Suc (it_index i)) (ht_table ht))" using Cons.prems by auto
  have "distinct (map he_key (pre @ e # post))" using assms(1) p(1) unfolding ht_inv_def chain_ok_def p(2) [symmetric] by blast
  then have at: "from_entry ht i = Some (e # post)"
    using p by (simp add: from_entry_def rd_Some dropWhile_key del: dropWhile_append)
  have "\<exists>n. pj_hash_next ht i = Some n \<and> it_rest (ht_table ht) n es"
  proof (cases post)
    case Nil
    have "it_index i + 1 + (ht_rows ht - it_index i) = length (ht_table ht)" using assms(1) p(1) by (simp add: ht_inv_def)
    from next_row_rest [OF this] show ?thesis using at p(4) Nil by (simp add: pj_hash_next_def)
  next
    case (Cons e' post')
    then show ?thesis using at p by (auto simp: pj_hash_next_def intro!: exI [of _ "pre @ [e]"])
  qed
  then obtain n where n: "pj_hash_next ht i = Some n" "it_rest (ht_table ht) n es" by blast
  have "pj_hash_this ht i = Some (he_value e)" by (simp add: pj_hash_this_def at)
  then show ?case using n(1) Cons.IH [OF n(2)] i by (subst hash_walk.simps) simp
qed

text \<open>A client that removes each entry after it has moved its iterator on: the iterator stays valid.\<close>

lemma next_row_cong:
  "(\<And>j. i \<le> j \<Longrightarrow> t ! j = t' ! j) \<Longrightarrow> length t = length t' \<Longrightarrow> next_row t i left = next_row t' i left"
proof (induction t i left rule: next_row.induct)
  case (2 t i left)
  have "rd t i = rd t' i" using "2.prems" by (simp add: rd_def)
  then show ?case using 2 by (auto split: option.split list.split)
qed simp

lemma remove_at:
  assumes "ht_inv ht" "r < length (ht_table ht)" "ht_table ht ! r = pre @ e # post"
  shows "pj_hash_set pool ht (he_key e) (Key_len (length (he_key e))) (hash_loop 0 (he_key e)) None =
    Some (ht\<lparr>ht_table := (ht_table ht)[r := pre @ post], ht_count := wrap32 (int (ht_count ht) - 1)\<rparr>)"
proof -
  have c: "chain_ok (ht_rows ht) r (pre @ e # post)" using assms by (metis ht_inv_def)
  then have r: "row_of (ht_rows ht) (he_key e) = r" by (simp add: chain_ok_def)
  have "he_key e \<notin> he_key ` set pre" using c by (simp add: chain_ok_def)
  then have "\<forall>x \<in> set pre. he_key x \<noteq> he_key e" by (metis image_eqI)
  then have "takeWhile (\<lambda>x. he_key x \<noteq> he_key e) (pre @ e # post) = pre" by (simp add: takeWhile_append2)
  then have p: "pos_of (he_key e) (pre @ e # post) = length pre" by (simp add: pos_of_def)
  show ?thesis
    using find_entry_eq [OF assms(1), of "he_key e" "Key_len (length (he_key e))" "he_key e" "hash_loop 0 (he_key e)" pool None] assms(2,3)
    by (simp add: pj_hash_set_def hval_ok_def Let_def r p set_entry_def rd_Some)
qed

lemma remove_and_next:
  assumes inv: "ht_inv ht" and it: "it_rest (ht_table ht) (Some i) (e # es)" and all: "concat (ht_table ht) = e # es"
  shows "\<exists>n ht'. pj_hash_this ht i = Some (he_value e) \<and> pj_hash_next ht i = Some n \<and>
    pj_hash_set pool ht (he_key e) (Key_len (length (he_key e))) (hash_loop 0 (he_key e)) None = Some ht' \<and>
    it_rest (ht_table ht') n es \<and> concat (ht_table ht') = es"
proof -
  let ?t = "ht_table ht" and ?r = "it_index i"
  obtain pre post where p: "?r < length ?t" "?t ! ?r = pre @ e # post" "it_entry i = Some (he_key e)"
    "es = post @ concat (drop (Suc ?r) ?t)" using it by auto
  have "distinct (map he_key (pre @ e # post))" using inv p(1) unfolding ht_inv_def chain_ok_def p(2) [symmetric] by blast
  then have at: "from_entry ht i = Some (e # post)"
    using p by (simp add: from_entry_def rd_Some dropWhile_key del: dropWhile_append)
  have t: "?t = take ?r ?t @ (pre @ e # post) # drop (Suc ?r) ?t" using p(1,2) by (metis id_take_nth_drop)
  have "concat (take ?r ?t) @ pre @ e # es = e # es" using all p(4) by (subst (asm) t) simp
  then have first: "concat (take ?r ?t) = []" "pre = []"
    by (metis append_self_conv2 append_assoc append_is_Nil_conv)+
  define t' where "t' = ?t[?r := pre @ post]"
  have "t' = take ?r ?t @ (pre @ post) # drop (Suc ?r) ?t" unfolding t'_def by (rule upd_conv_take_nth_drop [OF p(1)])
  then have content: "concat t' = es" using first p(4) by simp
  have "\<exists>n. pj_hash_next ht i = Some n \<and> it_rest t' n es"
  proof (cases post)
    case Nil
    have len: "?r + 1 + (ht_rows ht - ?r) = length t'" using inv p(1) by (simp add: ht_inv_def t'_def)
    have "next_row t' (?r + 1) (ht_rows ht - ?r) = next_row ?t (?r + 1) (ht_rows ht - ?r)"
      by (rule next_row_cong) (simp_all add: t'_def)
    then show ?thesis using next_row_rest [OF len] at p(4) Nil by (simp add: pj_hash_next_def t'_def)
  next
    case (Cons e' post')
    then show ?thesis using at p first(2) by (auto simp: pj_hash_next_def t'_def intro!: exI [of _ "[]"])
  qed
  then show ?thesis
    using remove_at [OF inv p(1,2), of pool] content by (auto simp: pj_hash_this_def at t'_def)
qed

lemma card_updates:
  fixes m :: "string \<Rightarrow> 'v option"
  assumes "finite (dom m)"
  shows "card (dom (fold (\<lambda>(k, v) m. m(k := v)) us m)) \<le> card (dom m) + length us"
  using assms
proof (induction us arbitrary: m)
  case (Cons u us)
  obtain k v where u: "u = (k, v)" by (cases u)
  have sub: "dom (m(k := v)) \<subseteq> insert k (dom m)" by auto
  then have fin: "finite (dom (m(k := v)))" using Cons.prems by (meson finite.insertI finite_subset)
  have "card (dom (m(k := v))) \<le> card (insert k (dom m))" using sub Cons.prems by (intro card_mono) simp_all
  also have "\<dots> \<le> Suc (card (dom m))" by (rule card_insert_le_m1) simp_all
  finally have "card (dom (m(k := v))) \<le> Suc (card (dom m))" .
  then show ?case using Cons.IH [OF fin] by (simp add: u del: fun_upd_apply dom_fun_upd)
qed simp

subsection \<open>Properties of the hash table\<close>

text \<open>C7: A hash table is a map: after its creation (for at most \<open>2^31\<close> rows) any sequence of updates and
  removals runs without an access outside the table, a look-up then returns what the last update of
  its key stored, and the count is the number of keys.\<close>

theorem hash_table_is_map:
  assumes "sz \<le> 2 ^ 31" "length us < 2 ^ 32"
  shows "\<exists>ht ht'. pj_hash_create sz = Some (ht :: 'v pj_hash_table_t) \<and> run_puts ht_put us ht = Some ht' \<and>
    (\<forall>k. pj_hash_get ht' k (Key_len (length k)) 0 = Some (fold (\<lambda>(k, v) m. m(k := v)) us (\<lambda>_. None) k, hash_loop 0 k)) \<and>
    pj_hash_count ht' = card (dom (fold (\<lambda>(k, v) m. m(k := v)) us (\<lambda>_. None :: 'v option)))"
proof -
  let ?m = "fold (\<lambda>(k, v) m. m(k := v)) us (\<lambda>_. None :: 'v option)"
  obtain ht :: "'v pj_hash_table_t" where ht: "pj_hash_create sz = Some ht" "ht_inv ht" "\<And>k. ht_map ht k = None"
    using hash_create_inv [OF assms(1)] by blast
  obtain ht' where ht': "run_puts ht_put us ht = Some ht'" "ht_inv ht'" "ht_look ht' = fold (\<lambda>(k, v) m. m(k := v)) us (ht_look ht)"
    using tsx_table.run_puts_map [OF ht(2)] by blast
  have "ht_look ht = (\<lambda>_. None)" by (auto simp: ht_look_map [OF ht(2)] ht(3))
  moreover have "ht_look ht' = ht_map ht'" by (rule ext) (rule ht_look_map [OF ht'(2)])
  ultimately have m: "ht_map ht' = ?m" using ht'(3) by simp
  have "card (dom ?m) < 2 ^ 32" using card_updates [of "\<lambda>_. None" us] assms(2) by simp
  then have "pj_hash_count ht' = card (dom ?m)"
    using ht'(2) ht_count_card [OF ht'(2)] m by (simp add: pj_hash_count_def ht_inv_def wrap32_id)
  moreover have "pj_hash_get ht' k (Key_len (length k)) 0 = Some (?m k, hash_loop 0 k)" for k
    using hash_get [OF ht'(2), of k "Key_len (length k)" k 0] m by (simp add: hval_ok_def)
  ultimately show ?thesis using ht(1) ht'(1) by blast
qed

theorem hash_table_is_map_witness:
  "\<exists>ht ht'. pj_hash_create 31 = Some (ht :: nat pj_hash_table_t) \<and>
    run_puts ht_put [(''a'', Some 1), (''b'', Some 2), (''a'', None)] ht = Some ht' \<and>
    pj_hash_get ht' ''b'' (Key_len 1) 0 = Some (Some 2, hash_loop 0 ''b'')"
proof -
  have "\<exists>ht ht'. pj_hash_create 31 = Some (ht :: nat pj_hash_table_t) \<and>
    run_puts ht_put [(''a'', Some 1), (''b'', Some 2), (''a'', None)] ht = Some ht' \<and>
    (\<forall>k. pj_hash_get ht' k (Key_len (length k)) 0 =
      Some (fold (\<lambda>(k, v) m. m(k := v)) [(''a'', Some 1), (''b'', Some 2), (''a'', None)] (\<lambda>_. None) k, hash_loop 0 k)) \<and>
    pj_hash_count ht' = card (dom (fold (\<lambda>(k, v) m. m(k := v)) [(''a'', Some 1), (''b'', Some 2), (''a'', None)] (\<lambda>_. None :: nat option)))"
    by (rule hash_table_is_map) simp_all
  then obtain ht ht' where "pj_hash_create 31 = Some (ht :: nat pj_hash_table_t)"
    "run_puts ht_put [(''a'', Some 1), (''b'', Some 2), (''a'', None)] ht = Some ht'"
    and get: "\<forall>k. pj_hash_get ht' k (Key_len (length k)) 0 =
      Some (fold (\<lambda>(k, v) m. m(k := v)) [(''a'', Some 1), (''b'', Some 2), (''a'', None)] (\<lambda>_. None) k, hash_loop 0 k)" by blast
  then show ?thesis using get [rule_format, of "''b''"] by auto
qed

text \<open>Iterating over a table with \<open>pj_hash_first\<close>, \<open>pj_hash_this\<close> and \<open>pj_hash_next\<close> ends, and visits
  every entry exactly once, row by row.\<close>

theorem hash_iteration_complete:
  assumes "ht_inv ht"
  shows "pj_hash_first ht \<bind> hash_walk ht = Some (map he_value (concat (ht_table ht))) \<and>
    distinct (map he_key (concat (ht_table ht))) \<and> he_key ` set (concat (ht_table ht)) = dom (ht_map ht)"
proof -
  have "0 + (ht_rows ht + 1) = length (ht_table ht)" using assms by (simp add: ht_inv_def)
  from next_row_rest [OF this] obtain it where "pj_hash_first ht = Some it" "it_rest (ht_table ht) it (concat (ht_table ht))"
    by (auto simp: pj_hash_first_def)
  then have "pj_hash_first ht \<bind> hash_walk ht = Some (map he_value (concat (ht_table ht)))" using walk_rest [OF assms] by simp
  moreover have "distinct (map he_key (concat (ht_table ht)))"
    by (rule ht_keys_distinct [where off = 0 and rows = "ht_rows ht"]) (use assms in \<open>simp add: ht_inv_def\<close>)
  ultimately show ?thesis using ht_dom [OF assms] by simp
qed

theorem hash_iteration_complete_witness:
  "\<exists>ht. pj_hash_create 31 = Some (ht :: nat pj_hash_table_t) \<and>
     pj_hash_first ht \<bind> hash_walk ht = Some (map he_value (concat (ht_table ht)))"
proof -
  obtain ht :: "nat pj_hash_table_t" where "pj_hash_create 31 = Some ht" "ht_inv ht" using hash_create_inv [of 31] by auto
  with hash_iteration_complete [OF this(2)] show ?thesis by blast
qed

text \<open>\<open>pj_hash_create\<close> returns exactly when it is asked for at most \<open>2^31\<close> rows; above that its loop
  shifts the size to 0 and runs forever. The table that it returns has a power of two of rows, at
  least as many as it was asked for.\<close>

theorem hash_create_returns:
  assumes "sz < 2 ^ 32"
  shows "(case pj_hash_create sz of
            None \<Rightarrow> 2 ^ 31 < sz
          | Some ht \<Rightarrow> sz \<le> 2 ^ 31 \<and> ht_inv (ht :: 'v pj_hash_table_t) \<and> (\<exists>m. ht_rows ht + 1 = 2 ^ m \<and> sz \<le> 2 ^ m))"
proof (cases "sz \<le> 2 ^ 31")
  case True
  obtain m and ht :: "'v pj_hash_table_t" where "pj_hash_create sz = Some ht" "ht_inv ht" "ht_rows ht + 1 = 2 ^ m" "sz \<le> 2 ^ m"
    using hash_create_inv [OF True] by blast
  then show ?thesis using True by auto
next
  case False
  have "size_loop 8 sz = None"
  proof (cases "size_loop 8 sz")
    case (Some r)
    have "\<exists>n \<le> 31. (8 :: nat) = 2 ^ n" by (intro exI [of _ "3 :: nat"]) simp
    then show ?thesis using size_loop_diverges [OF Some] False by auto
  qed simp
  then show ?thesis using False by (simp add: pj_hash_create_def)
qed

theorem hash_create_returns_witness: "\<exists>ht. pj_hash_create 1023 = Some (ht :: nat pj_hash_table_t) \<and> ht_inv ht"
proof -
  have "case pj_hash_create 1023 of None \<Rightarrow> 2 ^ 31 < (1023 :: nat)
      | Some ht \<Rightarrow> (1023 :: nat) \<le> 2 ^ 31 \<and> ht_inv (ht :: nat pj_hash_table_t) \<and> (\<exists>m. ht_rows ht + 1 = 2 ^ m \<and> (1023 :: nat) \<le> 2 ^ m)"
    by (rule hash_create_returns) simp
  then show ?thesis by (auto split: option.splits)
qed

end
