(* ===== verification/Sip_Msg.thy ===== *)
theory Sip_Msg
  imports Pj_Prelude
begin

text \<open>
  The parts of SIP messages that the transaction layer reads
  (\<^verbatim>\<open>pjsip/include/pjsip/sip_msg.h\<close>, \<^verbatim>\<open>sip_transport.h\<close>): methods, the start line, the headers that identify a
  transaction, and the message buffers. A header pointer that may be null is an option. Outgoing
  messages and transports have an identity, which is what the code's pointer comparisons compare.
\<close>

datatype pjsip_method_e =
    PJSIP_INVITE_METHOD | PJSIP_CANCEL_METHOD | PJSIP_ACK_METHOD | PJSIP_BYE_METHOD
  | PJSIP_REGISTER_METHOD | PJSIP_OPTIONS_METHOD | PJSIP_OTHER_METHOD

record pjsip_method =
  m_id :: pjsip_method_e
  m_name :: string

definition pjsip_method_same :: "pjsip_method \<Rightarrow> pjsip_method \<Rightarrow> bool" where
  "pjsip_method_same m1 m2 =
     (if m_id m1 = m_id m2 then (if m_id m1 \<noteq> PJSIP_OTHER_METHOD then True else m_name m1 = m_name m2)
      else False)"

text \<open>The start line of a request has the method, that of a response the status code and reason.\<close>

datatype pjsip_msg_line = Request_line pjsip_method | Status_line int string

fun is_request :: "pjsip_msg_line \<Rightarrow> bool" where
  "is_request (Request_line _) = True"
| "is_request (Status_line _ _) = False"

record pjsip_via_hdr =
  via_host :: string
  via_port :: nat
  via_branch :: string

record pjsip_cseq_hdr =
  cseq_no :: nat
  cseq_method :: pjsip_method

record pjsip_rx_data =
  rx_line :: pjsip_msg_line
  rx_via :: "pjsip_via_hdr option"
  rx_cseq :: "pjsip_cseq_hdr option"
  rx_from_tag :: "string option"
  rx_call_id :: string

record pjsip_tx_data =
  tx_id :: nat
  tx_line :: pjsip_msg_line
  tx_cseq :: "pjsip_cseq_hdr option"
  tx_branch :: string

record pjsip_transport =
  tp_id :: nat
  tp_reliable :: bool

definition PJSIP_SC_TSX_TIMEOUT :: int where "PJSIP_SC_TSX_TIMEOUT = 408"
definition PJSIP_SC_TSX_TRANSPORT_ERROR :: int where "PJSIP_SC_TSX_TRANSPORT_ERROR = 503"
definition PJSIP_SC_SERVICE_UNAVAILABLE :: int where "PJSIP_SC_SERVICE_UNAVAILABLE = 503"

definition PJSIP_IS_STATUS_IN_CLASS :: "int \<Rightarrow> int \<Rightarrow> bool" where
  "PJSIP_IS_STATUS_IN_CLASS code cls \<longleftrightarrow> cdiv code 100 = cdiv cls 100"

end
