(* ===== verification/Sip_Tsx_Key.thy ===== *)
theory Sip_Tsx_Key
  imports Sip_Msg Pj_String
begin

text \<open>
  Transaction keys (\<open>create_tsx_key_2543\<close>, \<open>create_tsx_key_3261\<close> and \<open>pjsip_tsx_create_key\<close> of
  \<^verbatim>\<open>pjsip/src/pjsip/sip_transaction.c\<close>). A key is built in a buffer from the pool; a write past the
  end of the buffer is \<open>None\<close>.
\<close>

datatype pjsip_role_e = PJSIP_ROLE_UAC | PJSIP_ROLE_UAS

text \<open>A buffer of \<open>cap\<close> bytes with the bytes written so far.\<close>

definition put_str :: "nat \<Rightarrow> string \<Rightarrow> string \<Rightarrow> string option" where
  "put_str cap s key = (if length key + length s \<le> cap then Some (key @ s) else None)"

text \<open>\<open>pj_utoa\<close> also writes a terminating null byte, which the next byte of the key replaces.\<close>

definition put_num :: "nat \<Rightarrow> nat \<Rightarrow> string \<Rightarrow> string option" where
  "put_num cap n key = (if length key + length (pj_utoa n) + 1 \<le> cap then Some (key @ pj_utoa n) else None)"

definition SEPARATOR :: string where "SEPARATOR = ''$''"

definition role_char :: "pjsip_role_e \<Rightarrow> string" where
  "role_char r = (if r = PJSIP_ROLE_UAC then ''c'' else ''s'')"

definition put_method :: "nat \<Rightarrow> pjsip_method \<Rightarrow> string \<Rightarrow> string option" where
  "put_method cap method key =
     (if m_id method \<noteq> PJSIP_INVITE_METHOD \<and> m_id method \<noteq> PJSIP_ACK_METHOD
      then do { key1 \<leftarrow> put_str cap (m_name method) key; put_str cap ''$'' key1 }
      else Some key)"

definition create_tsx_key_2543 ::
  "pjsip_role_e \<Rightarrow> pjsip_method \<Rightarrow> pjsip_rx_data \<Rightarrow> (pj_status + string) option" where
  "create_tsx_key_2543 r method rdata =
     (case (rx_via rdata, rx_cseq rdata, rx_from_tag rdata) of
        (Some via, Some cseq, Some from_tag) \<Rightarrow>
          (let len_required = 9 + length from_tag + length (rx_call_id rdata) + length (via_host via) + 9 + 16
           in do {
             k1 \<leftarrow> put_str len_required (role_char r) [];
             k2 \<leftarrow> put_str len_required SEPARATOR k1;
             k3 \<leftarrow> put_method len_required method k2;
             k4 \<leftarrow> put_num len_required (cseq_no cseq) k3;
             k5 \<leftarrow> put_str len_required SEPARATOR k4;
             k6 \<leftarrow> put_str len_required from_tag k5;
             k7 \<leftarrow> put_str len_required SEPARATOR k6;
             k8 \<leftarrow> put_str len_required (rx_call_id rdata) k7;
             k9 \<leftarrow> put_str len_required SEPARATOR k8;
             k10 \<leftarrow> put_str len_required (via_host via) k9;
             k11 \<leftarrow> put_str len_required '':'' k10;
             k12 \<leftarrow> put_num len_required (via_port via) k11;
             k13 \<leftarrow> put_str len_required SEPARATOR k12;
             k14 \<leftarrow> put_str len_required [CHR 0x00] k13;
             Some (Inr k14)
           })
      | _ \<Rightarrow> Some (Inl PJSIP_EMISSINGHDR))"

definition create_tsx_key_3261 :: "pjsip_role_e \<Rightarrow> pjsip_method \<Rightarrow> string \<Rightarrow> string option" where
  "create_tsx_key_3261 r method branch =
     (let cap = length branch + length (m_name method) + 4
      in do {
        k1 \<leftarrow> put_str cap (role_char r) [];
        k2 \<leftarrow> put_str cap SEPARATOR k1;
        k3 \<leftarrow> put_method cap method k2;
        put_str cap branch k3
      })"

definition PJSIP_RFC3261_BRANCH_ID :: string where "PJSIP_RFC3261_BRANCH_ID = ''z9hG4bK''"
definition PJSIP_RFC3261_BRANCH_LEN :: nat where "PJSIP_RFC3261_BRANCH_LEN = 7"

text \<open>The Via header is dereferenced without a check.\<close>

definition pjsip_tsx_create_key ::
  "pjsip_role_e \<Rightarrow> pjsip_method \<Rightarrow> pjsip_rx_data \<Rightarrow> (pj_status + string) option" where
  "pjsip_tsx_create_key r method rdata = do {
     via \<leftarrow> rx_via rdata;
     if pj_strncmp (via_branch via) PJSIP_RFC3261_BRANCH_ID PJSIP_RFC3261_BRANCH_LEN = 0
     then do { key \<leftarrow> create_tsx_key_3261 r method (via_branch via); Some (Inr key) }
     else create_tsx_key_2543 r method rdata
   }"

subsection \<open>Keys of RFC 3261\<close>

text \<open>The part of a key for the method: INVITE and ACK share a transaction.\<close>

definition method_part :: "pjsip_method \<Rightarrow> string" where
  "method_part m = (if m_id m = PJSIP_INVITE_METHOD \<or> m_id m = PJSIP_ACK_METHOD then [] else m_name m @ ''$'')"

lemma put_method_eq: "put_method cap m key =
    (if length key + length (method_part m) \<le> cap then Some (key @ method_part m) else if method_part m = [] then Some key else None)"
  by (auto simp: put_method_def put_str_def method_part_def)

lemma key_3261: "create_tsx_key_3261 r m branch = Some (role_char r @ ''$'' @ method_part m @ branch)"
  by (auto simp: create_tsx_key_3261_def Let_def put_str_def put_method_eq role_char_def SEPARATOR_def method_part_def)

text \<open>A separator ends the name, so that the parts of a key can be told apart.\<close>

lemma split_separator:
  "CHR ''$'' \<notin> set a \<Longrightarrow> CHR ''$'' \<notin> set b \<Longrightarrow> a @ CHR ''$'' # x = b @ CHR ''$'' # y \<longleftrightarrow> a = b \<and> x = y"
proof (induction a arbitrary: b)
  case Nil
  then show ?case by (cases b) auto
next
  case (Cons c a)
  then show ?case by (cases b) auto
qed

lemma method_branch_inj:
  assumes "CHR ''$'' \<notin> set (m_name m)" "CHR ''$'' \<notin> set (m_name m')" "CHR ''$'' \<notin> set b" "CHR ''$'' \<notin> set b'"
  shows "method_part m @ b = method_part m' @ b' \<longleftrightarrow> method_part m = method_part m' \<and> b = b'"
  using assms split_separator [of "m_name m" "m_name m'" b b']
  by (auto simp: method_part_def)

text \<open>The methods of one transaction: equal, or INVITE and ACK.\<close>

definition same_tsx_method :: "pjsip_method \<Rightarrow> pjsip_method \<Rightarrow> bool" where
  "same_tsx_method m m' \<longleftrightarrow>
     (if m_id m \<in> {PJSIP_INVITE_METHOD, PJSIP_ACK_METHOD} then m_id m' \<in> {PJSIP_INVITE_METHOD, PJSIP_ACK_METHOD}
      else m_id m' \<notin> {PJSIP_INVITE_METHOD, PJSIP_ACK_METHOD} \<and> m_name m = m_name m')"

lemma same_key:
  assumes "CHR ''$'' \<notin> set (m_name m)" "CHR ''$'' \<notin> set (m_name m')" "CHR ''$'' \<notin> set b" "CHR ''$'' \<notin> set b'"
  shows "create_tsx_key_3261 r m b = create_tsx_key_3261 r' m' b' \<longleftrightarrow> r = r' \<and> b = b' \<and> same_tsx_method m m'"
proof -
  have "method_part m = method_part m' \<longleftrightarrow> same_tsx_method m m'"
    by (auto simp: method_part_def same_tsx_method_def)
  then show ?thesis
    using method_branch_inj [OF assms] by (cases r; cases r') (auto simp: key_3261 role_char_def)
qed

text \<open>
  C27: The keys of two RFC 3261 transactions are equal exactly when the transactions are the same: the
  same role, the same branch, and the same method, where ACK counts as INVITE. (Method names and
  branches do not contain the separator.)
\<close>

theorem key_3261_identifies:
  assumes "CHR ''$'' \<notin> set (m_name m)" "CHR ''$'' \<notin> set (m_name m')" "CHR ''$'' \<notin> set b" "CHR ''$'' \<notin> set b'"
  shows "create_tsx_key_3261 r m b = create_tsx_key_3261 r' m' b' \<longleftrightarrow> r = r' \<and> b = b' \<and> same_tsx_method m m'"
  by (rule same_key [OF assms])

theorem key_3261_identifies_witness:
  "create_tsx_key_3261 PJSIP_ROLE_UAS \<lparr>m_id = PJSIP_ACK_METHOD, m_name = ''ACK''\<rparr> ''z9hG4bK1'' =
     create_tsx_key_3261 PJSIP_ROLE_UAS \<lparr>m_id = PJSIP_INVITE_METHOD, m_name = ''INVITE''\<rparr> ''z9hG4bK1'' \<and>
   create_tsx_key_3261 PJSIP_ROLE_UAS \<lparr>m_id = PJSIP_BYE_METHOD, m_name = ''BYE''\<rparr> ''z9hG4bK1'' \<noteq>
     create_tsx_key_3261 PJSIP_ROLE_UAS \<lparr>m_id = PJSIP_INVITE_METHOD, m_name = ''INVITE''\<rparr> ''z9hG4bK1''"
  using key_3261_identifies [of "\<lparr>m_id = PJSIP_ACK_METHOD, m_name = ''ACK''\<rparr>" "\<lparr>m_id = PJSIP_INVITE_METHOD, m_name = ''INVITE''\<rparr>"
      "''z9hG4bK1''" "''z9hG4bK1''" PJSIP_ROLE_UAS PJSIP_ROLE_UAS]
    key_3261_identifies [of "\<lparr>m_id = PJSIP_BYE_METHOD, m_name = ''BYE''\<rparr>" "\<lparr>m_id = PJSIP_INVITE_METHOD, m_name = ''INVITE''\<rparr>"
      "''z9hG4bK1''" "''z9hG4bK1''" PJSIP_ROLE_UAS PJSIP_ROLE_UAS]
  by (simp add: same_tsx_method_def)

subsection \<open>Keys of RFC 2543\<close>

lemma put_steps:
  "put_str cap s key = (if length (key @ s) \<le> cap then Some (key @ s) else None)"
  "put_num cap n key = (if length (key @ pj_utoa n @ [CHR 0x00]) \<le> cap then Some (key @ pj_utoa n) else None)"
  by (simp_all add: put_str_def put_num_def add.assoc)

text \<open>
  C28: The buffer for an RFC 2543 key is large enough exactly when the method name with its separator
  (nothing for INVITE and ACK), the digits of the CSeq number and those of the port are at most 26
  characters together. The size does not count the method name, so a request with a longer method
  name is written past the end of the buffer.
\<close>

theorem key_2543_fits:
  assumes "rx_via rdata = Some via" "rx_cseq rdata = Some cseq" "rx_from_tag rdata = Some tag"
  shows "create_tsx_key_2543 r m rdata =
    (if length (method_part m) + length (pj_utoa (cseq_no cseq)) + length (pj_utoa (via_port via)) \<le> 26
     then Some (Inr (role_char r @ ''$'' @ method_part m @ pj_utoa (cseq_no cseq) @ ''$'' @ tag @ ''$'' @ rx_call_id rdata @ ''$'' @
                 via_host via @ '':'' @ pj_utoa (via_port via) @ ''$'' @ [CHR 0x00]))
     else None)"
  using assms by (auto simp: create_tsx_key_2543_def Let_def put_steps put_method_eq SEPARATOR_def role_char_def)

definition ex_rdata :: pjsip_rx_data where
  "ex_rdata = \<lparr>rx_line = Status_line 200 [], rx_via = Some \<lparr>via_host = ''h'', via_port = 5060, via_branch = ''1''\<rparr>,
     rx_cseq = Some \<lparr>cseq_no = 7, cseq_method = \<lparr>m_id = PJSIP_OTHER_METHOD, m_name = replicate 30 (CHR ''X'')\<rparr>\<rparr>,
     rx_from_tag = Some ''t'', rx_call_id = ''c''\<rparr>"

theorem key_2543_fits_witness:
  "create_tsx_key_2543 PJSIP_ROLE_UAS \<lparr>m_id = PJSIP_OTHER_METHOD, m_name = replicate 30 (CHR ''X'')\<rparr> ex_rdata = None"
  using key_2543_fits [of ex_rdata "\<lparr>via_host = ''h'', via_port = 5060, via_branch = ''1''\<rparr>"
      "\<lparr>cseq_no = 7, cseq_method = \<lparr>m_id = PJSIP_OTHER_METHOD, m_name = replicate 30 (CHR ''X'')\<rparr>\<rparr>" "''t''" PJSIP_ROLE_UAS
      "\<lparr>m_id = PJSIP_OTHER_METHOD, m_name = replicate 30 (CHR ''X'')\<rparr>"]
  by (simp add: ex_rdata_def method_part_def)

end
