(* ===== verification/Sip_Tsx.thy ===== *)
theory Sip_Tsx
  imports Sip_Tsx_Key Pj_Time
begin

text \<open>
  SIP transactions (\<^verbatim>\<open>pjsip/src/pjsip/sip_transaction.c\<close>, \<^verbatim>\<open>pjsip/include/pjsip/sip_transaction.h\<close>): the
  state handlers of client and server transactions and the functions they use.

  A \<open>tsx_world\<close> is one transaction, whether its memory is still allocated, and the log of what it
  asked other components to do, in order. The code ignores the results of its calls to the timer
  heap, the transaction table and the reference counters, so an entry of the log is all there is to
  such a call; \<open>Sip_Tsx_Layer\<close> runs the entries on the table and on the timer heap. The outcomes that
  the code does look at (of a transmission, of resolving a destination, of building an ACK) come
  from a \<open>tsx_env\<close>, a function of the log so far. Callbacks to the transaction user are entries of the
  log; what the user does in reply is the next operation. The value \<open>None\<close> is the use of a
  transaction after it was freed, a call of a null handler or the dereference of a null transport or
  header. Assertions (\<open>pj_assert\<close>) are not part of the model; \<open>PJ_ASSERT_RETURN\<close> is, as the return
  that it does. Locks are not modelled: an operation is one critical section.
\<close>

subsection \<open>State\<close>

datatype pjsip_tsx_state_e =
    PJSIP_TSX_STATE_NULL | PJSIP_TSX_STATE_CALLING | PJSIP_TSX_STATE_TRYING | PJSIP_TSX_STATE_PROCEEDING
  | PJSIP_TSX_STATE_COMPLETED | PJSIP_TSX_STATE_CONFIRMED | PJSIP_TSX_STATE_TERMINATED | PJSIP_TSX_STATE_DESTROYED

fun state_no :: "pjsip_tsx_state_e \<Rightarrow> nat" where
  "state_no PJSIP_TSX_STATE_NULL = 0"
| "state_no PJSIP_TSX_STATE_CALLING = 1"
| "state_no PJSIP_TSX_STATE_TRYING = 2"
| "state_no PJSIP_TSX_STATE_PROCEEDING = 3"
| "state_no PJSIP_TSX_STATE_COMPLETED = 4"
| "state_no PJSIP_TSX_STATE_CONFIRMED = 5"
| "state_no PJSIP_TSX_STATE_TERMINATED = 6"
| "state_no PJSIP_TSX_STATE_DESTROYED = 7"

text \<open>The bits of \<open>transport_flag\<close>; a set of them is the value of the field.\<close>

datatype tsx_flag =
    TSX_HAS_PENDING_TRANSPORT | TSX_HAS_PENDING_RESCHED | TSX_HAS_PENDING_SEND
  | TSX_HAS_PENDING_DESTROY | TSX_HAS_RESOLVED_SERVER

datatype tsx_timer = Retransmit_timer | Timeout_timer

text \<open>The handlers that \<open>state_handler\<close> can point to.\<close>

datatype tsx_handler =
    On_null | On_calling | On_trying | On_proceeding_uas | On_proceeding_uac | On_completed_uas
  | On_completed_uac | On_confirmed | On_terminated | On_destroyed

fun tsx_state_handler_uac :: "pjsip_tsx_state_e \<Rightarrow> tsx_handler option" where
  "tsx_state_handler_uac PJSIP_TSX_STATE_NULL = Some On_null"
| "tsx_state_handler_uac PJSIP_TSX_STATE_CALLING = Some On_calling"
| "tsx_state_handler_uac PJSIP_TSX_STATE_TRYING = None"
| "tsx_state_handler_uac PJSIP_TSX_STATE_PROCEEDING = Some On_proceeding_uac"
| "tsx_state_handler_uac PJSIP_TSX_STATE_COMPLETED = Some On_completed_uac"
| "tsx_state_handler_uac PJSIP_TSX_STATE_CONFIRMED = Some On_confirmed"
| "tsx_state_handler_uac PJSIP_TSX_STATE_TERMINATED = Some On_terminated"
| "tsx_state_handler_uac PJSIP_TSX_STATE_DESTROYED = Some On_destroyed"

fun tsx_state_handler_uas :: "pjsip_tsx_state_e \<Rightarrow> tsx_handler option" where
  "tsx_state_handler_uas PJSIP_TSX_STATE_NULL = Some On_null"
| "tsx_state_handler_uas PJSIP_TSX_STATE_CALLING = None"
| "tsx_state_handler_uas PJSIP_TSX_STATE_TRYING = Some On_trying"
| "tsx_state_handler_uas PJSIP_TSX_STATE_PROCEEDING = Some On_proceeding_uas"
| "tsx_state_handler_uas PJSIP_TSX_STATE_COMPLETED = Some On_completed_uas"
| "tsx_state_handler_uas PJSIP_TSX_STATE_CONFIRMED = Some On_confirmed"
| "tsx_state_handler_uas PJSIP_TSX_STATE_TERMINATED = Some On_terminated"
| "tsx_state_handler_uas PJSIP_TSX_STATE_DESTROYED = Some On_destroyed"

text \<open>The transaction user, as far as the code looks at it: which callbacks it has.\<close>

record tsx_user =
  tu_on_rx_response :: bool
  tu_on_tsx_state :: bool

text \<open>The reason phrase: given, the standard one of a code, or the text of an error.\<close>

datatype status_text = Given_text string | Code_text int | Error_text pj_status

record pjsip_transaction =
  t_user :: "tsx_user option"
  role :: pjsip_role_e
  t_method :: pjsip_method
  t_cseq :: nat
  transaction_key :: string
  t_branch :: string
  tp_sel :: nat
  status_code :: int
  t_status_text :: status_text
  state :: pjsip_tsx_state_e
  handle_200resp :: bool
  state_handler :: "tsx_handler option"
  transport :: "pjsip_transport option"
  is_reliable :: bool
  t_addr :: nat
  addr_len :: nat
  res_addr_transport :: "pjsip_transport option"
  res_addr_len :: nat
  transport_flag :: "tsx_flag set"
  transport_err :: pj_status
  last_tx :: "pjsip_tx_data option"
  retransmit_count :: nat
  retransmit_timer_id :: nat
  timeout_timer_id :: nat

datatype pjsip_event = Timer_event tsx_timer | Tx_msg_event pjsip_tx_data | Rx_msg_event pjsip_rx_data

text \<open>The source of a state change, as it is told to the transaction user.\<close>

datatype pjsip_event_src =
    Src_timer tsx_timer | Src_tx_msg pjsip_tx_data | Src_rx_msg pjsip_rx_data | Src_transport_error | Src_user | Src_unknown

datatype tsx_action =
    Schedule_timer tsx_timer pj_time_val
  | Cancel_timer tsx_timer
  | On_rx_response pjsip_rx_data
  | On_tsx_state pjsip_tsx_state_e pjsip_tsx_state_e pjsip_event_src
  | Tx_add_ref nat
  | Tx_dec_ref nat
  | Transport_add_ref nat
  | Transport_dec_ref nat
  | Selector_add_ref nat
  | Selector_dec_ref nat
  | Set_tx_transport nat nat
  | Transport_send nat pjsip_tx_data
  | Send_request pjsip_tx_data
  | Send_response pjsip_tx_data
  | Register_tsx string
  | Unregister_tsx string
  | Release_pool
  | Timer_fired tsx_timer

record tsx_world =
  w_tsx :: pjsip_transaction
  w_alive :: bool
  w_log :: "tsx_action list"

text \<open>One call of \<open>send_msg_callback\<close>: the error (\<open>None\<close> when bytes were sent), the transport and
  address of the attempt, and whether another address will be tried.\<close>

record send_state =
  ss_err :: "pj_status option"
  ss_transport :: "pjsip_transport option"
  ss_addr :: nat
  ss_addr_len :: nat
  ss_cont :: bool

text \<open>The configuration (\<open>pjsip_cfg()->tsx\<close>) and the outcomes of the operations of other components.
  Resolving a destination may call back before it returns its status.\<close>

record tsx_env =
  cfg_t1 :: nat
  cfg_t2 :: nat
  cfg_t4 :: nat
  cfg_td :: nat
  env_transport_send :: "tsx_action list \<Rightarrow> pj_status"
  env_resolve :: "tsx_action list \<Rightarrow> send_state list \<times> pj_status"
  env_create_ack :: "tsx_action list \<Rightarrow> pj_status + pjsip_tx_data"

definition msec_time_val :: "nat \<Rightarrow> pj_time_val" where
  "msec_time_val ms = TimeVal (int (ms div 1000)) (int (ms mod 1000))"

definition t1_timer_val :: "tsx_env \<Rightarrow> pj_time_val" where "t1_timer_val env = msec_time_val (cfg_t1 env)"
definition t2_timer_val :: "tsx_env \<Rightarrow> pj_time_val" where "t2_timer_val env = msec_time_val (cfg_t2 env)"
definition t4_timer_val :: "tsx_env \<Rightarrow> pj_time_val" where "t4_timer_val env = msec_time_val (cfg_t4 env)"
definition td_timer_val :: "tsx_env \<Rightarrow> pj_time_val" where "td_timer_val env = msec_time_val (cfg_td env)"
definition timeout_timer_val :: "tsx_env \<Rightarrow> pj_time_val" where
  "timeout_timer_val env = msec_time_val (64 * cfg_t1 env)"

definition TIMER_ACTIVE :: nat where "TIMER_ACTIVE = 1"

subsection \<open>Access to the transaction\<close>

definition live :: "tsx_world \<Rightarrow> pjsip_transaction option" where
  "live w = (if w_alive w then Some (w_tsx w) else None)"

definition emit :: "tsx_action \<Rightarrow> tsx_world \<Rightarrow> tsx_world" where
  "emit a w = w\<lparr>w_log := w_log w @ [a]\<rparr>"

definition upd :: "(pjsip_transaction \<Rightarrow> pjsip_transaction) \<Rightarrow> tsx_world \<Rightarrow> tsx_world" where
  "upd f w = w\<lparr>w_tsx := f (w_tsx w)\<rparr>"

definition has_flag :: "tsx_flag \<Rightarrow> tsx_world \<Rightarrow> bool" where
  "has_flag f w \<longleftrightarrow> f \<in> transport_flag (w_tsx w)"

definition set_flag :: "tsx_flag \<Rightarrow> tsx_world \<Rightarrow> tsx_world" where
  "set_flag f = upd (\<lambda>t. t\<lparr>transport_flag := insert f (transport_flag t)\<rparr>)"

definition clear_flag :: "tsx_flag \<Rightarrow> tsx_world \<Rightarrow> tsx_world" where
  "clear_flag f = upd (\<lambda>t. t\<lparr>transport_flag := transport_flag t - {f}\<rparr>)"

text \<open>The patterns of the code on the timers: start with \<open>id\<close> set, stop if \<open>id\<close> is set, and cancel
  without a look at \<open>id\<close>.\<close>

fun timer_id :: "tsx_timer \<Rightarrow> pjsip_transaction \<Rightarrow> nat" where
  "timer_id Retransmit_timer t = retransmit_timer_id t"
| "timer_id Timeout_timer t = timeout_timer_id t"

fun set_timer_id :: "tsx_timer \<Rightarrow> nat \<Rightarrow> pjsip_transaction \<Rightarrow> pjsip_transaction" where
  "set_timer_id Retransmit_timer n t = t\<lparr>retransmit_timer_id := n\<rparr>"
| "set_timer_id Timeout_timer n t = t\<lparr>timeout_timer_id := n\<rparr>"

definition start_timer :: "tsx_timer \<Rightarrow> pj_time_val \<Rightarrow> tsx_world \<Rightarrow> tsx_world" where
  "start_timer k delay w = emit (Schedule_timer k delay) (upd (set_timer_id k TIMER_ACTIVE) w)"

definition cancel_timer :: "tsx_timer \<Rightarrow> tsx_world \<Rightarrow> tsx_world" where
  "cancel_timer k w = emit (Cancel_timer k) w"

definition stop_timer :: "tsx_timer \<Rightarrow> tsx_world \<Rightarrow> tsx_world" where
  "stop_timer k w = (if timer_id k (w_tsx w) \<noteq> 0 then upd (set_timer_id k 0) (cancel_timer k w) else w)"

text \<open>Releasing the transport, if there is one.\<close>

definition release_transport :: "tsx_world \<Rightarrow> tsx_world" where
  "release_transport w =
     (case transport (w_tsx w) of
        None \<Rightarrow> w
      | Some tp \<Rightarrow> upd (\<lambda>t. t\<lparr>transport := None\<rparr>) (emit (Transport_dec_ref (tp_id tp)) w))"

text \<open>Saving a message for retransmission: \<open>drop_last_tx\<close> gives up another message,
  \<open>save_last_tx\<close> keeps this one.\<close>

definition same_tx :: "pjsip_tx_data option \<Rightarrow> pjsip_tx_data \<Rightarrow> bool" where
  "same_tx d tdata \<longleftrightarrow> map_option tx_id d = Some (tx_id tdata)"

definition drop_last_tx :: "pjsip_tx_data \<Rightarrow> tsx_world \<Rightarrow> tsx_world" where
  "drop_last_tx tdata w =
     (case last_tx (w_tsx w) of
        None \<Rightarrow> w
      | Some old \<Rightarrow> if tx_id old \<noteq> tx_id tdata
                    then upd (\<lambda>t. t\<lparr>last_tx := None\<rparr>) (emit (Tx_dec_ref (tx_id old)) w) else w)"

definition save_last_tx :: "pjsip_tx_data \<Rightarrow> tsx_world \<Rightarrow> tsx_world" where
  "save_last_tx tdata w =
     (if \<not> same_tx (last_tx (w_tsx w)) tdata
      then emit (Tx_add_ref (tx_id tdata)) (upd (\<lambda>t. t\<lparr>last_tx := Some tdata\<rparr>) w) else w)"

definition tsx_set_status_code :: "int \<Rightarrow> status_text option \<Rightarrow> tsx_world \<Rightarrow> tsx_world" where
  "tsx_set_status_code code reason =
     upd (\<lambda>t. t\<lparr>status_code := code,
                t_status_text := (case reason of Some r \<Rightarrow> r | None \<Rightarrow> Code_text code)\<rparr>)"

subsection \<open>Changing the state\<close>

definition tsx_destroy :: "tsx_world \<Rightarrow> (pj_status \<times> tsx_world) option" where
  "tsx_destroy w = do {
     _ \<leftarrow> live w;
     let w1 = release_transport w;
     let w2 = emit (Selector_dec_ref (tp_sel (w_tsx w1))) w1;
     let w3 = (case last_tx (w_tsx w2) of
                 None \<Rightarrow> w2
               | Some d \<Rightarrow> upd (\<lambda>t. t\<lparr>last_tx := None\<rparr>) (emit (Tx_dec_ref (tx_id d)) w2));
     let w4 = stop_timer Retransmit_timer (stop_timer Timeout_timer w3);
     let w5 = clear_flag TSX_HAS_PENDING_SEND (clear_flag TSX_HAS_PENDING_RESCHED w4);
     if has_flag TSX_HAS_PENDING_TRANSPORT w5
     then Some (PJ_EBUSY, upd (\<lambda>t. t\<lparr>t_user := None\<rparr>) (set_flag TSX_HAS_PENDING_DESTROY w5))
     else Some (PJ_SUCCESS, emit Release_pool (w5\<lparr>w_alive := False\<rparr>))
   }"

definition notify_rx :: "pjsip_event_src \<Rightarrow> tsx_world \<Rightarrow> tsx_world" where
  "notify_rx src w =
     (case (src, t_user (w_tsx w)) of
        (Src_rx_msg rdata, Some u) \<Rightarrow>
          if \<not> is_request (rx_line rdata) \<and> tu_on_rx_response u then emit (On_rx_response rdata) w else w
      | _ \<Rightarrow> w)"

definition notify_state :: "pjsip_tsx_state_e \<Rightarrow> pjsip_tsx_state_e \<Rightarrow> pjsip_event_src \<Rightarrow> tsx_world \<Rightarrow> tsx_world" where
  "notify_state prev_state st src w =
     (case t_user (w_tsx w) of
        Some u \<Rightarrow> if tu_on_tsx_state u then emit (On_tsx_state prev_state st src) w else w
      | None \<Rightarrow> w)"

text \<open>The first part of \<open>tsx_set_state\<close>: the new state and handler, and the notifications.\<close>

definition enter_state :: "pjsip_tsx_state_e \<Rightarrow> pjsip_event_src \<Rightarrow> tsx_world \<Rightarrow> tsx_world" where
  "enter_state st src w =
     notify_state (state (w_tsx w)) st src (notify_rx src
       (upd (\<lambda>t. t\<lparr>state := st,
                   state_handler := (if role t = PJSIP_ROLE_UAC then tsx_state_handler_uac st
                                     else tsx_state_handler_uas st)\<rparr>) w))"

definition tsx_set_state :: "pjsip_tsx_state_e \<Rightarrow> pjsip_event_src \<Rightarrow> tsx_world \<Rightarrow> tsx_world option" where
  "tsx_set_state st src w = do {
     _ \<leftarrow> live w;
     let w1 = enter_state st src w;
     if st = PJSIP_TSX_STATE_TERMINATED then
       if has_flag TSX_HAS_PENDING_TRANSPORT w1 then Some (set_flag TSX_HAS_PENDING_DESTROY w1)
       else Some (start_timer Timeout_timer (TimeVal 0 0) (stop_timer Timeout_timer w1))
     else if st = PJSIP_TSX_STATE_DESTROYED
     then map_option snd (tsx_destroy (emit (Unregister_tsx (transaction_key (w_tsx w1))) w1))
     else Some w1
   }"

subsection \<open>Sending\<close>

text \<open>\<open>tsx_send_msg\<close> and \<open>send_msg_callback\<close> call each other. The callback sends only after the server
  is resolved, when sending does not resolve it again, so the model ties the knot once:
  \<open>tsx_send_resolved\<close> is what sending does when it is called from the callback, and has no branch for
  resolving. (\<open>send_after_resolve\<close> shows that it is the same as \<open>tsx_send_msg\<close> there.)\<close>

definition send_failed :: "pj_status \<Rightarrow> tsx_world \<Rightarrow> (pj_status \<times> tsx_world) option" where
  "send_failed status w = do {
     let status' = (if status = PJ_SUCCESS then PJ_EUNKNOWN else status);
     w1 \<leftarrow> tsx_set_state PJSIP_TSX_STATE_TERMINATED Src_transport_error
            (tsx_set_status_code PJSIP_SC_TSX_TRANSPORT_ERROR (Some (Error_text status')) w);
     Some (status', w1)
   }"

text \<open>Sending on the transport that the transaction has: the status and, when the message was not
  sent, \<open>True\<close>.\<close>

definition send_on_transport :: "tsx_env \<Rightarrow> pjsip_tx_data \<Rightarrow> tsx_world \<Rightarrow> pj_status \<times> bool \<times> tsx_world" where
  "send_on_transport env tdata w =
     (case transport (w_tsx w) of
        None \<Rightarrow> (PJ_SUCCESS, True, w)
      | Some tp \<Rightarrow>
          let w1 = emit (Transport_send (tp_id tp) tdata) w;
              status = (if env_transport_send env (w_log w1) = PJ_EPENDING then PJ_SUCCESS
                        else env_transport_send env (w_log w1))
          in if status \<noteq> PJ_SUCCESS
             then (status, True, upd (\<lambda>t. t\<lparr>addr_len := 0, res_addr_transport := None, res_addr_len := 0\<rparr>)
                                   (release_transport w1))
             else (PJ_SUCCESS, False, w1))"

definition tsx_send_resolved :: "tsx_env \<Rightarrow> pjsip_tx_data \<Rightarrow> tsx_world \<Rightarrow> (pj_status \<times> tsx_world) option" where
  "tsx_send_resolved env tdata w = do {
     _ \<leftarrow> live w;
     if has_flag TSX_HAS_PENDING_TRANSPORT w then Some (PJ_SUCCESS, set_flag TSX_HAS_PENDING_SEND w)
     else let (status, failed, w1) = send_on_transport env tdata w
          in if \<not> failed then Some (PJ_SUCCESS, w1) else send_failed status w1
   }"

definition tsx_resched_retransmission :: "tsx_env \<Rightarrow> tsx_world \<Rightarrow> tsx_world option" where
  "tsx_resched_retransmission env w = do {
     tsx \<leftarrow> live w;
     let msec = (if role tsx = PJSIP_ROLE_UAC \<and> status_code tsx \<ge> 100 then cfg_t2 env
                 else wrap32 (2 ^ retransmit_count tsx * int (cfg_t1 env)));
     let msec_time = (if role tsx = PJSIP_ROLE_UAC
                      then (if msec > cfg_t2 env \<and> m_id (t_method tsx) \<noteq> PJSIP_INVITE_METHOD then cfg_t2 env else msec)
                      else (if msec > cfg_t2 env then cfg_t2 env else msec));
     Some (start_timer Retransmit_timer (msec_time_val msec_time) w)
   }"

text \<open>The part of the callback for a message that was sent: the new transport, and then what was
  waiting for it.\<close>

definition update_transport :: "send_state \<Rightarrow> tsx_world \<Rightarrow> tsx_world option" where
  "update_transport ss w =
     (if map_option tp_id (transport (w_tsx w)) \<noteq> map_option tp_id (ss_transport ss)
      then do {
        tp \<leftarrow> ss_transport ss;
        Some (upd (\<lambda>t. t\<lparr>transport := Some tp, addr_len := ss_addr_len ss, t_addr := ss_addr ss,
                         is_reliable := tp_reliable tp\<rparr>)
               (emit (Transport_add_ref (tp_id tp)) (release_transport w)))
      }
      else Some w)"

definition flush_pending :: "tsx_env \<Rightarrow> tsx_world \<Rightarrow> tsx_world option" where
  "flush_pending env w =
     (if has_flag TSX_HAS_PENDING_DESTROY w then tsx_set_state PJSIP_TSX_STATE_DESTROYED Src_unknown w
      else do {
        w1 \<leftarrow> (if has_flag TSX_HAS_PENDING_SEND w
              then (case last_tx (w_tsx w) of
                      None \<Rightarrow> Some (clear_flag TSX_HAS_PENDING_SEND w)
                    | Some tdata \<Rightarrow> map_option snd (tsx_send_resolved env tdata (clear_flag TSX_HAS_PENDING_SEND w)))
              else Some w);
        if has_flag TSX_HAS_PENDING_RESCHED w1
        then let w2 = clear_flag TSX_HAS_PENDING_RESCHED w1
             in if \<not> is_reliable (w_tsx w2) then tsx_resched_retransmission env w2 else Some w2
        else Some w1
      })"

definition send_msg_done :: "tsx_env \<Rightarrow> send_state \<Rightarrow> tsx_world \<Rightarrow> tsx_world option" where
  "send_msg_done env ss w = do {
     w1 \<leftarrow> update_transport ss w;
     flush_pending env (set_flag TSX_HAS_RESOLVED_SERVER (clear_flag TSX_HAS_PENDING_TRANSPORT w1))
   }"

definition send_msg_error :: "send_state \<Rightarrow> pj_status \<Rightarrow> tsx_world \<Rightarrow> tsx_world option" where
  "send_msg_error ss err w = do {
     let w1 = (if map_option tp_id (ss_transport ss) = map_option tp_id (transport (w_tsx w)) then release_transport w else w);
     if \<not> ss_cont ss
     then let w2 = upd (\<lambda>t. t\<lparr>transport_err := err\<rparr>) w1;
              w3 = set_flag TSX_HAS_RESOLVED_SERVER (clear_flag TSX_HAS_PENDING_TRANSPORT w2);
              w4 = tsx_set_status_code PJSIP_SC_TSX_TRANSPORT_ERROR (Some (Error_text err)) w3
          in if state (w_tsx w4) \<noteq> PJSIP_TSX_STATE_TERMINATED \<and> state (w_tsx w4) \<noteq> PJSIP_TSX_STATE_DESTROYED
             then tsx_set_state PJSIP_TSX_STATE_TERMINATED Src_transport_error w4
             else Some w4
     else Some w1
   }"

definition send_msg_callback :: "tsx_env \<Rightarrow> send_state \<Rightarrow> tsx_world \<Rightarrow> tsx_world option" where
  "send_msg_callback env ss w = do {
     _ \<leftarrow> live w;
     (case ss_err ss of None \<Rightarrow> send_msg_done env ss w | Some err \<Rightarrow> send_msg_error ss err w)
   }"

text \<open>The transport is dereferenced without a check.\<close>

definition transport_callback :: "pj_status option \<Rightarrow> tsx_world \<Rightarrow> tsx_world option" where
  "transport_callback res w =
     (case res of
        None \<Rightarrow> Some w
      | Some err \<Rightarrow> do {
          tsx \<leftarrow> live w;
          tp \<leftarrow> transport tsx;
          tsx_set_state PJSIP_TSX_STATE_TERMINATED Src_transport_error
            (tsx_set_status_code PJSIP_SC_TSX_TRANSPORT_ERROR (Some (Error_text err))
              (upd (\<lambda>t. t\<lparr>transport := None\<rparr>)
                (emit (Transport_dec_ref (tp_id tp)) (upd (\<lambda>t. t\<lparr>transport_err := err\<rparr>) w))))
        })"

fun run_callbacks :: "tsx_env \<Rightarrow> send_state list \<Rightarrow> tsx_world \<Rightarrow> tsx_world option" where
  "run_callbacks env [] w = Some w"
| "run_callbacks env (ss # sss) w = do { w1 \<leftarrow> send_msg_callback env ss w; run_callbacks env sss w1 }"

text \<open>Resolving the destination: \<open>pjsip_endpt_send_request_stateless\<close> or \<open>pjsip_endpt_send_response\<close>. The
  state is read afterwards when the status is success.\<close>

definition tsx_resolve :: "tsx_env \<Rightarrow> pjsip_tx_data \<Rightarrow> tsx_world \<Rightarrow> (pj_status \<times> tsx_world) option" where
  "tsx_resolve env tdata w = do {
     let w1 = set_flag TSX_HAS_PENDING_TRANSPORT (emit (Tx_add_ref (tx_id tdata)) w);
     let w2 = emit (if is_request (tx_line tdata) then Send_request tdata else Send_response tdata) w1;
     let (sss, res) = env_resolve env (w_log w2);
     w3 \<leftarrow> run_callbacks env sss w2;
     let status = (if res = PJ_EPENDING then PJ_SUCCESS else res);
     if status \<noteq> PJ_SUCCESS then Some (status, emit (Tx_dec_ref (tx_id tdata)) w3)
     else do {
       tsx \<leftarrow> live w3;
       Some (if state tsx = PJSIP_TSX_STATE_TERMINATED then transport_err tsx else PJ_SUCCESS, w3)
     }
   }"

definition tsx_send_msg :: "tsx_env \<Rightarrow> pjsip_tx_data \<Rightarrow> tsx_world \<Rightarrow> (pj_status \<times> tsx_world) option" where
  "tsx_send_msg env tdata w = do {
     _ \<leftarrow> live w;
     if has_flag TSX_HAS_PENDING_TRANSPORT w then Some (PJ_SUCCESS, set_flag TSX_HAS_PENDING_SEND w)
     else let (status, failed, w1) = send_on_transport env tdata w
          in if \<not> failed then Some (PJ_SUCCESS, w1)
             else if has_flag TSX_HAS_RESOLVED_SERVER w1 then send_failed status w1
             else tsx_resolve env tdata w1
   }"

definition tsx_retransmit :: "tsx_env \<Rightarrow> bool \<Rightarrow> tsx_world \<Rightarrow> (pj_status \<times> tsx_world) option" where
  "tsx_retransmit env resched w = do {
     tsx \<leftarrow> live w;
     (case last_tx tsx of
        None \<Rightarrow> Some (PJ_EBUG, w)
      | Some tdata \<Rightarrow> do {
          let w1 = upd (\<lambda>t. t\<lparr>retransmit_count := retransmit_count t + 1\<rparr>) w;
          w2 \<leftarrow> (if resched
                then (if has_flag TSX_HAS_PENDING_TRANSPORT w1 then Some (set_flag TSX_HAS_PENDING_RESCHED w1)
                      else tsx_resched_retransmission env w1)
                else Some w1);
          tsx_send_msg env tdata w2
        })
   }"

subsection \<open>State handlers\<close>

text \<open>Starting the retransmission timer at T1, or leaving it to the callback while the transport is
  pending.\<close>

definition start_retransmission :: "tsx_env \<Rightarrow> tsx_world \<Rightarrow> tsx_world" where
  "start_retransmission env w =
     (let w1 = upd (\<lambda>t. t\<lparr>retransmit_count := 0\<rparr>) w
      in if has_flag TSX_HAS_PENDING_TRANSPORT w1 then set_flag TSX_HAS_PENDING_RESCHED w1
         else start_timer Retransmit_timer (t1_timer_val env) w1)"

text \<open>A status with \<open>PJ_SUCCESS\<close> for the functions that end with \<open>return PJ_SUCCESS\<close>.\<close>

definition succeed :: "tsx_world option \<Rightarrow> (pj_status \<times> tsx_world) option" where
  "succeed r = map_option (\<lambda>w. (PJ_SUCCESS, w)) r"

definition null_uac_sent :: "tsx_env \<Rightarrow> pjsip_tx_data \<Rightarrow> tsx_world \<Rightarrow> (pj_status \<times> tsx_world) option" where
  "null_uac_sent env tdata w = do {
     tsx \<leftarrow> live w;
     let w1 = start_timer Timeout_timer (timeout_timer_val env) w;
     let w2 = (if \<not> is_reliable tsx then start_retransmission env w1 else w1);
     succeed (tsx_set_state PJSIP_TSX_STATE_CALLING (Src_tx_msg tdata) w2)
   }"

definition tsx_on_state_null :: "tsx_env \<Rightarrow> pjsip_event \<Rightarrow> tsx_world \<Rightarrow> (pj_status \<times> tsx_world) option" where
  "tsx_on_state_null env event w = do {
     tsx \<leftarrow> live w;
     if role tsx = PJSIP_ROLE_UAS then
       (case event of
          Rx_msg_event rdata \<Rightarrow> succeed (tsx_set_state PJSIP_TSX_STATE_TRYING (Src_rx_msg rdata) w)
        | _ \<Rightarrow> None)
     else
       (case event of
          Tx_msg_event tdata \<Rightarrow> do {
            (status, w1) \<leftarrow> tsx_send_msg env tdata (save_last_tx tdata (drop_last_tx tdata w));
            if status \<noteq> PJ_SUCCESS then Some (status, w1) else null_uac_sent env tdata w1
          }
        | _ \<Rightarrow> Some (PJ_EBUG, w))
   }"

text \<open>\<open>tsx_on_state_proceeding_uac\<close>, by the class of the status code that the event sets: 2xx, and
  3xx to 6xx. The last test of the transport looks at bit 0 of \<open>transport_flag\<close>
  (\<open>PJSIP_TRANSPORT_RELIABLE\<close> is 1, and so is \<open>TSX_HAS_PENDING_TRANSPORT\<close>).\<close>

definition proceeding_uac_2xx :: "tsx_env \<Rightarrow> pjsip_event_src \<Rightarrow> tsx_world \<Rightarrow> (pj_status \<times> tsx_world) option" where
  "proceeding_uac_2xx env src w =
     (let w1 = cancel_timer Timeout_timer w
      in if m_id (t_method (w_tsx w1)) = PJSIP_INVITE_METHOD
         then succeed (tsx_set_state PJSIP_TSX_STATE_TERMINATED src w1)
         else let timeout = (if \<not> is_reliable (w_tsx w1)
                             then (if m_id (t_method (w_tsx w1)) = PJSIP_INVITE_METHOD then td_timer_val env else t4_timer_val env)
                             else TimeVal 0 0)
              in succeed (tsx_set_state PJSIP_TSX_STATE_COMPLETED src
                   (stop_timer Retransmit_timer (start_timer Timeout_timer timeout w1))))"

definition replace_last_tx :: "pjsip_tx_data option \<Rightarrow> tsx_world \<Rightarrow> tsx_world option" where
  "replace_last_tx ack w =
     (if map_option tx_id ack \<noteq> map_option tx_id (last_tx (w_tsx w))
      then do {
        old \<leftarrow> last_tx (w_tsx w);
        Some (upd (\<lambda>t. t\<lparr>last_tx := ack\<rparr>) (emit (Tx_dec_ref (tx_id old)) w))
      }
      else Some w)"

definition start_timer_D :: "tsx_env \<Rightarrow> tsx_world \<Rightarrow> tsx_world" where
  "start_timer_D env w =
     (let unreliable = (case transport (w_tsx w) of Some tp \<Rightarrow> \<not> tp_reliable tp | None \<Rightarrow> False)
                       \<or> \<not> has_flag TSX_HAS_PENDING_TRANSPORT w;
          timeout = (if unreliable
                     then (if m_id (t_method (w_tsx w)) = PJSIP_INVITE_METHOD then td_timer_val env else t4_timer_val env)
                     else TimeVal 0 0)
      in start_timer Timeout_timer timeout w)"

definition send_ack :: "tsx_env \<Rightarrow> tsx_world \<Rightarrow> (pj_status \<times> pjsip_tx_data option \<times> tsx_world) option" where
  "send_ack env w =
     (case env_create_ack env (w_log w) of
        Inl err \<Rightarrow> Some (err, None, w)
      | Inr ack \<Rightarrow> do { (status, w1) \<leftarrow> tsx_send_msg env ack w; Some (status, Some ack, w1) })"

definition uac_completed ::
  "tsx_env \<Rightarrow> pjsip_event_src \<Rightarrow> bool \<Rightarrow> pjsip_tx_data option \<Rightarrow> tsx_world \<Rightarrow> (pj_status \<times> tsx_world) option" where
  "uac_completed env src invite ack w = do {
     w1 \<leftarrow> tsx_set_state PJSIP_TSX_STATE_COMPLETED src w;
     w2 \<leftarrow> (if invite then replace_last_tx ack w1 else Some w1);
     Some (PJ_SUCCESS, start_timer_D env w2)
   }"

definition proceeding_uac_fail :: "tsx_env \<Rightarrow> pjsip_event_src \<Rightarrow> tsx_world \<Rightarrow> (pj_status \<times> tsx_world) option" where
  "proceeding_uac_fail env src w = do {
     let w1 = cancel_timer Timeout_timer (upd (set_timer_id Timeout_timer 0) (stop_timer Retransmit_timer w));
     let invite = (m_id (t_method (w_tsx w1)) = PJSIP_INVITE_METHOD);
     (status, ack, w2) \<leftarrow> (if invite then send_ack env w1 else Some (PJ_SUCCESS, None, w1));
     if status \<noteq> PJ_SUCCESS then Some (status, w2) else uac_completed env src invite ack w2
   }"

definition proceeding_uac_status ::
  "tsx_env \<Rightarrow> pjsip_event_src \<Rightarrow> tsx_world \<Rightarrow> (pj_status \<times> tsx_world) option" where
  "proceeding_uac_status env src w =
     (let code = status_code (w_tsx w)
      in if PJSIP_IS_STATUS_IN_CLASS code 100 then succeed (tsx_set_state PJSIP_TSX_STATE_PROCEEDING src w)
         else if PJSIP_IS_STATUS_IN_CLASS code 200 then proceeding_uac_2xx env src w
         else if src = Src_timer Timeout_timer then succeed (tsx_set_state PJSIP_TSX_STATE_TERMINATED src w)
         else if code \<ge> 300 \<and> code \<le> 699 then proceeding_uac_fail env src w
         else Some (PJ_EBUG, w))"

definition tsx_on_state_proceeding_uac ::
  "tsx_env \<Rightarrow> pjsip_event \<Rightarrow> tsx_world \<Rightarrow> (pj_status \<times> tsx_world) option" where
  "tsx_on_state_proceeding_uac env event w = do {
     _ \<leftarrow> live w;
     (case event of
        Tx_msg_event _ \<Rightarrow> Some (PJ_EINVALIDOP, w)
      | Rx_msg_event rdata \<Rightarrow>
          (case rx_line rdata of
             Request_line _ \<Rightarrow> Some (PJSIP_ENOTRESPONSEMSG, w)
           | Status_line code reason \<Rightarrow>
               proceeding_uac_status env (Src_rx_msg rdata) (tsx_set_status_code code (Some (Given_text reason)) w))
      | Timer_event Retransmit_timer \<Rightarrow> tsx_retransmit env True w
      | Timer_event Timeout_timer \<Rightarrow>
          proceeding_uac_status env (Src_timer Timeout_timer) (tsx_set_status_code PJSIP_SC_TSX_TIMEOUT None w))
   }"

definition calling_response_timers :: "tsx_env \<Rightarrow> int \<Rightarrow> tsx_world \<Rightarrow> tsx_world" where
  "calling_response_timers env code w =
     (if code \<ge> 200 then stop_timer Timeout_timer (stop_timer Retransmit_timer w)
      else let w1 = stop_timer Retransmit_timer w
           in if m_id (t_method (w_tsx w1)) = PJSIP_INVITE_METHOD then cancel_timer Timeout_timer w1
              else if \<not> is_reliable (w_tsx w1) then start_timer Retransmit_timer (t2_timer_val env) w1
              else w1)"

definition tsx_on_state_calling :: "tsx_env \<Rightarrow> pjsip_event \<Rightarrow> tsx_world \<Rightarrow> (pj_status \<times> tsx_world) option" where
  "tsx_on_state_calling env event w = do {
     _ \<leftarrow> live w;
     (case event of
        Timer_event Retransmit_timer \<Rightarrow> tsx_retransmit env True w
      | Timer_event Timeout_timer \<Rightarrow>
          succeed (tsx_set_state PJSIP_TSX_STATE_TERMINATED (Src_timer Timeout_timer)
            (tsx_set_status_code PJSIP_SC_TSX_TIMEOUT None
              (clear_flag TSX_HAS_PENDING_RESCHED (stop_timer Retransmit_timer w))))
      | Rx_msg_event rdata \<Rightarrow>
          (case rx_line rdata of
             Request_line _ \<Rightarrow> Some (PJSIP_ENOTRESPONSEMSG, w)
           | Status_line code _ \<Rightarrow> do {
               (_, w1) \<leftarrow> tsx_on_state_proceeding_uac env event
                           (clear_flag TSX_HAS_PENDING_RESCHED (calling_response_timers env code w));
               Some (PJ_SUCCESS, w1)
             })
      | Tx_msg_event _ \<Rightarrow> Some (PJ_EBUG, w))
   }"

text \<open>\<open>tsx_on_state_proceeding_uas\<close>: after the response is sent, by the class of its code. A 2xx
  for another method than INVITE dereferences the transport without a check, the response to the
  CSeq header likewise.\<close>

definition proceeding_uas_2xx ::
  "tsx_env \<Rightarrow> pjsip_tx_data \<Rightarrow> tsx_world \<Rightarrow> (pj_status \<times> tsx_world) option" where
  "proceeding_uas_2xx env tdata w =
     (let invite = (m_id (t_method (w_tsx w)) = PJSIP_INVITE_METHOD)
      in if invite \<and> \<not> handle_200resp (w_tsx w)
         then succeed (tsx_set_state PJSIP_TSX_STATE_TERMINATED (Src_tx_msg tdata) w)
         else do {
           let w1 = save_last_tx tdata (if invite then start_retransmission env w else w);
           timeout \<leftarrow> (if invite then Some (timeout_timer_val env)
                      else do {
                        tp \<leftarrow> transport (w_tsx w1);
                        Some (if \<not> tp_reliable tp then timeout_timer_val env else TimeVal 0 0)
                      });
           succeed (tsx_set_state PJSIP_TSX_STATE_COMPLETED (Src_tx_msg tdata) (start_timer Timeout_timer timeout w1))
         })"

definition proceeding_uas_fail ::
  "tsx_env \<Rightarrow> pjsip_tx_data \<Rightarrow> tsx_world \<Rightarrow> (pj_status \<times> tsx_world) option" where
  "proceeding_uas_fail env tdata w = do {
     let w1 = save_last_tx tdata w;
     let timeout = (if m_id (t_method (w_tsx w1)) = PJSIP_INVITE_METHOD then timeout_timer_val env
                    else if \<not> is_reliable (w_tsx w1) then timeout_timer_val env else TimeVal 0 0);
     let w2 = start_timer Timeout_timer timeout w1;
     w3 \<leftarrow> (if \<not> is_reliable (w_tsx w2)
           then do {
             cseq \<leftarrow> tx_cseq tdata;
             Some (if m_id (cseq_method cseq) = PJSIP_INVITE_METHOD then start_retransmission env w2 else w2)
           }
           else Some w2);
     succeed (tsx_set_state PJSIP_TSX_STATE_COMPLETED (Src_tx_msg tdata) w3)
   }"

definition proceeding_uas_sent ::
  "tsx_env \<Rightarrow> pjsip_tx_data \<Rightarrow> tsx_world \<Rightarrow> (pj_status \<times> tsx_world) option" where
  "proceeding_uas_sent env tdata w = do {
     tsx \<leftarrow> live w;
     if PJSIP_IS_STATUS_IN_CLASS (status_code tsx) 100
     then succeed (tsx_set_state PJSIP_TSX_STATE_PROCEEDING (Src_tx_msg tdata) (save_last_tx tdata w))
     else if PJSIP_IS_STATUS_IN_CLASS (status_code tsx) 200 then proceeding_uas_2xx env tdata w
     else if status_code tsx \<ge> 300 then proceeding_uas_fail env tdata w
     else Some (PJ_SUCCESS, w)
   }"

definition tsx_on_state_proceeding_uas ::
  "tsx_env \<Rightarrow> pjsip_event \<Rightarrow> tsx_world \<Rightarrow> (pj_status \<times> tsx_world) option" where
  "tsx_on_state_proceeding_uas env event w = do {
     tsx \<leftarrow> live w;
     (case event of
        Rx_msg_event _ \<Rightarrow>
          (case last_tx tsx of
             None \<Rightarrow> Some (PJ_EBUG, w)
           | Some tdata \<Rightarrow>
               if has_flag TSX_HAS_PENDING_TRANSPORT w then Some (PJ_SUCCESS, set_flag TSX_HAS_PENDING_SEND w)
               else tsx_send_msg env tdata w)
      | Tx_msg_event tdata \<Rightarrow>
          (case tx_line tdata of
             Request_line _ \<Rightarrow> Some (PJSIP_ENOTRESPONSEMSG, w)
           | Status_line code reason \<Rightarrow> do {
               (status, w1) \<leftarrow> tsx_send_msg env tdata
                 (drop_last_tx tdata (tsx_set_status_code code (Some (Given_text reason)) w));
               if status \<noteq> PJ_SUCCESS then Some (status, w1) else proceeding_uas_sent env tdata w1
             })
      | Timer_event Retransmit_timer \<Rightarrow> tsx_retransmit env True w
      | Timer_event Timeout_timer \<Rightarrow> do {
          w1 \<leftarrow> tsx_set_state PJSIP_TSX_STATE_TERMINATED (Src_timer Timeout_timer)
                 (tsx_set_status_code PJSIP_SC_TSX_TIMEOUT None w);
          Some (PJ_EBUG, w1)
        })
   }"

definition tsx_on_state_trying :: "tsx_env \<Rightarrow> pjsip_event \<Rightarrow> tsx_world \<Rightarrow> (pj_status \<times> tsx_world) option" where
  "tsx_on_state_trying env event w = do {
     _ \<leftarrow> live w;
     (case event of
        Tx_msg_event tdata \<Rightarrow> do {
          (status, w1) \<leftarrow> tsx_on_state_proceeding_uas env event w;
          if status = PJ_SUCCESS
          then do {
            tsx1 \<leftarrow> live w1;
            if state tsx1 = PJSIP_TSX_STATE_TRYING
            then succeed (tsx_set_state PJSIP_TSX_STATE_PROCEEDING (Src_tx_msg tdata) w1)
            else Some (PJ_SUCCESS, w1)
          }
          else Some (status, w1)
        }
      | _ \<Rightarrow> Some (PJ_SUCCESS, w))
   }"

text \<open>On an ACK the transport is dereferenced without a check.\<close>

definition completed_uas_ack :: "tsx_env \<Rightarrow> pjsip_rx_data \<Rightarrow> tsx_world \<Rightarrow> (pj_status \<times> tsx_world) option" where
  "completed_uas_ack env rdata w = do {
     let w1 = cancel_timer Timeout_timer (clear_flag TSX_HAS_PENDING_RESCHED (stop_timer Retransmit_timer w));
     tp \<leftarrow> transport (w_tsx w1);
     let timeout = (if \<not> tp_reliable tp then TimeVal 0 0 else t4_timer_val env);
     succeed (tsx_set_state PJSIP_TSX_STATE_CONFIRMED (Src_rx_msg rdata) (start_timer Timeout_timer timeout w1))
   }"

definition tsx_on_state_completed_uas ::
  "tsx_env \<Rightarrow> pjsip_event \<Rightarrow> tsx_world \<Rightarrow> (pj_status \<times> tsx_world) option" where
  "tsx_on_state_completed_uas env event w = do {
     tsx \<leftarrow> live w;
     (case event of
        Rx_msg_event rdata \<Rightarrow>
          (case rx_line rdata of
             Status_line _ _ \<Rightarrow> Some (PJSIP_ENOTREQUESTMSG, w)
           | Request_line method \<Rightarrow>
               if m_id method \<noteq> PJSIP_ACK_METHOD then tsx_retransmit env False w
               else completed_uas_ack env rdata w)
      | Timer_event Retransmit_timer \<Rightarrow> tsx_retransmit env True w
      | Timer_event Timeout_timer \<Rightarrow>
          succeed (tsx_set_state PJSIP_TSX_STATE_TERMINATED (Src_timer Timeout_timer)
            (if m_id (t_method tsx) = PJSIP_INVITE_METHOD then tsx_set_status_code PJSIP_SC_TSX_TIMEOUT None w else w))
      | Tx_msg_event tdata \<Rightarrow>
          if \<not> same_tx (last_tx tsx) tdata then Some (PJ_EINVALIDOP, w) else Some (PJ_SUCCESS, w))
   }"

definition tsx_on_state_completed_uac ::
  "tsx_env \<Rightarrow> pjsip_event \<Rightarrow> tsx_world \<Rightarrow> (pj_status \<times> tsx_world) option" where
  "tsx_on_state_completed_uac env event w = do {
     tsx \<leftarrow> live w;
     (case event of
        Timer_event k \<Rightarrow> succeed (tsx_set_state PJSIP_TSX_STATE_TERMINATED (Src_timer k) w)
      | Rx_msg_event rdata \<Rightarrow>
          if m_id (t_method tsx) = PJSIP_INVITE_METHOD
          then (case rx_line rdata of
                  Status_line code _ \<Rightarrow> if code \<ge> 200 then tsx_retransmit env False w else Some (PJ_SUCCESS, w)
                | Request_line _ \<Rightarrow> Some (PJ_SUCCESS, w))
          else Some (PJ_SUCCESS, w)
      | Tx_msg_event _ \<Rightarrow> Some (PJ_EINVALIDOP, w))
   }"

definition tsx_on_state_confirmed :: "tsx_env \<Rightarrow> pjsip_event \<Rightarrow> tsx_world \<Rightarrow> (pj_status \<times> tsx_world) option" where
  "tsx_on_state_confirmed env event w = do {
     _ \<leftarrow> live w;
     (case event of
        Rx_msg_event rdata \<Rightarrow> if \<not> is_request (rx_line rdata) then Some (PJSIP_ENOTREQUESTMSG, w) else Some (PJ_SUCCESS, w)
      | Timer_event _ \<Rightarrow> succeed (tsx_set_state PJSIP_TSX_STATE_TERMINATED (Src_timer Timeout_timer) w)
      | Tx_msg_event _ \<Rightarrow> Some (PJ_EBUG, w))
   }"

fun event_src :: "pjsip_event \<Rightarrow> pjsip_event_src" where
  "event_src (Timer_event k) = Src_timer k"
| "event_src (Tx_msg_event tdata) = Src_tx_msg tdata"
| "event_src (Rx_msg_event rdata) = Src_rx_msg rdata"

definition tsx_on_state_terminated :: "tsx_env \<Rightarrow> pjsip_event \<Rightarrow> tsx_world \<Rightarrow> (pj_status \<times> tsx_world) option" where
  "tsx_on_state_terminated env event w = succeed (tsx_set_state PJSIP_TSX_STATE_DESTROYED (event_src event) w)"

definition tsx_on_state_destroyed :: "tsx_env \<Rightarrow> pjsip_event \<Rightarrow> tsx_world \<Rightarrow> (pj_status \<times> tsx_world) option" where
  "tsx_on_state_destroyed env event w = Some (PJ_EBUG, w)"

fun call_handler :: "tsx_handler \<Rightarrow> tsx_env \<Rightarrow> pjsip_event \<Rightarrow> tsx_world \<Rightarrow> (pj_status \<times> tsx_world) option" where
  "call_handler On_null = tsx_on_state_null"
| "call_handler On_calling = tsx_on_state_calling"
| "call_handler On_trying = tsx_on_state_trying"
| "call_handler On_proceeding_uas = tsx_on_state_proceeding_uas"
| "call_handler On_proceeding_uac = tsx_on_state_proceeding_uac"
| "call_handler On_completed_uas = tsx_on_state_completed_uas"
| "call_handler On_completed_uac = tsx_on_state_completed_uac"
| "call_handler On_confirmed = tsx_on_state_confirmed"
| "call_handler On_terminated = tsx_on_state_terminated"
| "call_handler On_destroyed = tsx_on_state_destroyed"

text \<open>\<open>(*tsx->state_handler)(tsx, &event)\<close>\<close>

definition tsx_dispatch :: "tsx_env \<Rightarrow> pjsip_event \<Rightarrow> tsx_world \<Rightarrow> (pj_status \<times> tsx_world) option" where
  "tsx_dispatch env event w = do {
     tsx \<leftarrow> live w;
     h \<leftarrow> state_handler tsx;
     call_handler h env event w
   }"

subsection \<open>Entry points\<close>

text \<open>Creation. \<open>created\<close> is the outcome of allocating the pool and the mutex, \<open>dest\<close> of
  \<open>pjsip_get_request_dest\<close> (whether the destination has a reliable transport), \<open>fresh\<close> the unique
  string that completes a generated branch, and \<open>resp\<close> the outcome of
  \<open>pjsip_get_response_addr\<close>. An empty branch stands for a missing Via header too. The result is an
  error or the transaction.\<close>

definition new_transaction :: "tsx_user option \<Rightarrow> pjsip_role_e \<Rightarrow> pjsip_method \<Rightarrow> nat \<Rightarrow> string \<Rightarrow> string \<Rightarrow> pjsip_transaction" where
  "new_transaction user r method cseq key branch =
     \<lparr>t_user = user, role = r, t_method = method, t_cseq = cseq, transaction_key = key, t_branch = branch,
      tp_sel = 0, status_code = 0, t_status_text = Given_text [], state = PJSIP_TSX_STATE_NULL,
      handle_200resp = True, state_handler = Some On_null, transport = None, is_reliable = False,
      t_addr = 0, addr_len = 0, res_addr_transport = None, res_addr_len = 0, transport_flag = {},
      transport_err = PJ_SUCCESS, last_tx = None, retransmit_count = 0, retransmit_timer_id = 0,
      timeout_timer_id = 0\<rparr>"

definition mod_tsx_layer_register_tsx :: "tsx_world \<Rightarrow> pj_status \<times> tsx_world" where
  "mod_tsx_layer_register_tsx w = (PJ_SUCCESS, emit (Register_tsx (transaction_key (w_tsx w))) w)"

definition gen_branch :: "string \<Rightarrow> string" where
  "gen_branch fresh = PJSIP_RFC3261_BRANCH_ID @ [char_of (80 :: nat), char_of (106 :: nat)] @ fresh"

definition pjsip_tsx_create_uac ::
  "pj_status \<Rightarrow> string \<Rightarrow> pj_status + bool \<Rightarrow> tsx_user option \<Rightarrow> pjsip_tx_data \<Rightarrow> (pj_status + tsx_world) option" where
  "pjsip_tsx_create_uac created fresh dest user tdata =
     (case tx_line tdata of
        Status_line _ _ \<Rightarrow> Some (Inl PJSIP_ENOTREQUESTMSG)
      | Request_line method \<Rightarrow>
          if m_id method = PJSIP_ACK_METHOD then Some (Inl PJ_EINVALIDOP)
          else (case tx_cseq tdata of
                  None \<Rightarrow> Some (Inl PJSIP_EMISSINGHDR)
                | Some cseq \<Rightarrow>
                    if created \<noteq> PJ_SUCCESS then Some (Inl created)
                    else do {
                      let branch = (if tx_branch tdata = [] then gen_branch fresh else tx_branch tdata);
                      let tdata' = tdata\<lparr>tx_branch := branch\<rparr>;
                      key \<leftarrow> create_tsx_key_3261 PJSIP_ROLE_UAC method branch;
                      let w = \<lparr>w_tsx = (new_transaction user PJSIP_ROLE_UAC method (cseq_no cseq) key branch)\<lparr>last_tx := Some tdata'\<rparr>,
                               w_alive = True, w_log = [Tx_add_ref (tx_id tdata')]\<rparr>;
                      (case dest of
                         Inl err \<Rightarrow> do { _ \<leftarrow> tsx_destroy w; Some (Inl err) }
                       | Inr reliable \<Rightarrow>
                           Some (Inr (snd (mod_tsx_layer_register_tsx (upd (\<lambda>t. t\<lparr>is_reliable := reliable\<rparr>) w)))))
                    }))"

definition pjsip_tsx_create_uas ::
  "pj_status \<Rightarrow> pj_status + (pjsip_transport option \<times> nat \<times> nat) \<Rightarrow> tsx_user option \<Rightarrow> pjsip_rx_data
     \<Rightarrow> (pj_status + tsx_world) option" where
  "pjsip_tsx_create_uas created resp user rdata =
     (case rx_line rdata of
        Status_line _ _ \<Rightarrow> Some (Inl PJSIP_ENOTREQUESTMSG)
      | Request_line method \<Rightarrow>
          if m_id method = PJSIP_ACK_METHOD then Some (Inl PJ_EINVALIDOP)
          else (case (rx_cseq rdata, rx_via rdata) of
                  (Some cseq, Some via) \<Rightarrow>
                    if \<not> pjsip_method_same method (cseq_method cseq) then Some (Inl PJSIP_EINVALIDHDR)
                    else if created \<noteq> PJ_SUCCESS then Some (Inl created)
                    else do {
                      res \<leftarrow> pjsip_tsx_create_key PJSIP_ROLE_UAS method rdata;
                      (case res of
                         Inl err \<Rightarrow> Some (Inl err)
                       | Inr key \<Rightarrow> do {
                           let w = \<lparr>w_tsx = new_transaction user PJSIP_ROLE_UAS method (cseq_no cseq) key (via_branch via),
                                    w_alive = True, w_log = []\<rparr>;
                           (case resp of
                              Inl err \<Rightarrow> do { _ \<leftarrow> tsx_destroy w; Some (Inl err) }
                            | Inr (tp, a, alen) \<Rightarrow>
                                let w1 = upd (\<lambda>t. t\<lparr>res_addr_transport := tp, res_addr_len := alen\<rparr>) w;
                                    w2 = (case tp of
                                            None \<Rightarrow> w1
                                          | Some tp' \<Rightarrow> upd (\<lambda>t. t\<lparr>transport := Some tp', t_addr := a, addr_len := alen,
                                                                  is_reliable := tp_reliable tp'\<rparr>)
                                                       (emit (Transport_add_ref (tp_id tp')) w1))
                                in Some (Inr (snd (mod_tsx_layer_register_tsx w2))))
                         })
                    }
                | _ \<Rightarrow> Some (Inl PJSIP_EMISSINGHDR)))"

definition pjsip_tsx_set_transport :: "nat \<Rightarrow> tsx_world \<Rightarrow> (pj_status \<times> tsx_world) option" where
  "pjsip_tsx_set_transport sel w = do {
     tsx \<leftarrow> live w;
     Some (PJ_SUCCESS, emit (Selector_add_ref sel) (upd (\<lambda>t. t\<lparr>tp_sel := sel\<rparr>) (emit (Selector_dec_ref (tp_sel tsx)) w)))
   }"

definition pjsip_tsx_terminate :: "int \<Rightarrow> tsx_world \<Rightarrow> (pj_status \<times> tsx_world) option" where
  "pjsip_tsx_terminate code w = do {
     tsx \<leftarrow> live w;
     if \<not> code \<ge> 200 then Some (PJ_EINVAL, w)
     else if state_no (state tsx) \<ge> state_no PJSIP_TSX_STATE_TERMINATED then Some (PJ_SUCCESS, w)
     else succeed (tsx_set_state PJSIP_TSX_STATE_TERMINATED Src_user (tsx_set_status_code code None w))
   }"

definition pjsip_tsx_stop_retransmit :: "tsx_world \<Rightarrow> (pj_status \<times> tsx_world) option" where
  "pjsip_tsx_stop_retransmit w = do {
     tsx \<leftarrow> live w;
     if \<not> (role tsx = PJSIP_ROLE_UAC \<and> m_id (t_method tsx) = PJSIP_INVITE_METHOD) then Some (PJ_EINVALIDOP, w)
     else Some (PJ_SUCCESS, stop_timer Retransmit_timer w)
   }"

definition pjsip_tsx_send_msg ::
  "tsx_env \<Rightarrow> pjsip_tx_data option \<Rightarrow> tsx_world \<Rightarrow> (pj_status \<times> tsx_world) option" where
  "pjsip_tsx_send_msg env msg w = do {
     tsx \<leftarrow> live w;
     (case (case msg of None \<Rightarrow> last_tx tsx | Some tdata \<Rightarrow> Some tdata) of
        None \<Rightarrow> Some (PJ_EINVALIDOP, w)
      | Some tdata \<Rightarrow> do {
          (status, w1) \<leftarrow> tsx_dispatch env (Tx_msg_event tdata) (emit (Set_tx_transport (tx_id tdata) (tp_sel tsx)) w);
          Some (status, if status = PJ_SUCCESS then emit (Tx_dec_ref (tx_id tdata)) w1 else w1)
        })
   }"

definition pjsip_tsx_recv_msg :: "tsx_env \<Rightarrow> pjsip_rx_data \<Rightarrow> tsx_world \<Rightarrow> tsx_world option" where
  "pjsip_tsx_recv_msg env rdata w = map_option snd (tsx_dispatch env (Rx_msg_event rdata) w)"

text \<open>The timer heap calls this function for an entry that it has removed; the log says so.\<close>

definition tsx_timer_callback :: "tsx_env \<Rightarrow> tsx_timer \<Rightarrow> tsx_world \<Rightarrow> tsx_world option" where
  "tsx_timer_callback env k w = do {
     _ \<leftarrow> live w;
     map_option snd (tsx_dispatch env (Timer_event k) (upd (set_timer_id k 0) (emit (Timer_fired k) w)))
   }"

definition pjsip_tsx_retransmit_no_state ::
  "tsx_env \<Rightarrow> pjsip_tx_data option \<Rightarrow> tsx_world \<Rightarrow> (pj_status \<times> tsx_world) option" where
  "pjsip_tsx_retransmit_no_state env msg w = do {
     tsx \<leftarrow> live w;
     (case (case msg of None \<Rightarrow> last_tx tsx | Some tdata \<Rightarrow> Some tdata) of
        None \<Rightarrow> Some (PJ_EINVAL, w)
      | Some tdata \<Rightarrow> do {
          (status, w1) \<leftarrow> tsx_send_msg env tdata w;
          Some (status, if status = PJ_SUCCESS then emit (Tx_dec_ref (tx_id tdata)) w1 else w1)
        })
   }"

end
