(* ===== verification/Sip_Tsx_Spec.thy ===== *)
theory Sip_Tsx_Spec
  imports Sip_Tsx
begin

text \<open>
  Invariants of SIP transactions: the handler always fits the state and the role, the state never
  goes backwards, references to transports are balanced, the memory is released once, and a client
  transaction never faults.
\<close>

subsection \<open>Reasoning about operations that may fault\<close>

text \<open>\<open>wp f r Q\<close>: the result of \<open>r\<close> satisfies \<open>Q\<close>, or \<open>r\<close> faults and \<open>f\<close> allows that.\<close>

definition wp :: "bool \<Rightarrow> 'a option \<Rightarrow> ('a \<Rightarrow> bool) \<Rightarrow> bool" where
  "wp f r Q = (case r of None \<Rightarrow> f | Some x \<Rightarrow> Q x)"

lemma wp_simps [simp]:
  "wp f None Q = f" "wp f (Some x) Q = Q x"
  "wp f (Option.bind r k) Q = wp f r (\<lambda>x. wp f (k x) Q)"
  "wp f (map_option g r) Q = wp f r (\<lambda>x. Q (g x))"
  "wp f (succeed s) Q' = wp f s (\<lambda>w. Q' (PJ_SUCCESS, w))"
  by (simp_all add: wp_def succeed_def split: option.split bind_splits)

lemma wp_live [simp]: "wp f (live w) Q \<longleftrightarrow> (if w_alive w then Q (w_tsx w) else f)"
  by (simp add: live_def)

lemma wp_mono: "wp f r Q \<Longrightarrow> (f \<Longrightarrow> f') \<Longrightarrow> (\<And>x. Q x \<Longrightarrow> Q' x) \<Longrightarrow> wp f' r Q'"
  by (auto simp: wp_def split: option.splits)

lemma wp_weak: "wp f r Q \<Longrightarrow> (f \<longrightarrow> f') \<Longrightarrow> wp f' r Q"
  by (erule wp_mono) simp_all

lemma wp_conj: "wp f r Q \<Longrightarrow> wp f r Q' \<Longrightarrow> wp f r (\<lambda>x. Q x \<and> Q' x)"
  by (auto simp: wp_def split: option.splits)

lemma wp_total: "wp False r Q \<longleftrightarrow> (\<exists>x. r = Some x \<and> Q x)"
  by (auto simp: wp_def split: option.splits)

lemma wp_partial: "wp True r Q \<longleftrightarrow> (\<forall>x. r = Some x \<longrightarrow> Q x)"
  by (auto simp: wp_def split: option.splits)

lemma wp_if [simp]: "wp f (if b then r else s) Q = (if b then wp f r Q else wp f s Q)"
  by simp

subsection \<open>The invariant\<close>

fun handler_of :: "pjsip_role_e \<Rightarrow> pjsip_tsx_state_e \<Rightarrow> tsx_handler option" where
  "handler_of PJSIP_ROLE_UAC st = tsx_state_handler_uac st"
| "handler_of PJSIP_ROLE_UAS st = tsx_state_handler_uas st"

text \<open>References to a transport that the transaction has taken and not given back.\<close>

fun tp_delta :: "nat \<Rightarrow> tsx_action \<Rightarrow> int" where
  "tp_delta i (Transport_add_ref j) = (if i = j then 1 else 0)"
| "tp_delta i (Transport_dec_ref j) = (if i = j then -1 else 0)"
| "tp_delta i _ = 0"

definition tp_refs :: "nat \<Rightarrow> tsx_action list \<Rightarrow> int" where
  "tp_refs i log = sum_list (map (tp_delta i) log)"

definition refs_ok :: "tsx_world \<Rightarrow> bool" where
  "refs_ok w \<longleftrightarrow> (\<forall>i. tp_refs i (w_log w) = (if map_option tp_id (transport (w_tsx w)) = Some i then 1 else 0))"

definition released_once :: "tsx_world \<Rightarrow> bool" where
  "released_once w \<longleftrightarrow> count_list (w_log w) Release_pool = (if w_alive w then 0 else 1) \<and>
     (\<not> w_alive w \<longrightarrow> transport (w_tsx w) = None)"

text \<open>What waits for the transport is only set while it is pending or after it was resolved; a
  destroyed transaction whose transport is pending waits to be freed.\<close>

definition flags_ok :: "tsx_flag set \<Rightarrow> bool" where
  "flags_ok F \<longleftrightarrow> TSX_HAS_PENDING_SEND \<in> F \<or> TSX_HAS_PENDING_DESTROY \<in> F \<longrightarrow>
     TSX_HAS_PENDING_TRANSPORT \<in> F \<or> TSX_HAS_RESOLVED_SERVER \<in> F"

definition fits :: "pjsip_role_e \<Rightarrow> pjsip_method \<Rightarrow> pjsip_transaction \<Rightarrow> bool" where
  "fits r m t \<longleftrightarrow> role t = r \<and> t_method t = m \<and> state_handler t = handler_of r (state t) \<and>
     handler_of r (state t) \<noteq> None \<and> flags_ok (transport_flag t) \<and>
     (r = PJSIP_ROLE_UAC \<and> state t \<noteq> PJSIP_TSX_STATE_DESTROYED \<longrightarrow> last_tx t \<noteq> None) \<and>
     (state t = PJSIP_TSX_STATE_DESTROYED \<and> TSX_HAS_PENDING_TRANSPORT \<in> transport_flag t \<longrightarrow>
        TSX_HAS_PENDING_DESTROY \<in> transport_flag t)"

definition tsx_ok :: "pjsip_role_e \<Rightarrow> pjsip_method \<Rightarrow> nat \<Rightarrow> tsx_world \<Rightarrow> bool" where
  "tsx_ok r m n w \<longleftrightarrow> fits r m (w_tsx w) \<and> n \<le> state_no (state (w_tsx w)) \<and> refs_ok w \<and> released_once w"

lemmas world_defs = emit_def upd_def has_flag_def set_flag_def clear_flag_def start_timer_def
  cancel_timer_def tsx_set_status_code_def

lemma tp_refs_snoc [simp]: "tp_refs i (log @ [a]) = tp_refs i log + tp_delta i a"
  by (simp add: tp_refs_def)

lemma timer_id_fields [simp]:
  "role (set_timer_id k n t) = role t" "t_method (set_timer_id k n t) = t_method t"
  "state (set_timer_id k n t) = state t" "state_handler (set_timer_id k n t) = state_handler t"
  "transport_flag (set_timer_id k n t) = transport_flag t" "transport (set_timer_id k n t) = transport t"
  "last_tx (set_timer_id k n t) = last_tx t" "is_reliable (set_timer_id k n t) = is_reliable t"
  "t_user (set_timer_id k n t) = t_user t" "status_code (set_timer_id k n t) = status_code t"
  "transport_err (set_timer_id k n t) = transport_err t" "transaction_key (set_timer_id k n t) = transaction_key t"
  "tp_sel (set_timer_id k n t) = tp_sel t" "retransmit_count (set_timer_id k n t) = retransmit_count t"
  by (cases k; simp)+

subsection \<open>Frame conditions of the helper functions\<close>

lemma emit_frame [simp]:
  "w_alive (emit a w) = w_alive w" "role (w_tsx (emit a w)) = role (w_tsx w)"
  "t_method (w_tsx (emit a w)) = t_method (w_tsx w)" "state (w_tsx (emit a w)) = state (w_tsx w)"
  "state_handler (w_tsx (emit a w)) = state_handler (w_tsx w)" "transport_flag (w_tsx (emit a w)) = transport_flag (w_tsx w)"
  "transport (w_tsx (emit a w)) = transport (w_tsx w)" "last_tx (w_tsx (emit a w)) = last_tx (w_tsx w)"
  "t_user (w_tsx (emit a w)) = t_user (w_tsx w)" "transport_err (w_tsx (emit a w)) = transport_err (w_tsx w)"
  "is_reliable (w_tsx (emit a w)) = is_reliable (w_tsx w)"
  by (simp_all add: emit_def)

lemma start_timer_frame [simp]:
  "w_alive (start_timer k d w) = w_alive w" "role (w_tsx (start_timer k d w)) = role (w_tsx w)"
  "t_method (w_tsx (start_timer k d w)) = t_method (w_tsx w)" "state (w_tsx (start_timer k d w)) = state (w_tsx w)"
  "state_handler (w_tsx (start_timer k d w)) = state_handler (w_tsx w)" "transport_flag (w_tsx (start_timer k d w)) = transport_flag (w_tsx w)"
  "transport (w_tsx (start_timer k d w)) = transport (w_tsx w)" "last_tx (w_tsx (start_timer k d w)) = last_tx (w_tsx w)"
  "t_user (w_tsx (start_timer k d w)) = t_user (w_tsx w)" "transport_err (w_tsx (start_timer k d w)) = transport_err (w_tsx w)"
  "is_reliable (w_tsx (start_timer k d w)) = is_reliable (w_tsx w)"
  by (simp_all add: start_timer_def emit_def upd_def)

lemma cancel_timer_frame [simp]:
  "w_alive (cancel_timer k w) = w_alive w" "role (w_tsx (cancel_timer k w)) = role (w_tsx w)"
  "t_method (w_tsx (cancel_timer k w)) = t_method (w_tsx w)" "state (w_tsx (cancel_timer k w)) = state (w_tsx w)"
  "state_handler (w_tsx (cancel_timer k w)) = state_handler (w_tsx w)" "transport_flag (w_tsx (cancel_timer k w)) = transport_flag (w_tsx w)"
  "transport (w_tsx (cancel_timer k w)) = transport (w_tsx w)" "last_tx (w_tsx (cancel_timer k w)) = last_tx (w_tsx w)"
  "t_user (w_tsx (cancel_timer k w)) = t_user (w_tsx w)" "transport_err (w_tsx (cancel_timer k w)) = transport_err (w_tsx w)"
  "is_reliable (w_tsx (cancel_timer k w)) = is_reliable (w_tsx w)"
  by (simp_all add: cancel_timer_def emit_def)

lemma stop_timer_frame [simp]:
  "w_alive (stop_timer k w) = w_alive w" "role (w_tsx (stop_timer k w)) = role (w_tsx w)"
  "t_method (w_tsx (stop_timer k w)) = t_method (w_tsx w)" "state (w_tsx (stop_timer k w)) = state (w_tsx w)"
  "state_handler (w_tsx (stop_timer k w)) = state_handler (w_tsx w)" "transport_flag (w_tsx (stop_timer k w)) = transport_flag (w_tsx w)"
  "transport (w_tsx (stop_timer k w)) = transport (w_tsx w)" "last_tx (w_tsx (stop_timer k w)) = last_tx (w_tsx w)"
  "t_user (w_tsx (stop_timer k w)) = t_user (w_tsx w)" "transport_err (w_tsx (stop_timer k w)) = transport_err (w_tsx w)"
  "is_reliable (w_tsx (stop_timer k w)) = is_reliable (w_tsx w)"
  by (simp_all add: stop_timer_def cancel_timer_def emit_def upd_def)

lemma status_code_frame [simp]:
  "w_alive (tsx_set_status_code c rs w) = w_alive w" "role (w_tsx (tsx_set_status_code c rs w)) = role (w_tsx w)"
  "t_method (w_tsx (tsx_set_status_code c rs w)) = t_method (w_tsx w)" "state (w_tsx (tsx_set_status_code c rs w)) = state (w_tsx w)"
  "state_handler (w_tsx (tsx_set_status_code c rs w)) = state_handler (w_tsx w)" "transport_flag (w_tsx (tsx_set_status_code c rs w)) = transport_flag (w_tsx w)"
  "transport (w_tsx (tsx_set_status_code c rs w)) = transport (w_tsx w)" "last_tx (w_tsx (tsx_set_status_code c rs w)) = last_tx (w_tsx w)"
  "t_user (w_tsx (tsx_set_status_code c rs w)) = t_user (w_tsx w)" "transport_err (w_tsx (tsx_set_status_code c rs w)) = transport_err (w_tsx w)"
  "is_reliable (w_tsx (tsx_set_status_code c rs w)) = is_reliable (w_tsx w)"
  by (simp_all add: tsx_set_status_code_def upd_def)

lemma release_transport_frame [simp]:
  "w_alive (release_transport w) = w_alive w" "role (w_tsx (release_transport w)) = role (w_tsx w)"
  "t_method (w_tsx (release_transport w)) = t_method (w_tsx w)" "state (w_tsx (release_transport w)) = state (w_tsx w)"
  "state_handler (w_tsx (release_transport w)) = state_handler (w_tsx w)" "transport_flag (w_tsx (release_transport w)) = transport_flag (w_tsx w)"
  "last_tx (w_tsx (release_transport w)) = last_tx (w_tsx w)" "t_user (w_tsx (release_transport w)) = t_user (w_tsx w)"
  "transport_err (w_tsx (release_transport w)) = transport_err (w_tsx w)" "is_reliable (w_tsx (release_transport w)) = is_reliable (w_tsx w)"
  by (simp_all add: release_transport_def upd_def emit_def split: option.split)

lemma save_last_tx_frame [simp]:
  "w_alive (save_last_tx d w) = w_alive w" "role (w_tsx (save_last_tx d w)) = role (w_tsx w)"
  "t_method (w_tsx (save_last_tx d w)) = t_method (w_tsx w)" "state (w_tsx (save_last_tx d w)) = state (w_tsx w)"
  "state_handler (w_tsx (save_last_tx d w)) = state_handler (w_tsx w)" "transport_flag (w_tsx (save_last_tx d w)) = transport_flag (w_tsx w)"
  "transport (w_tsx (save_last_tx d w)) = transport (w_tsx w)" "t_user (w_tsx (save_last_tx d w)) = t_user (w_tsx w)"
  "transport_err (w_tsx (save_last_tx d w)) = transport_err (w_tsx w)" "is_reliable (w_tsx (save_last_tx d w)) = is_reliable (w_tsx w)"
  by (simp_all add: save_last_tx_def upd_def emit_def)

lemma drop_last_tx_frame [simp]:
  "w_alive (drop_last_tx d w) = w_alive w" "role (w_tsx (drop_last_tx d w)) = role (w_tsx w)"
  "t_method (w_tsx (drop_last_tx d w)) = t_method (w_tsx w)" "state (w_tsx (drop_last_tx d w)) = state (w_tsx w)"
  "state_handler (w_tsx (drop_last_tx d w)) = state_handler (w_tsx w)" "transport_flag (w_tsx (drop_last_tx d w)) = transport_flag (w_tsx w)"
  "transport (w_tsx (drop_last_tx d w)) = transport (w_tsx w)" "t_user (w_tsx (drop_last_tx d w)) = t_user (w_tsx w)"
  "transport_err (w_tsx (drop_last_tx d w)) = transport_err (w_tsx w)" "is_reliable (w_tsx (drop_last_tx d w)) = is_reliable (w_tsx w)"
  by (simp_all add: drop_last_tx_def upd_def emit_def split: option.split)

lemma set_flag_frame [simp]:
  "w_alive (set_flag F w) = w_alive w" "role (w_tsx (set_flag F w)) = role (w_tsx w)"
  "t_method (w_tsx (set_flag F w)) = t_method (w_tsx w)" "state (w_tsx (set_flag F w)) = state (w_tsx w)"
  "state_handler (w_tsx (set_flag F w)) = state_handler (w_tsx w)" "transport (w_tsx (set_flag F w)) = transport (w_tsx w)"
  "last_tx (w_tsx (set_flag F w)) = last_tx (w_tsx w)" "t_user (w_tsx (set_flag F w)) = t_user (w_tsx w)"
  "transport_err (w_tsx (set_flag F w)) = transport_err (w_tsx w)" "is_reliable (w_tsx (set_flag F w)) = is_reliable (w_tsx w)"
  by (simp_all add: set_flag_def upd_def)

lemma clear_flag_frame [simp]:
  "w_alive (clear_flag F w) = w_alive w" "role (w_tsx (clear_flag F w)) = role (w_tsx w)"
  "t_method (w_tsx (clear_flag F w)) = t_method (w_tsx w)" "state (w_tsx (clear_flag F w)) = state (w_tsx w)"
  "state_handler (w_tsx (clear_flag F w)) = state_handler (w_tsx w)" "transport (w_tsx (clear_flag F w)) = transport (w_tsx w)"
  "last_tx (w_tsx (clear_flag F w)) = last_tx (w_tsx w)" "t_user (w_tsx (clear_flag F w)) = t_user (w_tsx w)"
  "transport_err (w_tsx (clear_flag F w)) = transport_err (w_tsx w)" "is_reliable (w_tsx (clear_flag F w)) = is_reliable (w_tsx w)"
  by (simp_all add: clear_flag_def upd_def)

lemma notify_rx_frame [simp]:
  "w_alive (notify_rx src w) = w_alive w" "role (w_tsx (notify_rx src w)) = role (w_tsx w)"
  "t_method (w_tsx (notify_rx src w)) = t_method (w_tsx w)" "state (w_tsx (notify_rx src w)) = state (w_tsx w)"
  "state_handler (w_tsx (notify_rx src w)) = state_handler (w_tsx w)" "transport_flag (w_tsx (notify_rx src w)) = transport_flag (w_tsx w)"
  "transport (w_tsx (notify_rx src w)) = transport (w_tsx w)" "last_tx (w_tsx (notify_rx src w)) = last_tx (w_tsx w)"
  "t_user (w_tsx (notify_rx src w)) = t_user (w_tsx w)" "transport_err (w_tsx (notify_rx src w)) = transport_err (w_tsx w)"
  "is_reliable (w_tsx (notify_rx src w)) = is_reliable (w_tsx w)"
  by (simp_all add: notify_rx_def emit_def split: option.split pjsip_event_src.split)

lemma notify_state_frame [simp]:
  "w_alive (notify_state p st src w) = w_alive w" "role (w_tsx (notify_state p st src w)) = role (w_tsx w)"
  "t_method (w_tsx (notify_state p st src w)) = t_method (w_tsx w)" "state (w_tsx (notify_state p st src w)) = state (w_tsx w)"
  "state_handler (w_tsx (notify_state p st src w)) = state_handler (w_tsx w)" "transport_flag (w_tsx (notify_state p st src w)) = transport_flag (w_tsx w)"
  "transport (w_tsx (notify_state p st src w)) = transport (w_tsx w)" "last_tx (w_tsx (notify_state p st src w)) = last_tx (w_tsx w)"
  "t_user (w_tsx (notify_state p st src w)) = t_user (w_tsx w)" "transport_err (w_tsx (notify_state p st src w)) = transport_err (w_tsx w)"
  "is_reliable (w_tsx (notify_state p st src w)) = is_reliable (w_tsx w)"
  by (simp_all add: notify_state_def emit_def split: option.split)

lemma upd_effects [simp]:
  "w_tsx (upd f w) = f (w_tsx w)" "w_alive (upd f w) = w_alive w" "w_log (upd f w) = w_log w"
  "w_log (emit a w) = w_log w @ [a]"
  by (simp_all add: upd_def emit_def)

lemma flag_effects [simp]:
  "transport_flag (w_tsx (set_flag F w)) = insert F (transport_flag (w_tsx w))"
  "transport_flag (w_tsx (clear_flag F w)) = transport_flag (w_tsx w) - {F}"
  by (simp_all add: set_flag_def clear_flag_def upd_def)

lemma release_transport_none [simp]: "transport (w_tsx (release_transport w)) = None"
  by (simp add: release_transport_def upd_def split: option.split)

lemma save_last_tx_some [simp]: "last_tx (w_tsx (save_last_tx d w)) \<noteq> None"
  by (auto simp: save_last_tx_def upd_def emit_def same_tx_def)

text \<open>Log entries that count neither as a reference nor as a release.\<close>

definition neutral :: "tsx_action \<Rightarrow> bool" where
  "neutral a \<longleftrightarrow> (\<forall>i. tp_delta i a = 0) \<and> a \<noteq> Release_pool"

lemma neutral_simps [simp]:
  "neutral (Schedule_timer k d)" "neutral (Cancel_timer k)" "neutral (On_rx_response rx)" "neutral (On_tsx_state p q src)"
  "neutral (Tx_add_ref i)" "neutral (Tx_dec_ref i)" "neutral (Selector_add_ref i)" "neutral (Selector_dec_ref i)"
  "neutral (Set_tx_transport i j)" "neutral (Transport_send i d')" "neutral (Send_request d')" "neutral (Send_response d')"
  "neutral (Register_tsx key)" "neutral (Unregister_tsx key)" "neutral (Timer_fired k)"
  by (simp_all add: neutral_def)

definition counted :: "tsx_world \<Rightarrow> bool" where
  "counted w \<longleftrightarrow> refs_ok w \<and> released_once w"

lemma tsx_ok_alt: "tsx_ok r m n w \<longleftrightarrow> fits r m (w_tsx w) \<and> n \<le> state_no (state (w_tsx w)) \<and> counted w"
  by (simp add: tsx_ok_def counted_def)

lemma counted_emit [simp]: "neutral a \<Longrightarrow> counted (emit a w) = counted w"
  by (simp add: counted_def refs_ok_def released_once_def emit_def neutral_def)

lemma counted_upd [simp]: "transport (f (w_tsx w)) = transport (w_tsx w) \<Longrightarrow> counted (upd f w) = counted w"
  by (simp add: counted_def refs_ok_def released_once_def upd_def)

lemma counted_helpers [simp]:
  "counted (start_timer k d w) = counted w" "counted (cancel_timer k w) = counted w" "counted (stop_timer k w) = counted w"
  "counted (tsx_set_status_code c rs w) = counted w" "counted (set_flag F w) = counted w" "counted (clear_flag F w) = counted w"
  "counted (save_last_tx td w) = counted w" "counted (drop_last_tx td w) = counted w"
  "counted (notify_rx src w) = counted w" "counted (notify_state p st src w) = counted w"
  by (simp_all add: start_timer_def cancel_timer_def stop_timer_def tsx_set_status_code_def set_flag_def clear_flag_def
      save_last_tx_def drop_last_tx_def notify_rx_def notify_state_def split: option.split pjsip_event_src.split)

lemma counted_release_transport [simp]: "counted w \<Longrightarrow> counted (release_transport w)"
  by (auto simp: counted_def refs_ok_def released_once_def release_transport_def emit_def upd_def split: option.splits)

subsection \<open>Changing the state\<close>

text \<open>What an operation needs of the transaction apart from its state.\<close>

definition core :: "pjsip_role_e \<Rightarrow> pjsip_method \<Rightarrow> tsx_world \<Rightarrow> bool" where
  "core r m w \<longleftrightarrow> w_alive w \<and> role (w_tsx w) = r \<and> t_method (w_tsx w) = m \<and>
     flags_ok (transport_flag (w_tsx w)) \<and> counted w"

definition has_msg :: "pjsip_role_e \<Rightarrow> tsx_world \<Rightarrow> bool" where
  "has_msg r w \<longleftrightarrow> r = PJSIP_ROLE_UAC \<longrightarrow> last_tx (w_tsx w) \<noteq> None"

lemma flags_ok_simps:
  "flags_ok F \<Longrightarrow> flags_ok (F - {TSX_HAS_PENDING_SEND})" "flags_ok F \<Longrightarrow> flags_ok (F - {TSX_HAS_PENDING_RESCHED})"
  "flags_ok (insert TSX_HAS_RESOLVED_SERVER F)" "flags_ok (insert TSX_HAS_PENDING_TRANSPORT F)"
  "TSX_HAS_PENDING_TRANSPORT \<in> F \<Longrightarrow> flags_ok (insert f F)"
  "flags_ok (insert TSX_HAS_PENDING_RESCHED F) = flags_ok F"
  by (auto simp: flags_ok_def)

lemma core_frame [simp]:
  "core r m (emit a w) = core r m w" if "neutral a" for a
  using that by (simp add: core_def)

lemma core_helpers [simp]:
  "core r m (start_timer k d w) = core r m w" "core r m (cancel_timer k w) = core r m w"
  "core r m (stop_timer k w) = core r m w" "core r m (tsx_set_status_code c rs w) = core r m w"
  "core r m (save_last_tx td w) = core r m w" "core r m (drop_last_tx td w) = core r m w"
  "core r m (notify_rx src w) = core r m w" "core r m (notify_state p st src w) = core r m w"
  by (simp_all add: core_def)

lemma core_release [simp]: "core r m w \<Longrightarrow> core r m (release_transport w)"
  by (simp add: core_def)

lemma core_flags:
  "core r m w \<Longrightarrow> core r m (clear_flag TSX_HAS_PENDING_SEND w)" "core r m w \<Longrightarrow> core r m (clear_flag TSX_HAS_PENDING_RESCHED w)"
  "core r m w \<Longrightarrow> has_flag TSX_HAS_PENDING_TRANSPORT w \<Longrightarrow> core r m (set_flag F w)"
  "core r m w \<Longrightarrow> core r m (set_flag TSX_HAS_PENDING_TRANSPORT w)"
  "core r m w \<Longrightarrow> core r m (set_flag TSX_HAS_RESOLVED_SERVER (clear_flag F w))"
  "core r m w \<Longrightarrow> core r m (set_flag TSX_HAS_PENDING_RESCHED w)"
  by (auto simp: core_def flags_ok_simps has_flag_def)

lemma core_upd [simp]:
  "role (f (w_tsx w)) = role (w_tsx w) \<Longrightarrow> t_method (f (w_tsx w)) = t_method (w_tsx w) \<Longrightarrow>
    transport_flag (f (w_tsx w)) = transport_flag (w_tsx w) \<Longrightarrow> transport (f (w_tsx w)) = transport (w_tsx w) \<Longrightarrow>
    core r m (upd f w) = core r m w"
  by (simp add: core_def)

lemma has_msg_helpers [simp]:
  "has_msg r (emit a w) = has_msg r w" "has_msg r (start_timer k d w) = has_msg r w" "has_msg r (cancel_timer k w) = has_msg r w"
  "has_msg r (stop_timer k w) = has_msg r w" "has_msg r (tsx_set_status_code c rs w) = has_msg r w"
  "has_msg r (set_flag F w) = has_msg r w" "has_msg r (clear_flag F w) = has_msg r w"
  "has_msg r (release_transport w) = has_msg r w" "has_msg r (save_last_tx td w)"
  by (simp_all add: has_msg_def)

lemma tsx_okI:
  "core r m w \<Longrightarrow> has_msg r w \<and> state (w_tsx w) \<noteq> PJSIP_TSX_STATE_DESTROYED \<or> state (w_tsx w) = PJSIP_TSX_STATE_DESTROYED \<and>
     (has_flag TSX_HAS_PENDING_TRANSPORT w \<longrightarrow> has_flag TSX_HAS_PENDING_DESTROY w) \<Longrightarrow> state_handler (w_tsx w) = handler_of r (state (w_tsx w)) \<Longrightarrow>
   handler_of r (state (w_tsx w)) \<noteq> None \<Longrightarrow> n \<le> state_no (state (w_tsx w)) \<Longrightarrow> tsx_ok r m n w"
  by (auto simp: tsx_ok_alt fits_def core_def has_msg_def has_flag_def)

lemma tsx_okD:
  assumes "tsx_ok r m n w"
  shows "w_alive w \<Longrightarrow> core r m w" "state (w_tsx w) \<noteq> PJSIP_TSX_STATE_DESTROYED \<Longrightarrow> has_msg r w"
    "state_handler (w_tsx w) = handler_of r (state (w_tsx w))" "handler_of r (state (w_tsx w)) \<noteq> None"
    "n \<le> state_no (state (w_tsx w))" "role (w_tsx w) = r" "t_method (w_tsx w) = m"
  using assms by (auto simp: tsx_ok_alt fits_def core_def has_msg_def)

lemma state_no_7: "7 \<le> state_no s \<longleftrightarrow> s = PJSIP_TSX_STATE_DESTROYED"
  by (cases s) simp_all

lemma destroy_ok:
  assumes "core r m w" "state (w_tsx w) = PJSIP_TSX_STATE_DESTROYED" "state_handler (w_tsx w) = Some On_destroyed"
  shows "wp False (tsx_destroy w) (\<lambda>x. tsx_ok r m 7 (snd x))"
proof -
  define w2 where "w2 = emit (Selector_dec_ref (tp_sel (w_tsx (release_transport w)))) (release_transport w)"
  define w3 where "w3 = (case last_tx (w_tsx w2) of None \<Rightarrow> w2
      | Some d \<Rightarrow> upd (\<lambda>t. t\<lparr>last_tx := None\<rparr>) (emit (Tx_dec_ref (tx_id d)) w2))"
  define w5 where "w5 = clear_flag TSX_HAS_PENDING_SEND (clear_flag TSX_HAS_PENDING_RESCHED
      (stop_timer Retransmit_timer (stop_timer Timeout_timer w3)))"
  have 2: "core r m w2" "state (w_tsx w2) = PJSIP_TSX_STATE_DESTROYED" "state_handler (w_tsx w2) = Some On_destroyed"
    "transport (w_tsx w2) = None"
    using assms by (simp_all add: w2_def)
  have 3: "core r m w3" "state (w_tsx w3) = PJSIP_TSX_STATE_DESTROYED" "state_handler (w_tsx w3) = Some On_destroyed"
    "transport (w_tsx w3) = None"
    using 2 by (auto simp: w3_def split: option.split)
  then have 5: "core r m w5" "state (w_tsx w5) = PJSIP_TSX_STATE_DESTROYED" "state_handler (w_tsx w5) = Some On_destroyed"
    "transport (w_tsx w5) = None"
    by (simp_all add: w5_def core_flags)
  have H: "handler_of r PJSIP_TSX_STATE_DESTROYED = Some On_destroyed" by (cases r) simp_all
  have busy: "tsx_ok r m 7 (upd (\<lambda>t. t\<lparr>t_user := None\<rparr>) (set_flag TSX_HAS_PENDING_DESTROY w5))"
    if "has_flag TSX_HAS_PENDING_TRANSPORT w5"
    using 5 that H core_flags(3) [OF 5(1) that, of TSX_HAS_PENDING_DESTROY]
    by (intro tsx_okI) (simp_all add: has_flag_def)
  have free: "tsx_ok r m 7 (emit Release_pool (w5\<lparr>w_alive := False\<rparr>))" if "\<not> has_flag TSX_HAS_PENDING_TRANSPORT w5"
    using 5 H that by (simp add: tsx_ok_def fits_def core_def counted_def refs_ok_def released_once_def emit_def has_flag_def)
  have alive: "w_alive w" using assms(1) by (simp add: core_def)
  then show ?thesis
    using busy free unfolding tsx_destroy_def Let_def w2_def [symmetric] w3_def [symmetric] w5_def [symmetric] by simp
qed

lemma enter_state_effects [simp]:
  "w_alive (enter_state st src w) = w_alive w" "state (w_tsx (enter_state st src w)) = st"
  "state_handler (w_tsx (enter_state st src w)) = handler_of (role (w_tsx w)) st"
  "role (w_tsx (enter_state st src w)) = role (w_tsx w)" "t_method (w_tsx (enter_state st src w)) = t_method (w_tsx w)"
  "last_tx (w_tsx (enter_state st src w)) = last_tx (w_tsx w)" "transport_err (w_tsx (enter_state st src w)) = transport_err (w_tsx w)"
  "transport (w_tsx (enter_state st src w)) = transport (w_tsx w)" "is_reliable (w_tsx (enter_state st src w)) = is_reliable (w_tsx w)"
  "transport_flag (w_tsx (enter_state st src w)) = transport_flag (w_tsx w)"
  "core r m (enter_state st src w) = core r m w" "has_msg r (enter_state st src w) = has_msg r w"
  by (cases "role (w_tsx w)"; simp add: enter_state_def has_msg_def)+

lemma set_state_ok:
  assumes c: "core r m w" and msg: "has_msg r w \<or> st = PJSIP_TSX_STATE_DESTROYED" and h: "handler_of r st \<noteq> None"
  shows "wp False (tsx_set_state st src w) (\<lambda>w'. tsx_ok r m (state_no st) w' \<and> state (w_tsx w') = st \<and>
           (st \<noteq> PJSIP_TSX_STATE_DESTROYED \<longrightarrow> w_alive w' \<and> last_tx (w_tsx w') = last_tx (w_tsx w) \<and>
              transport_err (w_tsx w') = transport_err (w_tsx w) \<and> transport (w_tsx w') = transport (w_tsx w)) \<and>
           (state_no st < 6 \<longrightarrow> transport_flag (w_tsx w') = transport_flag (w_tsx w)))"
proof -
  define w2 where "w2 = enter_state st src w"
  have alive: "w_alive w" and r: "role (w_tsx w) = r" using c by (simp_all add: core_def)
  have w2: "core r m w2" "has_msg r w2 \<or> st = PJSIP_TSX_STATE_DESTROYED" "state (w_tsx w2) = st" "state_handler (w_tsx w2) = handler_of r st"
    using c msg r by (simp_all add: w2_def)
  have pend: "tsx_ok r m (state_no st) (set_flag TSX_HAS_PENDING_DESTROY w2)" if "has_flag TSX_HAS_PENDING_TRANSPORT w2"
    using w2 h by (intro tsx_okI core_flags(3) [OF w2(1) that]) (auto simp: has_flag_def)
  have plain: "tsx_ok r m (state_no st) w2" if "st \<noteq> PJSIP_TSX_STATE_DESTROYED"
    using w2 h that by (intro tsx_okI) simp_all
  have timed: "tsx_ok r m (state_no st) (start_timer Timeout_timer (TimeVal 0 0) (stop_timer Timeout_timer w2))"
    if "st \<noteq> PJSIP_TSX_STATE_DESTROYED"
    using w2 h that by (intro tsx_okI) simp_all
  have dead: "wp False (tsx_destroy (emit (Unregister_tsx (transaction_key (w_tsx w2))) w2))
      (\<lambda>x. tsx_ok r m 7 (snd x) \<and> state (w_tsx (snd x)) = PJSIP_TSX_STATE_DESTROYED)" if st: "st = PJSIP_TSX_STATE_DESTROYED"
  proof -
    have "handler_of r PJSIP_TSX_STATE_DESTROYED = Some On_destroyed" by (cases r) simp_all
    then have "wp False (tsx_destroy (emit (Unregister_tsx (transaction_key (w_tsx w2))) w2)) (\<lambda>x. tsx_ok r m 7 (snd x))"
      using w2 st by (intro destroy_ok) simp_all
    then show ?thesis by (rule wp_mono) (auto simp: state_no_7 dest: tsx_okD(5))
  qed
  consider "st = PJSIP_TSX_STATE_TERMINATED" | "st = PJSIP_TSX_STATE_DESTROYED"
    | "st \<noteq> PJSIP_TSX_STATE_TERMINATED" "st \<noteq> PJSIP_TSX_STATE_DESTROYED" by blast
  then show ?thesis
  proof cases
    case 1
    then show ?thesis using pend timed alive unfolding tsx_set_state_def w2_def by (simp add: Let_def)
  next
    case 2
    show ?thesis using dead [OF 2] alive unfolding tsx_set_state_def w2_def by (simp add: 2 Let_def)
  next
    case 3
    then show ?thesis using plain alive unfolding tsx_set_state_def w2_def by (simp add: Let_def)
  qed
qed

subsection \<open>Sending\<close>

text \<open>Outcomes that occur: an error is an error, a message that was sent has a transport, and only
  the last attempt of resolving a destination is final.\<close>

definition attempt_ok :: "send_state \<Rightarrow> bool" where
  "attempt_ok ss \<longleftrightarrow> ss_err ss \<noteq> Some PJ_SUCCESS \<and> (ss_err ss = None \<longrightarrow> ss_transport ss \<noteq> None)"

fun attempts_ok :: "send_state list \<Rightarrow> bool" where
  "attempts_ok [] = True"
| "attempts_ok [ss] = attempt_ok ss"
| "attempts_ok (ss # sss) = (attempt_ok ss \<and> ss_err ss \<noteq> None \<and> ss_cont ss \<and> attempts_ok sss)"

definition env_ok :: "tsx_env \<Rightarrow> bool" where
  "env_ok env \<longleftrightarrow> (\<forall>log. attempts_ok (fst (env_resolve env log)) \<and> env_create_ack env log \<noteq> Inl PJ_SUCCESS)"

text \<open>The effect of sending: the state is kept, or the transaction has terminated with a failure.\<close>

definition sent_ok :: "pjsip_role_e \<Rightarrow> pjsip_method \<Rightarrow> tsx_world \<Rightarrow> pj_status \<Rightarrow> tsx_world \<Rightarrow> bool" where
  "sent_ok r m w st w' \<longleftrightarrow> core r m w' \<and> last_tx (w_tsx w') = last_tx (w_tsx w) \<and>
     state_handler (w_tsx w') = handler_of r (state (w_tsx w')) \<and>
     (state (w_tsx w') = state (w_tsx w) \<or> st \<noteq> PJ_SUCCESS \<and> state (w_tsx w') = PJSIP_TSX_STATE_TERMINATED)"

lemma not_terminated_handler [simp]: "handler_of r PJSIP_TSX_STATE_TERMINATED = Some On_terminated"
  by (cases r) simp_all

lemma send_failed_ok:
  assumes "core r m w" "has_msg r w"
  shows "wp False (send_failed status w) (\<lambda>x. core r m (snd x) \<and> last_tx (w_tsx (snd x)) = last_tx (w_tsx w) \<and>
           fst x \<noteq> PJ_SUCCESS \<and> state (w_tsx (snd x)) = PJSIP_TSX_STATE_TERMINATED \<and>
           state_handler (w_tsx (snd x)) = Some On_terminated)"
  unfolding send_failed_def wp_simps Let_def
  by (rule wp_mono [OF set_state_ok]) (use assms in \<open>auto dest: tsx_okD\<close>)

lemma send_on_transport_ok:
  assumes "core r m w" "send_on_transport env tdata w = (st, failed, w')"
  shows "core r m w'" "last_tx (w_tsx w') = last_tx (w_tsx w)" "state (w_tsx w') = state (w_tsx w)"
    "state_handler (w_tsx w') = state_handler (w_tsx w)" "transport_flag (w_tsx w') = transport_flag (w_tsx w)"
    "transport_err (w_tsx w') = transport_err (w_tsx w)" "failed \<or> st = PJ_SUCCESS"
  using assms by (auto simp: send_on_transport_def Let_def split: option.splits if_splits)

lemma resched_ok: "w_alive w \<Longrightarrow> wp False (tsx_resched_retransmission env w)
    (\<lambda>w'. \<exists>d. w' = start_timer Retransmit_timer d w)"
  by (auto simp: tsx_resched_retransmission_def Let_def)

lemma counted_switch:
  assumes "counted w" "w_alive w"
  shows "counted (upd (\<lambda>t. t\<lparr>transport := Some tp, addr_len := l, t_addr := a, is_reliable := b\<rparr>)
           (emit (Transport_add_ref (tp_id tp)) (release_transport w)))"
  using counted_release_transport [OF assms(1)] assms(2)
  by (auto simp: counted_def refs_ok_def released_once_def)

lemma update_transport_ok:
  assumes "core r m w" "ss_err ss = None" "attempt_ok ss"
  shows "wp False (update_transport ss w) (\<lambda>w'. core r m w' \<and> last_tx (w_tsx w') = last_tx (w_tsx w) \<and>
           state (w_tsx w') = state (w_tsx w) \<and> state_handler (w_tsx w') = state_handler (w_tsx w) \<and>
           transport_flag (w_tsx w') = transport_flag (w_tsx w))"
proof -
  obtain tp where tp: "ss_transport ss = Some tp" using assms by (auto simp: attempt_ok_def)
  have "core r m (upd (\<lambda>t. t\<lparr>transport := Some tp, addr_len := l, t_addr := a, is_reliable := b\<rparr>)
           (emit (Transport_add_ref (tp_id tp)) (release_transport w)))" for l a b
    using assms(1) counted_switch by (simp add: core_def)
  then show ?thesis using assms(1) tp by (simp add: update_transport_def)
qed

lemma send_resolved_ok:
  assumes "core r m w" "has_msg r w" "state_handler (w_tsx w) = handler_of r (state (w_tsx w))"
  shows "wp False (tsx_send_resolved env tdata w) (\<lambda>x. sent_ok r m w (fst x) (snd x))"
proof -
  obtain st failed w1 where w1: "send_on_transport env tdata w = (st, failed, w1)" by (metis prod_cases3)
  note s = send_on_transport_ok [OF assms(1) w1]
  have "wp False (send_failed st w1) (\<lambda>x. sent_ok r m w (fst x) (snd x))"
    by (rule wp_mono [OF send_failed_ok [of r m w1]]) (use s assms(2) in \<open>auto simp: sent_ok_def has_msg_def\<close>)
  moreover have "sent_ok r m w PJ_SUCCESS w1" using s assms(3) by (simp add: sent_ok_def)
  moreover have "sent_ok r m w PJ_SUCCESS (set_flag TSX_HAS_PENDING_SEND w)" if "has_flag TSX_HAS_PENDING_TRANSPORT w"
    using core_flags(3) [OF assms(1) that] assms(3) by (simp add: sent_ok_def)
  ultimately show ?thesis using assms(1) by (simp add: tsx_send_resolved_def w1 core_def)
qed

lemma send_msg_error_ok:
  assumes "core r m w" "has_msg r w" "state_handler (w_tsx w) = handler_of r (state (w_tsx w))"
    and "state (w_tsx w) \<noteq> PJSIP_TSX_STATE_DESTROYED"
  shows "wp False (send_msg_error ss err w) (\<lambda>w'. core r m w' \<and> last_tx (w_tsx w') = last_tx (w_tsx w) \<and>
           state_handler (w_tsx w') = handler_of r (state (w_tsx w')) \<and>
           (state (w_tsx w') = state (w_tsx w) \<or> state (w_tsx w') = PJSIP_TSX_STATE_TERMINATED \<and> transport_err (w_tsx w') = err) \<and>
           (ss_cont ss \<longrightarrow> state (w_tsx w') = state (w_tsx w) \<and> transport_flag (w_tsx w') = transport_flag (w_tsx w)))"
proof -
  define w1 where "w1 = (if map_option tp_id (ss_transport ss) = map_option tp_id (transport (w_tsx w)) then release_transport w else w)"
  define w4 where "w4 = tsx_set_status_code PJSIP_SC_TSX_TRANSPORT_ERROR (Some (Error_text err))
      (set_flag TSX_HAS_RESOLVED_SERVER (clear_flag TSX_HAS_PENDING_TRANSPORT (upd (\<lambda>t. t\<lparr>transport_err := err\<rparr>) w1)))"
  have w1: "core r m w1" "last_tx (w_tsx w1) = last_tx (w_tsx w)" "state (w_tsx w1) = state (w_tsx w)"
    "state_handler (w_tsx w1) = state_handler (w_tsx w)" "transport_flag (w_tsx w1) = transport_flag (w_tsx w)"
    using assms(1) by (simp_all add: w1_def)
  then have w4: "core r m w4" "last_tx (w_tsx w4) = last_tx (w_tsx w)" "state (w_tsx w4) = state (w_tsx w)"
    "state_handler (w_tsx w4) = state_handler (w_tsx w)" "transport_err (w_tsx w4) = err"
    by (simp_all add: w4_def core_flags)
  have "wp False (tsx_set_state PJSIP_TSX_STATE_TERMINATED Src_transport_error w4)
      (\<lambda>w'. core r m w' \<and> last_tx (w_tsx w') = last_tx (w_tsx w) \<and> state_handler (w_tsx w') = handler_of r (state (w_tsx w')) \<and>
        state (w_tsx w') = PJSIP_TSX_STATE_TERMINATED \<and> transport_err (w_tsx w') = err)"
    by (rule wp_mono [OF set_state_ok [OF w4(1)]]) (use w4 assms(2) in \<open>auto simp: has_msg_def dest: tsx_okD\<close>)
  then show ?thesis
    unfolding send_msg_error_def Let_def w1_def [symmetric] w4_def [symmetric]
    by (cases "ss_cont ss") (use w1 w4 assms(3,4) in \<open>auto elim: wp_mono\<close>)
qed

text \<open>Callbacks from inside the call that resolves: nothing waits for the transport yet.\<close>

definition fresh_flags :: "tsx_world \<Rightarrow> bool" where
  "fresh_flags w \<longleftrightarrow> \<not> has_flag TSX_HAS_PENDING_SEND w \<and> \<not> has_flag TSX_HAS_PENDING_DESTROY w"

definition resolving :: "pjsip_role_e \<Rightarrow> pjsip_method \<Rightarrow> tsx_world \<Rightarrow> tsx_world \<Rightarrow> bool" where
  "resolving r m w w' \<longleftrightarrow> core r m w' \<and> last_tx (w_tsx w') = last_tx (w_tsx w) \<and>
     state_handler (w_tsx w') = handler_of r (state (w_tsx w')) \<and>
     (state (w_tsx w') = state (w_tsx w) \<or> state (w_tsx w') = PJSIP_TSX_STATE_TERMINATED \<and> transport_err (w_tsx w') \<noteq> PJ_SUCCESS)"

lemma resched_if:
  assumes "core r m w" "state_handler (w_tsx w) = handler_of r (state (w_tsx w))"
  shows "wp False (if has_flag TSX_HAS_PENDING_RESCHED w
           then let w2 = clear_flag TSX_HAS_PENDING_RESCHED w
                in if \<not> is_reliable (w_tsx w2) then tsx_resched_retransmission env w2 else Some w2
           else Some w) (\<lambda>w'. core r m w' \<and> last_tx (w_tsx w') = last_tx (w_tsx w) \<and> state (w_tsx w') = state (w_tsx w) \<and>
             state_handler (w_tsx w') = state_handler (w_tsx w) \<and> transport_err (w_tsx w') = transport_err (w_tsx w))"
proof -
  let ?w = "clear_flag TSX_HAS_PENDING_RESCHED w"
  have c: "core r m ?w" using assms(1) by (simp add: core_flags)
  then have "w_alive ?w" by (simp add: core_def)
  from resched_ok [OF this, of env] show ?thesis
    by (simp add: Let_def) (use c assms in \<open>auto elim!: wp_mono\<close>)
qed

lemma flush_fresh:
  assumes "core r m w" "state_handler (w_tsx w) = handler_of r (state (w_tsx w))" "fresh_flags w"
  shows "wp False (flush_pending env w) (resolving r m w)"
proof -
  have "wp False (flush_pending env w) (\<lambda>w'. core r m w' \<and> last_tx (w_tsx w') = last_tx (w_tsx w) \<and> state (w_tsx w') = state (w_tsx w) \<and>
      state_handler (w_tsx w') = state_handler (w_tsx w) \<and> transport_err (w_tsx w') = transport_err (w_tsx w))"
    using resched_if [OF assms(1,2), of env] assms(3) by (simp add: flush_pending_def fresh_flags_def)
  then show ?thesis by (rule wp_mono) (use assms(2) in \<open>auto simp: resolving_def\<close>)
qed

lemma callback_fresh:
  assumes "core r m w" "has_msg r w" "state_handler (w_tsx w) = handler_of r (state (w_tsx w))" "fresh_flags w"
    and "state (w_tsx w) \<noteq> PJSIP_TSX_STATE_DESTROYED" "attempt_ok ss"
  shows "wp False (send_msg_callback env ss w) (\<lambda>w'. resolving r m w w' \<and>
           (ss_err ss \<noteq> None \<and> ss_cont ss \<longrightarrow> state (w_tsx w') = state (w_tsx w) \<and> fresh_flags w'))"
proof (cases "ss_err ss")
  case None
  have "wp False (update_transport ss w) (\<lambda>w1. wp False (flush_pending env
      (set_flag TSX_HAS_RESOLVED_SERVER (clear_flag TSX_HAS_PENDING_TRANSPORT w1))) (resolving r m w))"
  proof (rule wp_mono [OF update_transport_ok [OF assms(1) None assms(6)]])
    fix w1 assume w1: "core r m w1 \<and> last_tx (w_tsx w1) = last_tx (w_tsx w) \<and> state (w_tsx w1) = state (w_tsx w) \<and>
      state_handler (w_tsx w1) = state_handler (w_tsx w) \<and> transport_flag (w_tsx w1) = transport_flag (w_tsx w)"
    let ?w2 = "set_flag TSX_HAS_RESOLVED_SERVER (clear_flag TSX_HAS_PENDING_TRANSPORT w1)"
    have "wp False (flush_pending env ?w2) (resolving r m ?w2)"
      using w1 assms(3,4) by (intro flush_fresh) (auto simp: core_flags fresh_flags_def has_flag_def)
    then show "wp False (flush_pending env ?w2) (resolving r m w)"
      by (rule wp_mono) (use w1 in \<open>auto simp: resolving_def\<close>)
  qed simp
  with None assms(1) show ?thesis by (simp add: send_msg_callback_def send_msg_done_def core_def)
next
  case (Some err)
  have "wp False (send_msg_error ss err w) (\<lambda>w'. resolving r m w w' \<and> (ss_cont ss \<longrightarrow> state (w_tsx w') = state (w_tsx w) \<and> fresh_flags w'))"
    by (rule wp_mono [OF send_msg_error_ok [OF assms(1-3,5)]])
      (use Some assms(4,6) in \<open>auto simp: resolving_def attempt_ok_def fresh_flags_def has_flag_def\<close>)
  with Some assms(1) show ?thesis by (simp add: send_msg_callback_def core_def)
qed

lemma run_callbacks_ok:
  assumes "core r m w" "has_msg r w" "state_handler (w_tsx w) = handler_of r (state (w_tsx w))" "fresh_flags w"
    and "state (w_tsx w) \<noteq> PJSIP_TSX_STATE_DESTROYED" "attempts_ok sss"
  shows "wp False (run_callbacks env sss w) (resolving r m w)"
  using assms
proof (induction sss arbitrary: w rule: attempts_ok.induct)
  case 1
  then show ?case by (simp add: resolving_def)
next
  case (2 ss)
  show ?case
    using callback_fresh [OF 2(1-5), of ss env] 2(6) by (auto elim!: wp_mono)
next
  case (3 ss ss2 sss)
  have "wp False (send_msg_callback env ss w) (\<lambda>w1. wp False (run_callbacks env (ss2 # sss) w1) (resolving r m w))"
  proof (rule wp_mono [OF callback_fresh [OF 3(2-6), of ss env]])
    fix w1 assume w1: "resolving r m w w1 \<and>
      (ss_err ss \<noteq> None \<and> ss_cont ss \<longrightarrow> state (w_tsx w1) = state (w_tsx w) \<and> fresh_flags w1)"
    then have "wp False (run_callbacks env (ss2 # sss) w1) (resolving r m w1)"
      using 3 by (intro 3(1)) (auto simp: resolving_def has_msg_def)
    then show "wp False (run_callbacks env (ss2 # sss) w1) (resolving r m w)"
      by (rule wp_mono) (use w1 3(7) in \<open>auto simp: resolving_def\<close>)
  qed (use 3(7) in simp_all)
  then show ?case by simp
qed

lemma fresh_before_resolve:
  "core r m w \<Longrightarrow> \<not> has_flag TSX_HAS_PENDING_TRANSPORT w \<Longrightarrow> \<not> has_flag TSX_HAS_RESOLVED_SERVER w \<Longrightarrow> fresh_flags w"
  by (auto simp: core_def flags_ok_def fresh_flags_def has_flag_def)

lemma resolve_ok:
  assumes "core r m w" "has_msg r w" "state_handler (w_tsx w) = handler_of r (state (w_tsx w))"
    and "\<not> has_flag TSX_HAS_PENDING_TRANSPORT w" "\<not> has_flag TSX_HAS_RESOLVED_SERVER w"
    and "state (w_tsx w) \<noteq> PJSIP_TSX_STATE_DESTROYED" "env_ok env"
  shows "wp False (tsx_resolve env tdata w) (\<lambda>x. sent_ok r m w (fst x) (snd x))"
proof -
  define w2 where "w2 = emit (if is_request (tx_line tdata) then Send_request tdata else Send_response tdata)
      (set_flag TSX_HAS_PENDING_TRANSPORT (emit (Tx_add_ref (tx_id tdata)) w))"
  obtain sss res where res: "env_resolve env (w_log w2) = (sss, res)" by force
  have sss: "attempts_ok sss" using assms(7) res by (metis env_ok_def fst_conv)
  have w2: "core r m w2" "has_msg r w2" "last_tx (w_tsx w2) = last_tx (w_tsx w)" "state (w_tsx w2) = state (w_tsx w)"
    "state_handler (w_tsx w2) = handler_of r (state (w_tsx w2))" "fresh_flags w2"
    using assms(1-3) fresh_before_resolve [OF assms(1,4,5)]
    by (auto simp: w2_def core_flags fresh_flags_def has_flag_def)
  have "wp False (run_callbacks env sss w2) (resolving r m w2)"
    using w2 assms(6) sss by (intro run_callbacks_ok) simp_all
  then have "wp False (run_callbacks env sss w2)
     (\<lambda>w3. wp False (if (if res = PJ_EPENDING then PJ_SUCCESS else res) \<noteq> PJ_SUCCESS
          then Some (if res = PJ_EPENDING then PJ_SUCCESS else res, emit (Tx_dec_ref (tx_id tdata)) w3)
          else live w3 \<bind> (\<lambda>tsx. Some (if state tsx = PJSIP_TSX_STATE_TERMINATED then transport_err tsx else PJ_SUCCESS, w3)))
        (\<lambda>x. sent_ok r m w (fst x) (snd x)))"
    by (rule wp_mono) (use w2 in \<open>auto simp: resolving_def sent_ok_def core_def\<close>)
  then show ?thesis unfolding tsx_resolve_def Let_def w2_def [symmetric] by (simp add: res)
qed

lemma send_msg_ok:
  assumes "core r m w" "has_msg r w" "state_handler (w_tsx w) = handler_of r (state (w_tsx w))"
    and "state (w_tsx w) \<noteq> PJSIP_TSX_STATE_DESTROYED" "env_ok env"
  shows "wp False (tsx_send_msg env tdata w) (\<lambda>x. sent_ok r m w (fst x) (snd x))"
proof -
  obtain st failed w1 where w1: "send_on_transport env tdata w = (st, failed, w1)" by (metis prod_cases3)
  note s = send_on_transport_ok [OF assms(1) w1]
  have trans: "sent_ok r m w1 st' w' \<Longrightarrow> sent_ok r m w st' w'" for st' w' using s by (simp add: sent_ok_def)
  have fl: "has_flag F w1 = has_flag F w" for F using s(5) by (simp add: has_flag_def)
  have "wp False (send_failed st w1) (\<lambda>x. sent_ok r m w (fst x) (snd x))"
    by (rule wp_mono [OF send_failed_ok [of r m w1]]) (use s assms(2) in \<open>auto simp: sent_ok_def has_msg_def\<close>)
  moreover have "wp False (tsx_resolve env tdata w1) (\<lambda>x. sent_ok r m w (fst x) (snd x))"
    if "\<not> has_flag TSX_HAS_PENDING_TRANSPORT w" "\<not> has_flag TSX_HAS_RESOLVED_SERVER w1"
    by (rule wp_mono [OF resolve_ok [of r m w1]]) (use s assms that fl trans in \<open>auto simp: has_msg_def\<close>)
  moreover have "sent_ok r m w PJ_SUCCESS w1" using s assms(3) by (simp add: sent_ok_def)
  moreover have "sent_ok r m w PJ_SUCCESS (set_flag TSX_HAS_PENDING_SEND w)" if "has_flag TSX_HAS_PENDING_TRANSPORT w"
    using core_flags(3) [OF assms(1) that] assms(3) by (simp add: sent_ok_def)
  ultimately show ?thesis using assms(1) by (simp add: tsx_send_msg_def w1 core_def)
qed

text \<open>Sending from the callback is sending: the server is resolved there.\<close>

lemma send_after_resolve: "has_flag TSX_HAS_RESOLVED_SERVER w \<Longrightarrow> tsx_send_msg env tdata w = tsx_send_resolved env tdata w"
proof -
  assume r: "has_flag TSX_HAS_RESOLVED_SERVER w"
  obtain st failed w1 where w1: "send_on_transport env tdata w = (st, failed, w1)" by (metis prod_cases3)
  have "has_flag TSX_HAS_RESOLVED_SERVER w1"
    using r w1 by (auto simp: send_on_transport_def has_flag_def Let_def split: option.splits if_splits)
  then show ?thesis by (simp add: tsx_send_msg_def tsx_send_resolved_def w1)
qed

lemma retransmit_ok:
  assumes "core r m w" "has_msg r w" "state_handler (w_tsx w) = handler_of r (state (w_tsx w))"
    and "state (w_tsx w) \<noteq> PJSIP_TSX_STATE_DESTROYED" "env_ok env"
  shows "wp False (tsx_retransmit env resched w) (\<lambda>x. sent_ok r m w (fst x) (snd x))"
proof (cases "last_tx (w_tsx w)")
  case None
  then show ?thesis using assms by (simp add: tsx_retransmit_def core_def sent_ok_def)
next
  case (Some tdata)
  define w1 where "w1 = upd (\<lambda>t. t\<lparr>retransmit_count := retransmit_count t + 1\<rparr>) w"
  have w1: "core r m w1" "has_msg r w1" "state_handler (w_tsx w1) = handler_of r (state (w_tsx w1))"
    "state (w_tsx w1) = state (w_tsx w)" "last_tx (w_tsx w1) = last_tx (w_tsx w)"
    using assms by (simp_all add: w1_def has_msg_def)
  have send: "wp False (tsx_send_msg env tdata w2) (\<lambda>x. sent_ok r m w (fst x) (snd x))"
    if "core r m w2" "has_msg r w2" "state_handler (w_tsx w2) = handler_of r (state (w_tsx w2))"
      "state (w_tsx w2) = state (w_tsx w)" "last_tx (w_tsx w2) = last_tx (w_tsx w)" for w2
    by (rule wp_mono [OF send_msg_ok [of r m w2]]) (use assms that in \<open>auto simp: sent_ok_def\<close>)
  have "wp False (tsx_resched_retransmission env w1) (\<lambda>w2. wp False (tsx_send_msg env tdata w2) (\<lambda>x. sent_ok r m w (fst x) (snd x)))"
    by (rule wp_mono [OF resched_ok]) (use w1 send in \<open>auto simp: core_def\<close>)
  moreover have "wp False (tsx_send_msg env tdata (set_flag TSX_HAS_PENDING_RESCHED w1)) (\<lambda>x. sent_ok r m w (fst x) (snd x))"
    using w1 by (intro send) (simp_all add: core_flags)
  moreover have "wp False (tsx_send_msg env tdata w1) (\<lambda>x. sent_ok r m w (fst x) (snd x))"
    using w1 by (intro send) simp_all
  ultimately show ?thesis
    using assms(1) Some unfolding tsx_retransmit_def by (simp add: Let_def w1_def core_def)
qed

subsection \<open>State handlers\<close>

lemma tsx_ok_mono: "tsx_ok r m n w \<Longrightarrow> n' \<le> n \<Longrightarrow> tsx_ok r m n' w"
  by (auto simp: tsx_ok_def)

lemma set_state_any:
  assumes "core r m w" "has_msg r w \<or> st = PJSIP_TSX_STATE_DESTROYED" "handler_of r st \<noteq> None" "n \<le> state_no st"
  shows "wp False (tsx_set_state st src w) (tsx_ok r m n)"
  by (rule wp_mono [OF set_state_ok [OF assms(1-3)]]) (use assms(4) tsx_ok_mono in blast)+

lemma state_no_le_6: "s \<noteq> PJSIP_TSX_STATE_DESTROYED \<Longrightarrow> state_no s \<le> 6"
  by (cases s) simp_all

lemma sent_done:
  assumes "tsx_ok r m n w" "state (w_tsx w) \<noteq> PJSIP_TSX_STATE_DESTROYED" "sent_ok r m w st w'"
  shows "tsx_ok r m n w'"
proof (rule tsx_okI)
  show "core r m w'" "state_handler (w_tsx w') = handler_of r (state (w_tsx w'))" using assms(3) by (simp_all add: sent_ok_def)
  show "has_msg r w' \<and> state (w_tsx w') \<noteq> PJSIP_TSX_STATE_DESTROYED \<or> state (w_tsx w') = PJSIP_TSX_STATE_DESTROYED \<and>
      (has_flag TSX_HAS_PENDING_TRANSPORT w' \<longrightarrow> has_flag TSX_HAS_PENDING_DESTROY w')"
    using assms tsx_okD(2) [OF assms(1,2)] by (auto simp: sent_ok_def has_msg_def)
  show "handler_of r (state (w_tsx w')) \<noteq> None" using assms(3) tsx_okD(4) [OF assms(1)] by (auto simp: sent_ok_def)
  show "n \<le> state_no (state (w_tsx w'))"
    using assms(3) tsx_okD(5) [OF assms(1)] state_no_le_6 [OF assms(2)] by (auto simp: sent_ok_def)
qed

lemma start_retransmission_core [simp]:
  "core r m w \<Longrightarrow> core r m (start_retransmission env w)" "has_msg r (start_retransmission env w) = has_msg r w"
  "state (w_tsx (start_retransmission env w)) = state (w_tsx w)" "transport (w_tsx (start_retransmission env w)) = transport (w_tsx w)"
  "t_method (w_tsx (start_retransmission env w)) = t_method (w_tsx w)" "w_alive (start_retransmission env w) = w_alive w"
  by (simp_all add: start_retransmission_def Let_def core_flags has_msg_def)

lemma sent_okD:
  assumes "sent_ok r m w st w'"
  shows "core r m w'" "w_alive w'" "has_msg r w \<Longrightarrow> has_msg r w'"
    "st = PJ_SUCCESS \<Longrightarrow> state (w_tsx w') = state (w_tsx w)" "last_tx (w_tsx w') = last_tx (w_tsx w)"
  using assms by (auto simp: sent_ok_def has_msg_def core_def)

text \<open>Sending and then, if that succeeded, the rest of a handler.\<close>

lemma send_then:
  assumes ok: "tsx_ok r m n w" "w_alive w" "state (w_tsx w) \<noteq> PJSIP_TSX_STATE_DESTROYED" "env_ok env"
    and k: "\<And>w'. sent_ok r m w PJ_SUCCESS w' \<Longrightarrow> wp f (k w') (\<lambda>x. tsx_ok r m n (snd x))"
  shows "wp f (tsx_send_msg env tdata w \<bind> (\<lambda>(st, w'). if st \<noteq> PJ_SUCCESS then Some (st, w') else k w'))
           (\<lambda>x. tsx_ok r m n (snd x))"
proof -
  have "wp False (tsx_send_msg env tdata w) (\<lambda>x. sent_ok r m w (fst x) (snd x))"
    using tsx_okD [OF ok(1)] ok(2-4) by (intro send_msg_ok) simp_all
  then have "wp f (tsx_send_msg env tdata w) (\<lambda>x. sent_ok r m w (fst x) (snd x))" by (rule wp_mono) simp_all
  then show ?thesis
    unfolding wp_simps by (rule wp_mono) (use k sent_done [OF ok(1,3)] in \<open>auto simp: split_beta\<close>)
qed

lemma null_uac_sent_ok:
  assumes "core PJSIP_ROLE_UAC m w" "has_msg PJSIP_ROLE_UAC w"
  shows "wp False (null_uac_sent env tdata w) (\<lambda>x. tsx_ok PJSIP_ROLE_UAC m 0 (snd x))"
proof -
  have "wp False (tsx_set_state PJSIP_TSX_STATE_CALLING (Src_tx_msg tdata)
      (if \<not> b then start_retransmission env (start_timer Timeout_timer d w) else start_timer Timeout_timer d w))
      (tsx_ok PJSIP_ROLE_UAC m 0)" for b d
    using assms by (intro set_state_any) (cases b; simp)+
  then show ?thesis using assms(1) by (simp add: null_uac_sent_def Let_def core_def split: if_splits)
qed

lemma null_ok:
  assumes ok: "tsx_ok r m n w" "w_alive w" "state (w_tsx w) = PJSIP_TSX_STATE_NULL" "env_ok env"
  shows "wp (r = PJSIP_ROLE_UAS) (tsx_on_state_null env event w) (\<lambda>x. tsx_ok r m n (snd x))"
proof (cases r)
  case PJSIP_ROLE_UAS
  have n: "n = 0" using tsx_okD(5) [OF ok(1)] ok(3) by simp
  have "wp False (tsx_set_state PJSIP_TSX_STATE_TRYING src w) (tsx_ok r m n)" for src
    using tsx_okD [OF ok(1)] ok(2,3) PJSIP_ROLE_UAS n by (intro set_state_any) auto
  then have "wp True (tsx_set_state PJSIP_TSX_STATE_TRYING src w) (tsx_ok r m n)" for src by (rule wp_mono) auto
  then show ?thesis
    using ok(2) tsx_okD(6) [OF ok(1)] PJSIP_ROLE_UAS by (cases event) (auto simp: tsx_on_state_null_def)
next
  case PJSIP_ROLE_UAC
  have n: "n = 0" using tsx_okD(5) [OF ok(1)] ok(3) by simp
  have "wp False (tsx_on_state_null env (Tx_msg_event tdata) w) (\<lambda>x. tsx_ok r m n (snd x))" for tdata
  proof -
    let ?w = "save_last_tx tdata (drop_last_tx tdata w)"
    have c: "tsx_ok r m n ?w" "w_alive ?w" "has_msg r ?w"
      using tsx_okD [OF ok(1)] ok(2,3) by (auto intro: tsx_okI)
    have "wp False (tsx_send_msg env tdata ?w \<bind> (\<lambda>(st, w'). if st \<noteq> PJ_SUCCESS then Some (st, w') else null_uac_sent env tdata w'))
           (\<lambda>x. tsx_ok r m n (snd x))"
      using c ok(3,4) sent_okD [of r m ?w PJ_SUCCESS] PJSIP_ROLE_UAC n null_uac_sent_ok by (intro send_then) auto
    then show ?thesis
      using ok(2) tsx_okD(6) [OF ok(1)] PJSIP_ROLE_UAC by (simp add: tsx_on_state_null_def)
  qed
  then show ?thesis
    using ok(1,2) tsx_okD(6) [OF ok(1)] PJSIP_ROLE_UAC by (cases event) (auto simp: tsx_on_state_null_def)
qed

text \<open>A client transaction that has not terminated, as its handlers find it.\<close>

definition uac_live :: "pjsip_method \<Rightarrow> nat \<Rightarrow> tsx_world \<Rightarrow> bool" where
  "uac_live m n w \<longleftrightarrow> tsx_ok PJSIP_ROLE_UAC m n w \<and> w_alive w \<and> n \<le> 3 \<and> state (w_tsx w) \<noteq> PJSIP_TSX_STATE_DESTROYED"

lemma uac_liveD:
  assumes "uac_live m n w"
  shows "core PJSIP_ROLE_UAC m w" "has_msg PJSIP_ROLE_UAC w" "n \<le> 3" "tsx_ok PJSIP_ROLE_UAC m n w" "w_alive w"
    "state_handler (w_tsx w) = handler_of PJSIP_ROLE_UAC (state (w_tsx w))" "state (w_tsx w) \<noteq> PJSIP_TSX_STATE_DESTROYED"
  using assms tsx_okD [of PJSIP_ROLE_UAC m n w] by (auto simp: uac_live_def)

lemma tsx_ok_helpers [simp]:
  "tsx_ok r m n (start_timer k d w) = tsx_ok r m n w" "tsx_ok r m n (cancel_timer k w) = tsx_ok r m n w"
  "tsx_ok r m n (stop_timer k w) = tsx_ok r m n w" "tsx_ok r m n (tsx_set_status_code c rs w) = tsx_ok r m n w"
  "neutral a \<Longrightarrow> tsx_ok r m n (emit a w) = tsx_ok r m n w"
  "tsx_ok r m n (upd (set_timer_id k i) w) = tsx_ok r m n w"
  "tsx_ok r m n w \<Longrightarrow> tsx_ok r m n (clear_flag TSX_HAS_PENDING_RESCHED w)"
  by (simp_all add: tsx_ok_alt fits_def flags_ok_simps)

lemma uac_live_helpers [simp]:
  "uac_live m n (start_timer k d w) = uac_live m n w" "uac_live m n (cancel_timer k w) = uac_live m n w"
  "uac_live m n (stop_timer k w) = uac_live m n w" "uac_live m n (tsx_set_status_code c rs w) = uac_live m n w"
  "uac_live m n w \<Longrightarrow> uac_live m n (clear_flag TSX_HAS_PENDING_RESCHED w)"
  "uac_live m n (upd (set_timer_id k i) w) = uac_live m n w"
  by (simp_all add: uac_live_def)

lemma uac_set_state:
  assumes "uac_live m n w" "st \<in> {PJSIP_TSX_STATE_PROCEEDING, PJSIP_TSX_STATE_COMPLETED, PJSIP_TSX_STATE_TERMINATED}"
  shows "wp False (tsx_set_state st src w) (tsx_ok PJSIP_ROLE_UAC m n)"
  using assms uac_liveD [OF assms(1)] by (intro set_state_any) auto

lemma send_ack_ok:
  assumes "uac_live m n w" "env_ok env"
  shows "wp False (send_ack env w) (\<lambda>x. sent_ok PJSIP_ROLE_UAC m w (fst x) (snd (snd x)) \<and>
           (fst x = PJ_SUCCESS \<longrightarrow> fst (snd x) \<noteq> None))"
proof (cases "env_create_ack env (w_log w)")
  case (Inl err)
  then have "err \<noteq> PJ_SUCCESS" using assms(2) by (auto simp: env_ok_def)
  then show ?thesis using Inl uac_liveD [OF assms(1)] by (simp add: send_ack_def sent_ok_def)
next
  case (Inr ack)
  have "wp False (tsx_send_msg env ack w) (\<lambda>x. sent_ok PJSIP_ROLE_UAC m w (fst x) (snd x))"
    using uac_liveD [OF assms(1)] assms(2) by (intro send_msg_ok) simp_all
  with Inr show ?thesis by (simp add: send_ack_def split_beta)
qed

lemma replace_last_tx_ok:
  assumes "core r m w" "last_tx (w_tsx w) \<noteq> None" "ack \<noteq> None"
  shows "wp False (replace_last_tx ack w) (\<lambda>w'. core r m w' \<and> last_tx (w_tsx w') \<noteq> None \<and> state (w_tsx w') = state (w_tsx w) \<and>
           state_handler (w_tsx w') = state_handler (w_tsx w))"
  using assms by (auto simp: replace_last_tx_def)

lemma start_timer_D_ok [simp]: "tsx_ok r m n (start_timer_D env w) = tsx_ok r m n w"
  by (simp add: start_timer_D_def Let_def)

lemma uac_completed_ok:
  assumes "sent_ok PJSIP_ROLE_UAC m w PJ_SUCCESS w'" "uac_live m n w" "invite \<longrightarrow> ack \<noteq> None"
  shows "wp False (uac_completed env src invite ack w') (\<lambda>x. tsx_ok PJSIP_ROLE_UAC m n (snd x))"
proof -
  note D = uac_liveD [OF assms(2)] and S = sent_okD [OF assms(1)]
  have "wp False (tsx_set_state PJSIP_TSX_STATE_COMPLETED src w') (\<lambda>w3. tsx_ok PJSIP_ROLE_UAC m 4 w3 \<and> w_alive w3 \<and>
      state (w_tsx w3) = PJSIP_TSX_STATE_COMPLETED)"
    by (rule wp_mono [OF set_state_ok [OF S(1)]]) (use S(3) [OF D(2)] in auto)
  then have "wp False (tsx_set_state PJSIP_TSX_STATE_COMPLETED src w')
      (\<lambda>w3. wp False (if invite then replace_last_tx ack w3 else Some w3) (tsx_ok PJSIP_ROLE_UAC m n))"
  proof (rule wp_mono)
    fix w3 assume w3: "tsx_ok PJSIP_ROLE_UAC m 4 w3 \<and> w_alive w3 \<and> state (w_tsx w3) = PJSIP_TSX_STATE_COMPLETED"
    note T = tsx_okD [OF conjunct1 [OF w3]]
    have n3: "tsx_ok PJSIP_ROLE_UAC m n w3" using w3 D(3) tsx_ok_mono by fastforce
    have "wp False (replace_last_tx ack w3) (tsx_ok PJSIP_ROLE_UAC m n)" if invite
      by (rule wp_mono [OF replace_last_tx_ok])
        (use T w3 D(3) assms(3) that in \<open>auto intro!: tsx_okI simp: has_msg_def\<close>)
    with n3 show "wp False (if invite then replace_last_tx ack w3 else Some w3) (tsx_ok PJSIP_ROLE_UAC m n)" by simp
  qed simp
  then show ?thesis by (simp add: uac_completed_def)
qed

lemma uac_fail_ok:
  assumes "uac_live m n w" "env_ok env"
  shows "wp False (proceeding_uac_fail env src w) (\<lambda>x. tsx_ok PJSIP_ROLE_UAC m n (snd x))"
proof -
  define w1 where "w1 = cancel_timer Timeout_timer (upd (set_timer_id Timeout_timer 0) (stop_timer Retransmit_timer w))"
  define invite where "invite = (m_id (t_method (w_tsx w1)) = PJSIP_INVITE_METHOD)"
  have l: "uac_live m n w1" using assms(1) by (simp add: w1_def)
  note D = uac_liveD [OF l]
  have "wp False (if invite then send_ack env w1 else Some (PJ_SUCCESS, None, w1))
      (\<lambda>x. sent_ok PJSIP_ROLE_UAC m w1 (fst x) (snd (snd x)) \<and> (fst x = PJ_SUCCESS \<longrightarrow> invite \<longrightarrow> fst (snd x) \<noteq> None))"
    using send_ack_ok [OF l assms(2)] D by (auto simp: sent_ok_def elim!: wp_mono)
  then have "wp False (if invite then send_ack env w1 else Some (PJ_SUCCESS, None, w1))
      (\<lambda>x. wp False (if fst x \<noteq> PJ_SUCCESS then Some (fst x, snd (snd x))
                     else uac_completed env src invite (fst (snd x)) (snd (snd x))) (\<lambda>x. tsx_ok PJSIP_ROLE_UAC m n (snd x)))"
    by (rule wp_mono) (use sent_done [OF D(4,7)] uac_completed_ok [OF _ l] in \<open>auto\<close>)
  then show ?thesis
    unfolding proceeding_uac_fail_def Let_def w1_def [symmetric] invite_def [symmetric] by (simp add: split_beta)
qed

lemma uac_2xx_ok:
  assumes "uac_live m n w"
  shows "wp False (proceeding_uac_2xx env src w) (\<lambda>x. tsx_ok PJSIP_ROLE_UAC m n (snd x))"
  using uac_set_state [of m n "cancel_timer Timeout_timer w" PJSIP_TSX_STATE_TERMINATED src]
    uac_set_state [of m n "stop_timer Retransmit_timer (start_timer Timeout_timer d (cancel_timer Timeout_timer w))"
      PJSIP_TSX_STATE_COMPLETED src for d] assms
  by (simp add: proceeding_uac_2xx_def Let_def)

lemma uac_status_ok:
  assumes "uac_live m n w" "env_ok env"
  shows "wp False (proceeding_uac_status env src w) (\<lambda>x. tsx_ok PJSIP_ROLE_UAC m n (snd x))"
  using uac_set_state [OF assms(1), of PJSIP_TSX_STATE_TERMINATED src] uac_set_state [OF assms(1), of PJSIP_TSX_STATE_PROCEEDING src]
    uac_2xx_ok [OF assms(1), of env src] uac_fail_ok [OF assms, of src] uac_liveD(4) [OF assms(1)]
  by (auto simp: proceeding_uac_status_def Let_def)

lemma uac_retransmit_ok:
  assumes "uac_live m n w" "env_ok env"
  shows "wp False (tsx_retransmit env b w) (\<lambda>x. tsx_ok PJSIP_ROLE_UAC m n (snd x))"
  by (rule wp_mono [OF retransmit_ok [of PJSIP_ROLE_UAC m]])
    (use uac_liveD [OF assms(1)] assms(2) sent_done in \<open>auto\<close>)

lemma proceeding_uac_ok:
  assumes "uac_live m n w" "env_ok env"
  shows "wp False (tsx_on_state_proceeding_uac env event w) (\<lambda>x. tsx_ok PJSIP_ROLE_UAC m n (snd x))"
  using uac_liveD(4,5) [OF assms(1)] uac_retransmit_ok [OF assms] uac_status_ok [of m n _ env] assms
  by (auto simp: tsx_on_state_proceeding_uac_def split: pjsip_event.split pjsip_msg_line.split tsx_timer.split)

lemma calling_timers_live: "uac_live m n w \<Longrightarrow> uac_live m n (calling_response_timers env code w)"
  by (simp add: calling_response_timers_def Let_def)

lemma calling_ok:
  assumes "uac_live m n w" "env_ok env"
  shows "wp False (tsx_on_state_calling env event w) (\<lambda>x. tsx_ok PJSIP_ROLE_UAC m n (snd x))"
  using uac_liveD(4,5) [OF assms(1)] uac_retransmit_ok [OF assms] assms
    uac_set_state [of m n "tsx_set_status_code PJSIP_SC_TSX_TIMEOUT None
      (clear_flag TSX_HAS_PENDING_RESCHED (stop_timer Retransmit_timer w))" PJSIP_TSX_STATE_TERMINATED]
    proceeding_uac_ok [of m n "clear_flag TSX_HAS_PENDING_RESCHED (calling_response_timers env code w)" env for code]
    calling_timers_live [OF assms(1)]
  by (auto simp: tsx_on_state_calling_def split_beta split: pjsip_event.split pjsip_msg_line.split tsx_timer.split)

text \<open>Any transaction that is not destroyed.\<close>

definition tsx_live :: "pjsip_role_e \<Rightarrow> pjsip_method \<Rightarrow> nat \<Rightarrow> tsx_world \<Rightarrow> bool" where
  "tsx_live r m n w \<longleftrightarrow> tsx_ok r m n w \<and> w_alive w \<and> state (w_tsx w) \<noteq> PJSIP_TSX_STATE_DESTROYED"

lemma tsx_liveD:
  assumes "tsx_live r m n w"
  shows "core r m w" "has_msg r w" "n \<le> 6" "tsx_ok r m n w" "w_alive w" "role (w_tsx w) = r" "t_method (w_tsx w) = m"
    "state_handler (w_tsx w) = handler_of r (state (w_tsx w))" "state (w_tsx w) \<noteq> PJSIP_TSX_STATE_DESTROYED"
  using assms tsx_okD [of r m n w] state_no_le_6 [of "state (w_tsx w)"] by (auto simp: tsx_live_def)

lemma tsx_live_helpers [simp]:
  "tsx_live r m n (start_timer k d w) = tsx_live r m n w" "tsx_live r m n (cancel_timer k w) = tsx_live r m n w"
  "tsx_live r m n (stop_timer k w) = tsx_live r m n w" "tsx_live r m n (tsx_set_status_code c rs w) = tsx_live r m n w"
  "tsx_live r m n w \<Longrightarrow> tsx_live r m n (clear_flag TSX_HAS_PENDING_RESCHED w)"
  "neutral a \<Longrightarrow> tsx_live r m n (emit a w) = tsx_live r m n w"
  "tsx_live r m n (upd (set_timer_id k i) w) = tsx_live r m n w"
  by (simp_all add: tsx_live_def)

lemma terminate_ok:
  assumes "tsx_live r m n w"
  shows "wp f (tsx_set_state PJSIP_TSX_STATE_TERMINATED src w) (tsx_ok r m n)"
  by (rule wp_mono [OF set_state_any [OF tsx_liveD(1) [OF assms]]]) (use tsx_liveD [OF assms] in auto)

lemma live_retransmit_ok:
  assumes "tsx_live r m n w" "env_ok env"
  shows "wp f (tsx_retransmit env b w) (\<lambda>x. tsx_ok r m n (snd x))"
  by (rule wp_mono [OF retransmit_ok [of r m]]) (use tsx_liveD [OF assms(1)] assms(2) sent_done in \<open>auto\<close>)

lemma live_send_ok:
  assumes "tsx_live r m n w" "env_ok env"
  shows "wp f (tsx_send_msg env tdata w) (\<lambda>x. tsx_ok r m n (snd x))"
  by (rule wp_mono [OF send_msg_ok [of r m]]) (use tsx_liveD [OF assms(1)] assms(2) sent_done in \<open>auto\<close>)

lemma completed_uac_ok:
  assumes "tsx_live r m n w" "env_ok env"
  shows "wp f (tsx_on_state_completed_uac env event w) (\<lambda>x. tsx_ok r m n (snd x))"
  using tsx_liveD(4,5) [OF assms(1)] terminate_ok [OF assms(1)] live_retransmit_ok [OF assms]
  by (auto simp: tsx_on_state_completed_uac_def split: pjsip_event.split pjsip_msg_line.split)

lemma confirmed_ok:
  assumes "tsx_live r m n w"
  shows "wp f (tsx_on_state_confirmed env event w) (\<lambda>x. tsx_ok r m n (snd x))"
  using tsx_liveD(4,5) [OF assms(1)] terminate_ok [OF assms(1)]
  by (auto simp: tsx_on_state_confirmed_def split: pjsip_event.split)

lemma terminated_ok:
  assumes "tsx_live r m n w"
  shows "wp f (tsx_on_state_terminated env event w) (\<lambda>x. tsx_ok r m n (snd x))"
proof -
  have "handler_of r PJSIP_TSX_STATE_DESTROYED \<noteq> None" by (cases r) simp_all
  then have "wp False (tsx_set_state PJSIP_TSX_STATE_DESTROYED (event_src event) w) (tsx_ok r m n)"
    using tsx_liveD [OF assms] by (intro set_state_any) auto
  then have "wp f (tsx_set_state PJSIP_TSX_STATE_DESTROYED (event_src event) w) (tsx_ok r m n)" by (rule wp_mono) simp_all
  then show ?thesis by (simp add: tsx_on_state_terminated_def)
qed

subsubsection \<open>Server handlers\<close>

definition uas_live :: "pjsip_method \<Rightarrow> nat \<Rightarrow> tsx_world \<Rightarrow> bool" where
  "uas_live m n w \<longleftrightarrow> core PJSIP_ROLE_UAS m w \<and> n \<le> 3"

lemma uas_live_helpers [simp]:
  "uas_live m n (start_timer k d w) = uas_live m n w" "uas_live m n (save_last_tx td w) = uas_live m n w"
  "uas_live m n w \<Longrightarrow> uas_live m n (start_retransmission env w)"
  by (simp_all add: uas_live_def)

lemma uas_set_state:
  assumes "uas_live m n w"
    "st \<in> {PJSIP_TSX_STATE_PROCEEDING, PJSIP_TSX_STATE_COMPLETED, PJSIP_TSX_STATE_CONFIRMED, PJSIP_TSX_STATE_TERMINATED}"
  shows "wp f (tsx_set_state st src w) (tsx_ok PJSIP_ROLE_UAS m n)"
  by (rule wp_mono [OF set_state_any [of PJSIP_ROLE_UAS m]]) (use assms in \<open>auto simp: uas_live_def has_msg_def\<close>)

lemma wp_reads:
  "wp True (transport (t :: pjsip_transaction)) Q = (\<forall>tp. transport t = Some tp \<longrightarrow> Q tp)"
  "wp True (tx_cseq (td :: pjsip_tx_data)) R = (\<forall>c. tx_cseq td = Some c \<longrightarrow> R c)"
  by (simp_all add: wp_partial)

lemma uas_2xx_ok:
  assumes "uas_live m n w"
  shows "wp True (proceeding_uas_2xx env tdata w) (\<lambda>x. tsx_ok PJSIP_ROLE_UAS m n (snd x))"
  using assms by (auto simp: proceeding_uas_2xx_def Let_def wp_reads intro!: uas_set_state)

lemma uas_fail_ok:
  assumes "uas_live m n w"
  shows "wp True (proceeding_uas_fail env tdata w) (\<lambda>x. tsx_ok PJSIP_ROLE_UAS m n (snd x))"
  using assms by (auto simp: proceeding_uas_fail_def Let_def wp_reads intro!: uas_set_state)

lemma uas_sent_ok:
  assumes "uas_live m n w" "tsx_ok PJSIP_ROLE_UAS m n w"
  shows "wp True (proceeding_uas_sent env tdata w) (\<lambda>x. tsx_ok PJSIP_ROLE_UAS m n (snd x))"
  using assms uas_2xx_ok [OF assms(1)] uas_fail_ok [OF assms(1)] uas_set_state [of m n "save_last_tx tdata w"]
  by (auto simp: proceeding_uas_sent_def uas_live_def core_def)

lemma proceeding_uas_ok:
  assumes "tsx_live PJSIP_ROLE_UAS m n w" "n \<le> 3" "env_ok env"
  shows "wp True (tsx_on_state_proceeding_uas env event w) (\<lambda>x. tsx_ok PJSIP_ROLE_UAS m n (snd x))"
proof -
  note D = tsx_liveD [OF assms(1)]
  have send: "wp True (tsx_send_msg env tdata (drop_last_tx tdata (tsx_set_status_code c rs w)) \<bind>
      (\<lambda>(st, w'). if st \<noteq> PJ_SUCCESS then Some (st, w') else proceeding_uas_sent env tdata w'))
      (\<lambda>x. tsx_ok PJSIP_ROLE_UAS m n (snd x))" for tdata c rs
  proof (rule send_then)
    let ?w = "drop_last_tx tdata (tsx_set_status_code c rs w)"
    show ok: "tsx_ok PJSIP_ROLE_UAS m n ?w"
      using D tsx_okD [OF D(4)] by (intro tsx_okI) (auto simp: has_msg_def)
    fix w' assume "sent_ok PJSIP_ROLE_UAS m ?w PJ_SUCCESS w'"
    with sent_done [OF ok _ this] D assms(2) sent_okD(1) [OF this]
    show "wp True (proceeding_uas_sent env tdata w') (\<lambda>x. tsx_ok PJSIP_ROLE_UAS m n (snd x))"
      by (intro uas_sent_ok) (simp_all add: uas_live_def)
  qed (use D assms(3) in simp_all)
  have pend: "tsx_ok PJSIP_ROLE_UAS m n (set_flag TSX_HAS_PENDING_SEND w)" if "has_flag TSX_HAS_PENDING_TRANSPORT w"
    using core_flags(3) [OF D(1) that, of TSX_HAS_PENDING_SEND] D tsx_okD [OF D(4)] by (intro tsx_okI) auto
  show ?thesis
    using D send pend live_send_ok [OF assms(1,3)] live_retransmit_ok [OF assms(1,3)] terminate_ok
    by (auto simp: tsx_on_state_proceeding_uas_def assms(1)
        split: pjsip_event.split pjsip_msg_line.split tsx_timer.split option.split)
qed

end
