(* ===== verification/Sip_Tsx_Run.thy ===== *)
theory Sip_Tsx_Run
  imports Sip_Tsx_Spec
begin

text \<open>
  Runs of a SIP transaction: the operations that its user, its timers, the transport layer and the
  receiver perform on it after its creation, in any order, and what holds along every run.
\<close>

subsection \<open>The rest of the handlers\<close>

lemma trying_ok:
  assumes "tsx_live PJSIP_ROLE_UAS m n w" "n \<le> 2" "env_ok env"
  shows "wp True (tsx_on_state_trying env event w) (\<lambda>x. tsx_ok PJSIP_ROLE_UAS m n (snd x))"
proof -
  note D = tsx_liveD [OF assms(1)]
  have "wp True (tsx_on_state_proceeding_uas env event w) (\<lambda>x. tsx_ok PJSIP_ROLE_UAS m n (snd x))"
    using assms by (intro proceeding_uas_ok) simp_all
  then have "wp True (tsx_on_state_proceeding_uas env event w) (\<lambda>x. wp True
      (if fst x = PJ_SUCCESS then live (snd x) \<bind> (\<lambda>tsx1. if state tsx1 = PJSIP_TSX_STATE_TRYING
          then succeed (tsx_set_state PJSIP_TSX_STATE_PROCEEDING (Src_tx_msg tdata) (snd x)) else Some (PJ_SUCCESS, snd x))
       else Some (fst x, snd x)) (\<lambda>x. tsx_ok PJSIP_ROLE_UAS m n (snd x)))" for tdata
  proof (rule wp_mono)
    fix x :: "pj_status \<times> tsx_world" assume x: "tsx_ok PJSIP_ROLE_UAS m n (snd x)"
    have "wp True (tsx_set_state PJSIP_TSX_STATE_PROCEEDING (Src_tx_msg tdata) (snd x)) (tsx_ok PJSIP_ROLE_UAS m n)" if "w_alive (snd x)"
      using tsx_okD(1) [OF x that] assms(2) by (intro uas_set_state) (simp_all add: uas_live_def)
    with x show "wp True (if fst x = PJ_SUCCESS then live (snd x) \<bind> (\<lambda>tsx1. if state tsx1 = PJSIP_TSX_STATE_TRYING
          then succeed (tsx_set_state PJSIP_TSX_STATE_PROCEEDING (Src_tx_msg tdata) (snd x)) else Some (PJ_SUCCESS, snd x))
       else Some (fst x, snd x)) (\<lambda>x. tsx_ok PJSIP_ROLE_UAS m n (snd x))" by simp
  qed simp
  then have "wp True (tsx_on_state_trying env (Tx_msg_event tdata) w) (\<lambda>x. tsx_ok PJSIP_ROLE_UAS m n (snd x))"
    if "event = Tx_msg_event tdata" for tdata
    using D that by (simp add: tsx_on_state_trying_def split_beta cong: if_cong)
  then show ?thesis using D by (cases event) (simp_all add: tsx_on_state_trying_def)
qed

lemma completed_uas_ok:
  assumes "tsx_live PJSIP_ROLE_UAS m n w" "n \<le> 4" "env_ok env"
  shows "wp True (tsx_on_state_completed_uas env event w) (\<lambda>x. tsx_ok PJSIP_ROLE_UAS m n (snd x))"
proof -
  note D = tsx_liveD [OF assms(1)]
  let ?w = "cancel_timer Timeout_timer (clear_flag TSX_HAS_PENDING_RESCHED (stop_timer Retransmit_timer w))"
  have "wp True (tsx_set_state PJSIP_TSX_STATE_CONFIRMED src (start_timer Timeout_timer d ?w)) (tsx_ok PJSIP_ROLE_UAS m n)" for src d
    by (rule wp_mono [OF set_state_any [of PJSIP_ROLE_UAS m]])
      (use D(1) assms(2) in \<open>auto simp: core_flags has_msg_def\<close>)
  then have "wp True (completed_uas_ack env rdata w) (\<lambda>x. tsx_ok PJSIP_ROLE_UAS m n (snd x))" for rdata
    by (simp add: completed_uas_ack_def Let_def wp_reads)
  then show ?thesis
    using D live_retransmit_ok [OF assms(1,3)] terminate_ok assms(1)
    by (auto simp: tsx_on_state_completed_uas_def split: pjsip_event.split pjsip_msg_line.split tsx_timer.split)
qed

lemma dispatch_ok:
  assumes "tsx_ok r m n w" "w_alive w" "env_ok env"
  shows "wp (r = PJSIP_ROLE_UAS) (tsx_dispatch env event w) (\<lambda>x. tsx_ok r m n (snd x))"
proof (cases "state (w_tsx w) = PJSIP_TSX_STATE_DESTROYED")
  case True
  then show ?thesis using assms tsx_okD(3,4) [OF assms(1)]
    by (cases r) (simp_all add: tsx_dispatch_def tsx_on_state_destroyed_def)
next
  case False
  note T = tsx_okD [OF assms(1)]
  have l: "tsx_live r m n w" using assms False by (simp add: tsx_live_def)
  have u: "uac_live m n w" if "r = PJSIP_ROLE_UAC" "state_no (state (w_tsx w)) \<le> 3"
    using assms False that T(5) by (simp add: uac_live_def)
  show ?thesis
  proof (cases r)
    case PJSIP_ROLE_UAC
    then show ?thesis
      using T(3-5) assms False l u null_ok [OF assms(1,2) _ assms(3), of event] calling_ok [of m n w env event]
        proceeding_uac_ok [of m n w env event] completed_uac_ok [OF l assms(3), of False event] confirmed_ok [OF l, of False env event]
        terminated_ok [OF l, of False env event]
      by (cases "state (w_tsx w)") (simp_all add: tsx_dispatch_def)
  next
    case PJSIP_ROLE_UAS
    then show ?thesis
      using T(3-5) assms False l null_ok [OF assms(1,2) _ assms(3), of event] trying_ok [of m n w env event]
        proceeding_uas_ok [of m n w env event] completed_uas_ok [of m n w env event] confirmed_ok [OF l, of True env event]
        terminated_ok [OF l, of True env event]
      by (cases "state (w_tsx w)") (simp_all add: tsx_dispatch_def)
  qed
qed

subsection \<open>Callbacks of the transport layer\<close>

lemma flush_ok:
  assumes c: "core r m w" and h: "state_handler (w_tsx w) = handler_of r (state (w_tsx w))" "handler_of r (state (w_tsx w)) \<noteq> None"
    and n: "n \<le> state_no (state (w_tsx w))" and d: "state (w_tsx w) = PJSIP_TSX_STATE_DESTROYED \<longrightarrow> has_flag TSX_HAS_PENDING_DESTROY w"
    and m: "state (w_tsx w) \<noteq> PJSIP_TSX_STATE_DESTROYED \<longrightarrow> has_msg r w"
  shows "wp False (flush_pending env w) (tsx_ok r m n)"
proof (cases "has_flag TSX_HAS_PENDING_DESTROY w")
  case True
  have "n \<le> 7" using n by (cases "state (w_tsx w)") simp_all
  moreover have "handler_of r PJSIP_TSX_STATE_DESTROYED \<noteq> None" by (cases r) simp_all
  ultimately show ?thesis using True c by (simp add: flush_pending_def set_state_any)
next
  case False
  then have nd: "state (w_tsx w) \<noteq> PJSIP_TSX_STATE_DESTROYED" and msg: "has_msg r w" using d m by auto
  have ok: "tsx_ok r m n w" using c h n nd msg by (intro tsx_okI) simp_all
  let ?w = "clear_flag TSX_HAS_PENDING_SEND w"
  have ok': "tsx_ok r m n ?w" using c h n nd msg by (intro tsx_okI) (simp_all add: core_flags)
  define tail where "tail w1 = (if has_flag TSX_HAS_PENDING_RESCHED w1
      then let w2 = clear_flag TSX_HAS_PENDING_RESCHED w1
           in if \<not> is_reliable (w_tsx w2) then tsx_resched_retransmission env w2 else Some w2
      else Some w1)" for w1
  have tail: "wp False (tail w1) (tsx_ok r m n)" if "sent_ok r m ?w st w1" for w1 st
    unfolding tail_def
  proof (rule wp_mono [OF resched_if])
    show "core r m w1" "state_handler (w_tsx w1) = handler_of r (state (w_tsx w1))" using that by (simp_all add: sent_ok_def)
    have k: "tsx_ok r m n w1" by (rule sent_done [OF ok' _ that]) (use nd in simp)
    have nd1: "state (w_tsx w1) \<noteq> PJSIP_TSX_STATE_DESTROYED" using that nd by (auto simp: sent_ok_def)
    fix w' assume "core r m w' \<and> last_tx (w_tsx w') = last_tx (w_tsx w1) \<and> state (w_tsx w') = state (w_tsx w1) \<and>
      state_handler (w_tsx w') = state_handler (w_tsx w1) \<and> transport_err (w_tsx w') = transport_err (w_tsx w1)"
    then show "tsx_ok r m n w'" using tsx_okD [OF k] nd1 by (intro tsx_okI) (auto simp: has_msg_def)
  qed simp
  have sent: "wp False (tsx_send_resolved env tdata ?w) (\<lambda>x. sent_ok r m ?w (fst x) (snd x))" for tdata
    using c h msg by (intro send_resolved_ok) (simp_all add: core_flags)
  have same: "sent_ok r m ?w PJ_SUCCESS ?w" using c h by (simp add: sent_ok_def core_flags)
  have noop: "\<not> has_flag TSX_HAS_PENDING_SEND w \<Longrightarrow> ?w = w"
    by (simp add: clear_flag_def upd_def has_flag_def)
  have "flush_pending env w = (if has_flag TSX_HAS_PENDING_SEND w
      then (case last_tx (w_tsx w) of None \<Rightarrow> Some ?w | Some tdata \<Rightarrow> map_option snd (tsx_send_resolved env tdata ?w))
      else Some w) \<bind> tail"
    using False unfolding flush_pending_def tail_def [abs_def] by simp
  moreover have "wp False (tsx_send_resolved env tdata ?w) (\<lambda>x. wp False (tail (snd x)) (tsx_ok r m n))" for tdata
    by (rule wp_mono [OF sent]) (simp_all add: tail)
  ultimately show ?thesis
    using tail [OF same] noop by (auto split: option.split)
qed

lemma callback_ok:
  assumes "tsx_ok r m n w" "w_alive w" "has_flag TSX_HAS_PENDING_TRANSPORT w" "attempt_ok ss"
  shows "wp False (send_msg_callback env ss w) (tsx_ok r m n)"
proof -
  note T = tsx_okD [OF assms(1)] and c = tsx_okD(1) [OF assms(1,2)]
  have d: "state (w_tsx w) = PJSIP_TSX_STATE_DESTROYED \<longrightarrow> has_flag TSX_HAS_PENDING_DESTROY w"
    using assms(1,3) by (auto simp: tsx_ok_def fits_def has_flag_def)
  show ?thesis
  proof (cases "ss_err ss")
    case None
    have "wp False (update_transport ss w) (\<lambda>w1. wp False (flush_pending env
        (set_flag TSX_HAS_RESOLVED_SERVER (clear_flag TSX_HAS_PENDING_TRANSPORT w1))) (tsx_ok r m n))"
      by (rule wp_mono [OF update_transport_ok [OF c None assms(4)]])
        (use T d in \<open>auto intro!: flush_ok simp: core_flags has_flag_def has_msg_def\<close>)
    with None assms(2) show ?thesis by (simp add: send_msg_callback_def send_msg_done_def)
  next
    case (Some err)
    have "wp False (send_msg_error ss err w) (tsx_ok r m n)"
    proof (cases "state (w_tsx w) = PJSIP_TSX_STATE_DESTROYED")
      case True
      let ?w1 = "if map_option tp_id (ss_transport ss) = map_option tp_id (transport (w_tsx w)) then release_transport w else w"
      have "core r m ?w1" "state (w_tsx ?w1) = PJSIP_TSX_STATE_DESTROYED" "has_flag TSX_HAS_PENDING_DESTROY ?w1"
        "state_handler (w_tsx ?w1) = handler_of r PJSIP_TSX_STATE_DESTROYED"
        using c True d T(3) by (simp_all add: has_flag_def)
      then show ?thesis
        using T(4,5) True by (simp add: send_msg_error_def Let_def)
          (auto intro!: tsx_okI simp: core_flags has_flag_def)
    next
      case False
      show ?thesis
        by (rule wp_mono [OF send_msg_error_ok [OF c]])
          (use T False state_no_le_6 [OF False] in \<open>auto intro!: tsx_okI simp: has_msg_def\<close>)
    qed
    with Some assms(2) show ?thesis by (simp add: send_msg_callback_def)
  qed
qed

lemma transport_callback_ok:
  assumes "tsx_live r m n w"
  shows "wp True (transport_callback res w) (tsx_ok r m n)"
    and "res = None \<or> transport (w_tsx w) \<noteq> None \<Longrightarrow> wp False (transport_callback res w) (tsx_ok r m n)"
proof -
  note D = tsx_liveD [OF assms]
  have "wp False (tsx_set_state PJSIP_TSX_STATE_TERMINATED Src_transport_error
      (tsx_set_status_code PJSIP_SC_TSX_TRANSPORT_ERROR rs (upd (\<lambda>t. t\<lparr>transport := None\<rparr>)
        (emit (Transport_dec_ref (tp_id tp)) (upd (\<lambda>t. t\<lparr>transport_err := err\<rparr>) w))))) (tsx_ok r m n)"
    if "transport (w_tsx w) = Some tp" for err rs tp
  proof -
    have "core r m (upd (\<lambda>t. t\<lparr>transport := None\<rparr>) (emit (Transport_dec_ref (tp_id tp)) (upd (\<lambda>t. t\<lparr>transport_err := err\<rparr>) w)))"
      using D(1) that by (auto simp: core_def counted_def refs_ok_def released_once_def)
    then show ?thesis using D(2,3) by (intro set_state_any) (simp_all add: has_msg_def)
  qed
  note this [of _ "Some (Error_text _)"]
  then show tot: "res = None \<or> transport (w_tsx w) \<noteq> None \<Longrightarrow> wp False (transport_callback res w) (tsx_ok r m n)"
    using D(4,5) by (auto simp: transport_callback_def split: option.split)
  show "wp True (transport_callback res w) (tsx_ok r m n)"
  proof (cases "res = None \<or> transport (w_tsx w) \<noteq> None")
    case True
    then show ?thesis using wp_mono [OF tot [OF True], of True "tsx_ok r m n"] by simp
  next
    case False
    then show ?thesis using D(5) by (auto simp: transport_callback_def)
  qed
qed

subsection \<open>Runs\<close>

text \<open>The operations on a transaction, from the outside.\<close>

datatype tsx_op =
    Op_send "pjsip_tx_data option" | Op_recv pjsip_rx_data | Op_timer tsx_timer | Op_terminate int
  | Op_stop_retransmit | Op_set_transport nat | Op_retransmit_no_state "pjsip_tx_data option"
  | Op_send_callback send_state | Op_transport_callback "pj_status option"

fun run_op :: "tsx_env \<Rightarrow> tsx_op \<Rightarrow> tsx_world \<Rightarrow> tsx_world option" where
  "run_op env (Op_send msg) w = map_option snd (pjsip_tsx_send_msg env msg w)"
| "run_op env (Op_recv rdata) w = pjsip_tsx_recv_msg env rdata w"
| "run_op env (Op_timer k) w = tsx_timer_callback env k w"
| "run_op env (Op_terminate code) w = map_option snd (pjsip_tsx_terminate code w)"
| "run_op env Op_stop_retransmit w = map_option snd (pjsip_tsx_stop_retransmit w)"
| "run_op env (Op_set_transport sel) w = map_option snd (pjsip_tsx_set_transport sel w)"
| "run_op env (Op_retransmit_no_state msg) w = map_option snd (pjsip_tsx_retransmit_no_state env msg w)"
| "run_op env (Op_send_callback ss) w = send_msg_callback env ss w"
| "run_op env (Op_transport_callback res) w = transport_callback res w"

text \<open>Whether a timer runs, from the log.\<close>

fun timer_step :: "tsx_timer \<Rightarrow> tsx_action \<Rightarrow> bool \<Rightarrow> bool" where
  "timer_step k (Schedule_timer k' _) b = (b \<or> k = k')"
| "timer_step k (Cancel_timer k') b = (b \<and> k \<noteq> k')"
| "timer_step k (Timer_fired k') b = (b \<and> k \<noteq> k')"
| "timer_step k _ b = b"

definition timer_pending :: "tsx_timer \<Rightarrow> tsx_action list \<Rightarrow> bool" where
  "timer_pending k log = fold (timer_step k) log False"

text \<open>When the other components perform an operation: nobody but the transport layer uses a
  destroyed transaction, whose callback comes once, while the transport is pending, and a timer
  fires when it runs.\<close>

fun op_enabled :: "tsx_op \<Rightarrow> tsx_world \<Rightarrow> bool" where
  "op_enabled (Op_send_callback ss) w \<longleftrightarrow> w_alive w \<and> has_flag TSX_HAS_PENDING_TRANSPORT w \<and> attempt_ok ss"
| "op_enabled (Op_timer k) w \<longleftrightarrow> w_alive w \<and> state (w_tsx w) \<noteq> PJSIP_TSX_STATE_DESTROYED \<and> timer_pending k (w_log w)"
| "op_enabled _ w \<longleftrightarrow> w_alive w \<and> state (w_tsx w) \<noteq> PJSIP_TSX_STATE_DESTROYED"

inductive tsx_run :: "tsx_env \<Rightarrow> tsx_world \<Rightarrow> tsx_world \<Rightarrow> bool" for env where
  run_start: "tsx_run env w w"
| run_step: "tsx_run env w w1 \<Longrightarrow> op_enabled op w1 \<Longrightarrow> run_op env op w1 = Some w2 \<Longrightarrow> tsx_run env w w2"

inductive_cases tsx_runE: "tsx_run env w w'"

text \<open>The worlds that creation returns.\<close>

inductive tsx_created :: "pjsip_role_e \<Rightarrow> pjsip_method \<Rightarrow> tsx_world \<Rightarrow> bool" where
  created_uac: "pjsip_tsx_create_uac created fresh dest user tdata = Some (Inr w) \<Longrightarrow>
    tx_line tdata = Request_line m \<Longrightarrow> tsx_created PJSIP_ROLE_UAC m w"
| created_uas: "pjsip_tsx_create_uas created resp user rdata = Some (Inr w) \<Longrightarrow>
    rx_line rdata = Request_line m \<Longrightarrow> tsx_created PJSIP_ROLE_UAS m w"

lemma new_transaction_fits:
  "fits PJSIP_ROLE_UAC m ((new_transaction user PJSIP_ROLE_UAC m c key branch)\<lparr>last_tx := Some td, is_reliable := b\<rparr>)"
  "fits PJSIP_ROLE_UAS m ((new_transaction user PJSIP_ROLE_UAS m c key branch)\<lparr>res_addr_transport := tp, res_addr_len := l\<rparr>)"
  "fits PJSIP_ROLE_UAS m ((new_transaction user PJSIP_ROLE_UAS m c key branch)
     \<lparr>res_addr_transport := tp, res_addr_len := l, transport := tp, t_addr := a, addr_len := l', is_reliable := b\<rparr>)"
  by (simp_all add: new_transaction_def fits_def flags_ok_def)

lemma new_counted:
  "w_alive w \<Longrightarrow> w_log w = [Tx_add_ref i, Register_tsx key] \<Longrightarrow> transport (w_tsx w) = None \<Longrightarrow> counted w"
  "w_alive w \<Longrightarrow> w_log w = [Register_tsx key] \<Longrightarrow> transport (w_tsx w) = None \<Longrightarrow> counted w"
  "w_alive w \<Longrightarrow> w_log w = [Transport_add_ref (tp_id tp), Register_tsx key] \<Longrightarrow> transport (w_tsx w) = Some tp \<Longrightarrow> counted w"
  by (simp_all add: counted_def refs_ok_def released_once_def tp_refs_def)

lemma new_fields [simp]:
  "transport (new_transaction user r m c key branch) = None" "state (new_transaction user r m c key branch) = PJSIP_TSX_STATE_NULL"
  by (simp_all add: new_transaction_def)

lemma created_ok: "tsx_created r m w \<Longrightarrow> tsx_ok r m 0 w \<and> w_alive w \<and> state (w_tsx w) = PJSIP_TSX_STATE_NULL"
proof (induction rule: tsx_created.induct)
  case (created_uac created fresh dest user tdata w m)
  obtain c branch key td b where "w = \<lparr>w_tsx = (new_transaction user PJSIP_ROLE_UAC m c key branch)\<lparr>last_tx := Some td, is_reliable := b\<rparr>,
      w_alive = True, w_log = [Tx_add_ref (tx_id td), Register_tsx key]\<rparr>"
    using created_uac
    by (auto simp: pjsip_tsx_create_uac_def mod_tsx_layer_register_tsx_def new_transaction_def emit_def upd_def Let_def
        split: if_splits option.splits bind_splits sum.splits)
  then show ?case by (simp add: tsx_ok_alt new_transaction_fits new_counted)
next
  case (created_uas created resp user rdata w m)
  define new where "new = (\<lambda>c key branch tp l. (new_transaction user PJSIP_ROLE_UAS m c key branch)
    \<lparr>res_addr_transport := tp, res_addr_len := l\<rparr>)"
  have "\<exists>c key branch l a. w = \<lparr>w_tsx = new c key branch None l, w_alive = True, w_log = [Register_tsx key]\<rparr> \<or>
    (\<exists>tp. w = \<lparr>w_tsx = (new c key branch (Some tp) l)\<lparr>transport := Some tp, t_addr := a, addr_len := l, is_reliable := tp_reliable tp\<rparr>,
       w_alive = True, w_log = [Transport_add_ref (tp_id tp), Register_tsx key]\<rparr>)"
    using created_uas
    by (auto simp: pjsip_tsx_create_uas_def mod_tsx_layer_register_tsx_def new_transaction_def emit_def upd_def Let_def new_def
        split: if_splits option.splits bind_splits sum.splits)
  then show ?case by (auto simp: new_def tsx_ok_alt new_transaction_fits new_counted)
qed

lemma ops_ok:
  assumes "tsx_ok r m n w" "env_ok env" "op_enabled op w"
    and "f \<or> r = PJSIP_ROLE_UAC \<and> (\<forall>err. op = Op_transport_callback (Some err) \<longrightarrow> transport (w_tsx w) \<noteq> None)"
  shows "wp f (run_op env op w) (tsx_ok r m n)"
proof -
  have f: "r = PJSIP_ROLE_UAS \<longrightarrow> f" using assms(4) by auto
  have alive: "w_alive w" using assms(3) by (cases op) simp_all
  have disp: "wp f (tsx_dispatch env event w') (\<lambda>x. tsx_ok r m n (snd x))" if "tsx_ok r m n w'" "w_alive w'" for event w'
    using dispatch_ok [OF that assms(2)] f by (rule wp_weak)
  show ?thesis
  proof (cases "\<exists>ss. op = Op_send_callback ss")
    case True
    then show ?thesis using assms(3) by (auto intro!: wp_weak [OF callback_ok [OF assms(1)]])
  next
    case False
    then have l: "tsx_live r m n w" using assms(1,3) by (cases op) (auto simp: tsx_live_def)
    note D = tsx_liveD [OF l]
    show ?thesis
    proof (cases op)
      case (Op_transport_callback res)
      then show ?thesis
        using transport_callback_ok [OF l, of res] assms(4) by (cases f; cases res) auto
    next
      case (Op_send_callback ss)
      then show ?thesis using False by simp
    next
      case (Op_set_transport sel)
      then show ?thesis
        using alive assms(1) by (simp add: pjsip_tsx_set_transport_def tsx_ok_alt fits_def)
    qed (use alive assms(1) disp live_send_ok [OF l assms(2)] terminate_ok l in
      \<open>auto simp: pjsip_tsx_send_msg_def pjsip_tsx_recv_msg_def tsx_timer_callback_def pjsip_tsx_terminate_def
         pjsip_tsx_stop_retransmit_def pjsip_tsx_retransmit_no_state_def split_beta split: option.split elim!: wp_mono\<close>)
  qed
qed

lemma run_ok: "tsx_run env w0 w \<Longrightarrow> tsx_ok r m n w0 \<Longrightarrow> env_ok env \<Longrightarrow> tsx_ok r m n w"
proof (induction rule: tsx_run.induct)
  case (run_step w w1 op w2)
  then have "wp True (run_op env op w1) (tsx_ok r m n)" by (intro ops_ok) simp_all
  then show ?case using run_step by (simp add: wp_partial)
qed simp

lemma created_run_ok: "tsx_created r m w0 \<Longrightarrow> env_ok env \<Longrightarrow> tsx_run env w0 w \<Longrightarrow> tsx_ok r m 0 w"
  using created_ok run_ok by blast

lemma tsx_ok_now: "tsx_ok r m n w \<Longrightarrow> tsx_ok r m (state_no (state (w_tsx w))) w"
  by (simp add: tsx_ok_def)

subsection \<open>Examples\<close>

definition ex_invite :: pjsip_method where "ex_invite = \<lparr>m_id = PJSIP_INVITE_METHOD, m_name = ''INVITE''\<rparr>"
definition ex_udp :: pjsip_transport where "ex_udp = \<lparr>tp_id = 5, tp_reliable = False\<rparr>"

text \<open>An environment in which the destination is resolved at once and everything is sent.\<close>

definition ex_env :: tsx_env where
  "ex_env = \<lparr>cfg_t1 = 500, cfg_t2 = 4000, cfg_t4 = 5000, cfg_td = 32000, env_transport_send = \<lambda>_. PJ_SUCCESS,
     env_resolve = \<lambda>_. ([\<lparr>ss_err = None, ss_transport = Some ex_udp, ss_addr = 1, ss_addr_len = 16, ss_cont = False\<rparr>], PJ_SUCCESS),
     env_create_ack = \<lambda>_. Inl PJ_EUNKNOWN\<rparr>"

text \<open>One in which the transport stays pending.\<close>

definition ex_slow_env :: tsx_env where "ex_slow_env = ex_env\<lparr>env_resolve := \<lambda>_. ([], PJ_EPENDING)\<rparr>"

lemma ex_env_ok [simp]: "env_ok ex_env" "env_ok ex_slow_env"
  by (simp_all add: env_ok_def ex_env_def ex_slow_env_def attempt_ok_def)

end
