(* ===== verification/Sip_Tsx_Live.thy ===== *)
theory Sip_Tsx_Live
  imports Sip_Tsx_Run
begin

text \<open>
  Transactions come to an end. In every state that a transaction must leave by itself its timeout
  timer runs; when that timer fires the transaction terminates, and when it fires again the memory is
  released, or the transaction waits for its transport to release it. This holds when
  an ACK can be built, when resolving a destination reports its failures by the callback, and when
  responses have a status code from 100 to 699; the other cases are described in \<open>Sip_Tsx_Props\<close>.
\<close>

subsection \<open>The timeout timer\<close>

definition tmo :: "tsx_world \<Rightarrow> bool" where
  "tmo w \<longleftrightarrow> timer_pending Timeout_timer (w_log w)"

lemma tmo_emit [simp]: "tmo (emit a w) = timer_step Timeout_timer a (tmo w)"
  by (simp add: tmo_def emit_def timer_pending_def)

lemma tmo_steps [simp]:
  "tmo (upd f w) = tmo w" "tmo (start_timer k d w) = (tmo w \<or> k = Timeout_timer)"
  "tmo (cancel_timer k w) = (tmo w \<and> k \<noteq> Timeout_timer)" "tmo (stop_timer Retransmit_timer w) = tmo w"
  "tmo (tsx_set_status_code c rs w) = tmo w" "tmo (set_flag F w) = tmo w" "tmo (clear_flag F w) = tmo w"
proof -
  show u: "tmo (upd f w) = tmo w" for f w by (simp add: tmo_def)
  show c: "tmo (cancel_timer k w) = (tmo w \<and> k \<noteq> Timeout_timer)" for k w by (cases k) (simp_all add: cancel_timer_def)
  show "tmo (start_timer k d w) = (tmo w \<or> k = Timeout_timer)" by (cases k) (simp_all add: start_timer_def u)
  show "tmo (stop_timer Retransmit_timer w) = tmo w" by (simp add: stop_timer_def u c)
  show "tmo (tsx_set_status_code c rs w) = tmo w" "tmo (set_flag F w) = tmo w" "tmo (clear_flag F w) = tmo w"
    by (simp_all add: tsx_set_status_code_def set_flag_def clear_flag_def u)
qed

lemma tmo_helpers [simp]:
  "tmo (release_transport w) = tmo w" "tmo (save_last_tx td w) = tmo w" "tmo (drop_last_tx td w) = tmo w"
  "tmo (notify_rx src w) = tmo w" "tmo (notify_state p st src w) = tmo w" "tmo (enter_state st src w) = tmo w"
proof -
  have n: "tmo (notify_rx src w) = tmo w" "tmo (notify_state p st src w) = tmo w" for w p st src
    by (simp_all add: notify_rx_def notify_state_def split: option.split pjsip_event_src.split)
  show "tmo (notify_rx src w) = tmo w" "tmo (notify_state p st src w) = tmo w" "tmo (enter_state st src w) = tmo w"
    by (simp_all add: n enter_state_def)
qed (simp_all add: release_transport_def save_last_tx_def drop_last_tx_def split: option.split)

text \<open>A terminated transaction will be destroyed: by its timer, or when its transport is there.\<close>

definition held :: "tsx_world \<Rightarrow> bool" where
  "held w \<longleftrightarrow> has_flag TSX_HAS_PENDING_TRANSPORT w \<and> has_flag TSX_HAS_PENDING_DESTROY w"

definition ended :: "tsx_world \<Rightarrow> bool" where
  "ended w \<longleftrightarrow> state (w_tsx w) = PJSIP_TSX_STATE_TERMINATED \<and> (tmo w \<or> held w)"

text \<open>The effect of sending: nothing, as far as the end of the transaction is concerned, or the end.\<close>

definition same_id :: "tsx_world \<Rightarrow> tsx_world \<Rightarrow> bool" where
  "same_id w w' \<longleftrightarrow> role (w_tsx w') = role (w_tsx w) \<and> t_method (w_tsx w') = t_method (w_tsx w)"

definition kept :: "tsx_world \<Rightarrow> tsx_world \<Rightarrow> bool" where
  "kept w w' \<longleftrightarrow> same_id w w' \<and>
     (w_alive w' \<longrightarrow> ended w' \<or>
        state (w_tsx w') = state (w_tsx w) \<and> state (w_tsx w) \<noteq> PJSIP_TSX_STATE_TERMINATED \<and> (tmo w \<longrightarrow> tmo w'))"

definition sound :: "tsx_world \<Rightarrow> bool" where
  "sound w \<longleftrightarrow> (state (w_tsx w) = PJSIP_TSX_STATE_TERMINATED \<longrightarrow> ended w)"

lemma kept_refl: "sound w \<Longrightarrow> kept w w"
  by (auto simp: kept_def sound_def same_id_def)

lemma kept_trans: "kept w w1 \<Longrightarrow> w_alive w1 \<Longrightarrow> kept w1 w2 \<Longrightarrow> kept w w2"
  by (auto simp: kept_def same_id_def ended_def)

lemma kept_id: "kept w w' \<Longrightarrow> role (w_tsx w') = role (w_tsx w)"
  by (simp add: kept_def same_id_def)

lemma kept_sound: "kept w w' \<Longrightarrow> w_alive w' \<Longrightarrow> sound w'"
  by (auto simp: kept_def sound_def)

text \<open>Steps that touch neither the state nor the timer.\<close>

lemma kept_to:
  "same_id w1 w2 \<Longrightarrow> state (w_tsx w2) = state (w_tsx w1) \<Longrightarrow> tmo w2 = tmo w1 \<Longrightarrow> held w2 = held w1 \<Longrightarrow>
     w_alive w2 = w_alive w1 \<Longrightarrow> kept w w2 = kept w w1"
  by (auto simp: kept_def same_id_def ended_def)

lemma kept_from:
  "same_id w1 w2 \<Longrightarrow> state (w_tsx w2) = state (w_tsx w1) \<Longrightarrow> tmo w2 = tmo w1 \<Longrightarrow> kept w2 w' = kept w1 w'"
  by (simp add: kept_def same_id_def)

subsection \<open>Changing the state\<close>

lemma destroy_id: "wp True (tsx_destroy w) (\<lambda>x. same_id w (snd x) \<and> state (w_tsx (snd x)) = state (w_tsx w) \<and>
    (\<not> has_flag TSX_HAS_PENDING_TRANSPORT w \<longrightarrow> \<not> w_alive (snd x)))"
proof -
  define w2 where "w2 = emit (Selector_dec_ref (tp_sel (w_tsx (release_transport w)))) (release_transport w)"
  define w3 where "w3 = (case last_tx (w_tsx w2) of None \<Rightarrow> w2
      | Some d \<Rightarrow> upd (\<lambda>t. t\<lparr>last_tx := None\<rparr>) (emit (Tx_dec_ref (tx_id d)) w2))"
  define w5 where "w5 = clear_flag TSX_HAS_PENDING_SEND (clear_flag TSX_HAS_PENDING_RESCHED
      (stop_timer Retransmit_timer (stop_timer Timeout_timer w3)))"
  have "same_id w w3" "state (w_tsx w3) = state (w_tsx w)" "has_flag TSX_HAS_PENDING_TRANSPORT w3 = has_flag TSX_HAS_PENDING_TRANSPORT w"
    by (auto simp: w3_def w2_def same_id_def has_flag_def split: option.split)
  then have "same_id w w5" "state (w_tsx w5) = state (w_tsx w)" "has_flag TSX_HAS_PENDING_TRANSPORT w5 = has_flag TSX_HAS_PENDING_TRANSPORT w"
    by (auto simp: w5_def same_id_def has_flag_def)
  then show ?thesis
    unfolding tsx_destroy_def Let_def w2_def [symmetric] w3_def [symmetric] w5_def [symmetric]
    by (auto simp: same_id_def emit_def)
qed

lemma state_terminated:
  "wp True (tsx_set_state PJSIP_TSX_STATE_TERMINATED src w) (\<lambda>w'. same_id w w' \<and> w_alive w' \<and> ended w')"
  by (simp add: tsx_set_state_def Let_def same_id_def ended_def held_def has_flag_def)

lemma state_other:
  "st \<noteq> PJSIP_TSX_STATE_TERMINATED \<Longrightarrow> st \<noteq> PJSIP_TSX_STATE_DESTROYED \<Longrightarrow>
    wp True (tsx_set_state st src w) (\<lambda>w'. same_id w w' \<and> w_alive w' \<and> state (w_tsx w') = st \<and> tmo w' = tmo w \<and>
      last_tx (w_tsx w') = last_tx (w_tsx w))"
  by (simp add: tsx_set_state_def Let_def same_id_def)

lemma state_destroyed:
  "wp True (tsx_set_state PJSIP_TSX_STATE_DESTROYED src w) (\<lambda>w'. same_id w w' \<and> state (w_tsx w') = PJSIP_TSX_STATE_DESTROYED \<and>
    (\<not> has_flag TSX_HAS_PENDING_TRANSPORT w \<longrightarrow> \<not> w_alive w'))"
proof -
  let ?w = "emit (Unregister_tsx (transaction_key (w_tsx (enter_state PJSIP_TSX_STATE_DESTROYED src w)))) (enter_state PJSIP_TSX_STATE_DESTROYED src w)"
  have "wp True (tsx_destroy ?w) (\<lambda>x. same_id w (snd x) \<and> state (w_tsx (snd x)) = PJSIP_TSX_STATE_DESTROYED \<and>
      (\<not> has_flag TSX_HAS_PENDING_TRANSPORT w \<longrightarrow> \<not> w_alive (snd x)))"
    by (rule wp_mono [OF destroy_id]) (auto simp: same_id_def has_flag_def)
  then show ?thesis by (simp add: tsx_set_state_def Let_def)
qed

lemma terminated_kept: "same_id w0 w \<Longrightarrow> wp True (tsx_set_state PJSIP_TSX_STATE_TERMINATED src w) (\<lambda>w'. kept w0 w' \<and> ended w')"
  by (rule wp_mono [OF state_terminated]) (auto simp: kept_def same_id_def)

subsection \<open>Sending\<close>

lemma send_failed_kept: "same_id w0 w \<Longrightarrow> wp True (send_failed st w) (\<lambda>x. kept w0 (snd x))"
  using terminated_kept [of w0 "tsx_set_status_code c rs w" for c rs]
  by (auto simp: send_failed_def Let_def same_id_def intro!: wp_mono [OF terminated_kept])

lemma send_on_transport_frame:
  assumes "send_on_transport env td w = (st, failed, w1)"
  shows "same_id w w1" "state (w_tsx w1) = state (w_tsx w)" "tmo w1 = tmo w" "held w1 = held w" "w_alive w1 = w_alive w"
    "has_flag F w1 = has_flag F w"
  using assms by (auto simp: send_on_transport_def Let_def same_id_def held_def has_flag_def split: option.splits if_splits)

lemma send_resolved_kept:
  assumes "sound w"
  shows "wp True (tsx_send_resolved env td w) (\<lambda>x. kept w (snd x))"
proof -
  obtain st failed w1 where s: "send_on_transport env td w = (st, failed, w1)" by (cases "send_on_transport env td w") auto
  note f = send_on_transport_frame [OF s]
  have "kept w w1" using kept_to [OF f(1-5)] kept_refl [OF assms] by simp
  moreover have "kept w (set_flag TSX_HAS_PENDING_SEND w)"
    using kept_refl [OF assms] by (subst kept_to [of w]) (auto simp: same_id_def held_def has_flag_def)
  ultimately show ?thesis using s send_failed_kept [OF f(1)] by (simp add: tsx_send_resolved_def)
qed

lemma kept_steps [simp]:
  "kept w0 (start_timer Retransmit_timer d w) = kept w0 w" "kept w0 (stop_timer Retransmit_timer w) = kept w0 w"
  "kept w0 (release_transport w) = kept w0 w" "kept w0 (save_last_tx td w) = kept w0 w" "kept w0 (drop_last_tx td w) = kept w0 w"
  "kept w0 (tsx_set_status_code c rs w) = kept w0 w"
  by (rule kept_to; simp add: same_id_def held_def has_flag_def)+

lemma kept_flags [simp]:
  "F \<noteq> TSX_HAS_PENDING_TRANSPORT \<Longrightarrow> F \<noteq> TSX_HAS_PENDING_DESTROY \<Longrightarrow> kept w0 (set_flag F w) = kept w0 w"
  "F \<noteq> TSX_HAS_PENDING_TRANSPORT \<Longrightarrow> F \<noteq> TSX_HAS_PENDING_DESTROY \<Longrightarrow> kept w0 (clear_flag F w) = kept w0 w"
  by (rule kept_to; auto simp: same_id_def held_def has_flag_def)+

lemma kept_emit [simp]: "(\<And>b. timer_step Timeout_timer a b = b) \<Longrightarrow> kept w0 (emit a w) = kept w0 w"
  by (rule kept_to) (simp_all add: same_id_def held_def has_flag_def)

lemma kept_upd [simp]:
  "role (f (w_tsx w)) = role (w_tsx w) \<Longrightarrow> t_method (f (w_tsx w)) = t_method (w_tsx w) \<Longrightarrow> state (f (w_tsx w)) = state (w_tsx w) \<Longrightarrow>
    transport_flag (f (w_tsx w)) = transport_flag (w_tsx w) \<Longrightarrow> kept w0 (upd f w) = kept w0 w"
  by (rule kept_to) (simp_all add: same_id_def held_def has_flag_def)

lemma resched_kept: "kept w0 w \<Longrightarrow> wp True (tsx_resched_retransmission env w) (kept w0)"
  by (simp add: tsx_resched_retransmission_def Let_def)

text \<open>What waits for the transport is done when it is there; the transaction is freed if it was to be
  destroyed.\<close>

lemma flush_kept:
  assumes "\<not> has_flag TSX_HAS_PENDING_DESTROY w \<Longrightarrow> sound w" "same_id w0 w" "state (w_tsx w) = state (w_tsx w0)" "tmo w = tmo w0"
    "\<not> has_flag TSX_HAS_PENDING_TRANSPORT w"
  shows "wp True (flush_pending env w) (kept w0)"
proof (cases "has_flag TSX_HAS_PENDING_DESTROY w")
  case True
  have "wp True (tsx_set_state PJSIP_TSX_STATE_DESTROYED Src_unknown w) (kept w0)"
    by (rule wp_mono [OF state_destroyed]) (use assms(2,5) in \<open>auto simp: kept_def same_id_def\<close>)
  then show ?thesis using True by (simp add: flush_pending_def)
next
  case False
  define tail where "tail w1 = (if has_flag TSX_HAS_PENDING_RESCHED w1
      then let w2 = clear_flag TSX_HAS_PENDING_RESCHED w1
           in if \<not> is_reliable (w_tsx w2) then tsx_resched_retransmission env w2 else Some w2
      else Some w1)" for w1
  have tail: "wp True (tail w1) (kept w0)" if "kept w0 w1" for w1
    using that by (simp add: tail_def Let_def resched_kept)
  let ?w = "clear_flag TSX_HAS_PENDING_SEND w"
  have snd: "sound ?w" using assms(1) [OF False] by (simp add: sound_def ended_def held_def has_flag_def)
  have eq: "kept ?w w' = kept w0 w'" for w' by (rule kept_from) (use assms(2-4) in \<open>simp_all add: same_id_def\<close>)
  have "kept w0 ?w" using kept_refl [OF snd] by (simp add: eq)
  then have w: "kept w0 w" by simp
  have sent: "wp True (tsx_send_resolved env td ?w) (\<lambda>x. wp True (tail (snd x)) (kept w0))" for td
    by (rule wp_mono [OF send_resolved_kept [OF snd]]) (simp_all add: eq tail)
  show ?thesis
    using sent False tail [OF w] tail [of ?w] w
    unfolding flush_pending_def tail_def [abs_def, symmetric] by (simp split: option.split)
qed

text \<open>Whether a failure is final and finds the transaction waiting for its transport to be destroyed:
  the code then forgets it.\<close>

definition forgets :: "send_state \<Rightarrow> tsx_world \<Rightarrow> bool" where
  "forgets ss w \<longleftrightarrow> ss_err ss \<noteq> None \<and> \<not> ss_cont ss \<and> state (w_tsx w) = PJSIP_TSX_STATE_TERMINATED \<and> \<not> tmo w"

lemma callback_kept:
  assumes "sound w" "\<not> forgets ss w"
  shows "wp True (send_msg_callback env ss w) (kept w)"
proof (cases "ss_err ss")
  case None
  have "wp True (update_transport ss w) (\<lambda>w1. same_id w w1 \<and> state (w_tsx w1) = state (w_tsx w) \<and> tmo w1 = tmo w \<and>
      transport_flag (w_tsx w1) = transport_flag (w_tsx w))"
    by (auto simp: update_transport_def wp_partial same_id_def split: bind_splits)
  then have "wp True (update_transport ss w) (\<lambda>w1. wp True
      (flush_pending env (set_flag TSX_HAS_RESOLVED_SERVER (clear_flag TSX_HAS_PENDING_TRANSPORT w1))) (kept w))"
  proof (rule wp_mono)
    fix w1 assume a: "same_id w w1 \<and> state (w_tsx w1) = state (w_tsx w) \<and> tmo w1 = tmo w \<and> transport_flag (w_tsx w1) = transport_flag (w_tsx w)"
    let ?w = "set_flag TSX_HAS_RESOLVED_SERVER (clear_flag TSX_HAS_PENDING_TRANSPORT w1)"
    show "wp True (flush_pending env ?w) (kept w)"
      by (rule flush_kept) (use a assms(1) in \<open>auto simp: same_id_def has_flag_def sound_def ended_def held_def\<close>)
  qed simp
  then show ?thesis using None by (simp add: send_msg_callback_def send_msg_done_def)
next
  case (Some err)
  define w1 where "w1 = (if map_option tp_id (ss_transport ss) = map_option tp_id (transport (w_tsx w)) then release_transport w else w)"
  have w1: "same_id w w1" "state (w_tsx w1) = state (w_tsx w)" "tmo w1 = tmo w" "transport_flag (w_tsx w1) = transport_flag (w_tsx w)"
    by (simp_all add: w1_def same_id_def)
  define w4 where "w4 = tsx_set_status_code PJSIP_SC_TSX_TRANSPORT_ERROR (Some (Error_text err)) (set_flag TSX_HAS_RESOLVED_SERVER
      (clear_flag TSX_HAS_PENDING_TRANSPORT (upd (\<lambda>t. t\<lparr>transport_err := err\<rparr>) w1)))"
  have w4: "same_id w w4" "state (w_tsx w4) = state (w_tsx w)" "tmo w4 = tmo w" using w1 by (simp_all add: w4_def same_id_def)
  have "kept w w1" using kept_refl [OF assms(1)] by (simp add: w1_def)
  moreover have "kept w w4" if "\<not> ss_cont ss"
    using assms Some that w4 by (auto simp: kept_def forgets_def sound_def ended_def)
  moreover have "wp True (tsx_set_state PJSIP_TSX_STATE_TERMINATED Src_transport_error w4) (kept w)"
    by (rule wp_mono [OF terminated_kept [OF w4(1)]]) simp_all
  ultimately have "wp True (send_msg_error ss err w) (kept w)"
    unfolding send_msg_error_def Let_def w1_def [symmetric] w4_def [symmetric] by simp
  then show ?thesis using Some by (simp add: send_msg_callback_def)
qed

lemma callbacks_kept:
  assumes "attempts_ok sss" "sound w" "state (w_tsx w) = PJSIP_TSX_STATE_TERMINATED \<longrightarrow> tmo w"
  shows "wp True (run_callbacks env sss w) (kept w)"
  using assms
proof (induction sss arbitrary: w rule: attempts_ok.induct)
  case 1
  then show ?case by (simp add: kept_refl)
next
  case (2 ss)
  then show ?case using callback_kept [of w ss env] by (auto simp: forgets_def)
next
  case (3 ss ss' sss)
  obtain err where ss: "ss_err ss = Some err" "ss_cont ss" using "3.prems"(1) by auto
  define w1 where "w1 = (if map_option tp_id (ss_transport ss) = map_option tp_id (transport (w_tsx w)) then release_transport w else w)"
  have w1: "same_id w w1" "state (w_tsx w1) = state (w_tsx w)" "tmo w1 = tmo w" "held w1 = held w"
    by (simp_all add: w1_def same_id_def held_def has_flag_def)
  have "wp True (run_callbacks env (ss' # sss) w1) (kept w1)"
    by (rule "3.IH") (use 3 w1 in \<open>auto simp: sound_def ended_def\<close>)
  then have "wp True (run_callbacks env (ss' # sss) w1) (kept w)" unfolding kept_from [OF w1(1-3)] by blast
  then show ?case using ss by (simp add: send_msg_callback_def send_msg_error_def Let_def w1_def)
qed

text \<open>The environments in which a transaction ends: failures to resolve a destination are reported to
  the callback and not by the status, and an ACK can be built.\<close>

definition live_env :: "tsx_env \<Rightarrow> bool" where
  "live_env env \<longleftrightarrow> env_ok env \<and> (\<forall>log. snd (env_resolve env log) \<in> {PJ_SUCCESS, PJ_EPENDING}) \<and>
     (\<forall>log. \<exists>ack. env_create_ack env log = Inr ack)"

text \<open>A failure to send ends the transaction.\<close>

definition sent_live :: "tsx_world \<Rightarrow> pj_status \<times> tsx_world \<Rightarrow> bool" where
  "sent_live w x \<longleftrightarrow> kept w (snd x) \<and> (fst x \<noteq> PJ_SUCCESS \<and> w_alive (snd x) \<longrightarrow> ended (snd x))"

lemma resolve_live:
  assumes env: "live_env env" and w: "sound w" "\<not> has_flag TSX_HAS_PENDING_TRANSPORT w"
  shows "wp True (tsx_resolve env td w) (sent_live w)"
proof -
  define w2 where "w2 = emit (if is_request (tx_line td) then Send_request td else Send_response td)
      (set_flag TSX_HAS_PENDING_TRANSPORT (emit (Tx_add_ref (tx_id td)) w))"
  have w2: "same_id w w2" "state (w_tsx w2) = state (w_tsx w)" "tmo w2 = tmo w" by (simp_all add: w2_def same_id_def)
  have t: "state (w_tsx w2) = PJSIP_TSX_STATE_TERMINATED \<longrightarrow> tmo w2"
    using w w2 by (auto simp: sound_def ended_def held_def)
  have a: "attempts_ok (fst (env_resolve env (w_log w2)))" and r: "snd (env_resolve env (w_log w2)) \<in> {PJ_SUCCESS, PJ_EPENDING}"
    using env by (simp_all add: live_env_def env_ok_def)
  have "wp True (run_callbacks env (fst (env_resolve env (w_log w2))) w2) (kept w2)"
    by (rule callbacks_kept [OF a _ t]) (use t in \<open>auto simp: sound_def ended_def\<close>)
  then have "wp True (run_callbacks env (fst (env_resolve env (w_log w2))) w2) (\<lambda>w3. w_alive w3 \<longrightarrow>
      sent_live w (if state (w_tsx w3) = PJSIP_TSX_STATE_TERMINATED then transport_err (w_tsx w3) else PJ_SUCCESS, w3))"
    unfolding kept_from [OF w2] by (rule wp_mono) (auto simp: sent_live_def kept_def ended_def)
  with r show ?thesis
    unfolding tsx_resolve_def Let_def w2_def [symmetric] by (auto simp: split_beta elim!: wp_mono)
qed

lemma send_msg_live:
  assumes env: "live_env env" and w: "sound w"
  shows "wp True (tsx_send_msg env td w) (sent_live w)"
proof -
  obtain st failed w1 where s: "send_on_transport env td w = (st, failed, w1)" by (cases "send_on_transport env td w") auto
  note f = send_on_transport_frame [OF s]
  have k: "kept w w1" using kept_to [OF f(1-5)] kept_refl [OF w] by simp
  have "sound w1" using w f by (simp add: sound_def ended_def)
  then have "wp True (tsx_resolve env td w1) (sent_live w)" if "\<not> has_flag TSX_HAS_PENDING_TRANSPORT w"
    using resolve_live [OF env, of w1 td] that f kept_from [OF f(1-3)] by (simp add: sent_live_def [abs_def])
  moreover have "wp True (send_failed st w1) (sent_live w)"
    unfolding send_failed_def Let_def wp_simps
    by (rule wp_mono [OF terminated_kept]) (use f in \<open>auto simp: sent_live_def same_id_def\<close>)
  moreover have "kept w (set_flag TSX_HAS_PENDING_SEND w)" using kept_refl [OF w] by simp
  ultimately show ?thesis using s k by (simp add: tsx_send_msg_def sent_live_def)
qed

lemma retransmit_live:
  assumes env: "live_env env" and w: "sound w"
  shows "wp True (tsx_retransmit env b w) (\<lambda>x. kept w (snd x))"
proof (cases "last_tx (w_tsx w)")
  case None
  then show ?thesis using kept_refl [OF w] by (simp add: tsx_retransmit_def)
next
  case (Some td)
  let ?w1 = "upd (\<lambda>t. t\<lparr>retransmit_count := retransmit_count t + 1\<rparr>) w"
  let ?r = "if b then (if has_flag TSX_HAS_PENDING_TRANSPORT ?w1 then Some (set_flag TSX_HAS_PENDING_RESCHED ?w1)
      else tsx_resched_retransmission env ?w1) else Some ?w1"
  have r: "wp True ?r (\<lambda>w2. same_id w w2 \<and> state (w_tsx w2) = state (w_tsx w) \<and> tmo w2 = tmo w \<and> held w2 = held w)"
    by (auto simp: tsx_resched_retransmission_def Let_def same_id_def held_def has_flag_def)
  have "wp True ?r (\<lambda>w2. wp True (tsx_send_msg env td w2) (\<lambda>x. kept w (snd x)))"
  proof (rule wp_mono [OF r])
    fix w2 assume a: "same_id w w2 \<and> state (w_tsx w2) = state (w_tsx w) \<and> tmo w2 = tmo w \<and> held w2 = held w"
    then have "sound w2" using w by (simp add: sound_def ended_def)
    from send_msg_live [OF env this] show "wp True (tsx_send_msg env td w2) (\<lambda>x. kept w (snd x))"
      by (rule wp_mono) (use a kept_from [of w w2] in \<open>simp_all add: sent_live_def\<close>)
  qed simp
  then have "wp True (?r \<bind> tsx_send_msg env td) (\<lambda>x. kept w (snd x))" unfolding wp_simps .
  moreover have "w_alive w \<Longrightarrow> tsx_retransmit env b w = ?r \<bind> tsx_send_msg env td"
    by (simp add: tsx_retransmit_def Some live_def Let_def)
  ultimately show ?thesis by (cases "w_alive w") (simp_all add: tsx_retransmit_def live_def)
qed

subsection \<open>Handlers\<close>

text \<open>The states that a transaction leaves by itself.\<close>

definition needs_timer :: "pjsip_transaction \<Rightarrow> bool" where
  "needs_timer t \<longleftrightarrow> state t \<in> {PJSIP_TSX_STATE_CALLING, PJSIP_TSX_STATE_COMPLETED, PJSIP_TSX_STATE_CONFIRMED} \<or>
     state t = PJSIP_TSX_STATE_PROCEEDING \<and> role t = PJSIP_ROLE_UAC \<and> m_id (t_method t) \<noteq> PJSIP_INVITE_METHOD"

definition timed :: "tsx_world \<Rightarrow> bool" where
  "timed w \<longleftrightarrow> (w_alive w \<longrightarrow> (needs_timer (w_tsx w) \<longrightarrow> tmo w) \<and> sound w)"

lemma kept_timed: "timed w \<Longrightarrow> w_alive w \<Longrightarrow> kept w w' \<Longrightarrow> timed w'"
  by (auto simp: timed_def kept_def same_id_def needs_timer_def sound_def ended_def)

lemma ended_timed: "ended w \<Longrightarrow> timed w" "\<not> w_alive w \<Longrightarrow> timed w"
  by (simp_all add: timed_def sound_def ended_def needs_timer_def)

lemma retransmit_timed:
  assumes "live_env env" "timed w" "w_alive w"
  shows "wp True (tsx_retransmit env b w) (\<lambda>x. timed (snd x))"
proof (rule wp_mono [OF retransmit_live [OF assms(1)]])
  show "sound w" using assms(2,3) by (simp add: timed_def)
qed (simp_all add: kept_timed [OF assms(2,3)])

lemma send_timed:
  assumes "live_env env" "timed w" "w_alive w"
  shows "wp True (tsx_send_msg env td w) (\<lambda>x. timed (snd x))"
proof (rule wp_mono [OF send_msg_live [OF assms(1)]])
  show "sound w" using assms(2,3) by (simp add: timed_def)
qed (simp_all add: sent_live_def kept_timed [OF assms(2,3)])

lemma terminated_timed: "wp True (tsx_set_state PJSIP_TSX_STATE_TERMINATED src w) timed"
  by (rule wp_mono [OF state_terminated]) (simp_all add: ended_timed)

lemma other_timed:
  assumes "st \<noteq> PJSIP_TSX_STATE_TERMINATED" "needs_timer ((w_tsx w)\<lparr>state := st\<rparr>) \<longrightarrow> tmo w"
  shows "wp True (tsx_set_state st src w) timed"
proof (cases "st = PJSIP_TSX_STATE_DESTROYED")
  case True
  show ?thesis unfolding True by (rule wp_mono [OF state_destroyed]) (simp_all add: timed_def needs_timer_def sound_def)
next
  case False
  show ?thesis
    by (rule wp_mono [OF state_other [OF assms(1) False]]) (use assms(1,2) in \<open>auto simp: timed_def needs_timer_def sound_def same_id_def\<close>)
qed

lemma timed_steps [simp]:
  "timed w \<Longrightarrow> (\<And>b. timer_step Timeout_timer a b = b) \<Longrightarrow> timed (emit a w)" "timed w \<Longrightarrow> timed (stop_timer Retransmit_timer w)"
  by (simp_all add: timed_def needs_timer_def sound_def ended_def held_def has_flag_def)

lemma set_flag_timed: "timed w \<Longrightarrow> timed (set_flag TSX_HAS_PENDING_SEND w)"
  by (auto simp: timed_def needs_timer_def sound_def ended_def held_def has_flag_def)

lemma needs_simps [simp]:
  "needs_timer ((w_tsx (start_timer k d w))\<lparr>state := st\<rparr>) = needs_timer ((w_tsx w)\<lparr>state := st\<rparr>)"
  "needs_timer ((w_tsx (cancel_timer k w))\<lparr>state := st\<rparr>) = needs_timer ((w_tsx w)\<lparr>state := st\<rparr>)"
  "needs_timer ((w_tsx (stop_timer k w))\<lparr>state := st\<rparr>) = needs_timer ((w_tsx w)\<lparr>state := st\<rparr>)"
  by (simp_all add: needs_timer_def)

lemma null_timed:
  assumes "live_env env" "timed w" "w_alive w"
  shows "wp True (tsx_on_state_null env event w) (\<lambda>x. timed (snd x))"
proof -
  have sent: "wp True (null_uac_sent env td w') (\<lambda>x. timed (snd x))" for td w'
    by (auto simp: null_uac_sent_def Let_def start_retransmission_def intro!: other_timed)
  let ?w = "\<lambda>td. save_last_tx td (drop_last_tx td w)"
  have "wp True (tsx_send_msg env td (?w td)) (\<lambda>x. (fst x \<noteq> PJ_SUCCESS \<longrightarrow> timed (snd x)) \<and>
      (fst x = PJ_SUCCESS \<longrightarrow> wp True (null_uac_sent env td (snd x)) (\<lambda>x. timed (snd x))))" for td
  proof -
    have t: "timed (?w td)" "sound (?w td)"
      using assms by (auto simp: timed_def sound_def ended_def held_def has_flag_def needs_timer_def)
    from send_msg_live [OF assms(1) t(2)] show ?thesis
      by (rule wp_mono) (use t assms(3) sent in \<open>auto simp: sent_live_def intro: kept_timed\<close>)
  qed
  then show ?thesis using assms
    by (simp add: tsx_on_state_null_def split_beta other_timed needs_timer_def split: pjsip_event.split)
qed

lemma uac_completed_timed: "wp True (uac_completed env src invite ack w) (\<lambda>x. timed (snd x))"
proof -
  have t: "timed (start_timer_D env w1)" if "state (w_tsx w1) = PJSIP_TSX_STATE_COMPLETED" for w1
    using that by (simp add: timed_def sound_def start_timer_D_def Let_def)
  have "wp True (replace_last_tx ack w1) (\<lambda>w2. timed (start_timer_D env w2))" if "state (w_tsx w1) = PJSIP_TSX_STATE_COMPLETED" for w1
    using that t by (auto simp: replace_last_tx_def wp_partial split: bind_splits)
  with t show ?thesis unfolding uac_completed_def wp_simps
    by (intro wp_mono [OF state_other]) simp_all
qed

lemma uac_fail_timed:
  assumes env: "live_env env" and w: "state (w_tsx w) \<noteq> PJSIP_TSX_STATE_TERMINATED"
  shows "wp True (proceeding_uac_fail env src w) (\<lambda>x. timed (snd x))"
proof -
  define w1 where "w1 = cancel_timer Timeout_timer (upd (set_timer_id Timeout_timer 0) (stop_timer Retransmit_timer w))"
  have s: "sound w1" using w by (simp add: sound_def w1_def)
  obtain ack where ack: "env_create_ack env (w_log w1) = Inr ack" using env by (auto simp: live_env_def)
  have "wp True (tsx_send_msg env ack w1) (\<lambda>x. (fst x \<noteq> PJ_SUCCESS \<longrightarrow> timed (snd x)) \<and> (fst x = PJ_SUCCESS \<longrightarrow>
      wp True (uac_completed env src True (Some ack) (snd x)) (\<lambda>x. timed (snd x))))"
    by (rule wp_mono [OF send_msg_live [OF env s]])
      (auto simp: sent_live_def uac_completed_timed intro: ended_timed)
  then show ?thesis
    unfolding proceeding_uac_fail_def Let_def w1_def [symmetric]
    by (simp add: send_ack_def ack split_beta uac_completed_timed)
qed

lemma uac_2xx_timed: "wp True (proceeding_uac_2xx env src w) (\<lambda>x. timed (snd x))"
  by (auto simp: proceeding_uac_2xx_def Let_def terminated_timed intro!: other_timed)

lemma uac_status_timed:
  assumes env: "live_env env" and w: "state (w_tsx w) \<noteq> PJSIP_TSX_STATE_TERMINATED"
    and code: "src = Src_timer Timeout_timer \<and> 300 \<le> status_code (w_tsx w) \<or> 100 \<le> status_code (w_tsx w) \<and> status_code (w_tsx w) \<le> 699"
    and prov: "status_code (w_tsx w) < 200 \<Longrightarrow> role (w_tsx w) = PJSIP_ROLE_UAC \<Longrightarrow> m_id (t_method (w_tsx w)) \<noteq> PJSIP_INVITE_METHOD \<Longrightarrow> tmo w"
  shows "wp True (proceeding_uac_status env src w) (\<lambda>x. timed (snd x))"
proof -
  let ?c = "status_code (w_tsx w)"
  have cls: "PJSIP_IS_STATUS_IN_CLASS ?c 100 \<longleftrightarrow> ?c < 200" "PJSIP_IS_STATUS_IN_CLASS ?c 200 \<longleftrightarrow> 200 \<le> ?c \<and> ?c < 300"
    using code by (auto simp: PJSIP_IS_STATUS_IN_CLASS_def cdiv_def)
  have "wp True (tsx_set_state PJSIP_TSX_STATE_PROCEEDING src w) timed" if "?c < 200"
    by (rule other_timed) (use prov that in \<open>auto simp: needs_timer_def\<close>)
  then show ?thesis using code cls
    by (auto simp: proceeding_uac_status_def Let_def uac_2xx_timed terminated_timed uac_fail_timed [OF env w])
qed

text \<open>Messages with a status code from 100 to 699.\<close>

definition fair_event :: "pjsip_event \<Rightarrow> bool" where
  "fair_event event \<longleftrightarrow> (\<forall>rdata code reason. event = Rx_msg_event rdata \<and> rx_line rdata = Status_line code reason \<longrightarrow> 100 \<le> code \<and> code \<le> 699)"

lemma proceeding_uac_timed:
  assumes env: "live_env env" and w: "w_alive w" "state (w_tsx w) \<noteq> PJSIP_TSX_STATE_TERMINATED" and ev: "fair_event event"
    and t: "event = Timer_event Retransmit_timer \<or> (\<exists>td. event = Tx_msg_event td) \<or> (\<exists>rdata m. event = Rx_msg_event rdata \<and> rx_line rdata = Request_line m) \<Longrightarrow> timed w"
    and prov: "\<And>rdata code reason. event = Rx_msg_event rdata \<Longrightarrow> rx_line rdata = Status_line code reason \<Longrightarrow> code < 200 \<Longrightarrow>
      role (w_tsx w) = PJSIP_ROLE_UAC \<Longrightarrow> m_id (t_method (w_tsx w)) \<noteq> PJSIP_INVITE_METHOD \<Longrightarrow> tmo w"
  shows "wp True (tsx_on_state_proceeding_uac env event w) (\<lambda>x. timed (snd x))"
proof (cases event)
  case (Timer_event k)
  show ?thesis
  proof (cases k)
    case Retransmit_timer
    then have "timed w" using t Timer_event by simp
    then show ?thesis using Timer_event Retransmit_timer w retransmit_timed [OF env]
      by (simp add: tsx_on_state_proceeding_uac_def)
  next
    case Timeout_timer
    have "wp True (proceeding_uac_status env (Src_timer Timeout_timer) (tsx_set_status_code PJSIP_SC_TSX_TIMEOUT None w)) (\<lambda>x. timed (snd x))"
      by (rule uac_status_timed [OF env]) (use w in \<open>simp_all add: tsx_set_status_code_def PJSIP_SC_TSX_TIMEOUT_def\<close>)
    then show ?thesis using Timer_event Timeout_timer w by (simp add: tsx_on_state_proceeding_uac_def)
  qed
next
  case (Tx_msg_event td)
  then show ?thesis using t w by (simp add: tsx_on_state_proceeding_uac_def)
next
  case (Rx_msg_event rdata)
  show ?thesis
  proof (cases "rx_line rdata")
    case (Request_line m)
    then show ?thesis using t w Rx_msg_event by (simp add: tsx_on_state_proceeding_uac_def)
  next
    case (Status_line code reason)
    have "wp True (proceeding_uac_status env (Src_rx_msg rdata) (tsx_set_status_code code (Some (Given_text reason)) w)) (\<lambda>x. timed (snd x))"
      by (rule uac_status_timed [OF env]) (use w ev prov Rx_msg_event Status_line in \<open>auto simp: tsx_set_status_code_def fair_event_def\<close>)
    then show ?thesis using Rx_msg_event Status_line w by (simp add: tsx_on_state_proceeding_uac_def)
  qed
qed

lemma calling_frame [simp]:
  "w_alive (calling_response_timers env code w) = w_alive w" "state (w_tsx (calling_response_timers env code w)) = state (w_tsx w)"
  "role (w_tsx (calling_response_timers env code w)) = role (w_tsx w)" "t_method (w_tsx (calling_response_timers env code w)) = t_method (w_tsx w)"
  by (simp_all add: calling_response_timers_def Let_def)

lemma calling_timed:
  assumes env: "live_env env" and w: "w_alive w" "state (w_tsx w) = PJSIP_TSX_STATE_CALLING" and ev: "fair_event event"
    and t: "event \<noteq> Timer_event Timeout_timer \<Longrightarrow> timed w"
  shows "wp True (tsx_on_state_calling env event w) (\<lambda>x. timed (snd x))"
proof (cases event)
  case (Timer_event k)
  then show ?thesis
    using w t retransmit_timed [OF env _ w(1)] by (cases k) (simp_all add: tsx_on_state_calling_def terminated_timed)
next
  case (Tx_msg_event td)
  then show ?thesis using w t by (simp add: tsx_on_state_calling_def)
next
  case (Rx_msg_event rdata)
  show ?thesis
  proof (cases "rx_line rdata")
    case (Request_line m)
    then show ?thesis using w t Rx_msg_event by (simp add: tsx_on_state_calling_def)
  next
    case (Status_line code reason)
    have tm: "tmo w" using t Rx_msg_event w by (auto simp: timed_def needs_timer_def)
    have "wp True (tsx_on_state_proceeding_uac env event (clear_flag TSX_HAS_PENDING_RESCHED (calling_response_timers env code w))) (\<lambda>x. timed (snd x))"
      by (rule proceeding_uac_timed [OF env _ _ ev])
        (use w tm Rx_msg_event Status_line in \<open>auto simp: calling_response_timers_def Let_def\<close>)
    then show ?thesis using Rx_msg_event Status_line w by (simp add: tsx_on_state_calling_def split_beta)
  qed
qed

lemma uas_2xx_timed: "wp True (proceeding_uas_2xx env td w) (\<lambda>x. timed (snd x))"
proof -
  have go: "wp True (tsx_set_state PJSIP_TSX_STATE_COMPLETED (Src_tx_msg td) (start_timer Timeout_timer d w')) (\<lambda>w''. timed w'')" for d w'
    by (rule other_timed) simp_all
  show ?thesis by (cases "transport (w_tsx w)") (simp_all add: proceeding_uas_2xx_def Let_def go terminated_timed start_retransmission_def)
qed

lemma uas_fail_timed: "wp True (proceeding_uas_fail env td w) (\<lambda>x. timed (snd x))"
proof -
  have go: "wp True (tsx_set_state PJSIP_TSX_STATE_COMPLETED (Src_tx_msg td) w') (\<lambda>w''. timed w'')" if "tmo w'" for w'
    by (rule other_timed) (simp_all add: that)
  show ?thesis
    by (cases "tx_cseq td") (auto simp: proceeding_uas_fail_def Let_def go start_retransmission_def)
qed

lemma uas_sent_timed:
  assumes "timed w" "role (w_tsx w) = PJSIP_ROLE_UAS"
  shows "wp True (proceeding_uas_sent env td w) (\<lambda>x. timed (snd x))"
  using assms by (auto simp: proceeding_uas_sent_def uas_2xx_timed uas_fail_timed needs_timer_def intro!: other_timed)

lemma proceeding_uas_timed:
  assumes env: "live_env env" and w: "w_alive w" "role (w_tsx w) = PJSIP_ROLE_UAS" and t: "event \<noteq> Timer_event Timeout_timer \<Longrightarrow> timed w"
  shows "wp True (tsx_on_state_proceeding_uas env event w) (\<lambda>x. timed (snd x))"
proof -
  let ?w = "\<lambda>td code reason. drop_last_tx td (tsx_set_status_code code (Some (Given_text reason)) w)"
  have "wp True (tsx_send_msg env td (?w td code reason)) (\<lambda>x. (fst x \<noteq> PJ_SUCCESS \<longrightarrow> timed (snd x)) \<and>
      (fst x = PJ_SUCCESS \<longrightarrow> wp True (proceeding_uas_sent env td (snd x)) (\<lambda>x. timed (snd x))))" if "timed w" for td code reason
  proof -
    have t': "timed (?w td code reason)" "sound (?w td code reason)"
      using that w(1) by (auto simp: timed_def sound_def ended_def held_def has_flag_def needs_timer_def)
    from send_msg_live [OF env t'(2)] show ?thesis
      by (rule wp_mono)
        (use t' w in \<open>auto simp: sent_live_def intro!: uas_sent_timed intro: kept_timed dest: kept_id\<close>)
  qed
  then show ?thesis using w t retransmit_timed [OF env _ w(1)] send_timed [OF env _ w(1)]
    by (auto simp: tsx_on_state_proceeding_uas_def split_beta terminated_timed set_flag_timed
        split: pjsip_event.split tsx_timer.split pjsip_msg_line.split option.split)
qed

lemma trying_timed:
  assumes env: "live_env env" and w: "tsx_live PJSIP_ROLE_UAS m n w" "n \<le> 2" and t: "timed w"
  shows "wp True (tsx_on_state_trying env event w) (\<lambda>x. timed (snd x))"
proof (cases event)
  case (Tx_msg_event td)
  have a: "w_alive w" "role (w_tsx w) = PJSIP_ROLE_UAS" using tsx_liveD [OF w(1)] w(1) by (simp_all add: tsx_live_def tsx_ok_def fits_def)
  have ok: "wp True (tsx_on_state_proceeding_uas env (Tx_msg_event td) w) (\<lambda>x. tsx_ok PJSIP_ROLE_UAS m n (snd x))"
    using w env by (intro proceeding_uas_ok) (simp_all add: live_env_def)
  have tm: "wp True (tsx_on_state_proceeding_uas env (Tx_msg_event td) w) (\<lambda>x. timed (snd x))"
    by (rule proceeding_uas_timed [OF env a]) (use t in simp)
  have pr: "wp True (tsx_set_state PJSIP_TSX_STATE_PROCEEDING src w') timed" if "tsx_ok PJSIP_ROLE_UAS m n w'" for src w'
    by (rule other_timed) (use tsx_okD(6) [OF that] in \<open>simp_all add: needs_timer_def\<close>)
  show ?thesis unfolding tsx_on_state_trying_def Tx_msg_event wp_simps wp_live pjsip_event.case split_beta
    by (simp, intro impI wp_mono [OF wp_conj [OF ok tm]]) (simp_all add: pr)
qed (use t in \<open>simp_all add: tsx_on_state_trying_def\<close>)

lemma completed_uas_timed:
  assumes env: "live_env env" and w: "w_alive w" and t: "event \<noteq> Timer_event Timeout_timer \<Longrightarrow> timed w"
  shows "wp True (tsx_on_state_completed_uas env event w) (\<lambda>x. timed (snd x))"
proof -
  have go: "wp True (tsx_set_state PJSIP_TSX_STATE_CONFIRMED src (start_timer Timeout_timer d w')) (\<lambda>w''. timed w'')" for src d w'
    by (rule other_timed) simp_all
  have "wp True (completed_uas_ack env rdata w) (\<lambda>x. timed (snd x))" for rdata
    by (cases "transport (w_tsx w)") (simp_all add: completed_uas_ack_def Let_def go)
  then show ?thesis using w t retransmit_timed [OF env _ w]
    by (auto simp: tsx_on_state_completed_uas_def terminated_timed split: pjsip_event.split tsx_timer.split pjsip_msg_line.split)
qed

lemma completed_uac_timed:
  assumes env: "live_env env" and w: "w_alive w" and t: "event \<noteq> Timer_event Timeout_timer \<Longrightarrow> timed w"
  shows "wp True (tsx_on_state_completed_uac env event w) (\<lambda>x. timed (snd x))"
  using w t retransmit_timed [OF env _ w]
  by (auto simp: tsx_on_state_completed_uac_def terminated_timed split: pjsip_event.split pjsip_msg_line.split)

lemma confirmed_timed:
  assumes w: "w_alive w" and t: "event \<noteq> Timer_event Timeout_timer \<Longrightarrow> timed w"
  shows "wp True (tsx_on_state_confirmed env event w) (\<lambda>x. timed (snd x))"
  using w t by (auto simp: tsx_on_state_confirmed_def terminated_timed split: pjsip_event.split)

lemma terminated_state_timed: "wp True (tsx_on_state_terminated env event w) (\<lambda>x. timed (snd x))"
  using other_timed [of PJSIP_TSX_STATE_DESTROYED w "event_src event"] by (simp add: tsx_on_state_terminated_def needs_timer_def)

lemma idle_timed: "state (w_tsx w) \<in> {PJSIP_TSX_STATE_NULL, PJSIP_TSX_STATE_TRYING} \<Longrightarrow> timed w"
  by (auto simp: timed_def needs_timer_def sound_def)

lemma dispatch_timed:
  assumes env: "live_env env" and l: "tsx_live r m n w" and ev: "fair_event event" and t: "event \<noteq> Timer_event Timeout_timer \<Longrightarrow> timed w"
  shows "wp True (tsx_dispatch env event w) (\<lambda>x. timed (snd x))"
proof -
  note D = tsx_liveD [OF l]
  have uac: "wp True (tsx_on_state_proceeding_uac env event w) (\<lambda>x. timed (snd x))" if "r = PJSIP_ROLE_UAC" "state (w_tsx w) = PJSIP_TSX_STATE_PROCEEDING"
    by (rule proceeding_uac_timed [OF env D(5) _ ev]) (use that t D(5,6) in \<open>auto simp: timed_def needs_timer_def\<close>)
  have tr: "wp True (tsx_on_state_trying env event w) (\<lambda>x. timed (snd x))" if "r = PJSIP_ROLE_UAS" "state (w_tsx w) = PJSIP_TSX_STATE_TRYING"
    by (rule trying_timed [OF env, of m 2]) (use that D(4) l in \<open>simp_all add: idle_timed tsx_live_def tsx_ok_def\<close>)
  have nl: "wp True (tsx_on_state_null env event w) (\<lambda>x. timed (snd x))" if "state (w_tsx w) = PJSIP_TSX_STATE_NULL"
    using that D(5) by (intro null_timed [OF env]) (simp_all add: idle_timed)
  note H = nl tr uac calling_timed [OF env D(5) _ ev t] proceeding_uas_timed [OF env D(5) _ t] completed_uas_timed [OF env D(5) t]
    completed_uac_timed [OF env D(5) t] confirmed_timed [OF D(5) t] terminated_state_timed
  show ?thesis
    using D(4-6,8,9) tsx_okD(4) [OF D(4)] H by (cases r; cases "state (w_tsx w)") (simp_all add: tsx_dispatch_def)
qed

subsection \<open>Runs\<close>

fun fair_op :: "tsx_op \<Rightarrow> tsx_world \<Rightarrow> bool" where
  "fair_op (Op_recv rdata) w \<longleftrightarrow> fair_event (Rx_msg_event rdata)"
| "fair_op (Op_send_callback ss) w \<longleftrightarrow> \<not> forgets ss w"
| "fair_op _ w \<longleftrightarrow> True"

inductive fair_run :: "tsx_env \<Rightarrow> tsx_world \<Rightarrow> tsx_world \<Rightarrow> bool" for env where
  fair_start: "fair_run env w w"
| fair_step: "fair_run env w w1 \<Longrightarrow> op_enabled op w1 \<Longrightarrow> fair_op op w1 \<Longrightarrow> run_op env op w1 = Some w2 \<Longrightarrow> fair_run env w w2"

lemma fair_run_run: "fair_run env w w' \<Longrightarrow> tsx_run env w w'"
  by (induction rule: fair_run.induct) (auto intro: tsx_run.intros)

lemma fair_events [simp]: "fair_event (Tx_msg_event td)" "fair_event (Timer_event k)"
  by (simp_all add: fair_event_def)

lemma op_timed:
  assumes env: "live_env env" and ok: "tsx_ok r m n w" and en: "op_enabled op w" "fair_op op w" and t: "timed w"
  shows "wp True (run_op env op w) timed"
proof (cases "\<exists>ss. op = Op_send_callback ss")
  case True
  then obtain ss where op: "op = Op_send_callback ss" by blast
  then have a: "w_alive w" "sound w" "\<not> forgets ss w" using en t by (simp_all add: timed_def)
  have "wp True (send_msg_callback env ss w) timed"
    by (rule wp_mono [OF callback_kept [OF a(2,3)]]) (simp_all add: kept_timed [OF t a(1)])
  then show ?thesis using op by simp
next
  case False
  then have l: "tsx_live r m n w" using ok en by (cases op) (auto simp: tsx_live_def)
  note D = tsx_liveD [OF l]
  show ?thesis
  proof (cases op)
    case (Op_send msg)
    have "wp True (tsx_dispatch env (Tx_msg_event td) (emit (Set_tx_transport i j) w)) (\<lambda>x. timed (if b x then emit (Tx_dec_ref k) (snd x) else snd x))" for td i j b k
      by (rule wp_mono [OF dispatch_timed [OF env, of r m n]]) (use l t in simp_all)
    then show ?thesis using Op_send D(5) t by (simp add: pjsip_tsx_send_msg_def split_beta split: option.split)
  next
    case (Op_recv rdata)
    then show ?thesis using dispatch_timed [OF env l, of "Rx_msg_event rdata"] en t by (simp add: pjsip_tsx_recv_msg_def)
  next
    case (Op_timer k)
    let ?w = "upd (set_timer_id k 0) (emit (Timer_fired k) w)"
    have tm: "timed ?w" if "Timer_event k \<noteq> Timer_event Timeout_timer"
      using t that by (cases k) (simp_all add: timed_def needs_timer_def sound_def ended_def held_def has_flag_def)
    have lv: "tsx_live r m n ?w" using l by simp
    have "wp True (tsx_dispatch env (Timer_event k) ?w) (\<lambda>x. timed (snd x))"
      by (rule dispatch_timed [OF env lv _ tm]) simp
    then show ?thesis using Op_timer by (simp add: tsx_timer_callback_def)
  next
    case (Op_retransmit_no_state msg)
    have "wp True (tsx_send_msg env td w) (\<lambda>x. timed (if b x then emit (Tx_dec_ref k) (snd x) else snd x))" for td b k
      by (rule wp_mono [OF send_timed [OF env t D(5)]]) simp_all
    then show ?thesis using Op_retransmit_no_state t by (simp add: pjsip_tsx_retransmit_no_state_def split_beta split: option.split)
  next
    case (Op_set_transport sel)
    then show ?thesis using t by (simp add: pjsip_tsx_set_transport_def timed_def needs_timer_def sound_def ended_def held_def has_flag_def)
  next
    case (Op_transport_callback res)
    then show ?thesis using t by (cases "transport (w_tsx w)") (auto simp: transport_callback_def terminated_timed split: option.split)
  qed (use t False in \<open>simp_all add: pjsip_tsx_terminate_def pjsip_tsx_stop_retransmit_def terminated_timed\<close>)
qed

lemma fair_run_timed:
  assumes "fair_run env w0 w" "live_env env" "tsx_created r m w0"
  shows "timed w"
  using assms
proof (induction rule: fair_run.induct)
  case (fair_start w)
  then have "state (w_tsx w) = PJSIP_TSX_STATE_NULL" using created_ok by blast
  then show ?case by (simp add: idle_timed)
next
  case (fair_step w0 w1 op w2)
  have "tsx_ok r m 0 w1"
    using fair_step created_run_ok fair_run_run by (auto simp: live_env_def)
  then have "wp True (run_op env op w1) timed" using fair_step by (intro op_timed) simp_all
  then show ?case using fair_step by (simp add: wp_partial)
qed

subsection \<open>The timeout\<close>

lemma set_state_terminated_eq:
  "w_alive w \<Longrightarrow> \<exists>w'. tsx_set_state PJSIP_TSX_STATE_TERMINATED src w = Some w' \<and> w_alive w' \<and> ended w' \<and>
     state_handler (w_tsx w') = Some On_terminated \<and> (has_flag TSX_HAS_PENDING_TRANSPORT w' \<longrightarrow> has_flag TSX_HAS_PENDING_DESTROY w')"
  by (simp add: tsx_set_state_def live_def Let_def ended_def held_def has_flag_def)

lemma timeout_terminates:
  assumes ok: "tsx_ok r m n w" and w: "w_alive w" "needs_timer (w_tsx w)"
  shows "\<exists>w'. tsx_timer_callback env Timeout_timer w = Some w' \<and> w_alive w' \<and> ended w' \<and>
     state_handler (w_tsx w') = Some On_terminated \<and> (has_flag TSX_HAS_PENDING_TRANSPORT w' \<longrightarrow> has_flag TSX_HAS_PENDING_DESTROY w')"
proof -
  note T = tsx_okD [OF ok]
  let ?w = "upd (set_timer_id Timeout_timer 0) (emit (Timer_fired Timeout_timer) w)"
  have go: "\<exists>w'. tsx_set_state PJSIP_TSX_STATE_TERMINATED src w1 = Some w' \<and> w_alive w' \<and> ended w' \<and>
     state_handler (w_tsx w') = Some On_terminated \<and> (has_flag TSX_HAS_PENDING_TRANSPORT w' \<longrightarrow> has_flag TSX_HAS_PENDING_DESTROY w')"
    if "w_alive w1" for src w1 by (rule set_state_terminated_eq [OF that])
  have st: "proceeding_uac_status env (Src_timer Timeout_timer) (tsx_set_status_code PJSIP_SC_TSX_TIMEOUT None ?w) =
      succeed (tsx_set_state PJSIP_TSX_STATE_TERMINATED (Src_timer Timeout_timer) (tsx_set_status_code PJSIP_SC_TSX_TIMEOUT None ?w))"
    by (simp add: proceeding_uac_status_def tsx_set_status_code_def PJSIP_SC_TSX_TIMEOUT_def PJSIP_IS_STATUS_IN_CLASS_def cdiv_def)
  show ?thesis
    using w T(3,4,6) by (cases r; cases "state (w_tsx w)")
      (auto simp: needs_timer_def tsx_timer_callback_def live_def tsx_dispatch_def tsx_on_state_calling_def tsx_on_state_proceeding_uac_def st
        tsx_on_state_completed_uas_def tsx_on_state_completed_uac_def tsx_on_state_confirmed_def succeed_def go)
qed

text \<open>A terminated transaction is freed by its timer, or by its transport.\<close>

lemma destroyed_frees:
  assumes "w_alive w" "\<not> has_flag TSX_HAS_PENDING_TRANSPORT w"
  shows "\<exists>w'. tsx_set_state PJSIP_TSX_STATE_DESTROYED src w = Some w' \<and> \<not> w_alive w'"
proof -
  have "tsx_destroy w1 \<noteq> None" if "w_alive w1" for w1 using that by (simp add: tsx_destroy_def live_def Let_def)
  then have "tsx_set_state PJSIP_TSX_STATE_DESTROYED src w \<noteq> None" using assms(1) by (simp add: tsx_set_state_def live_def Let_def)
  then show ?thesis using state_destroyed [of src w] assms(2) by (auto simp: wp_partial)
qed

lemma terminated_timer_frees:
  assumes "w_alive w" "state_handler (w_tsx w) = Some On_terminated" "\<not> has_flag TSX_HAS_PENDING_TRANSPORT w"
  shows "\<exists>w'. tsx_timer_callback env Timeout_timer w = Some w' \<and> \<not> w_alive w'"
  using destroyed_frees [of "upd (set_timer_id Timeout_timer 0) (emit (Timer_fired Timeout_timer) w)"] assms
  by (auto simp: tsx_timer_callback_def live_def tsx_dispatch_def tsx_on_state_terminated_def succeed_def has_flag_def)

lemma transport_frees:
  assumes "w_alive w" "has_flag TSX_HAS_PENDING_DESTROY w" "ss_err ss = None" "ss_transport ss \<noteq> None"
  shows "\<exists>w'. send_msg_callback env ss w = Some w' \<and> \<not> w_alive w'"
proof -
  have "\<exists>w1. update_transport ss w = Some w1 \<and> w_alive w1 \<and> transport_flag (w_tsx w1) = transport_flag (w_tsx w)"
    using assms(1,4) by (cases "ss_transport ss") (simp_all add: update_transport_def)
  then obtain w1 where w1: "update_transport ss w = Some w1" "w_alive w1" "transport_flag (w_tsx w1) = transport_flag (w_tsx w)" by blast
  let ?w = "set_flag TSX_HAS_RESOLVED_SERVER (clear_flag TSX_HAS_PENDING_TRANSPORT w1)"
  have "\<exists>w'. tsx_set_state PJSIP_TSX_STATE_DESTROYED Src_unknown ?w = Some w' \<and> \<not> w_alive w'"
    by (rule destroyed_frees) (use w1 in \<open>simp_all add: has_flag_def\<close>)
  then show ?thesis using assms w1 by (auto simp: send_msg_callback_def live_def send_msg_done_def flush_pending_def has_flag_def)
qed

end
