(* ===== verification/Sip_Tsx_Props.thy ===== *)
theory Sip_Tsx_Props
  imports Sip_Tsx_Live
begin

text \<open>
  What holds along every run of a SIP transaction, how a client retransmits, and the situations in
  which the code goes wrong.
\<close>

subsection \<open>Example transactions\<close>

definition ex_user :: tsx_user where "ex_user = \<lparr>tu_on_rx_response = True, tu_on_tsx_state = True\<rparr>"

definition ex_request :: pjsip_tx_data where
  "ex_request = \<lparr>tx_id = 1, tx_line = Request_line ex_invite, tx_cseq = Some \<lparr>cseq_no = 1, cseq_method = ex_invite\<rparr>,
     tx_branch = ''z9hG4bK1''\<rparr>"

definition ex_uac :: tsx_world where
  "ex_uac = \<lparr>w_tsx = (new_transaction (Some ex_user) PJSIP_ROLE_UAC ex_invite 1 ''c$z9hG4bK1'' ''z9hG4bK1'')\<lparr>last_tx := Some ex_request\<rparr>,
     w_alive = True, w_log = [Tx_add_ref 1, Register_tsx ''c$z9hG4bK1'']\<rparr>"

lemmas key_defs = create_tsx_key_3261_def put_str_def put_method_def role_char_def SEPARATOR_def

lemma ex_uac_created: "tsx_created PJSIP_ROLE_UAC ex_invite ex_uac"
proof (rule created_uac)
  show "pjsip_tsx_create_uac PJ_SUCCESS [] (Inr False) (Some ex_user) ex_request = Some (Inr ex_uac)"
    by (simp add: pjsip_tsx_create_uac_def ex_request_def ex_invite_def key_defs Let_def ex_uac_def
        mod_tsx_layer_register_tsx_def new_transaction_def emit_def upd_def)
  show "tx_line ex_request = Request_line ex_invite" by (simp add: ex_request_def)
qed

text \<open>The transaction after its request was sent.\<close>

definition ex_calling :: tsx_world where
  "ex_calling = \<lparr>w_tsx = (w_tsx ex_uac)\<lparr>state := PJSIP_TSX_STATE_CALLING, state_handler := Some On_calling, transport := Some ex_udp,
       t_addr := 1, addr_len := 16, transport_flag := {TSX_HAS_RESOLVED_SERVER}, retransmit_timer_id := 1, timeout_timer_id := 1\<rparr>,
     w_alive = True,
     w_log = w_log ex_uac @ [Set_tx_transport 1 0, Tx_add_ref 1, Send_request ex_request, Transport_add_ref 5,
       Schedule_timer Timeout_timer (TimeVal 32 0), Schedule_timer Retransmit_timer (TimeVal 0 500),
       On_tsx_state PJSIP_TSX_STATE_NULL PJSIP_TSX_STATE_CALLING (Src_tx_msg ex_request), Tx_dec_ref 1]\<rparr>"

lemmas ex_defs = ex_uac_def ex_request_def ex_user_def ex_invite_def ex_udp_def ex_calling_def new_transaction_def

lemmas send_defs = tsx_send_msg_def send_on_transport_def tsx_resolve_def send_msg_callback_def send_msg_done_def
  update_transport_def flush_pending_def release_transport_def

lemmas state_defs = tsx_set_state_def enter_state_def notify_state_def notify_rx_def live_def world_defs stop_timer_def
  save_last_tx_def drop_last_tx_def same_tx_def succeed_def TIMER_ACTIVE_def

lemma ex_send: "run_op ex_env (Op_send None) ex_uac = Some ex_calling"
  by (simp add: pjsip_tsx_send_msg_def tsx_dispatch_def tsx_on_state_null_def null_uac_sent_def start_retransmission_def
      send_defs state_defs ex_defs ex_env_def Let_def timeout_timer_val_def t1_timer_val_def msec_time_val_def)

lemma ex_calling_run: "tsx_run ex_env ex_uac ex_calling"
  by (rule run_step [OF run_start _ ex_send]) (simp add: ex_defs)

subsection \<open>Invariants of every run\<close>

text \<open>C22: At every point of every run the handler of a transaction is the one that the table of its
  role has for its state, never a null pointer; the role and the method are those of its creation;
  and no operation takes the state backwards.\<close>

theorem tsx_handler_fits_state:
  assumes "tsx_created r m w0" "env_ok env" "tsx_run env w0 w"
  shows "role (w_tsx w) = r \<and> t_method (w_tsx w) = m \<and>
    state_handler (w_tsx w) = handler_of r (state (w_tsx w)) \<and> state_handler (w_tsx w) \<noteq> None \<and>
    (\<forall>op w'. op_enabled op w \<and> run_op env op w = Some w' \<longrightarrow> state_no (state (w_tsx w)) \<le> state_no (state (w_tsx w')))"
proof -
  have ok: "tsx_ok r m 0 w" using assms by (rule created_run_ok)
  have "state_no (state (w_tsx w)) \<le> state_no (state (w_tsx w'))" if "op_enabled op w" "run_op env op w = Some w'" for op w'
  proof -
    have "wp True (run_op env op w) (tsx_ok r m (state_no (state (w_tsx w))))"
      using tsx_ok_now [OF ok] assms(2) that(1) by (intro ops_ok) simp_all
    then have "tsx_ok r m (state_no (state (w_tsx w))) w'" using that(2) by (simp add: wp_partial)
    then show ?thesis by (rule tsx_okD(5))
  qed
  with tsx_okD(3,4,6,7) [OF ok] show ?thesis by metis
qed

theorem tsx_handler_fits_state_witness:
  "state_handler (w_tsx ex_calling) = Some On_calling \<and> state_no (state (w_tsx ex_uac)) \<le> state_no (state (w_tsx ex_calling))"
proof -
  have "op_enabled (Op_send None) ex_uac" by (simp add: ex_defs)
  then have "state_no (state (w_tsx ex_uac)) \<le> state_no (state (w_tsx ex_calling))"
    using tsx_handler_fits_state [OF ex_uac_created ex_env_ok(1) run_start] ex_send by blast
  moreover have "state_handler (w_tsx ex_calling) = handler_of PJSIP_ROLE_UAC (state (w_tsx ex_calling))"
    using tsx_handler_fits_state [OF ex_uac_created ex_env_ok(1) ex_calling_run] by blast
  ultimately show ?thesis by (simp add: ex_defs)
qed



text \<open>C24: At every point of every run the references that the transaction has taken on transports and
  not given back are exactly one on its current transport, if it has one. Its pool is released at most
  once, when it is freed, and then it holds no reference any more.\<close>

theorem tsx_resources_balanced:
  assumes "tsx_created r m w0" "env_ok env" "tsx_run env w0 w"
  shows "tp_refs i (w_log w) = (if map_option tp_id (transport (w_tsx w)) = Some i then 1 else 0) \<and>
    count_list (w_log w) Release_pool = (if w_alive w then 0 else 1) \<and>
    (\<not> w_alive w \<longrightarrow> tp_refs i (w_log w) = 0)"
  using created_run_ok [OF assms] by (auto simp: tsx_ok_def refs_ok_def released_once_def)

theorem tsx_resources_balanced_witness: "tp_refs 5 (w_log ex_calling) = 1 \<and> count_list (w_log ex_calling) Release_pool = 0"
  using tsx_resources_balanced [OF ex_uac_created ex_env_ok(1) ex_calling_run, of 5] by (simp add: ex_defs)

subsection \<open>The end of a transaction\<close>


definition ex_live_env :: tsx_env where "ex_live_env = ex_env\<lparr>env_create_ack := \<lambda>_. Inr ex_request\<rparr>"


subsection \<open>Retransmission\<close>

text \<open>The delays with which a timer was started.\<close>

fun started :: "tsx_timer \<Rightarrow> tsx_action \<Rightarrow> pj_time_val list" where
  "started k (Schedule_timer k' d) = (if k = k' then [d] else [])"
| "started k _ = []"

definition delays :: "tsx_timer \<Rightarrow> tsx_action list \<Rightarrow> pj_time_val list" where
  "delays k log = concat (map (started k) log)"

lemma delays_enter: "delays k (w_log (enter_state st src w)) = delays k (w_log w)"
  by (simp add: enter_state_def notify_state_def notify_rx_def delays_def emit_def split: option.split pjsip_event_src.split)

fun is_transmission :: "tsx_action \<Rightarrow> bool" where
  "is_transmission (Transport_send _ _) = True"
| "is_transmission _ = False"

text \<open>The retransmission timer fires \<open>n\<close> times.\<close>

fun fire_retransmit :: "tsx_env \<Rightarrow> nat \<Rightarrow> tsx_world \<Rightarrow> tsx_world option" where
  "fire_retransmit env 0 w = Some w"
| "fire_retransmit env (Suc n) w = do { w1 \<leftarrow> fire_retransmit env n w; tsx_timer_callback env Retransmit_timer w1 }"

definition backoff :: "tsx_env \<Rightarrow> pjsip_method \<Rightarrow> nat \<Rightarrow> nat" where
  "backoff env m i = (if m_id m = PJSIP_INVITE_METHOD then 2 ^ i * cfg_t1 env else min (2 ^ i * cfg_t1 env) (cfg_t2 env))"

text \<open>A client that has sent its request over a transport and waits for the response.\<close>

definition waiting :: "pjsip_method \<Rightarrow> nat \<Rightarrow> tsx_world \<Rightarrow> bool" where
  "waiting m i w \<longleftrightarrow> w_alive w \<and> role (w_tsx w) = PJSIP_ROLE_UAC \<and> t_method (w_tsx w) = m \<and>
     state (w_tsx w) = PJSIP_TSX_STATE_CALLING \<and> state_handler (w_tsx w) = Some On_calling \<and>
     transport (w_tsx w) \<noteq> None \<and> last_tx (w_tsx w) \<noteq> None \<and> status_code (w_tsx w) < 100 \<and>
     \<not> has_flag TSX_HAS_PENDING_TRANSPORT w \<and> retransmit_count (w_tsx w) = i"

lemma retransmit_step:
  assumes "waiting m i w" "\<And>log. env_transport_send env log = PJ_SUCCESS" "2 ^ Suc i * cfg_t1 env < 2 ^ 32"
  shows "\<exists>w'. tsx_timer_callback env Retransmit_timer w = Some w' \<and> waiting m (Suc i) w' \<and>
    delays Retransmit_timer (w_log w') = delays Retransmit_timer (w_log w) @ [msec_time_val (backoff env m (Suc i))] \<and>
    length (List.filter is_transmission (w_log w')) = Suc (length (List.filter is_transmission (w_log w)))"
proof -
  obtain tp td where W: "transport (w_tsx w) = Some tp" "last_tx (w_tsx w) = Some td" using assms(1) by (auto simp: waiting_def)
  have "wrap32 (2 ^ Suc i * int (cfg_t1 env)) = 2 ^ Suc i * cfg_t1 env"
  proof -
    have "int (2 ^ Suc i * cfg_t1 env) < 2 ^ 32" using assms(3) by (metis of_nat_less_iff of_nat_numeral of_nat_power)
    then have "(2 ^ Suc i * int (cfg_t1 env)) mod 2 ^ 32 = int (2 ^ Suc i * cfg_t1 env)" by simp
    then show ?thesis by (simp only: wrap32_def nat_int)
  qed
  then have wrap: "wrap32 (2 * 2 ^ i * int (cfg_t1 env)) = 2 * 2 ^ i * cfg_t1 env" by simp
  show ?thesis
    using assms(1,2) W wrap
    by (auto simp: waiting_def tsx_timer_callback_def tsx_dispatch_def tsx_on_state_calling_def tsx_retransmit_def
        tsx_resched_retransmission_def tsx_send_msg_def send_on_transport_def live_def start_timer_def emit_def upd_def
        has_flag_def Let_def delays_def backoff_def min_def)
qed

text \<open>C25: While no response comes, a client whose messages can be sent retransmits its request each time
  the retransmission timer fires, and the delays follow the standard: T1 doubled each time for INVITE
  (Timer A), and the same up to T2 for other requests (Timer E).\<close>

theorem uac_retransmission_backoff:
  assumes "waiting m 0 w" "\<And>log. env_transport_send env log = PJ_SUCCESS" "2 ^ n * cfg_t1 env < 2 ^ 32"
  shows "\<exists>w'. fire_retransmit env n w = Some w' \<and> waiting m n w' \<and>
    delays Retransmit_timer (w_log w') =
      delays Retransmit_timer (w_log w) @ map (\<lambda>i. msec_time_val (backoff env m i)) [1 ..< Suc n] \<and>
    length (List.filter is_transmission (w_log w')) = n + length (List.filter is_transmission (w_log w))"
  using assms(3)
proof (induction n)
  case 0
  then show ?case using assms(1) by simp
next
  case (Suc n)
  have "2 ^ n * cfg_t1 env \<le> 2 ^ Suc n * cfg_t1 env" by simp
  with Suc.prems have "2 ^ n * cfg_t1 env < 2 ^ 32" by linarith
  from Suc.IH [OF this] obtain w' where w': "fire_retransmit env n w = Some w'" "waiting m n w'"
    "delays Retransmit_timer (w_log w') =
       delays Retransmit_timer (w_log w) @ map (\<lambda>i. msec_time_val (backoff env m i)) [1 ..< Suc n]"
    "length (List.filter is_transmission (w_log w')) = n + length (List.filter is_transmission (w_log w))" by blast
  from retransmit_step [OF w'(2) assms(2) Suc.prems] w'(1,3,4) show ?case by auto
qed

theorem uac_retransmission_backoff_witness:
  "\<exists>w'. fire_retransmit ex_env 3 ex_calling = Some w' \<and>
    delays Retransmit_timer (w_log w') = [TimeVal 0 500, TimeVal 1 0, TimeVal 2 0, TimeVal 4 0]"
proof -
  have "waiting ex_invite 0 ex_calling" by (simp add: waiting_def ex_defs has_flag_def)
  then have "\<exists>w'. fire_retransmit ex_env 3 ex_calling = Some w' \<and> waiting ex_invite 3 w' \<and>
      delays Retransmit_timer (w_log w') = delays Retransmit_timer (w_log ex_calling) @
        map (\<lambda>i. msec_time_val (backoff ex_env ex_invite i)) [1 ..< Suc 3] \<and>
      length (List.filter is_transmission (w_log w')) = 3 + length (List.filter is_transmission (w_log ex_calling))"
    by (rule uac_retransmission_backoff) (simp_all add: ex_env_def)
  moreover have "[1 ..< Suc 3] = [1, 2, 3]" by (simp add: upt_rec)
  ultimately show ?thesis
    by (auto simp: ex_defs delays_def backoff_def ex_env_def msec_time_val_def)
qed

subsection \<open>Where the code goes wrong\<close>

text \<open>C29: When the ACK for a final response to an INVITE arrives, the server waits T4 in the confirmed
  state if the transport is reliable, and not at all if it is unreliable: the reverse of what Timer I
  is for (and of the comment in the code).\<close>

theorem uas_timer_I_reversed:
  assumes "w_alive w" "state_handler (w_tsx w) = Some On_completed_uas" "transport (w_tsx w) = Some tp"
    and "rx_line rdata = Request_line m" "m_id m = PJSIP_ACK_METHOD"
  shows "\<exists>w'. pjsip_tsx_recv_msg env rdata w = Some w' \<and> state (w_tsx w') = PJSIP_TSX_STATE_CONFIRMED \<and>
    delays Timeout_timer (w_log w') =
      delays Timeout_timer (w_log w) @ [if tp_reliable tp then msec_time_val (cfg_t4 env) else TimeVal 0 0]"
proof -
  define w1 where "w1 = cancel_timer Timeout_timer (clear_flag TSX_HAS_PENDING_RESCHED (stop_timer Retransmit_timer w))"
  have w1: "w_alive w1" "transport (w_tsx w1) = Some tp" "delays Timeout_timer (w_log w1) = delays Timeout_timer (w_log w)"
    using assms(1,3) by (simp_all add: w1_def) (simp add: cancel_timer_def clear_flag_def stop_timer_def delays_def)
  define w2 where "w2 = start_timer Timeout_timer (if tp_reliable tp then msec_time_val (cfg_t4 env) else TimeVal 0 0) w1"
  have "tsx_set_state PJSIP_TSX_STATE_CONFIRMED (Src_rx_msg rdata) w2 = Some (enter_state PJSIP_TSX_STATE_CONFIRMED (Src_rx_msg rdata) w2)"
    using w1(1) by (simp add: tsx_set_state_def live_def w2_def)
  then have "pjsip_tsx_recv_msg env rdata w = Some (enter_state PJSIP_TSX_STATE_CONFIRMED (Src_rx_msg rdata) w2)"
    using assms w1(2) by (simp add: pjsip_tsx_recv_msg_def tsx_dispatch_def tsx_on_state_completed_uas_def completed_uas_ack_def
        live_def w1_def [symmetric] w2_def t4_timer_val_def succeed_def split: if_splits)
  then show ?thesis using w1(3) by (simp add: delays_enter w2_def start_timer_def) (simp add: delays_def)
qed

definition ex_ack :: pjsip_rx_data where
  "ex_ack = \<lparr>rx_line = Request_line \<lparr>m_id = PJSIP_ACK_METHOD, m_name = ''ACK''\<rparr>, rx_via = None, rx_cseq = None,
     rx_from_tag = None, rx_call_id = []\<rparr>"

definition ex_uas :: "pjsip_method \<Rightarrow> pjsip_tsx_state_e \<Rightarrow> tsx_handler \<Rightarrow> pjsip_transport option \<Rightarrow> tsx_world" where
  "ex_uas m st h tp = \<lparr>w_tsx = (new_transaction None PJSIP_ROLE_UAS m 1 [] [])\<lparr>state := st, state_handler := Some h, transport := tp\<rparr>,
     w_alive = True, w_log = []\<rparr>"

theorem uas_timer_I_reversed_witness:
  "\<exists>w'. pjsip_tsx_recv_msg ex_env ex_ack (ex_uas ex_invite PJSIP_TSX_STATE_COMPLETED On_completed_uas (Some ex_udp)) = Some w' \<and>
    delays Timeout_timer (w_log w') = [TimeVal 0 0]"
  using uas_timer_I_reversed [of "ex_uas ex_invite PJSIP_TSX_STATE_COMPLETED On_completed_uas (Some ex_udp)" ex_udp ex_ack
      "\<lparr>m_id = PJSIP_ACK_METHOD, m_name = ''ACK''\<rparr>" ex_env]
  by (auto simp: ex_uas_def ex_ack_def new_transaction_def ex_udp_def delays_def)

text \<open>A server transaction whose transport is still being resolved dereferences a null pointer when
  its user answers a request other than INVITE with a 2xx.\<close>

theorem uas_2xx_without_transport_faults:
  assumes "w_alive w" "state_handler (w_tsx w) = Some On_trying" "transport (w_tsx w) = None" "transport_flag (w_tsx w) = {}"
    and "m_id (t_method (w_tsx w)) \<noteq> PJSIP_INVITE_METHOD" "state (w_tsx w) = PJSIP_TSX_STATE_TRYING"
    and "tx_line tdata = Status_line code reason" "200 \<le> code" "code \<le> 299"
    and "\<And>log. env_resolve env log = ([], PJ_EPENDING)"
  shows "run_op env (Op_send (Some tdata)) w = None"
proof -
  define w1 where "w1 = drop_last_tx tdata (tsx_set_status_code code (Some (Given_text reason))
      (emit (Set_tx_transport (tx_id tdata) (tp_sel (w_tsx w))) w))"
  define w2 where "w2 = emit (Send_response tdata) (set_flag TSX_HAS_PENDING_TRANSPORT (emit (Tx_add_ref (tx_id tdata)) w1))"
  have w1: "w_alive w1" "transport (w_tsx w1) = None" "transport_flag (w_tsx w1) = {}" "state (w_tsx w1) = PJSIP_TSX_STATE_TRYING"
    using assms by (simp_all add: w1_def)
  then have send: "tsx_send_msg env tdata w1 = Some (PJ_SUCCESS, w2)"
    using assms(7,10) by (simp add: tsx_send_msg_def live_def has_flag_def send_on_transport_def tsx_resolve_def w2_def)
  have w2: "w_alive w2" "status_code (w_tsx w2) = code" "transport (w_tsx w2) = None" "t_method (w_tsx w2) = t_method (w_tsx w)"
    using w1 assms(1) by (simp_all add: w2_def w1_def emit_def set_flag_def upd_def drop_last_tx_def tsx_set_status_code_def split: option.split)
  have "cdiv code 100 = 2" using assms(8,9) by (simp add: cdiv_nonneg)
  then have "PJSIP_IS_STATUS_IN_CLASS code 200" "\<not> PJSIP_IS_STATUS_IN_CLASS code 100"
    by (simp_all add: PJSIP_IS_STATUS_IN_CLASS_def cdiv_nonneg)
  then have "proceeding_uas_sent env tdata w2 = None"
    using w2 assms(5) by (simp add: proceeding_uas_sent_def proceeding_uas_2xx_def live_def)
  then show ?thesis
    using assms(1,2,7) send by (simp add: pjsip_tsx_send_msg_def tsx_dispatch_def tsx_on_state_trying_def
        tsx_on_state_proceeding_uas_def live_def w1_def)
qed

definition ex_ok :: pjsip_tx_data where
  "ex_ok = \<lparr>tx_id = 2, tx_line = Status_line 200 ''OK'', tx_cseq = None, tx_branch = []\<rparr>"

definition ex_options :: pjsip_method where "ex_options = \<lparr>m_id = PJSIP_OPTIONS_METHOD, m_name = ''OPTIONS''\<rparr>"

theorem uas_2xx_without_transport_faults_witness:
  "run_op ex_slow_env (Op_send (Some ex_ok)) (ex_uas ex_options PJSIP_TSX_STATE_TRYING On_trying None) = None"
  by (rule uas_2xx_without_transport_faults [where code = 200 and reason = "''OK''"])
    (simp_all add: ex_uas_def new_transaction_def ex_ok_def ex_options_def ex_slow_env_def)

text \<open>A transaction that was destroyed while its transport was pending is kept until the transport
  layer calls back. When that call reports a failure the transaction is not freed, and there is
  no operation left that could free it: its memory is lost.\<close>

theorem destroyed_while_pending_leaks:
  assumes "w_alive w" "state (w_tsx w) = PJSIP_TSX_STATE_DESTROYED" "has_flag TSX_HAS_PENDING_TRANSPORT w"
    and "ss_err ss = Some err" "\<not> ss_cont ss"
  shows "\<exists>w'. run_op env (Op_send_callback ss) w = Some w' \<and> w_alive w' \<and> (\<forall>op. \<not> op_enabled op w')"
proof -
  have none: "\<not> op_enabled op w'" if "state (w_tsx w') = PJSIP_TSX_STATE_DESTROYED" "\<not> has_flag TSX_HAS_PENDING_TRANSPORT w'" for op w'
    using that by (cases op) simp_all
  show ?thesis
    using assms by (auto elim!: notE [OF none, rotated 2] simp: send_msg_callback_def send_msg_error_def live_def Let_def has_flag_def)
qed

definition ex_doomed :: tsx_world where
  "ex_doomed = \<lparr>w_tsx = (w_tsx ex_uac)\<lparr>state := PJSIP_TSX_STATE_DESTROYED, transport_flag := {TSX_HAS_PENDING_TRANSPORT, TSX_HAS_PENDING_DESTROY}\<rparr>,
     w_alive = True, w_log = []\<rparr>"

definition ex_failed :: send_state where
  "ex_failed = \<lparr>ss_err = Some PJ_EUNKNOWN, ss_transport = None, ss_addr = 0, ss_addr_len = 0, ss_cont = False\<rparr>"

theorem destroyed_while_pending_leaks_witness:
  "\<exists>w'. run_op ex_env (Op_send_callback ex_failed) ex_doomed = Some w' \<and> w_alive w' \<and> (\<forall>op. \<not> op_enabled op w')"
  by (rule destroyed_while_pending_leaks [where err = PJ_EUNKNOWN])
    (simp_all add: ex_doomed_def ex_failed_def ex_defs has_flag_def)

text \<open>A response with a status code above 699 stops both timers of a client that waits for a
  response and changes nothing else: the transaction stays in the calling state with nothing
  that would end it.\<close>

theorem bad_status_stops_the_timers:
  assumes "w_alive w" "state_handler (w_tsx w) = Some On_calling" "state (w_tsx w) = PJSIP_TSX_STATE_CALLING"
    and "rx_line rdata = Status_line code reason" "699 < code"
    and "retransmit_timer_id (w_tsx w) \<noteq> 0" "timeout_timer_id (w_tsx w) \<noteq> 0"
  shows "\<exists>w'. run_op env (Op_recv rdata) w = Some w' \<and> w_alive w' \<and> state (w_tsx w') = PJSIP_TSX_STATE_CALLING \<and>
    \<not> timer_pending Retransmit_timer (w_log w') \<and> \<not> timer_pending Timeout_timer (w_log w')"
proof -
  define w' where "w' = tsx_set_status_code code (Some (Given_text reason))
      (clear_flag TSX_HAS_PENDING_RESCHED (stop_timer Timeout_timer (stop_timer Retransmit_timer w)))"
  have "\<not> PJSIP_IS_STATUS_IN_CLASS code 100" "\<not> PJSIP_IS_STATUS_IN_CLASS code 200"
    using assms(5) by (auto simp: PJSIP_IS_STATUS_IN_CLASS_def cdiv_nonneg)
  then have "proceeding_uac_status env (Src_rx_msg rdata) w' = Some (PJ_EBUG, w')"
    using assms(5) by (simp add: proceeding_uac_status_def w'_def tsx_set_status_code_def)
  then have "run_op env (Op_recv rdata) w = Some w'"
    using assms(1-5) by (simp add: pjsip_tsx_recv_msg_def tsx_dispatch_def tsx_on_state_calling_def live_def
        calling_response_timers_def tsx_on_state_proceeding_uac_def w'_def)
  moreover have "w_log w' = w_log w @ [Cancel_timer Retransmit_timer, Cancel_timer Timeout_timer]"
    using assms(6,7) by (simp add: w'_def tsx_set_status_code_def clear_flag_def stop_timer_def cancel_timer_def emit_def)
  ultimately show ?thesis
    using assms(1,3) by (simp add: timer_pending_def) (simp add: w'_def)
qed

definition ex_response :: "int \<Rightarrow> pjsip_rx_data" where
  "ex_response code = \<lparr>rx_line = Status_line code [], rx_via = None, rx_cseq = None, rx_from_tag = None, rx_call_id = []\<rparr>"

theorem bad_status_stops_the_timers_witness:
  "\<exists>w'. run_op ex_env (Op_recv (ex_response 700)) ex_calling = Some w' \<and> state (w_tsx w') = PJSIP_TSX_STATE_CALLING \<and>
    \<not> timer_pending Timeout_timer (w_log w')"
  using bad_status_stops_the_timers [of ex_calling "ex_response 700" 700 "[]" ex_env]
  by (auto simp: ex_defs ex_response_def)

end
