(* ===== verification/Sip_Tsx_Layer.thy ===== *)
theory Sip_Tsx_Layer
  imports Sip_Tsx Pj_Hash Pj_Timer
begin

text \<open>
  The transaction layer module (\<open>mod_tsx_layer\<close> of \<^verbatim>\<open>pjsip/src/pjsip/sip_transaction.c\<close>): the hash table of
  transactions, the dispatch of received messages to them, and the end of the module. The layer runs
  the entries that an operation adds to the log of a transaction (\<open>Sip_Tsx\<close>) on the hash table
  (\<open>Pj_Hash\<close>) and on the timer heap of the endpoint (\<open>Pj_Timer\<close>).

  A transaction is identified by its address; \<open>l_mem\<close> has the transactions that were ever allocated
  there. The two timer entries of the transaction at address \<open>i\<close> are the addresses \<open>3i\<close> and \<open>3i + 1\<close>; the
  others belong to other modules. The mutex of the layer and of the transactions are not modelled: a
  callback of the module is one atomic step. The clock is read anew at each call: \<open>clock j\<close> is the
  time at entry \<open>j\<close> of what an operation does.
\<close>

record tsx_layer =
  l_endpt :: bool
  l_htable :: "nat pj_hash_table_t"
  l_timers :: pj_timer_heap
  l_mem :: "nat \<Rightarrow> tsx_world option"

definition entry_of :: "nat \<Rightarrow> tsx_timer \<Rightarrow> entry_ptr" where
  "entry_of i k = 3 * i + (case k of Retransmit_timer \<Rightarrow> 0 | Timeout_timer \<Rightarrow> 1)"

text \<open>\<open>tsx_timer_callback\<close>, as the function pointer in a timer entry.\<close>

definition TSX_TIMER_CALLBACK :: nat where "TSX_TIMER_CALLBACK = 1"

subsection \<open>The table\<close>

definition layer_register :: "nat \<Rightarrow> string \<Rightarrow> tsx_layer \<Rightarrow> tsx_layer option" where
  "layer_register i key L = do {
     hashed_key \<leftarrow> pj_hash_calc 0 key (Key_len (length key));
     ht \<leftarrow> pj_hash_set True (l_htable L) key (Key_len (length key)) hashed_key (Some i);
     Some (L\<lparr>l_htable := ht\<rparr>)
   }"

definition mod_tsx_layer_unregister_tsx :: "string \<Rightarrow> tsx_layer \<Rightarrow> tsx_layer option" where
  "mod_tsx_layer_unregister_tsx key L = do {
     hashed_key \<leftarrow> pj_hash_calc 0 key (Key_len (length key));
     ht \<leftarrow> pj_hash_set False (l_htable L) key (Key_len (length key)) hashed_key None;
     Some (L\<lparr>l_htable := ht\<rparr>)
   }"

definition pjsip_tsx_layer_get_tsx_count :: "tsx_layer \<Rightarrow> nat" where
  "pjsip_tsx_layer_get_tsx_count L = (if \<not> l_endpt L then 0 else pj_hash_count (l_htable L))"

definition pjsip_tsx_layer_find_tsx :: "string \<Rightarrow> tsx_layer \<Rightarrow> nat option option" where
  "pjsip_tsx_layer_find_tsx key L = map_option fst (pj_hash_get (l_htable L) key (Key_len (length key)) 0)"

subsection \<open>Running the log of a transaction\<close>

text \<open>\<open>junk\<close> is the content of newly allocated memory of the timer heap.\<close>

definition pjsip_endpt_schedule_timer ::
  "(nat \<Rightarrow> entry_ptr) \<Rightarrow> pj_time_val \<Rightarrow> entry_ptr \<Rightarrow> pj_time_val \<Rightarrow> tsx_layer \<Rightarrow> tsx_layer option" where
  "pjsip_endpt_schedule_timer junk now e delay L =
     map_option (\<lambda>(_, heap). L\<lparr>l_timers := heap\<rparr>) (pj_timer_heap_schedule junk now (l_timers L) e delay)"

definition pjsip_endpt_cancel_timer :: "entry_ptr \<Rightarrow> tsx_layer \<Rightarrow> tsx_layer option" where
  "pjsip_endpt_cancel_timer e L =
     map_option (\<lambda>(_, heap). L\<lparr>l_timers := heap\<rparr>) (pj_timer_heap_cancel (\<lambda>_ heap. Some heap) (l_timers L) e)"

fun run_action :: "(nat \<Rightarrow> entry_ptr) \<Rightarrow> pj_time_val \<Rightarrow> nat \<Rightarrow> tsx_action \<Rightarrow> tsx_layer \<Rightarrow> tsx_layer option" where
  "run_action junk now i (Register_tsx key) L = layer_register i key L"
| "run_action junk now i (Unregister_tsx key) L = mod_tsx_layer_unregister_tsx key L"
| "run_action junk now i (Schedule_timer k delay) L = pjsip_endpt_schedule_timer junk now (entry_of i k) delay L"
| "run_action junk now i (Cancel_timer k) L = pjsip_endpt_cancel_timer (entry_of i k) L"
| "run_action junk now i _ L = Some L"

fun run_actions ::
  "(nat \<Rightarrow> entry_ptr) \<Rightarrow> (nat \<Rightarrow> pj_time_val) \<Rightarrow> nat \<Rightarrow> tsx_action list \<Rightarrow> tsx_layer \<Rightarrow> tsx_layer option" where
  "run_actions junk clock i [] L = Some L"
| "run_actions junk clock i (a # as) L = do {
     L1 \<leftarrow> run_action junk (clock 0) i a L;
     run_actions junk (\<lambda>j. clock (Suc j)) i as L1
   }"

text \<open>An operation \<open>f\<close> of the transaction at an address, with what it asked of the other components.\<close>

definition on_tsx ::
  "(nat \<Rightarrow> entry_ptr) \<Rightarrow> (nat \<Rightarrow> pj_time_val) \<Rightarrow> nat \<Rightarrow> (tsx_world \<Rightarrow> tsx_world option) \<Rightarrow> tsx_layer \<Rightarrow> tsx_layer option" where
  "on_tsx junk clock i f L = do {
     w \<leftarrow> l_mem L i;
     w1 \<leftarrow> f w;
     run_actions junk clock i (drop (length (w_log w)) (w_log w1)) (L\<lparr>l_mem := (l_mem L)(i \<mapsto> w1)\<rparr>)
   }"

text \<open>A new transaction, at an address that the pool allocator returned. \<open>tsx_create\<close> fills in the timer
  entries, whose other fields are zero.\<close>

definition init_timer_entry :: "nat \<Rightarrow> pj_timer_entry \<Rightarrow> pj_timer_entry" where
  "init_timer_entry i e = e\<lparr>te_user_data := i, te_id := 0, te_cb := Some TSX_TIMER_CALLBACK, te_timer_id := 0,
     te_timer_value := TimeVal 0 0\<rparr>"

definition init_timer_entries :: "nat \<Rightarrow> pj_timer_heap \<Rightarrow> pj_timer_heap" where
  "init_timer_entries i heap = heap\<lparr>th_mem := (th_mem heap)
     (entry_of i Retransmit_timer := init_timer_entry i (th_mem heap (entry_of i Retransmit_timer)),
      entry_of i Timeout_timer := init_timer_entry i (th_mem heap (entry_of i Timeout_timer)))\<rparr>"

definition layer_add ::
  "(nat \<Rightarrow> entry_ptr) \<Rightarrow> (nat \<Rightarrow> pj_time_val) \<Rightarrow> nat \<Rightarrow> tsx_world \<Rightarrow> tsx_layer \<Rightarrow> tsx_layer option" where
  "layer_add junk clock i w L =
     run_actions junk clock i (w_log w)
       (L\<lparr>l_timers := init_timer_entries i (l_timers L), l_mem := (l_mem L)(i \<mapsto> w)\<rparr>)"

subsection \<open>Received messages\<close>

text \<open>The status of building the key is not looked at: when it is an error the key is read
  uninitialised. A transaction that was freed is read too, which is \<open>None\<close>.\<close>

definition on_rx ::
  "(nat \<Rightarrow> entry_ptr) \<Rightarrow> (nat \<Rightarrow> pj_time_val) \<Rightarrow> tsx_env \<Rightarrow> pjsip_role_e \<Rightarrow> pjsip_rx_data \<Rightarrow> tsx_layer
     \<Rightarrow> (bool \<times> tsx_layer) option" where
  "on_rx junk clock env r rdata L = do {
     cseq \<leftarrow> rx_cseq rdata;
     res \<leftarrow> pjsip_tsx_create_key r (cseq_method cseq) rdata;
     (case res of
        Inl _ \<Rightarrow> None
      | Inr key \<Rightarrow> do {
          (found, _) \<leftarrow> pj_hash_get (l_htable L) key (Key_len (length key)) 0;
          (case found of
             None \<Rightarrow> Some (False, L)
           | Some i \<Rightarrow> do {
               w \<leftarrow> l_mem L i;
               tsx \<leftarrow> live w;
               if state tsx = PJSIP_TSX_STATE_TERMINATED then Some (False, L)
               else do { L1 \<leftarrow> on_tsx junk clock i (pjsip_tsx_recv_msg env rdata) L; Some (True, L1) }
             })
        })
   }"

definition mod_tsx_layer_on_rx_request ::
  "(nat \<Rightarrow> entry_ptr) \<Rightarrow> (nat \<Rightarrow> pj_time_val) \<Rightarrow> tsx_env \<Rightarrow> pjsip_rx_data \<Rightarrow> tsx_layer \<Rightarrow> (bool \<times> tsx_layer) option" where
  "mod_tsx_layer_on_rx_request junk clock env rdata L = on_rx junk clock env PJSIP_ROLE_UAS rdata L"

definition mod_tsx_layer_on_rx_response ::
  "(nat \<Rightarrow> entry_ptr) \<Rightarrow> (nat \<Rightarrow> pj_time_val) \<Rightarrow> tsx_env \<Rightarrow> pjsip_rx_data \<Rightarrow> tsx_layer \<Rightarrow> (bool \<times> tsx_layer) option" where
  "mod_tsx_layer_on_rx_response junk clock env rdata L = on_rx junk clock env PJSIP_ROLE_UAC rdata L"

subsection \<open>Timers\<close>

text \<open>The callback that the timer heap calls: the entry says which timer of which transaction fired. The
  entries of other modules (any other function) do not touch the transaction layer.\<close>

definition layer_timer_cb :: "(nat \<Rightarrow> entry_ptr) \<Rightarrow> (nat \<Rightarrow> pj_time_val) \<Rightarrow> tsx_env \<Rightarrow> tsx_layer timer_cb" where
  "layer_timer_cb junk clock env f e heap L =
     (if f = TSX_TIMER_CALLBACK
      then (let i = te_user_data (th_mem heap e);
                k = (if e = entry_of i Retransmit_timer then Retransmit_timer else Timeout_timer)
            in do {
              L1 \<leftarrow> on_tsx junk clock i (tsx_timer_callback env k) (L\<lparr>l_timers := heap\<rparr>);
              Some (l_timers L1, L1)
            })
      else Some (heap, L))"

definition layer_poll ::
  "(nat \<Rightarrow> entry_ptr) \<Rightarrow> (nat \<Rightarrow> pj_time_val) \<Rightarrow> tsx_env \<Rightarrow> pj_time_val \<Rightarrow> tsx_layer \<Rightarrow> tsx_layer option" where
  "layer_poll junk clock env now L = do {
     (_, _, heap, L1) \<leftarrow> pj_timer_heap_poll (layer_timer_cb junk clock env) now True (l_timers L) L;
     Some (L1\<lparr>l_timers := heap\<rparr>)
   }"

subsection \<open>Start and stop of the module\<close>

text \<open>The outcomes of the calls: the thread local, the pool, the mutex and the two registrations. The
  endpoint is stored before the calls that may fail.\<close>

definition pjsip_tsx_layer_init_module ::
  "pj_status \<Rightarrow> bool \<Rightarrow> pj_status \<Rightarrow> pj_status \<Rightarrow> pj_status \<Rightarrow> nat \<Rightarrow> tsx_layer \<Rightarrow> (pj_status \<times> tsx_layer) option" where
  "pjsip_tsx_layer_init_module tls pool mutex reg1 reg2 max_count L =
     (if l_endpt L then Some (PJ_EINVALIDOP, L)
      else if tls \<noteq> PJ_SUCCESS then Some (tls, L)
      else if \<not> pool then Some (PJ_ENOMEM, L)
      else do {
        ht \<leftarrow> pj_hash_create max_count;
        let L1 = L\<lparr>l_endpt := True, l_htable := ht\<rparr>;
        Some (if mutex \<noteq> PJ_SUCCESS then mutex else if reg1 \<noteq> PJ_SUCCESS then reg1 else reg2, L1)
      })"

text \<open>The loop of \<open>mod_tsx_layer_stop\<close>.\<close>

definition stop_tsx ::
  "(nat \<Rightarrow> entry_ptr) \<Rightarrow> (nat \<Rightarrow> pj_time_val) \<Rightarrow> nat \<Rightarrow> tsx_layer \<Rightarrow> tsx_layer option" where
  "stop_tsx junk clock i L = do {
     L1 \<leftarrow> on_tsx junk clock i (\<lambda>w. map_option snd (pjsip_tsx_terminate PJSIP_SC_SERVICE_UNAVAILABLE w)) L;
     L2 \<leftarrow> on_tsx junk clock i (\<lambda>w. map_option (\<lambda>tsx. emit (Unregister_tsx (transaction_key tsx)) w) (live w)) L1;
     on_tsx junk clock i (\<lambda>w. map_option snd (tsx_destroy w)) L2
   }"

partial_function (option) stop_loop ::
  "(nat \<Rightarrow> entry_ptr) \<Rightarrow> (nat \<Rightarrow> pj_time_val) \<Rightarrow> pj_hash_iterator_t option \<Rightarrow> tsx_layer \<Rightarrow> tsx_layer option" where
  "stop_loop junk clock it L =
     (case it of
        None \<Rightarrow> Some L
      | Some i \<Rightarrow> do {
          tsx \<leftarrow> pj_hash_this (l_htable L) i;
          nxt \<leftarrow> pj_hash_next (l_htable L) i;
          L1 \<leftarrow> stop_tsx junk clock tsx L;
          stop_loop junk clock nxt L1
        })"

definition mod_tsx_layer_stop ::
  "(nat \<Rightarrow> entry_ptr) \<Rightarrow> (nat \<Rightarrow> pj_time_val) \<Rightarrow> tsx_layer \<Rightarrow> tsx_layer option" where
  "mod_tsx_layer_stop junk clock L = do {
     it \<leftarrow> pj_hash_first (l_htable L);
     stop_loop junk clock it L
   }"

definition mod_tsx_layer_unload :: "tsx_layer \<Rightarrow> pj_status \<times> tsx_layer" where
  "mod_tsx_layer_unload L =
     (if pj_hash_count (l_htable L) \<noteq> 0 then (PJ_EBUSY, L) else (PJ_SUCCESS, L\<lparr>l_endpt := False\<rparr>))"

end
