(* ===== verification/Sip_Tsx_Log.thy ===== *)
theory Sip_Tsx_Log
  imports Sip_Tsx_Run
begin

text \<open>
  What a transaction leaves behind in the transaction table and in the timer heap. From the log of a
  transaction one reads whether it is registered and which of its timers run. The invariant
  \<open>tracked\<close> says that a transaction registers under its own key only, and that both its table entry
  and its timers are gone when its memory is released.
\<close>

fun reg_step :: "tsx_action \<Rightarrow> bool \<Rightarrow> bool" where
  "reg_step (Register_tsx _) b = True"
| "reg_step (Unregister_tsx _) b = False"
| "reg_step _ b = b"

definition registered :: "tsx_action list \<Rightarrow> bool" where
  "registered log = fold reg_step log False"

text \<open>The fields that identify a transaction: they never change.\<close>

definition ident :: "pjsip_transaction \<Rightarrow> string \<times> pjsip_role_e \<times> pjsip_method \<times> string" where
  "ident t = (transaction_key t, role t, t_method t, t_branch t)"

definition tracked :: "string \<times> pjsip_role_e \<times> pjsip_method \<times> string \<Rightarrow> tsx_action list \<Rightarrow> tsx_world \<Rightarrow> bool" where
  "tracked key log0 w \<longleftrightarrow> ident (w_tsx w) = key \<and> (\<exists>as. w_log w = log0 @ as \<and> (\<forall>k. Timer_fired k \<notin> set as)) \<and>
     (\<forall>j. Register_tsx j \<in> set (w_log w) \<or> Unregister_tsx j \<in> set (w_log w) \<longrightarrow> j = fst key) \<and>
     (\<forall>k. timer_pending k (w_log w) \<longrightarrow> w_alive w \<and> timer_id k (w_tsx w) \<noteq> 0) \<and>
     (registered (w_log w) \<longrightarrow> w_alive w)"

lemma log_snoc [simp]:
  "timer_pending k (log @ [a]) = timer_step k a (timer_pending k log)"
  "registered (log @ [a]) = reg_step a (registered log)"
  by (simp_all add: timer_pending_def registered_def)

subsection \<open>Elementary steps\<close>

text \<open>Entries of the log that neither start anything nor tell of a timer.\<close>

fun benign :: "tsx_action \<Rightarrow> bool" where
  "benign (Register_tsx _) = False"
| "benign (Unregister_tsx _) = False"
| "benign (Schedule_timer _ _) = False"
| "benign (Timer_fired _) = False"
| "benign _ = True"

lemma benign_steps: "benign a \<Longrightarrow> timer_step k a b \<Longrightarrow> b" "benign a \<Longrightarrow> reg_step a b = b"
  by (cases a; simp)+

lemma tracked_emit [simp]: "benign a \<Longrightarrow> tracked key L w \<Longrightarrow> tracked key L (emit a w)"
  by (auto simp: tracked_def emit_def benign_steps dest: benign_steps(1))

lemma tracked_upd [simp]:
  "(\<And>k. timer_id k (f (w_tsx w)) = timer_id k (w_tsx w)) \<Longrightarrow> ident (f (w_tsx w)) = ident (w_tsx w) \<Longrightarrow>
    tracked key L w \<Longrightarrow> tracked key L (upd f w)"
  by (auto simp: tracked_def upd_def)

lemma timer_id_upds [simp]:
  "timer_id k (t\<lparr>t_user := u\<rparr>) = timer_id k t" "timer_id k (t\<lparr>state := s, state_handler := h\<rparr>) = timer_id k t"
  "timer_id k (t\<lparr>transport_flag := F\<rparr>) = timer_id k t" "timer_id k (t\<lparr>last_tx := d\<rparr>) = timer_id k t"
  "timer_id k (t\<lparr>transport := tp\<rparr>) = timer_id k t" "timer_id k (t\<lparr>transport_err := err\<rparr>) = timer_id k t"
  "timer_id k (t\<lparr>status_code := c, t_status_text := txt\<rparr>) = timer_id k t" "timer_id k (t\<lparr>tp_sel := sel\<rparr>) = timer_id k t"
  "timer_id k (t\<lparr>retransmit_count := n\<rparr>) = timer_id k t"
  "timer_id k (t\<lparr>transport := tp, addr_len := al, t_addr := a, is_reliable := b\<rparr>) = timer_id k t"
  "timer_id k (t\<lparr>addr_len := al, res_addr_transport := rt, res_addr_len := rl\<rparr>) = timer_id k t"
  by (cases k; simp)+

lemma ident_upds [simp]:
  "ident (t\<lparr>t_user := u\<rparr>) = ident t" "ident (t\<lparr>state := s, state_handler := h\<rparr>) = ident t"
  "ident (t\<lparr>transport_flag := F\<rparr>) = ident t" "ident (t\<lparr>last_tx := d\<rparr>) = ident t"
  "ident (t\<lparr>transport := tp\<rparr>) = ident t" "ident (t\<lparr>transport_err := err\<rparr>) = ident t"
  "ident (t\<lparr>status_code := c, t_status_text := txt\<rparr>) = ident t" "ident (t\<lparr>tp_sel := sel\<rparr>) = ident t"
  "ident (t\<lparr>retransmit_count := n\<rparr>) = ident t"
  "ident (t\<lparr>transport := tp, addr_len := al, t_addr := a, is_reliable := b\<rparr>) = ident t"
  "ident (t\<lparr>addr_len := al, res_addr_transport := rt, res_addr_len := rl\<rparr>) = ident t"
  "ident (set_timer_id k n t) = ident t"
  by (simp_all add: ident_def) (cases k; simp)+

lemma timer_id_set: "timer_id k (set_timer_id k' n t) = (if k = k' then n else timer_id k t)"
  by (cases k; cases k') simp_all

lemma tracked_start_timer [simp]: "tracked key L w \<Longrightarrow> w_alive w \<Longrightarrow> tracked key L (start_timer k d w)"
  by (auto simp: tracked_def start_timer_def emit_def upd_def timer_id_set TIMER_ACTIVE_def)

lemma tracked_cancel_timer [simp]: "tracked key L w \<Longrightarrow> tracked key L (cancel_timer k w)"
  by (simp add: cancel_timer_def)

lemma tracked_clear_timer:
  "tracked key L w \<Longrightarrow> \<not> timer_pending k (w_log w) \<Longrightarrow> tracked key L (upd (set_timer_id k 0) w)"
  by (auto simp: tracked_def upd_def timer_id_set)

lemma cancel_not_pending [simp]: "\<not> timer_pending k (w_log (cancel_timer k w))"
  by (simp add: cancel_timer_def emit_def)

lemma tracked_stop_timer [simp]: "tracked key L w \<Longrightarrow> tracked key L (stop_timer k w)"
  by (simp add: stop_timer_def tracked_clear_timer)

text \<open>A cancelled timer may have its id cleared before or after.\<close>

lemma tracked_reset_timer [simp]: "tracked key L w \<Longrightarrow> tracked key L (cancel_timer k (upd (set_timer_id k 0) w))"
proof -
  assume "tracked key L w"
  then have "tracked key L (upd (set_timer_id k 0) (cancel_timer k w))" by (simp add: tracked_clear_timer)
  moreover have "cancel_timer k (upd (set_timer_id k 0) w) = upd (set_timer_id k 0) (cancel_timer k w)"
    by (simp add: cancel_timer_def emit_def upd_def)
  ultimately show ?thesis by simp
qed

lemma tracked_helpers [simp]:
  assumes "tracked key L w"
  shows "tracked key L (tsx_set_status_code c rs w)" "tracked key L (set_flag F w)" "tracked key L (clear_flag F w)"
    "tracked key L (release_transport w)" "tracked key L (save_last_tx td w)" "tracked key L (drop_last_tx td w)"
    "tracked key L (notify_rx src w)" "tracked key L (notify_state p st src w)" "tracked key L (enter_state st src w)"
proof -
  have rx: "tracked key L (notify_rx src w')" if "tracked key L w'" for w' src
    using that by (simp add: notify_rx_def split: option.split pjsip_event_src.split)
  have st: "tracked key L (notify_state p st src w')" if "tracked key L w'" for w' p st src
    using that by (simp add: notify_state_def split: option.split)
  show "tracked key L (notify_rx src w)" "tracked key L (notify_state p st src w)" "tracked key L (enter_state st src w)"
    using assms by (simp_all add: enter_state_def rx st)
qed (use assms in \<open>simp_all add: tsx_set_status_code_def set_flag_def clear_flag_def release_transport_def
      save_last_tx_def drop_last_tx_def split: option.split\<close>)

subsection \<open>Changing the state\<close>

text \<open>The entry of the table goes before the memory.\<close>

lemma tracked_destroy:
  assumes "tracked key L w" "\<not> registered (w_log w)"
  shows "wp True (tsx_destroy w) (\<lambda>x. tracked key L (snd x) \<and> \<not> registered (w_log (snd x)))"
proof -
  define w2 where "w2 = emit (Selector_dec_ref (tp_sel (w_tsx (release_transport w)))) (release_transport w)"
  define w3 where "w3 = (case last_tx (w_tsx w2) of None \<Rightarrow> w2
      | Some d \<Rightarrow> upd (\<lambda>t. t\<lparr>last_tx := None\<rparr>) (emit (Tx_dec_ref (tx_id d)) w2))"
  define w4 where "w4 = stop_timer Retransmit_timer (stop_timer Timeout_timer w3)"
  define w5 where "w5 = clear_flag TSX_HAS_PENDING_SEND (clear_flag TSX_HAS_PENDING_RESCHED w4)"
  have 3: "tracked key L w3" "\<not> registered (w_log w3)"
    using assms by (auto simp: w3_def w2_def release_transport_def registered_def split: option.split)
  have 5: "tracked key L w5" using 3 by (simp add: w5_def w4_def)
  have reg: "\<not> registered (w_log w5)"
    using 3 by (simp add: w5_def w4_def stop_timer_def cancel_timer_def clear_flag_def)
  have "timer_id k (w_tsx w5) = 0" for k
    by (cases k) (simp_all add: w5_def w4_def clear_flag_def stop_timer_def cancel_timer_def emit_def)
  then have "tracked key L (emit Release_pool (w5\<lparr>w_alive := False\<rparr>))"
    using 5 reg by (auto simp: tracked_def emit_def)
  with 5 reg show ?thesis
    unfolding tsx_destroy_def Let_def w2_def [symmetric] w3_def [symmetric] w4_def [symmetric] w5_def [symmetric]
    by (simp add: set_flag_def)
qed

lemma tracked_unregister: "tracked key L w \<Longrightarrow> tracked key L (emit (Unregister_tsx (transaction_key (w_tsx w))) w)"
  by (auto simp: tracked_def emit_def ident_def)

lemma tracked_set_state:
  assumes "tracked key L w"
  shows "wp True (tsx_set_state st src w) (\<lambda>w'. tracked key L w' \<and> (st \<noteq> PJSIP_TSX_STATE_DESTROYED \<longrightarrow> w_alive w'))"
proof -
  let ?w = "enter_state st src w"
  have w1: "tracked key L ?w" using assms by simp
  have "wp True (tsx_destroy (emit (Unregister_tsx (transaction_key (w_tsx ?w))) ?w)) (\<lambda>x. tracked key L (snd x))"
    by (rule wp_mono [OF tracked_destroy [where key = key and L = L]]) (use tracked_unregister [OF w1] in simp_all)
  with w1 show ?thesis by (cases st) (simp_all add: tsx_set_state_def Let_def)
qed

lemmas tracked_state = wp_mono [OF tracked_set_state, where f' = True]

lemma tracked_state_only: "tracked key L w \<Longrightarrow> wp True (tsx_set_state st src w) (tracked key L)"
  by (rule wp_mono [OF tracked_set_state [where key = key and L = L]]) simp_all

subsection \<open>Sending\<close>

lemma tracked_send_failed: "tracked key L w \<Longrightarrow> wp True (send_failed st w) (\<lambda>x. tracked key L (snd x))"
  by (auto simp: send_failed_def Let_def intro!: tracked_state)

lemma tracked_send_on_transport: "tracked key L w \<Longrightarrow> tracked key L (snd (snd (send_on_transport env td w)))"
  by (simp add: send_on_transport_def Let_def split: option.split)

lemma tracked_send_resolved: "tracked key L w \<Longrightarrow> wp True (tsx_send_resolved env td w) (\<lambda>x. tracked key L (snd x))"
  using tracked_send_on_transport [of key L w env td]
  by (simp add: tsx_send_resolved_def split_beta tracked_send_failed)

lemma tracked_resched: "tracked key L w \<Longrightarrow> wp True (tsx_resched_retransmission env w) (tracked key L)"
  by (simp add: tsx_resched_retransmission_def Let_def)

lemma tracked_update_transport: "tracked key L w \<Longrightarrow> wp True (update_transport ss w) (tracked key L)"
  by (auto simp: update_transport_def wp_partial split: bind_splits)

lemma tracked_flush:
  assumes "tracked key L w"
  shows "wp True (flush_pending env w) (tracked key L)"
proof -
  define tail where "tail w1 = (if has_flag TSX_HAS_PENDING_RESCHED w1
        then let w2 = clear_flag TSX_HAS_PENDING_RESCHED w1
             in if \<not> is_reliable (w_tsx w2) then tsx_resched_retransmission env w2 else Some w2
        else Some w1)" for w1
  have tail: "wp True (tail w1) (tracked key L)" if "tracked key L w1" for w1
    using that by (simp add: tail_def Let_def tracked_resched)
  have sent: "wp True (tsx_send_resolved env td (clear_flag TSX_HAS_PENDING_SEND w)) (\<lambda>x. wp True (tail (snd x)) (tracked key L))" for td
    by (rule wp_mono [OF tracked_send_resolved [where key = key and L = L]]) (use assms tail in simp_all)
  have "wp True (tsx_set_state PJSIP_TSX_STATE_DESTROYED Src_unknown w) (tracked key L)"
    by (rule tracked_state) (use assms in simp_all)
  with sent show ?thesis
    using tail [OF assms] tail [of "clear_flag TSX_HAS_PENDING_SEND w"] assms
    unfolding flush_pending_def tail_def [abs_def, symmetric] by (simp split: option.split)
qed

lemma tracked_callback:
  assumes "tracked key L w"
  shows "wp True (send_msg_callback env ss w) (tracked key L)"
proof -
  have sent: "wp True (send_msg_done env ss w) (tracked key L)"
    unfolding send_msg_done_def wp_simps
    by (rule wp_mono [OF tracked_update_transport [OF assms]]) (simp_all add: tracked_flush)
  have err: "wp True (send_msg_error ss err w) (tracked key L)" for err
    using assms by (auto simp: send_msg_error_def Let_def intro!: tracked_state)
  show ?thesis using sent err by (simp add: send_msg_callback_def split: option.split)
qed

lemma tracked_callbacks: "tracked key L w \<Longrightarrow> wp True (run_callbacks env sss w) (tracked key L)"
proof (induction sss arbitrary: w)
  case (Cons ss sss)
  then show ?case by (simp add: wp_mono [OF tracked_callback [OF Cons.prems]])
qed simp

lemma tracked_resolve: "tracked key L w \<Longrightarrow> wp True (tsx_resolve env td w) (\<lambda>x. tracked key L (snd x))"
  by (auto simp: tsx_resolve_def Let_def split_beta intro!: wp_mono [OF tracked_callbacks [where key = key and L = L]])

lemma tracked_send_msg: "tracked key L w \<Longrightarrow> wp True (tsx_send_msg env td w) (\<lambda>x. tracked key L (snd x))"
  using tracked_send_on_transport [of key L w env td]
  by (simp add: tsx_send_msg_def split_beta tracked_send_failed tracked_resolve)

lemma tracked_retransmit: "tracked key L w \<Longrightarrow> wp True (tsx_retransmit env b w) (\<lambda>x. tracked key L (snd x))"
  by (auto simp: tsx_retransmit_def Let_def tracked_send_msg tracked_resched split: option.split
      intro!: wp_mono [OF tracked_resched [where key = key and L = L]])

lemma tracked_start_retransmission [simp]:
  "tracked key L w \<Longrightarrow> w_alive w \<Longrightarrow> tracked key L (start_retransmission env w)"
  by (simp add: start_retransmission_def Let_def)

lemma start_retransmission_alive [simp]: "w_alive (start_retransmission env w) = w_alive w"
  by (simp add: start_retransmission_def Let_def)

subsection \<open>Handlers\<close>

lemma tracked_null:
  assumes "tracked key L w"
  shows "wp True (tsx_on_state_null env event w) (\<lambda>x. tracked key L (snd x))"
proof -
  have sent: "wp True (null_uac_sent env td w') (\<lambda>x. tracked key L (snd x))" if "tracked key L w'" for td w'
    using that by (auto simp: null_uac_sent_def Let_def intro!: tracked_state)
  have "wp True (tsx_send_msg env td (save_last_tx td (drop_last_tx td w)))
      (\<lambda>x. (fst x \<noteq> PJ_SUCCESS \<longrightarrow> tracked key L (snd x)) \<and>
         (fst x = PJ_SUCCESS \<longrightarrow> wp True (null_uac_sent env td (snd x)) (\<lambda>x. tracked key L (snd x))))" for td
    by (rule wp_mono [OF tracked_send_msg [where key = key and L = L]]) (use assms sent in simp_all)
  then show ?thesis using assms
    by (simp add: tsx_on_state_null_def split_beta tracked_state_only split: pjsip_event.split)
qed

lemma tracked_start_timer_D [simp]: "tracked key L w \<Longrightarrow> w_alive w \<Longrightarrow> tracked key L (start_timer_D env w)"
  by (simp add: start_timer_D_def Let_def)

lemma tracked_uac_completed:
  assumes "tracked key L w"
  shows "wp True (uac_completed env src invite ack w) (\<lambda>x. tracked key L (snd x))"
proof -
  have "wp True (if invite then replace_last_tx ack w1 else Some w1) (\<lambda>w2. tracked key L (start_timer_D env w2))"
    if "tracked key L w1" "w_alive w1" for w1
    using that by (auto simp: replace_last_tx_def wp_partial split: bind_splits)
  then show ?thesis unfolding uac_completed_def wp_simps
    by (intro tracked_state [OF assms]) simp_all
qed

lemma tracked_uac_fail:
  assumes "tracked key L w"
  shows "wp True (proceeding_uac_fail env src w) (\<lambda>x. tracked key L (snd x))"
proof -
  let ?w = "cancel_timer Timeout_timer (upd (set_timer_id Timeout_timer 0) (stop_timer Retransmit_timer w))"
  have w: "tracked key L ?w" using assms by simp
  have ack: "wp True (send_ack env ?w) (\<lambda>x. tracked key L (snd (snd x)))"
    using w by (auto simp: send_ack_def split_beta split: sum.split intro!: wp_mono [OF tracked_send_msg [where key = key and L = L]])
  have "wp True (send_ack env ?w) (\<lambda>x. (fst x \<noteq> PJ_SUCCESS \<longrightarrow> tracked key L (snd (snd x))) \<and> (fst x = PJ_SUCCESS \<longrightarrow>
      wp True (uac_completed env src True (fst (snd x)) (snd (snd x))) (\<lambda>x. tracked key L (snd x))))"
    by (rule wp_mono [OF ack]) (simp_all add: tracked_uac_completed)
  with w show ?thesis by (simp add: proceeding_uac_fail_def Let_def split_beta tracked_uac_completed)
qed

lemma tracked_uac_status:
  assumes "tracked key L w" "w_alive w"
  shows "wp True (proceeding_uac_status env src w) (\<lambda>x. tracked key L (snd x))"
  using assms by (auto simp: proceeding_uac_status_def proceeding_uac_2xx_def Let_def tracked_uac_fail intro!: tracked_state)

lemma tracked_proceeding_uac:
  "tracked key L w \<Longrightarrow> wp True (tsx_on_state_proceeding_uac env event w) (\<lambda>x. tracked key L (snd x))"
  by (auto simp: tsx_on_state_proceeding_uac_def tracked_uac_status tracked_retransmit
      split: pjsip_event.split tsx_timer.split pjsip_msg_line.split)

lemma calling_timers_alive [simp]: "w_alive (calling_response_timers env code w) = w_alive w"
  by (simp add: calling_response_timers_def Let_def)

lemma tracked_calling_timers [simp]:
  "tracked key L w \<Longrightarrow> w_alive w \<Longrightarrow> tracked key L (calling_response_timers env code w)"
  by (simp add: calling_response_timers_def Let_def)

lemma tracked_calling:
  assumes "tracked key L w"
  shows "wp True (tsx_on_state_calling env event w) (\<lambda>x. tracked key L (snd x))"
proof -
  have "wp True (tsx_on_state_proceeding_uac env event (clear_flag TSX_HAS_PENDING_RESCHED (calling_response_timers env code w)))
      (\<lambda>x. tracked key L (snd x))" if "w_alive w" for code
    using assms that by (simp add: tracked_proceeding_uac)
  then show ?thesis using assms
    by (auto simp: tsx_on_state_calling_def split_beta tracked_retransmit intro!: tracked_state
        split: pjsip_event.split tsx_timer.split pjsip_msg_line.split)
qed

lemma tracked_uas_2xx:
  assumes "tracked key L w" "w_alive w"
  shows "wp True (proceeding_uas_2xx env td w) (\<lambda>x. tracked key L (snd x))"
proof -
  have go: "wp True (tsx_set_state PJSIP_TSX_STATE_COMPLETED (Src_tx_msg td) (start_timer Timeout_timer d (save_last_tx td w')))
      (\<lambda>w''. tracked key L w'')" if "tracked key L w'" "w_alive w'" for d w'
    using that by (simp add: tracked_state_only)
  have fin: "wp True (tsx_set_state PJSIP_TSX_STATE_TERMINATED (Src_tx_msg td) w) (\<lambda>w''. tracked key L w'')"
    using assms by (simp add: tracked_state_only)
  from assms go [of w] go [of "start_retransmission env w"] fin show ?thesis
    by (cases "transport (w_tsx w)") (simp_all add: proceeding_uas_2xx_def Let_def)
qed

lemma tracked_uas_fail:
  assumes "tracked key L w" "w_alive w"
  shows "wp True (proceeding_uas_fail env td w) (\<lambda>x. tracked key L (snd x))"
proof -
  have go: "wp True (tsx_set_state PJSIP_TSX_STATE_COMPLETED (Src_tx_msg td) w') (\<lambda>w''. tracked key L w'')"
    if "tracked key L w'" for w'
    using that by (simp add: tracked_state_only)
  show ?thesis using assms
    by (cases "tx_cseq td") (simp_all add: proceeding_uas_fail_def Let_def go)
qed

lemma tracked_uas_sent: "tracked key L w \<Longrightarrow> wp True (proceeding_uas_sent env td w) (\<lambda>x. tracked key L (snd x))"
  by (auto simp: proceeding_uas_sent_def tracked_uas_2xx tracked_uas_fail intro!: tracked_state)

lemma tracked_proceeding_uas:
  assumes "tracked key L w"
  shows "wp True (tsx_on_state_proceeding_uas env event w) (\<lambda>x. tracked key L (snd x))"
proof -
  have "wp True (tsx_send_msg env td (drop_last_tx td (tsx_set_status_code c rs w)))
      (\<lambda>x. (fst x \<noteq> PJ_SUCCESS \<longrightarrow> tracked key L (snd x)) \<and>
         (fst x = PJ_SUCCESS \<longrightarrow> wp True (proceeding_uas_sent env td (snd x)) (\<lambda>x. tracked key L (snd x))))" for td c rs
    by (rule wp_mono [OF tracked_send_msg [where key = key and L = L]]) (use assms tracked_uas_sent in simp_all)
  moreover have "wp True (tsx_set_state PJSIP_TSX_STATE_TERMINATED src (tsx_set_status_code c rs w)) (\<lambda>w'. tracked key L w')" for src c rs
    using assms by (simp add: tracked_state_only)
  ultimately show ?thesis using assms
    by (simp add: tsx_on_state_proceeding_uas_def split_beta tracked_retransmit tracked_send_msg
        split: pjsip_event.split tsx_timer.split pjsip_msg_line.split option.split)
qed

lemma tracked_trying:
  assumes "tracked key L w"
  shows "wp True (tsx_on_state_trying env event w) (\<lambda>x. tracked key L (snd x))"
proof (cases event)
  case (Tx_msg_event td)
  show ?thesis unfolding tsx_on_state_trying_def Tx_msg_event wp_simps wp_live pjsip_event.case split_beta if_True
    by (simp, intro impI wp_mono [OF tracked_proceeding_uas [OF assms]]) (simp_all add: tracked_state_only)
qed (use assms in \<open>simp_all add: tsx_on_state_trying_def\<close>)

lemma tracked_completed_uas:
  assumes "tracked key L w"
  shows "wp True (tsx_on_state_completed_uas env event w) (\<lambda>x. tracked key L (snd x))"
proof -
  have ack: "wp True (completed_uas_ack env rdata w) (\<lambda>x. tracked key L (snd x))" if "w_alive w" for rdata
    using assms that
    by (cases "transport (w_tsx w)") (auto simp: completed_uas_ack_def Let_def intro!: tracked_state)
  show ?thesis using assms ack
    by (auto simp: tsx_on_state_completed_uas_def tracked_retransmit intro!: tracked_state
        split: pjsip_event.split tsx_timer.split pjsip_msg_line.split)
qed

lemma tracked_completed_uac:
  "tracked key L w \<Longrightarrow> wp True (tsx_on_state_completed_uac env event w) (\<lambda>x. tracked key L (snd x))"
  by (auto simp: tsx_on_state_completed_uac_def tracked_retransmit intro!: tracked_state
      split: pjsip_event.split pjsip_msg_line.split)

lemma tracked_confirmed:
  "tracked key L w \<Longrightarrow> wp True (tsx_on_state_confirmed env event w) (\<lambda>x. tracked key L (snd x))"
  by (auto simp: tsx_on_state_confirmed_def intro!: tracked_state split: pjsip_event.split)

lemma tracked_handler: "tracked key L w \<Longrightarrow> wp True (call_handler h env event w) (\<lambda>x. tracked key L (snd x))"
  by (cases h) (auto simp: tracked_null tracked_calling tracked_trying tracked_proceeding_uas tracked_proceeding_uac
      tracked_completed_uas tracked_completed_uac tracked_confirmed tsx_on_state_terminated_def tsx_on_state_destroyed_def
      intro!: tracked_state)

lemma tracked_dispatch: "tracked key L w \<Longrightarrow> wp True (tsx_dispatch env event w) (\<lambda>x. tracked key L (snd x))"
  by (cases "state_handler (w_tsx w)") (simp_all add: tsx_dispatch_def tracked_handler)

lemma tracked_refl: "tracked key L w \<Longrightarrow> tracked key (w_log w) w"
  by (simp add: tracked_def)

text \<open>Only the callback of a timer says that the timer has fired, and says so first.\<close>

lemma tracked_timer:
  assumes "tracked key L w"
  shows "wp True (tsx_timer_callback env k w) (tracked key (w_log w @ [Timer_fired k]))"
proof -
  have "tracked key (w_log w @ [Timer_fired k]) (emit (Timer_fired k) w)"
    using assms by (auto simp: tracked_def emit_def)
  then have "tracked key (w_log w @ [Timer_fired k]) (upd (set_timer_id k 0) (emit (Timer_fired k) w))"
    by (intro tracked_clear_timer) simp_all
  then show ?thesis by (simp add: tsx_timer_callback_def tracked_dispatch)
qed

text \<open>Every operation on a transaction keeps track.\<close>

lemma tracked_op:
  assumes "tracked key L w" "\<forall>k. op \<noteq> Op_timer k"
  shows "wp True (run_op env op w) (tracked key L)"
proof (cases op)
  case (Op_send msg)
  have "wp True (tsx_dispatch env ev (emit (Set_tx_transport i j) w)) (\<lambda>x. tracked key L (if b x then emit (Tx_dec_ref n) (snd x) else snd x))" for ev i j n b
    by (rule wp_mono [OF tracked_dispatch [where key = key and L = L]]) (use assms in simp_all)
  then show ?thesis using assms Op_send by (simp add: pjsip_tsx_send_msg_def split_beta split: option.split)
next
  case (Op_retransmit_no_state msg)
  have "wp True (tsx_send_msg env td w) (\<lambda>x. tracked key L (if b x then emit (Tx_dec_ref n) (snd x) else snd x))" for td n b
    by (rule wp_mono [OF tracked_send_msg [where key = key and L = L]]) (use assms in simp_all)
  then show ?thesis using assms Op_retransmit_no_state by (simp add: pjsip_tsx_retransmit_no_state_def split_beta split: option.split)
next
  case (Op_transport_callback res)
  then show ?thesis using assms
    by (cases "transport (w_tsx w)") (auto simp: transport_callback_def intro!: tracked_state split: option.split)
qed (use assms in \<open>auto simp: tracked_timer tracked_callback tracked_dispatch pjsip_tsx_recv_msg_def pjsip_tsx_terminate_def
      pjsip_tsx_stop_retransmit_def pjsip_tsx_set_transport_def intro!: tracked_state\<close>)

lemma tracked_any_op:
  assumes "tracked key L w" "run_op env op w = Some w'"
  shows "\<exists>L'. tracked key L' w'"
proof (cases "\<exists>k. op = Op_timer k")
  case True
  then obtain k where "op = Op_timer k" by blast
  then show ?thesis using assms(2) tracked_timer [OF assms(1), of env k] by (auto simp: wp_partial)
next
  case False
  then have "wp True (run_op env op w) (tracked key L)" using assms(1) by (intro tracked_op) auto
  then show ?thesis using assms(2) by (auto simp: wp_partial)
qed

lemma created_tracked:
  assumes "tsx_created r m w"
  shows "tracked (ident (w_tsx w)) (w_log w) w \<and> registered (w_log w) \<and> (\<forall>k. \<not> timer_pending k (w_log w))"
  using assms
proof (induction rule: tsx_created.induct)
  case (created_uac created fresh dest user tdata w m)
  obtain key i where "w_alive w" "w_log w = [Tx_add_ref i, Register_tsx key]" "transaction_key (w_tsx w) = key"
    using created_uac
    by (auto simp: pjsip_tsx_create_uac_def mod_tsx_layer_register_tsx_def new_transaction_def emit_def upd_def Let_def
        split: if_splits option.splits bind_splits sum.splits)
  then show ?case by (auto simp: tracked_def timer_pending_def registered_def ident_def)
next
  case (created_uas created resp user rdata w m)
  have "\<exists>key. w_alive w \<and> transaction_key (w_tsx w) = key \<and> (w_log w = [Register_tsx key] \<or> (\<exists>i. w_log w = [Transport_add_ref i, Register_tsx key]))"
    using created_uas
    by (auto simp: pjsip_tsx_create_uas_def mod_tsx_layer_register_tsx_def new_transaction_def emit_def upd_def Let_def
        split: if_splits option.splits bind_splits sum.splits)
  then show ?case by (auto simp: tracked_def timer_pending_def registered_def ident_def)
qed

end
