(* ===== verification/Sip_Tsx_Layer_Spec.thy ===== *)
theory Sip_Tsx_Layer_Spec
  imports Sip_Tsx_Layer Sip_Tsx_Log Pj_Hash_Spec Pj_Timer_Service
begin

text \<open>
  What the transaction layer guarantees: the transaction table and the timer heap only ever refer to
  transactions whose memory is allocated, a received message is handed to the transaction that it
  belongs to, and stopping the module empties the table.
\<close>

subsection \<open>The timer heap as the layer uses it\<close>

text \<open>The owner and the callback of every entry, which scheduling and cancelling keep.\<close>

definition tags :: "pj_timer_heap \<Rightarrow> entry_ptr \<Rightarrow> nat \<times> nat option" where
  "tags heap e = (te_user_data (th_mem heap e), te_cb (th_mem heap e))"

definition owned :: "(entry_ptr \<Rightarrow> nat \<times> nat option) \<Rightarrow> pj_timer_heap \<Rightarrow> entry_ptr \<Rightarrow> bool" where
  "owned T heap e \<longleftrightarrow> entry_ok heap e \<and> tags heap = T"

lemma schedule_tags:
  assumes "timer_inv ht" "entry_ok ht e" "pending ht e = None" "pj_timer_heap_schedule junk now ht e d = Some (r, ht')"
  shows "tags ht' = tags ht"
proof -
  obtain ht2 k where "schedule_entry junk ht e (tv_add now d) = Some (PJ_SUCCESS, ht2)"
    "th_mem ht2 = (th_mem ht)(e := (th_mem ht e)\<lparr>te_timer_id := k, te_timer_value := tv_add now d\<rparr>)"
    using schedule_entry_correct [OF assms(1,3)] by blast
  then show ?thesis using assms(2-4) by (auto simp: pj_timer_heap_schedule_def entry_ok_def tags_def)
qed

lemma cancel_tags:
  assumes "timer_inv ht" "entry_ok ht e" "pj_timer_heap_cancel hook ht e = Some (r, ht')"
  shows "tags ht' = tags ht"
proof (cases "pending ht e")
  case None
  then show ?thesis using assms cancel_idle [of ht e hook 1] by (simp add: pj_timer_heap_cancel_def)
next
  case (Some t)
  obtain ht2 where "\<forall>hook. cancel hook ht e 1 = Some (1, ht2)" "th_mem ht2 = (th_mem ht)(e := (th_mem ht e)\<lparr>te_timer_id := -1\<rparr>)"
    using cancel_pending [OF assms(1) Some] by blast
  then show ?thesis using assms(3) by (auto simp: pj_timer_heap_cancel_def tags_def)
qed

interpretation owned_timers: timer_service timer_inv "owned T" pending tv_add
    "pj_timer_heap_schedule junk" "pj_timer_heap_cancel hook" for T junk hook
proof
  fix s e and now d :: pj_time_val
  assume inv: "timer_inv s" and "owned T s e"
  then have e: "entry_ok s e" and T: "tags s = T" by (simp_all add: owned_def)
  show "\<exists>r s'. pj_timer_heap_schedule junk now s e d = Some (r, s') \<and> timer_inv s' \<and>
      pending s' = (pending s)(e \<mapsto> tv_add now d) \<and> (\<forall>f. owned T s f \<longrightarrow> owned T s' f)" if idle: "pending s e = None"
  proof -
    obtain r s' where s': "pj_timer_heap_schedule junk now s e d = Some (r, s')" "timer_inv s'"
      "pending s' = (pending s)(e \<mapsto> tv_add now d)" "\<forall>f. entry_ok s f \<longrightarrow> entry_ok s' f"
      using heap_timers.sched_idle [OF inv e idle] by blast
    moreover have "tags s' = T" using schedule_tags [OF inv e idle s'(1)] T by simp
    ultimately show ?thesis by (auto simp: owned_def)
  qed
  show "\<exists>q s'. pj_timer_heap_cancel hook s e = Some (q, s') \<and> timer_inv s' \<and>
      pending s' = (pending s)(e := None) \<and> (\<forall>f. owned T s f \<longrightarrow> owned T s' f)"
  proof -
    obtain q s' where s': "pj_timer_heap_cancel hook s e = Some (q, s')" "timer_inv s'"
      "pending s' = (pending s)(e := None)" "\<forall>f. entry_ok s f \<longrightarrow> entry_ok s' f"
      using heap_timers.canc_any [OF inv e] by blast
    moreover have "tags s' = T" using cancel_tags [OF inv e s'(1)] T by simp
    ultimately show ?thesis by (auto simp: owned_def)
  qed
  show "pending s e \<noteq> None \<Longrightarrow> \<exists>r. pj_timer_heap_schedule junk now s e d = Some (r, s)"
    using heap_timers.sched_busy [OF inv e] by blast
qed

subsection \<open>The invariant of the layer\<close>

lemma entry_of_inj [simp]: "entry_of i k = entry_of j k' \<longleftrightarrow> i = j \<and> k = k'"
  by (cases k; cases k'; simp add: entry_of_def; presburger)

text \<open>The key of a client transaction, or of one whose branch has the cookie of RFC 3261.\<close>

fun key_ok :: "string \<times> pjsip_role_e \<times> pjsip_method \<times> string \<Rightarrow> bool" where
  "key_ok (key, r, m, branch) \<longleftrightarrow> (r = PJSIP_ROLE_UAC \<longrightarrow> create_tsx_key_3261 r m branch = Some key)
     \<and> take 1 key = role_char r"

text \<open>The table and the timers agree with the logs \<open>lg\<close> of the transactions.\<close>

definition layer_at :: "(nat \<Rightarrow> tsx_action list) \<Rightarrow> tsx_layer \<Rightarrow> bool" where
  "layer_at lg L \<longleftrightarrow> ht_inv (l_htable L) \<and> timer_inv (l_timers L) \<and>
     (\<forall>i w k. l_mem L i = Some w \<longrightarrow> entry_ok (l_timers L) (entry_of i k) \<and>
        (pending (l_timers L) (entry_of i k) \<noteq> None \<longleftrightarrow> timer_pending k (lg i))) \<and>
     (\<forall>i k. l_mem L i = None \<longrightarrow> pending (l_timers L) (entry_of i k) = None) \<and>
     (\<forall>key i. ht_map (l_htable L) key = Some i \<longrightarrow>
        (\<exists>w. l_mem L i = Some w \<and> transaction_key (w_tsx w) = key \<and> registered (lg i)))"

definition tags_ok :: "tsx_layer \<Rightarrow> bool" where
  "tags_ok L \<longleftrightarrow> (\<forall>i w k. l_mem L i = Some w \<longrightarrow> tags (l_timers L) (entry_of i k) = (i, Some TSX_TIMER_CALLBACK)) \<and>
     (\<forall>e. snd (tags (l_timers L) e) = Some TSX_TIMER_CALLBACK \<longrightarrow> (\<exists>i k. e = entry_of i k \<and> l_mem L i \<noteq> None))"

definition logs :: "tsx_layer \<Rightarrow> nat \<Rightarrow> tsx_action list" where
  "logs L i = (case l_mem L i of Some w \<Rightarrow> w_log w | None \<Rightarrow> [])"

definition layer_inv :: "tsx_layer \<Rightarrow> bool" where
  "layer_inv L \<longleftrightarrow> layer_at (logs L) L \<and> tags_ok L \<and>
     (\<forall>i w. l_mem L i = Some w \<longrightarrow> tracked (ident (w_tsx w)) (w_log w) w \<and> key_ok (ident (w_tsx w)))"

subsection \<open>Running the entries of a log\<close>

lemma layer_atD:
  assumes "layer_at lg L"
  shows "ht_inv (l_htable L)" "timer_inv (l_timers L)"
    "l_mem L i = Some w \<Longrightarrow> entry_ok (l_timers L) (entry_of i k)"
    "l_mem L i = Some w \<Longrightarrow> pending (l_timers L) (entry_of i k) \<noteq> None \<longleftrightarrow> timer_pending k (lg i)"
    "l_mem L i = None \<Longrightarrow> pending (l_timers L) (entry_of i k) = None"
    "ht_map (l_htable L) key = Some j \<Longrightarrow> \<exists>w. l_mem L j = Some w \<and> transaction_key (w_tsx w) = key \<and> registered (lg j)"
  using assms unfolding layer_at_def by blast+

lemma hash_put:
  assumes "ht_inv ht"
  shows "\<exists>ht'. pj_hash_set (v \<noteq> None) ht key (Key_len (length key)) (hash_loop 0 key) v = Some ht' \<and> ht_inv ht' \<and>
    ht_map ht' = (ht_map ht)(key := v)"
  using tsx_table.put_law [OF assms, of key v] by (auto simp: ht_put_def ht_look_map [OF assms] fun_eq_iff ht_look_map)

text \<open>What one entry does: to the table, to the timers, or nothing.\<close>

lemma layer_at_table:
  assumes "layer_at lg L" "l_mem L i = Some w" "ht_inv ht" "ht_map ht = (ht_map (l_htable L))(transaction_key (w_tsx w) := v)"
    "v = Some i \<and> a = Register_tsx key \<or> v = None \<and> a = Unregister_tsx key"
  shows "layer_at (lg(i := lg i @ [a])) (L\<lparr>l_htable := ht\<rparr>)"
proof -
  have "\<exists>w'. l_mem L j = Some w' \<and> transaction_key (w_tsx w') = key' \<and> registered ((lg(i := lg i @ [a])) j)"
    if "ht_map ht key' = Some j" for key' j
  proof (cases "key' = transaction_key (w_tsx w)")
    case True
    then show ?thesis using assms(2,4,5) that by auto
  next
    case False
    then have "ht_map (l_htable L) key' = Some j" using assms(4) that by simp
    from layer_atD(6) [OF assms(1) this] False assms(2) show ?thesis by auto
  qed
  then show ?thesis using assms(1,3,5) unfolding layer_at_def by auto
qed

lemma layer_at_timer:
  assumes "layer_at lg L" "l_mem L i = Some w" "timer_inv heap" "\<forall>e. owned T (l_timers L) e \<longrightarrow> owned T heap e"
    "tags (l_timers L) = T" "\<forall>e. pending heap e \<noteq> None \<longleftrightarrow> (if e = entry_of i k then b else pending (l_timers L) e \<noteq> None)"
    "\<And>k'. timer_pending k' (lg i @ [a]) \<longleftrightarrow> (if k' = k then b else timer_pending k' (lg i))" "registered (lg i @ [a]) = registered (lg i)"
  shows "layer_at (lg(i := lg i @ [a])) (L\<lparr>l_timers := heap\<rparr>) \<and> tags heap = T"
proof -
  have own: "entry_ok heap e" if "entry_ok (l_timers L) e" for e using assms(4,5) that by (auto simp: owned_def)
  have "tags heap = T"
    using assms(4,5) layer_atD(3) [OF assms(1,2), of k] by (auto simp: owned_def)
  moreover have "pending heap (entry_of j k') \<noteq> None \<longleftrightarrow> timer_pending k' ((lg(i := lg i @ [a])) j)" if "l_mem L j = Some w'" for j k' w'
    using layer_atD(4) [OF assms(1) that, of k'] assms(6,7) by simp
  moreover have "pending heap (entry_of j k') = None" if "l_mem L j = None" for j k'
    using layer_atD(5) [OF assms(1) that, of k'] assms(2) assms(6) [rule_format, of "entry_of j k'"] that
    by (cases "j = i") auto
  moreover have "\<exists>w. l_mem L j = Some w \<and> transaction_key (w_tsx w) = key \<and> registered ((lg(i := lg i @ [a])) j)"
    if "ht_map (l_htable L) key = Some j" for j key
    using layer_atD(6) [OF assms(1) that] assms(8) by auto
  ultimately show ?thesis
    using layer_atD(1,3) [OF assms(1)] assms(3) own unfolding layer_at_def by simp
qed

lemma layer_at_same:
  assumes "layer_at lg L" "\<And>k'. timer_pending k' (lg i @ [a]) = timer_pending k' (lg i)" "registered (lg i @ [a]) = registered (lg i)"
  shows "layer_at (lg(i := lg i @ [a])) L"
  using assms unfolding layer_at_def by (simp del: log_snoc)

lemma schedule_layer_at:
  assumes L: "layer_at lg L" and i: "l_mem L i = Some w"
  shows "\<exists>L'. pjsip_endpt_schedule_timer junk now (entry_of i k) d L = Some L' \<and>
    layer_at (lg(i := lg i @ [Schedule_timer k d])) L' \<and> l_mem L' = l_mem L \<and> tags (l_timers L') = tags (l_timers L) \<and>
    l_endpt L' = l_endpt L"
proof -
  note inv = layer_atD(2) [OF L]
  have own: "owned (tags (l_timers L)) (l_timers L) (entry_of i k)"
    using layer_atD(3) [OF L i] by (simp add: owned_def)
  show ?thesis
  proof (cases "pending (l_timers L) (entry_of i k)")
    case None
    obtain r heap where h: "pj_timer_heap_schedule junk now (l_timers L) (entry_of i k) d = Some (r, heap)" "timer_inv heap"
      "pending heap = (pending (l_timers L))(entry_of i k \<mapsto> tv_add now d)"
      "\<forall>f. owned (tags (l_timers L)) (l_timers L) f \<longrightarrow> owned (tags (l_timers L)) heap f"
      using owned_timers.sched_idle [OF inv own None] by blast
    from layer_at_timer [OF L i h(2,4) refl, of k True "Schedule_timer k d"] h(1,3) show ?thesis
      by (auto simp: pjsip_endpt_schedule_timer_def)
  next
    case (Some t)
    then obtain r where "pj_timer_heap_schedule junk now (l_timers L) (entry_of i k) d = Some (r, l_timers L)"
      using owned_timers.sched_busy [OF inv own] by blast
    moreover have "timer_pending k (lg i)" using Some layer_atD(4) [OF L i, of k] by simp
    ultimately show ?thesis
      using layer_at_same [OF L, of i "Schedule_timer k d"] by (auto simp: pjsip_endpt_schedule_timer_def)
  qed
qed

lemma cancel_layer_at:
  assumes L: "layer_at lg L" and i: "l_mem L i = Some w"
  shows "\<exists>L'. pjsip_endpt_cancel_timer (entry_of i k) L = Some L' \<and>
    layer_at (lg(i := lg i @ [Cancel_timer k])) L' \<and> l_mem L' = l_mem L \<and> tags (l_timers L') = tags (l_timers L) \<and>
    l_endpt L' = l_endpt L"
proof -
  note inv = layer_atD(2) [OF L]
  have own: "owned (tags (l_timers L)) (l_timers L) (entry_of i k)"
    using layer_atD(3) [OF L i] by (simp add: owned_def)
  obtain r heap where h: "pj_timer_heap_cancel (\<lambda>_ heap. Some heap) (l_timers L) (entry_of i k) = Some (r, heap)" "timer_inv heap"
    "pending heap = (pending (l_timers L))(entry_of i k := None)"
    "\<forall>f. owned (tags (l_timers L)) (l_timers L) f \<longrightarrow> owned (tags (l_timers L)) heap f"
    using owned_timers.canc_any [OF inv own] by blast
  from layer_at_timer [OF L i h(2,4) refl, of k False "Cancel_timer k"] h(1,3) show ?thesis
    by (auto simp: pjsip_endpt_cancel_timer_def)
qed

lemma action_layer_at:
  assumes L: "layer_at lg L" and i: "l_mem L i = Some w"
    and key: "\<And>key. a = Register_tsx key \<or> a = Unregister_tsx key \<Longrightarrow> key = transaction_key (w_tsx w)"
    and fired: "\<And>k. a = Timer_fired k \<Longrightarrow> \<not> timer_pending k (lg i)"
  shows "\<exists>L'. run_action junk now i a L = Some L' \<and> layer_at (lg(i := lg i @ [a])) L' \<and>
    l_mem L' = l_mem L \<and> tags (l_timers L') = tags (l_timers L) \<and> l_endpt L' = l_endpt L"
proof -
  have calc: "pj_hash_calc 0 key (Key_len (length key)) = Some (hash_loop 0 key)" for key
    by (simp add: pj_hash_calc_def)
  note put = hash_put [OF layer_atD(1) [OF L], of _ "transaction_key (w_tsx w)"]
  show ?thesis
  proof (cases a)
    case (Register_tsx key)
    obtain ht where "pj_hash_set True (l_htable L) key (Key_len (length key)) (hash_loop 0 key) (Some i) = Some ht" "ht_inv ht"
      "ht_map ht = (ht_map (l_htable L))(transaction_key (w_tsx w) := Some i)"
      using put [of "Some i"] assms(3) Register_tsx by auto
    then show ?thesis using layer_at_table [OF L i, of ht "Some i" a key] Register_tsx
      by (simp add: layer_register_def calc)
  next
    case (Unregister_tsx key)
    obtain ht where "pj_hash_set False (l_htable L) key (Key_len (length key)) (hash_loop 0 key) None = Some ht" "ht_inv ht"
      "ht_map ht = (ht_map (l_htable L))(transaction_key (w_tsx w) := None)"
      using put [of None] assms(3) Unregister_tsx by auto
    then show ?thesis using layer_at_table [OF L i, of ht None a key] Unregister_tsx
      by (simp add: mod_tsx_layer_unregister_tsx_def calc)
  qed (use schedule_layer_at [OF L i] cancel_layer_at [OF L i] layer_at_same [OF L, of i a] fired in auto)
qed

lemma actions_layer_at:
  assumes "layer_at lg L" "l_mem L i = Some w"
    and "\<forall>key. Register_tsx key \<in> set as \<or> Unregister_tsx key \<in> set as \<longrightarrow> key = transaction_key (w_tsx w)"
    and "\<forall>k. Timer_fired k \<notin> set as"
  shows "\<exists>L'. run_actions junk clock i as L = Some L' \<and> layer_at (lg(i := lg i @ as)) L' \<and>
    l_mem L' = l_mem L \<and> tags (l_timers L') = tags (l_timers L) \<and> l_endpt L' = l_endpt L"
  using assms
proof (induction as arbitrary: lg L clock)
  case (Cons a as)
  obtain L1 where L1: "run_action junk (clock 0) i a L = Some L1" "layer_at (lg(i := lg i @ [a])) L1"
    "l_mem L1 = l_mem L" "tags (l_timers L1) = tags (l_timers L)" "l_endpt L1 = l_endpt L"
    using action_layer_at [OF Cons.prems(1,2), of a junk "clock 0"] Cons.prems(3,4) by fastforce
  have eq: "(lg(i := lg i @ [a]))(i := (lg(i := lg i @ [a])) i @ as) = lg(i := lg i @ a # as)" by simp
  have "\<exists>L'. run_actions junk (\<lambda>j. clock (Suc j)) i as L1 = Some L' \<and>
      layer_at ((lg(i := lg i @ [a]))(i := (lg(i := lg i @ [a])) i @ as)) L' \<and>
      l_mem L' = l_mem L1 \<and> tags (l_timers L') = tags (l_timers L1) \<and> l_endpt L' = l_endpt L1"
    by (rule Cons.IH [OF L1(2)]) (use L1 Cons.prems in auto)
  then obtain L' where "run_actions junk (\<lambda>j. clock (Suc j)) i as L1 = Some L'" "layer_at (lg(i := lg i @ a # as)) L'"
      "l_mem L' = l_mem L1" "tags (l_timers L') = tags (l_timers L1)" "l_endpt L' = l_endpt L1" unfolding eq by blast
  with L1 show ?case by (intro exI [of _ L']) (simp add: fun_upd_def)
qed simp

subsection \<open>Operations\<close>

lemma tags_ok_same:
  assumes "tags_ok L" "tags (l_timers L') = tags (l_timers L)" "\<And>j. l_mem L' j = None \<longleftrightarrow> l_mem L j = None"
  shows "tags_ok L'"
  unfolding tags_ok_def assms(2)
proof (intro conjI allI impI)
  fix i w k assume "l_mem L' i = Some w"
  then have "l_mem L i \<noteq> None" using assms(3) [of i] by simp
  then show "tags (l_timers L) (entry_of i k) = (i, Some TSX_TIMER_CALLBACK)" using assms(1) by (auto simp: tags_ok_def)
next
  fix e assume "snd (tags (l_timers L) e) = Some TSX_TIMER_CALLBACK"
  then show "\<exists>i k. e = entry_of i k \<and> l_mem L' i \<noteq> None" using assms(1) unfolding tags_ok_def assms(3) by blast
qed

lemma on_tsx_from:
  assumes at: "layer_at ((logs L)(i := w_log w @ pre)) L" and tags: "tags_ok L"
    and all: "\<forall>i w. l_mem L i = Some w \<longrightarrow> tracked (ident (w_tsx w)) (w_log w) w \<and> key_ok (ident (w_tsx w))"
    and i: "l_mem L i = Some w" "f w = Some w1" "tracked (ident (w_tsx w)) (w_log w @ pre) w1"
    and pre: "pre = [] \<or> (\<exists>k. pre = [Timer_fired k])"
  shows "\<exists>L'. on_tsx junk clock i f L = Some L' \<and> layer_inv L' \<and> l_mem L' = (l_mem L)(i \<mapsto> w1) \<and>
    tags (l_timers L') = tags (l_timers L) \<and> l_endpt L' = l_endpt L"
proof -
  let ?L = "L\<lparr>l_mem := (l_mem L)(i \<mapsto> w1)\<rparr>"
  obtain as where as: "w_log w1 = w_log w @ pre @ as" "\<forall>k. Timer_fired k \<notin> set as" and id: "ident (w_tsx w1) = ident (w_tsx w)"
    and keys: "\<forall>key. Register_tsx key \<in> set as \<or> Unregister_tsx key \<in> set as \<longrightarrow> key = transaction_key (w_tsx w1)"
    using i(3) by (auto simp: tracked_def ident_def)
  have at1: "layer_at ((logs L)(i := w_log w @ pre)) ?L"
  proof -
    have "\<exists>wa. ((l_mem L)(i \<mapsto> w1)) j = Some wa \<and> transaction_key (w_tsx wa) = key \<and> registered (((logs L)(i := w_log w @ pre)) j)"
      if "ht_map (l_htable L) key = Some j" for key j
      using layer_atD(6) [OF at that] i(1) id by (cases "j = i") (auto simp: ident_def)
    moreover have "entry_ok (l_timers L) (entry_of j k) \<and>
        (pending (l_timers L) (entry_of j k) \<noteq> None \<longleftrightarrow> timer_pending k (((logs L)(i := w_log w @ pre)) j))"
      if "((l_mem L)(i \<mapsto> w1)) j = Some w'" for j k w'
      using layer_atD(3,4) [OF at, of j _ k] that i(1) by (cases "j = i") auto
    moreover have "pending (l_timers L) (entry_of j k) = None" if "((l_mem L)(i \<mapsto> w1)) j = None" for j k
      using layer_atD(5) [OF at, of j k] that by (cases "j = i") auto
    ultimately show ?thesis using layer_atD(1,2) [OF at] unfolding layer_at_def by simp
  qed
  define c where "c = (if pre = [] then clock else (\<lambda>j. clock (Suc j)))"
  have i1: "l_mem ?L i = Some w1" by simp
  obtain L' where L': "run_actions junk c i as ?L = Some L'" "layer_at ((logs L)(i := w_log w1)) L'"
    "l_mem L' = (l_mem L)(i \<mapsto> w1)" "tags (l_timers L') = tags (l_timers L)" "l_endpt L' = l_endpt L"
    using actions_layer_at [OF at1 i1 keys as(2), where junk = junk and clock = c] as(1) by auto
  have run: "on_tsx junk clock i f L = Some L'"
    using i(1,2) as(1) L'(1) pre by (auto simp: on_tsx_def c_def)
  have "logs L' = (logs L)(i := w_log w1)" using L'(3) by (auto simp: logs_def fun_eq_iff)
  then have "layer_at (logs L') L'" using L'(2) by simp
  moreover have "tags_ok L'" by (rule tags_ok_same [OF tags L'(4)]) (use L'(3) i(1) in auto)
  moreover have "tracked (ident (w_tsx w1)) (w_log w1) w1" using tracked_refl [OF i(3)] id by simp
  moreover have "key_ok (ident (w_tsx w1))" using all i(1) id by simp
  ultimately have "layer_inv L'" using all L'(3) unfolding layer_inv_def by auto
  with run L'(3-5) show ?thesis by blast
qed

lemma layer_invD:
  assumes "layer_inv L"
  shows "layer_at (logs L) L" "tags_ok L" "l_mem L i = Some w \<Longrightarrow> tracked (ident (w_tsx w)) (w_log w) w"
    "l_mem L i = Some w \<Longrightarrow> key_ok (ident (w_tsx w))"
  using assms by (simp_all add: layer_inv_def)

lemma on_tsx_inv:
  assumes "layer_inv L" "on_tsx junk clock i f L = Some L'"
    and "\<And>w. l_mem L i = Some w \<Longrightarrow> wp True (f w) (tracked (ident (w_tsx w)) (w_log w))"
  shows "layer_inv L' \<and> (\<exists>w w1. l_mem L i = Some w \<and> f w = Some w1 \<and> l_mem L' = (l_mem L)(i \<mapsto> w1) \<and>
    tracked (ident (w_tsx w)) (w_log w) w1)"
proof -
  obtain w w1 where w: "l_mem L i = Some w" "f w = Some w1" using assms(2) by (auto simp: on_tsx_def split: bind_splits)
  then have t: "tracked (ident (w_tsx w)) (w_log w @ []) w1" using assms(3) by (auto simp: wp_partial)
  have "(logs L)(i := w_log w @ []) = logs L" using w by (auto simp: logs_def)
  then have at: "layer_at ((logs L)(i := w_log w @ [])) L" using layer_invD(1) [OF assms(1)] by simp
  obtain L2 where "on_tsx junk clock i f L = Some L2" "layer_inv L2" "l_mem L2 = (l_mem L)(i \<mapsto> w1)"
    using on_tsx_from [where pre = "[]", OF at layer_invD(2) [OF assms(1)] _ w(1), of f w1 junk clock] w(2) t assms(1) by (auto simp: layer_inv_def)
  with assms(2) w t show ?thesis by auto
qed

subsection \<open>Timers\<close>

lemma timer_cb_inv:
  assumes inv: "layer_inv (L\<lparr>l_timers := ht\<rparr>)" and e: "pending ht e \<noteq> None"
    and ht1: "timer_inv ht1" "pending ht1 = (pending ht)(e := None)"
      "th_mem ht1 = (th_mem ht)(e := (th_mem ht e)\<lparr>te_timer_id := -1\<rparr>)"
    and cb: "(case te_cb (th_mem ht e) of None \<Rightarrow> Some (ht1, L) | Some f \<Rightarrow> layer_timer_cb junk clock env f e ht1 L) = Some (ht2, L2)"
  shows "layer_inv (L2\<lparr>l_timers := ht2\<rparr>)"
proof -
  let ?L = "L\<lparr>l_timers := ht\<rparr>" and ?L1 = "L\<lparr>l_timers := ht1\<rparr>"
  note at = layer_invD(1) [OF inv] and tags = layer_invD(2) [OF inv]
  have same: "tags ht1 = tags ht" using ht1(3) by (simp add: tags_def fun_eq_iff)
  have tags1: "tags_ok ?L1" by (rule tags_ok_same [OF tags]) (simp_all add: same)
  have ok1: "entry_ok ht1 f" if "entry_ok ht f" for f by (rule entry_ok_removed [OF ht1(2,3) that])
  have logs1: "logs ?L1 = logs ?L" by (simp add: logs_def fun_eq_iff)
  show ?thesis
  proof (cases "te_cb (th_mem ht e) = Some TSX_TIMER_CALLBACK")
    case True
    then obtain i k where i: "e = entry_of i k" "l_mem L i \<noteq> None"
      using tags by (auto simp: tags_ok_def tags_def)
    then obtain w where w: "l_mem L i = Some w" by auto
    have u: "te_user_data (th_mem ht1 e) = i" using tags1 w i(1) by (auto simp: tags_ok_def tags_def)
    have at1: "layer_at ((logs ?L1)(i := w_log w @ [Timer_fired k])) ?L1"
    proof -
      have "layer_at ((logs ?L)(i := logs ?L i @ [Timer_fired k])) (?L\<lparr>l_timers := ht1\<rparr>) \<and> tags ht1 = tags ht"
        by (rule layer_at_timer [OF at, of i w ht1 "tags ht" k False]) (use w ht1(1,2) ok1 same i(1) in \<open>auto simp: owned_def\<close>)
      moreover have "logs ?L i = w_log w" using w by (simp add: logs_def)
      ultimately show ?thesis using logs1 by simp
    qed
    have k: "(if e = entry_of i Retransmit_timer then Retransmit_timer else Timeout_timer) = k" using i(1) by (cases k) simp_all
    have "layer_timer_cb junk clock env TSX_TIMER_CALLBACK e ht1 L = map_option (\<lambda>L. (l_timers L, L)) (on_tsx junk clock i (tsx_timer_callback env k) ?L1)"
      by (simp add: layer_timer_cb_def Let_def u k map_conv_bind_option del: not_None_eq) (simp add: comp_def)
    with cb True obtain L3 where L3: "on_tsx junk clock i (tsx_timer_callback env k) ?L1 = Some L3" "ht2 = l_timers L3" "L2 = L3" by auto
    then obtain w1 where w1: "tsx_timer_callback env k w = Some w1" using w by (auto simp: on_tsx_def split: bind_splits)
    then have t: "tracked (ident (w_tsx w)) (w_log w @ [Timer_fired k]) w1"
      using tracked_timer [of "ident (w_tsx w)" "w_log w" w env k] layer_invD(3) [OF inv, of i w] w by (simp add: wp_partial)
    have "\<exists>L'. on_tsx junk clock i (tsx_timer_callback env k) ?L1 = Some L' \<and> layer_inv L' \<and> l_mem L' = (l_mem ?L1)(i \<mapsto> w1) \<and>
        tags (l_timers L') = tags (l_timers ?L1) \<and> l_endpt L' = l_endpt ?L1"
      by (rule on_tsx_from [where pre = "[Timer_fired k]" and w = w and f = "tsx_timer_callback env k", OF at1 tags1])
        (use w w1 t inv in \<open>auto simp: layer_inv_def\<close>)
    then show ?thesis using L3 by simp
  next
    case False
    then have eq: "ht2 = ht1" "L2 = L" using cb by (auto simp: layer_timer_cb_def split: option.splits)
    have ne: "e \<noteq> entry_of i k" if "l_mem L i \<noteq> None" for i k
      using tags that False by (auto simp: tags_ok_def tags_def)
    have "layer_at (logs ?L1) ?L1"
      unfolding logs1 layer_at_def
    proof (intro conjI allI impI)
      fix i w k assume "l_mem ?L1 i = Some w"
      then have m: "l_mem ?L i = Some w" by simp
      show "entry_ok (l_timers ?L1) (entry_of i k)" using layer_atD(3) [OF at m] ok1 by simp
      show "pending (l_timers ?L1) (entry_of i k) \<noteq> None \<longleftrightarrow> timer_pending k (logs ?L i)"
        using layer_atD(4) [OF at m, of k] ht1(2) ne [of i k] m by simp
    next
      fix i k assume "l_mem ?L1 i = None"
      then show "pending (l_timers ?L1) (entry_of i k) = None" using layer_atD(5) [OF at, of i k] ht1(2) by simp
    qed (use layer_atD(1) [OF at] layer_atD(6) [OF at] ht1(1) in auto)
    then show ?thesis using eq tags1 inv by (simp add: layer_inv_def)
  qed
qed

text \<open>One round of the loop.\<close>

lemma poll_round_inv:
  assumes "layer_inv (L\<lparr>l_timers := ht\<rparr>)" "th_cur_size ht \<noteq> 0" "remove_node ht 0 = Some (node, ht1)"
    "(case te_cb (th_mem ht1 node) of None \<Rightarrow> Some (ht1, L) | Some f \<Rightarrow> layer_timer_cb junk clock env f node ht1 L) = Some (ht2, L2)"
  shows "layer_inv (L2\<lparr>l_timers := ht2\<rparr>)"
proof -
  have inv: "timer_inv ht" using layer_atD(2) [OF layer_invD(1) [OF assms(1)]] by simp
  have ne: "0 < th_cur_size ht" using assms(2) by simp
  let ?e = "th_heap ht ! 0"
  obtain ht' where r: "remove_node ht 0 = Some (?e, ht')" "timer_inv ht'" "pending ht' = (pending ht)(?e := None)"
    "th_mem ht' = (th_mem ht)(?e := (th_mem ht ?e)\<lparr>te_timer_id := -1\<rparr>)"
    using remove_node_correct [OF inv ne] by blast
  have e: "node = ?e" "ht1 = ht'" using assms(3) r(1) by simp_all
  have "?e \<in> set (take (th_cur_size ht) (th_heap ht))" by (rule heap_mem_set [OF timer_invD(4) [OF inv] ne])
  then have p: "pending ht ?e \<noteq> None" by (simp add: pending_def)
  have "(case te_cb (th_mem ht' ?e) of None \<Rightarrow> Some (ht', L) | Some f \<Rightarrow> layer_timer_cb junk clock env f ?e ht' L) = Some (ht2, L2)"
    using assms(4) unfolding e .
  then show ?thesis
    by (intro timer_cb_inv [OF assms(1) p r(2-4), where junk = junk and clock = clock and env = env]) (simp add: r(4))
qed

lemma poll_loop_inv:
  assumes "poll_loop (layer_timer_cb junk clock env) now n ht L = Some (n', ht', L')" "layer_inv (L\<lparr>l_timers := ht\<rparr>)"
  shows "layer_inv (L'\<lparr>l_timers := ht'\<rparr>)"
proof -
  have "run = layer_timer_cb junk clock env \<longrightarrow> layer_inv (L\<lparr>l_timers := ht\<rparr>) \<longrightarrow> layer_inv (snd (snd y)\<lparr>l_timers := fst (snd y)\<rparr>)"
    if "poll_loop run now n ht L = Some y" for run now n ht L y
  proof (rule poll_loop.raw_induct [OF _ that, where P = "\<lambda>run now n ht L y. run = layer_timer_cb junk clock env \<longrightarrow>
        layer_inv (L\<lparr>l_timers := ht\<rparr>) \<longrightarrow> layer_inv (snd (snd y)\<lparr>l_timers := fst (snd y)\<rparr>)"], intro impI)
    fix loop :: "tsx_layer timer_cb \<Rightarrow> pj_time_val \<Rightarrow> nat \<Rightarrow> pj_timer_heap \<Rightarrow> tsx_layer \<Rightarrow> (nat \<times> pj_timer_heap \<times> tsx_layer) option"
      and run :: "tsx_layer timer_cb" and now count ht L y
    assume IH: "\<And>run now count ht L y. loop run now count ht L = Some y \<Longrightarrow> run = layer_timer_cb junk clock env \<longrightarrow>
        layer_inv (L\<lparr>l_timers := ht\<rparr>) \<longrightarrow> layer_inv (snd (snd y)\<lparr>l_timers := fst (snd y)\<rparr>)"
      and body: "(if th_cur_size ht \<noteq> 0
        then case rd (th_heap ht) 0 of None \<Rightarrow> None
             | Some e \<Rightarrow>
                 if tv_lte (te_value ht e) now \<and> count < th_max_entries_per_poll ht
                 then case remove_node ht 0 of None \<Rightarrow> None
                      | Some (node, ht1) \<Rightarrow>
                          (case case te_cb (th_mem ht1 node) of None \<Rightarrow> Some (ht1, L) | Some f \<Rightarrow> run f node ht1 L of
                             None \<Rightarrow> None
                           | Some (ht2, w') \<Rightarrow> loop run now (count + 1) ht2 w')
                 else Some (count, ht, L)
        else Some (count, ht, L)) = Some y"
      and run: "run = layer_timer_cb junk clock env" and inv: "layer_inv (L\<lparr>l_timers := ht\<rparr>)"
    consider "y = (count, ht, L)"
      | node ht1 ht2 L2 where "th_cur_size ht \<noteq> 0" "remove_node ht 0 = Some (node, ht1)"
        "(case te_cb (th_mem ht1 node) of None \<Rightarrow> Some (ht1, L) | Some f \<Rightarrow> run f node ht1 L) = Some (ht2, L2)"
        "loop run now (count + 1) ht2 L2 = Some y"
      using body by (auto split: if_splits option.splits prod.splits)
    then show "layer_inv (snd (snd y)\<lparr>l_timers := fst (snd y)\<rparr>)"
    proof cases
      case 1
      then show ?thesis using inv by simp
    next
      case 2
      have "layer_inv (L2\<lparr>l_timers := ht2\<rparr>)" using poll_round_inv [OF inv 2(1,2)] 2(3) run by blast
      then show ?thesis using IH [OF 2(4)] run by simp
    qed
  qed
  from this [OF assms(1)] assms(2) show ?thesis by simp
qed

lemma layer_poll_inv:
  assumes "layer_inv L" "layer_poll junk clock env now L = Some L'"
  shows "layer_inv L'"
proof -
  have inv: "timer_inv (l_timers L)" by (rule layer_atD(2) [OF layer_invD(1) [OF assms(1)]])
  obtain n d heap L1 where p: "pj_timer_heap_poll (layer_timer_cb junk clock env) now True (l_timers L) L = Some (n, d, heap, L1)"
    and L': "L' = L1\<lparr>l_timers := heap\<rparr>"
    using assms(2) by (auto simp: layer_poll_def split: bind_splits)
  have "poll_loop (layer_timer_cb junk clock env) now 0 (l_timers L) L = Some (n, heap, L1)"
    using p unfolding poll_unfold [OF inv] by (auto split: option.splits prod.splits)
  from poll_loop_inv [OF this] assms(1) show ?thesis unfolding L' by simp
qed

subsection \<open>New transactions\<close>

lemma key_2543_role: "create_tsx_key_2543 r m rdata = Some (Inr key) \<Longrightarrow> take (Suc 0) key = role_char r"
  by (auto simp: create_tsx_key_2543_def Let_def put_steps put_method_eq role_char_def SEPARATOR_def
      split: option.splits if_splits bind_splits)

lemma key_role:
  assumes "pjsip_tsx_create_key r m rdata = Some (Inr key)"
  shows "take (Suc 0) key = role_char r"
proof -
  obtain via where "rx_via rdata = Some via" using assms by (auto simp: pjsip_tsx_create_key_def split: bind_splits)
  then show ?thesis using assms key_2543_role [of r m rdata key]
    by (auto simp: pjsip_tsx_create_key_def key_3261 role_char_def split: if_splits)
qed

lemma created_key: "tsx_created r m w \<Longrightarrow> key_ok (ident (w_tsx w)) \<and> (\<forall>k. Timer_fired k \<notin> set (w_log w))"
proof (induction rule: tsx_created.induct)
  case (created_uac created fresh dest user tdata w m)
  then show ?case
    by (auto simp: pjsip_tsx_create_uac_def mod_tsx_layer_register_tsx_def new_transaction_def emit_def upd_def Let_def ident_def
        key_3261 role_char_def split: if_splits option.splits bind_splits sum.splits)
next
  case (created_uas created resp user rdata w m)
  then show ?case
    by (auto simp: pjsip_tsx_create_uas_def mod_tsx_layer_register_tsx_def new_transaction_def emit_def upd_def Let_def ident_def
        dest: key_role split: if_splits option.splits bind_splits sum.splits)
qed

text \<open>An address that the allocator can return: never used, or released.\<close>

definition free_at :: "tsx_layer \<Rightarrow> nat \<Rightarrow> bool" where
  "free_at L i \<longleftrightarrow> (case l_mem L i of None \<Rightarrow> True | Some w \<Rightarrow> \<not> w_alive w)"

lemma free_at_unused:
  assumes "layer_inv L" "free_at L i"
  shows "pending (l_timers L) (entry_of i k) = None" "ht_map (l_htable L) key \<noteq> Some i"
proof -
  note at = layer_invD(1) [OF assms(1)]
  show "pending (l_timers L) (entry_of i k) = None"
  proof (cases "l_mem L i")
    case (Some w)
    then show ?thesis using layer_atD(4) [OF at Some, of k] layer_invD(3) [OF assms(1) Some] assms(2)
      by (auto simp: free_at_def tracked_def logs_def)
  qed (rule layer_atD(5) [OF at])
  show "ht_map (l_htable L) key \<noteq> Some i"
  proof
    assume "ht_map (l_htable L) key = Some i"
    from layer_atD(6) [OF at this] obtain w where "l_mem L i = Some w" "registered (logs L i)" by blast
    then show False using layer_invD(3) [OF assms(1)] assms(2) by (auto simp: free_at_def tracked_def logs_def)
  qed
qed

lemma init_entries_layer:
  assumes inv: "layer_inv L" and free: "free_at L i"
  shows "layer_at ((logs L)(i := [])) (L\<lparr>l_timers := init_timer_entries i (l_timers L), l_mem := (l_mem L)(i \<mapsto> w)\<rparr>)"
    "tags_ok (L\<lparr>l_timers := init_timer_entries i (l_timers L), l_mem := (l_mem L)(i \<mapsto> w)\<rparr>)"
proof -
  let ?heap = "init_timer_entries i (l_timers L)" and ?mem = "(l_mem L)(i \<mapsto> w)"
  note at = layer_invD(1) [OF inv] and unused = free_at_unused [OF inv free]
  have mem: "th_mem ?heap (entry_of j k) = (if j = i then init_timer_entry i (th_mem (l_timers L) (entry_of j k)) else th_mem (l_timers L) (entry_of j k))" for j k
    by (cases k) (simp_all add: init_timer_entries_def)
  have heap: "timer_inv ?heap" "pending ?heap = pending (l_timers L)"
    unfolding init_timer_entries_def
    by (rule idle_mem [OF layer_atD(2) [OF at]]; use unused in auto)+
  have ok: "entry_ok ?heap (entry_of j k)" if "?mem j = Some w'" for j k w'
  proof (cases "j = i")
    case True
    then show ?thesis using unused(1) [of k] by (simp add: entry_ok_def heap(2) mem init_timer_entry_def)
  next
    case False
    then show ?thesis using layer_atD(3) [OF at, of j w' k] that by (simp add: entry_ok_def heap(2) mem)
  qed
  have pend: "pending ?heap (entry_of j k) \<noteq> None \<longleftrightarrow> timer_pending k (((logs L)(i := [])) j)" if "?mem j = Some w'" for j k w'
    using unused(1) [of k] layer_atD(4) [OF at, of j w' k] that
    by (cases "j = i") (simp_all add: heap(2) timer_pending_def [of k "[]"])
  have none: "pending ?heap (entry_of j k) = None" if "?mem j = None" for j k
    using layer_atD(5) [OF at, of j k] that by (cases "j = i") (simp_all add: heap(2))
  have table: "\<exists>w'. ?mem j = Some w' \<and> transaction_key (w_tsx w') = key \<and> registered (((logs L)(i := [])) j)"
    if "ht_map (l_htable L) key = Some j" for key j
    using layer_atD(6) [OF at that] unused(2) that by (cases "j = i") auto
  show "layer_at ((logs L)(i := [])) (L\<lparr>l_timers := ?heap, l_mem := ?mem\<rparr>)"
    unfolding layer_at_def using layer_atD(1) [OF at] heap(1) ok pend none table by simp
  have tag: "tags ?heap (entry_of j k) = (j, Some TSX_TIMER_CALLBACK)" if "?mem j = Some w'" for j k w'
    using layer_invD(2) [OF inv] that by (cases "j = i") (auto simp: tags_ok_def tags_def mem init_timer_entry_def)
  have "\<exists>j k. e = entry_of j k \<and> ?mem j \<noteq> None" if "snd (tags ?heap e) = Some TSX_TIMER_CALLBACK" for e
  proof (cases "\<exists>k. e = entry_of i k")
    case False
    then have "th_mem ?heap e = th_mem (l_timers L) e" by (auto simp: init_timer_entries_def)
    then have "snd (tags (l_timers L) e) = Some TSX_TIMER_CALLBACK" using that by (simp add: tags_def)
    then obtain j k where "e = entry_of j k" "l_mem L j \<noteq> None" using layer_invD(2) [OF inv] unfolding tags_ok_def by blast
    then show ?thesis by (intro exI [of _ j] exI [of _ k]) auto
  qed auto
  with tag show "tags_ok (L\<lparr>l_timers := ?heap, l_mem := ?mem\<rparr>)" unfolding tags_ok_def by simp
qed

lemma layer_add_inv:
  assumes inv: "layer_inv L" and free: "free_at L i" and new: "tsx_created r m w"
  shows "\<exists>L'. layer_add junk clock i w L = Some L' \<and> layer_inv L' \<and> l_mem L' = (l_mem L)(i \<mapsto> w)"
proof -
  let ?L = "L\<lparr>l_timers := init_timer_entries i (l_timers L), l_mem := (l_mem L)(i \<mapsto> w)\<rparr>"
  note at = init_entries_layer [OF inv free, of w] and t = created_tracked [OF new] and k = created_key [OF new]
  have i: "l_mem ?L i = Some w" by simp
  have keys: "\<forall>key. Register_tsx key \<in> set (w_log w) \<or> Unregister_tsx key \<in> set (w_log w) \<longrightarrow> key = transaction_key (w_tsx w)"
    using t by (auto simp: tracked_def ident_def)
  obtain L' where L': "run_actions junk clock i (w_log w) ?L = Some L'"
    "layer_at ((logs L)(i := [], i := ((logs L)(i := [])) i @ w_log w)) L'"
    "l_mem L' = l_mem ?L" "tags (l_timers L') = tags (l_timers ?L)"
    using actions_layer_at [OF at(1) i keys, of junk clock] k by blast
  have "logs L' = (logs L)(i := [], i := ((logs L)(i := [])) i @ w_log w)"
    using L'(3) by (auto simp: logs_def fun_eq_iff)
  then have "layer_at (logs L') L'" using L'(2) by simp
  moreover have "tags_ok L'" by (rule tags_ok_same [OF at(2) L'(4)]) (simp add: L'(3))
  ultimately have "layer_inv L'" using inv L'(3) t k by (auto simp: layer_inv_def)
  then show ?thesis using L'(1,3) by (auto simp: layer_add_def)
qed

subsection \<open>Received messages and the end of the module\<close>

lemma hash_get_map: "ht_inv ht \<Longrightarrow> pj_hash_get ht key (Key_len (length key)) 0 = Some (ht_map ht key, hash_loop 0 key)"
  by (simp add: hash_get [where k = key] hval_ok_def)

lemma recv_tracked: "tracked key L w \<Longrightarrow> wp True (pjsip_tsx_recv_msg env rdata w) (tracked key L)"
  using tracked_op [of key L w "Op_recv rdata" env] by simp

text \<open>The transaction under a key is allocated.\<close>

lemma found_alive:
  assumes "layer_inv L" "ht_map (l_htable L) key = Some i"
  shows "\<exists>w. l_mem L i = Some w \<and> w_alive w \<and> transaction_key (w_tsx w) = key"
  using layer_atD(6) [OF layer_invD(1) [OF assms(1)] assms(2)] layer_invD(3) [OF assms(1), of i]
  by (auto simp: logs_def tracked_def)

lemma on_rx_eq:
  assumes inv: "layer_inv L" and key: "rx_cseq rdata = Some cseq" "pjsip_tsx_create_key r (cseq_method cseq) rdata = Some (Inr key)"
  shows "on_rx junk clock env r rdata L =
    (case ht_map (l_htable L) key of
       None \<Rightarrow> Some (False, L)
     | Some i \<Rightarrow> (if state (w_tsx (the (l_mem L i))) = PJSIP_TSX_STATE_TERMINATED then Some (False, L)
                 else map_option (Pair True) (on_tsx junk clock i (pjsip_tsx_recv_msg env rdata) L)))"
proof (cases "ht_map (l_htable L) key")
  case None
  then show ?thesis using key layer_atD(1) [OF layer_invD(1) [OF inv]] by (simp add: on_rx_def hash_get_map)
next
  case (Some i)
  obtain w where "l_mem L i = Some w" "w_alive w" using found_alive [OF inv Some] by blast
  then show ?thesis using Some key layer_atD(1) [OF layer_invD(1) [OF inv]]
    by (simp add: on_rx_def hash_get_map live_def map_conv_bind_option) (simp add: comp_def)
qed

lemma on_rx_inv:
  assumes inv: "layer_inv L" and rx: "on_rx junk clock env r rdata L = Some (b, L')"
  shows "layer_inv L'"
proof -
  obtain cseq key where key: "rx_cseq rdata = Some cseq" "pjsip_tsx_create_key r (cseq_method cseq) rdata = Some (Inr key)"
    using rx by (auto simp: on_rx_def split: bind_splits sum.splits)
  have "layer_inv L1" if "on_tsx junk clock i (pjsip_tsx_recv_msg env rdata) L = Some L1" for i L1
    using on_tsx_inv [OF inv that] recv_tracked layer_invD(3) [OF inv] by blast
  then show ?thesis using rx inv unfolding on_rx_eq [OF inv key] by (auto split: option.splits if_splits)
qed

text \<open>Stopping one transaction: it leaves the table, and its memory is released or waits for its
  transport.\<close>

lemma stop_tsx_inv:
  assumes inv: "layer_inv L" and stop: "stop_tsx junk clock i L = Some L'"
  shows "layer_inv L'"
proof -
  obtain L1 L2 where run: "on_tsx junk clock i (\<lambda>w. map_option snd (pjsip_tsx_terminate PJSIP_SC_SERVICE_UNAVAILABLE w)) L = Some L1"
    "on_tsx junk clock i (\<lambda>w. map_option (\<lambda>tsx. emit (Unregister_tsx (transaction_key tsx)) w) (live w)) L1 = Some L2"
    "on_tsx junk clock i (\<lambda>w. map_option snd (tsx_destroy w)) L2 = Some L'"
    using stop by (auto simp: stop_tsx_def split: bind_splits)
  have 1: "layer_inv L1"
    using on_tsx_inv [OF inv run(1)] tracked_op [of _ _ _ "Op_terminate PJSIP_SC_SERVICE_UNAVAILABLE"] layer_invD(3) [OF inv] by auto
  have unreg: "wp True (map_option (\<lambda>tsx. emit (Unregister_tsx (transaction_key tsx)) w) (live w)) (tracked (ident (w_tsx w)) (w_log w))"
    if "l_mem L1 i = Some w" for w
    using tracked_unregister [OF layer_invD(3) [OF 1 that]] by simp
  obtain w w1 where w: "layer_inv L2" "l_mem L1 i = Some w" "map_option (\<lambda>tsx. emit (Unregister_tsx (transaction_key tsx)) w) (live w) = Some w1"
    "l_mem L2 = (l_mem L1)(i \<mapsto> w1)" using on_tsx_inv [OF 1 run(2) unreg] by blast
  then have w1: "\<not> registered (w_log w1)" by auto
  have "wp True (map_option snd (tsx_destroy w')) (tracked (ident (w_tsx w')) (w_log w'))" if "l_mem L2 i = Some w'" for w'
  proof -
    have "w' = w1" using that w(4) by simp
    then show ?thesis using tracked_destroy [OF layer_invD(3) [OF w(1) that]] w1 by (simp add: wp_partial)
  qed
  then show ?thesis using on_tsx_inv [OF w(1) run(3)] by blast
qed

lemma stop_loop_inv:
  assumes "stop_loop junk clock it L = Some L'"
  shows "layer_inv L \<longrightarrow> layer_inv L'"
  using assms
proof (rule stop_loop.raw_induct [rotated], goal_cases)
  case (1 loop junk clock it L L')
  then show ?case
    by (auto simp: dest: stop_tsx_inv split: option.splits bind_splits)
qed

lemma mod_stop_inv: "layer_inv L \<Longrightarrow> mod_tsx_layer_stop junk clock L = Some L' \<Longrightarrow> layer_inv L'"
  by (auto simp: mod_tsx_layer_stop_def dest: stop_loop_inv split: bind_splits)

subsection \<open>Runs of the layer\<close>

text \<open>The heap of an endpoint on which no transaction has a timer yet.\<close>

definition fresh_timers :: "pj_timer_heap \<Rightarrow> bool" where
  "fresh_timers heap \<longleftrightarrow> timer_inv heap \<and> (\<forall>i k. pending heap (entry_of i k) = None) \<and>
     (\<forall>e. te_cb (th_mem heap e) \<noteq> Some TSX_TIMER_CALLBACK)"

inductive layer_run :: "tsx_env \<Rightarrow> tsx_layer \<Rightarrow> tsx_layer \<Rightarrow> bool" for env where
  layer_start: "layer_run env L L"
| layer_create: "layer_run env L0 L \<Longrightarrow> free_at L i \<Longrightarrow> tsx_created r m w \<Longrightarrow> layer_add junk clock i w L = Some L' \<Longrightarrow> layer_run env L0 L'"
| layer_request: "layer_run env L0 L \<Longrightarrow> mod_tsx_layer_on_rx_request junk clock env rdata L = Some (b, L') \<Longrightarrow> layer_run env L0 L'"
| layer_response: "layer_run env L0 L \<Longrightarrow> mod_tsx_layer_on_rx_response junk clock env rdata L = Some (b, L') \<Longrightarrow> layer_run env L0 L'"
| layer_op: "layer_run env L0 L \<Longrightarrow> \<forall>k. op \<noteq> Op_timer k \<Longrightarrow> on_tsx junk clock i (run_op env op) L = Some L' \<Longrightarrow> layer_run env L0 L'"
| layer_timers: "layer_run env L0 L \<Longrightarrow> layer_poll junk clock env now L = Some L' \<Longrightarrow> layer_run env L0 L'"
| layer_stop: "layer_run env L0 L \<Longrightarrow> mod_tsx_layer_stop junk clock L = Some L' \<Longrightarrow> layer_run env L0 L'"

lemma layer_run_inv: "layer_run env L0 L \<Longrightarrow> layer_inv L0 \<Longrightarrow> layer_inv L"
proof (induction rule: layer_run.induct)
  case (layer_create L0 L i r m w junk clock L')
  then show ?case using layer_add_inv [of L i r m w junk clock] by auto
next
  case (layer_op L0 L op junk clock i L')
  then show ?case using on_tsx_inv [of L junk clock i "run_op env op" L'] tracked_op [of _ _ _ op env] layer_invD(3) by blast
qed (auto simp: mod_tsx_layer_on_rx_request_def mod_tsx_layer_on_rx_response_def intro: on_rx_inv layer_poll_inv mod_stop_inv)

lemma init_layer_inv:
  assumes "pjsip_tsx_layer_init_module tls pool mutex reg1 reg2 max_count L = Some (PJ_SUCCESS, L0)" "max_count \<le> 2 ^ 31"
    "l_mem L = Map.empty" "fresh_timers (l_timers L)"
  shows "layer_inv L0"
proof -
  obtain ht where ht: "pj_hash_create max_count = Some (ht :: nat pj_hash_table_t)" "ht_inv ht" "\<forall>k. ht_map ht k = None"
    using hash_create_inv [OF assms(2)] by blast
  then have L0: "L0 = L\<lparr>l_endpt := True, l_htable := ht\<rparr>"
    using assms(1) by (auto simp: pjsip_tsx_layer_init_module_def Let_def split: if_splits)
  then have "logs L0 = (\<lambda>_. [])" using assms(3) by (simp add: logs_def fun_eq_iff)
  then show ?thesis
    using assms(3,4) ht(2,3) L0 by (auto simp: layer_inv_def layer_at_def tags_ok_def tags_def fresh_timers_def)
qed

subsection \<open>Stopping the module\<close>

text \<open>Entries that do not concern the table.\<close>

definition quiet :: "tsx_action list \<Rightarrow> tsx_world \<Rightarrow> bool" where
  "quiet log w \<longleftrightarrow> (\<exists>as. w_log w = log @ as \<and> (\<forall>key. Register_tsx key \<notin> set as \<and> Unregister_tsx key \<notin> set as))"

lemma quiet_steps [simp]:
  "quiet (w_log w) w" "quiet log (upd f w) = quiet log w"
  "\<forall>key. a \<noteq> Register_tsx key \<and> a \<noteq> Unregister_tsx key \<Longrightarrow> quiet log w \<Longrightarrow> quiet log (emit a w)"
  "quiet log (w\<lparr>w_alive := b\<rparr>) = quiet log w"
  by (auto simp: quiet_def emit_def upd_def)

lemma quiet_helpers [simp]:
  assumes "quiet log w"
  shows "quiet log (start_timer k d w)" "quiet log (stop_timer k w)" "quiet log (set_flag F w)" "quiet log (clear_flag F w)"
    "quiet log (release_transport w)" "quiet log (enter_state st src w)" "quiet log (tsx_set_status_code c rs w)"
  using assms by (simp_all add: start_timer_def stop_timer_def cancel_timer_def set_flag_def clear_flag_def release_transport_def
      enter_state_def notify_rx_def notify_state_def tsx_set_status_code_def split: option.split pjsip_event_src.split)

lemma run_actions_quiet:
  "run_actions junk clock i as L = Some L' \<Longrightarrow> \<forall>key. Register_tsx key \<notin> set as \<and> Unregister_tsx key \<notin> set as \<Longrightarrow>
    l_htable L' = l_htable L"
proof (induction as arbitrary: L clock)
  case (Cons a as)
  then obtain L1 where L1: "run_action junk (clock 0) i a L = Some L1" "run_actions junk (\<lambda>j. clock (Suc j)) i as L1 = Some L'"
    by (auto split: bind_splits)
  have "l_htable L1 = l_htable L" using L1(1) Cons.prems(2)
    by (cases a) (auto simp: pjsip_endpt_schedule_timer_def pjsip_endpt_cancel_timer_def)
  then show ?case using Cons.IH [OF L1(2)] Cons.prems(2) by simp
qed simp

lemma on_tsx_total:
  assumes inv: "layer_inv L" and w: "l_mem L i = Some w" "f w = Some w1" "tracked (ident (w_tsx w)) (w_log w) w1"
  shows "\<exists>L'. on_tsx junk clock i f L = Some L' \<and> layer_inv L' \<and> l_mem L' = (l_mem L)(i \<mapsto> w1) \<and>
    (quiet (w_log w) w1 \<longrightarrow> l_htable L' = l_htable L)"
proof -
  have "(logs L)(i := w_log w @ []) = logs L" using w by (auto simp: logs_def)
  then have at: "layer_at ((logs L)(i := w_log w @ [])) L" using layer_invD(1) [OF inv] by simp
  obtain L' where L': "on_tsx junk clock i f L = Some L'" "layer_inv L'" "l_mem L' = (l_mem L)(i \<mapsto> w1)"
    using on_tsx_from [where pre = "[]", OF at layer_invD(2) [OF inv] _ w(1), of f w1 junk clock] w(2,3) inv by (auto simp: layer_inv_def)
  have "l_htable L' = l_htable L" if "quiet (w_log w) w1"
    using L'(1) w(1,2) that by (auto simp: on_tsx_def quiet_def dest!: run_actions_quiet)
  with L' show ?thesis by blast
qed

text \<open>The worlds that stopping a transaction goes through.\<close>

lemma terminate_total:
  assumes "w_alive w"
  shows "\<exists>st w1. pjsip_tsx_terminate PJSIP_SC_SERVICE_UNAVAILABLE w = Some (st, w1) \<and> w_alive w1 \<and> quiet (w_log w) w1 \<and>
    transaction_key (w_tsx w1) = transaction_key (w_tsx w) \<and>
    (has_flag TSX_HAS_PENDING_TRANSPORT w \<longrightarrow> has_flag TSX_HAS_PENDING_TRANSPORT w1)"
proof -
  let ?w = "enter_state PJSIP_TSX_STATE_TERMINATED Src_user (tsx_set_status_code PJSIP_SC_SERVICE_UNAVAILABLE None w)"
  have q: "quiet (w_log w) ?w" by simp
  have k: "transaction_key (w_tsx ?w) = transaction_key (w_tsx w)"
    by (simp add: enter_state_def notify_rx_def notify_state_def tsx_set_status_code_def upd_def emit_def split: option.split)
  have t: "transaction_key (w_tsx (stop_timer tk w')) = transaction_key (w_tsx w')" "transaction_key (w_tsx (start_timer tk d w')) = transaction_key (w_tsx w')" for tk d w'
    by (simp_all add: stop_timer_def start_timer_def cancel_timer_def emit_def)
  show ?thesis
    using assms q k
    by (auto simp: pjsip_tsx_terminate_def PJSIP_SC_SERVICE_UNAVAILABLE_def tsx_set_state_def live_def succeed_def Let_def has_flag_def t)
      (simp_all add: set_flag_def)
qed

lemma destroy_total:
  assumes "w_alive w"
  shows "\<exists>st w1. tsx_destroy w = Some (st, w1) \<and> quiet (w_log w) w1 \<and>
    (has_flag TSX_HAS_PENDING_TRANSPORT w \<longrightarrow> w_alive w1 \<and> has_flag TSX_HAS_PENDING_TRANSPORT w1)"
proof -
  define w2 where "w2 = emit (Selector_dec_ref (tp_sel (w_tsx (release_transport w)))) (release_transport w)"
  define w3 where "w3 = (case last_tx (w_tsx w2) of None \<Rightarrow> w2
      | Some d \<Rightarrow> upd (\<lambda>t. t\<lparr>last_tx := None\<rparr>) (emit (Tx_dec_ref (tx_id d)) w2))"
  define w5 where "w5 = clear_flag TSX_HAS_PENDING_SEND (clear_flag TSX_HAS_PENDING_RESCHED
      (stop_timer Retransmit_timer (stop_timer Timeout_timer w3)))"
  have "quiet (w_log w) w3" "w_alive w3" "has_flag TSX_HAS_PENDING_TRANSPORT w3 = has_flag TSX_HAS_PENDING_TRANSPORT w"
    using assms by (auto simp: w3_def w2_def has_flag_def split: option.split)
  then have "quiet (w_log w) w5" "w_alive w5" "has_flag TSX_HAS_PENDING_TRANSPORT w5 = has_flag TSX_HAS_PENDING_TRANSPORT w"
    by (auto simp: w5_def has_flag_def)
  then show ?thesis
    using assms unfolding tsx_destroy_def Let_def w2_def [symmetric] w3_def [symmetric] w5_def [symmetric]
    by (simp add: live_def has_flag_def)
qed

lemma stop_tsx_total:
  assumes inv: "layer_inv L" and key: "ht_map (l_htable L) key = Some i"
    and ht: "pj_hash_set False (l_htable L) key (Key_len (length key)) (hash_loop 0 key) None = Some ht"
  shows "\<exists>L' w w'. stop_tsx junk clock i L = Some L' \<and> layer_inv L' \<and> l_htable L' = ht \<and>
    l_mem L i = Some w \<and> l_mem L' = (l_mem L)(i \<mapsto> w') \<and>
    (has_flag TSX_HAS_PENDING_TRANSPORT w \<longrightarrow> w_alive w' \<and> has_flag TSX_HAS_PENDING_TRANSPORT w')"
proof -
  let ?P = "has_flag TSX_HAS_PENDING_TRANSPORT"
  let ?f1 = "\<lambda>w. map_option snd (pjsip_tsx_terminate PJSIP_SC_SERVICE_UNAVAILABLE w)"
    and ?f2 = "\<lambda>w. map_option (\<lambda>tsx. emit (Unregister_tsx (transaction_key tsx)) w) (live w)"
    and ?f3 = "\<lambda>w. map_option snd (tsx_destroy w)"
  obtain w where w: "l_mem L i = Some w" "w_alive w" "transaction_key (w_tsx w) = key" using found_alive [OF inv key] by blast
  obtain w1 where w1: "?f1 w = Some w1" "w_alive w1" "quiet (w_log w) w1" "transaction_key (w_tsx w1) = key" "?P w \<longrightarrow> ?P w1"
    using terminate_total [OF w(2)] w(3) by auto
  have t1: "tracked (ident (w_tsx w)) (w_log w) w1"
    using tracked_op [OF layer_invD(3) [OF inv w(1)], of "Op_terminate PJSIP_SC_SERVICE_UNAVAILABLE"] w1(1) by (simp add: wp_partial)
  obtain L1 where L1: "on_tsx junk clock i ?f1 L = Some L1" "layer_inv L1" "l_mem L1 = (l_mem L)(i \<mapsto> w1)" "l_htable L1 = l_htable L"
    using on_tsx_total [of L i w ?f1, OF inv w(1) w1(1) t1] w1(3) by blast
  let ?w2 = "emit (Unregister_tsx key) w1"
  have i1: "l_mem L1 i = Some w1" and f2: "?f2 w1 = Some ?w2" using L1(3) w1(2,4) by (simp_all add: live_def)
  have t2: "tracked (ident (w_tsx w1)) (w_log w1) ?w2" using tracked_unregister [OF layer_invD(3) [OF L1(2) i1]] w1(4) by simp
  obtain L2 where L2: "on_tsx junk clock i ?f2 L1 = Some L2" "layer_inv L2" "l_mem L2 = (l_mem L1)(i \<mapsto> ?w2)"
    using on_tsx_total [of L1 i w1 ?f2, OF L1(2) i1 f2 t2] by blast
  have ht2: "l_htable L2 = ht"
    using L2(1) i1 w1(2,4) ht L1(4) by (auto simp: on_tsx_def live_def mod_tsx_layer_unregister_tsx_def pj_hash_calc_def)
  obtain st w3 where w3: "tsx_destroy ?w2 = Some (st, w3)" "quiet (w_log ?w2) w3" "?P ?w2 \<longrightarrow> w_alive w3 \<and> ?P w3"
    using destroy_total [of ?w2] w1(2) by auto
  have i2: "l_mem L2 i = Some ?w2" and f3: "?f3 ?w2 = Some w3" using L2(3) w3(1) by simp_all
  have t3: "tracked (ident (w_tsx ?w2)) (w_log ?w2) w3"
    using tracked_destroy [OF layer_invD(3) [OF L2(2) i2]] w3(1) by (simp add: wp_partial)
  obtain L3 where L3: "on_tsx junk clock i ?f3 L2 = Some L3" "layer_inv L3" "l_mem L3 = (l_mem L2)(i \<mapsto> w3)" "l_htable L3 = l_htable L2"
    using on_tsx_total [of L2 i ?w2 ?f3, OF L2(2) i2 f3 t3] w3(2) by blast
  have "stop_tsx junk clock i L = Some L3" using L1(1) L2(1) L3(1) by (simp add: stop_tsx_def)
  moreover have "?P w \<longrightarrow> w_alive w3 \<and> ?P w3" using w1(5) w3(3) by (simp add: has_flag_def)
  ultimately show ?thesis using L1(3) L2(3) L3 ht2 w(1) by (intro exI [of _ L3] exI [of _ w] exI [of _ w3]) simp
qed

text \<open>Transactions that wait for a transport when the loop starts still do when it ends.\<close>

definition on_hold :: "tsx_layer \<Rightarrow> nat set" where
  "on_hold L = {i. \<exists>w. l_mem L i = Some w \<and> w_alive w \<and> has_flag TSX_HAS_PENDING_TRANSPORT w}"

lemma stop_loop_total:
  assumes "layer_inv L" "it_rest (ht_table (l_htable L)) it es" "concat (ht_table (l_htable L)) = es"
  shows "\<exists>L'. stop_loop junk clock it L = Some L' \<and> layer_inv L' \<and> concat (ht_table (l_htable L')) = [] \<and> on_hold L \<subseteq> on_hold L'"
  using assms
proof (induction es arbitrary: it L)
  case Nil
  then have "it = None" by (cases it) auto
  then show ?case using Nil by (subst stop_loop.simps) simp
next
  case (Cons e es)
  obtain i where i: "it = Some i" using Cons.prems(2) by (cases it) simp_all
  have ht: "ht_inv (l_htable L)" by (rule layer_atD(1) [OF layer_invD(1) [OF Cons.prems(1)]])
  obtain n ht' where n: "pj_hash_this (l_htable L) i = Some (he_value e)" "pj_hash_next (l_htable L) i = Some n"
    "pj_hash_set False (l_htable L) (he_key e) (Key_len (length (he_key e))) (hash_loop 0 (he_key e)) None = Some ht'"
    "it_rest (ht_table ht') n es" "concat (ht_table ht') = es"
    using remove_and_next [OF ht _ Cons.prems(3), of i False] Cons.prems(2) i by blast
  have key: "ht_map (l_htable L) (he_key e) = Some (he_value e)" by (rule entry_found [OF ht]) (simp add: Cons.prems(3))
  obtain L1 w w' where L1: "stop_tsx junk clock (he_value e) L = Some L1" "layer_inv L1" "l_htable L1 = ht'"
    "l_mem L (he_value e) = Some w" "l_mem L1 = (l_mem L)(he_value e \<mapsto> w')"
    "has_flag TSX_HAS_PENDING_TRANSPORT w \<longrightarrow> w_alive w' \<and> has_flag TSX_HAS_PENDING_TRANSPORT w'"
    using stop_tsx_total [OF Cons.prems(1) key n(3), of junk clock] by blast
  have "on_hold L \<subseteq> on_hold L1" using L1(4-6) by (auto simp: on_hold_def)
  moreover obtain L' where "stop_loop junk clock n L1 = Some L'" "layer_inv L'" "concat (ht_table (l_htable L')) = []" "on_hold L1 \<subseteq> on_hold L'"
    using Cons.IH [OF L1(2), of n] n(4,5) L1(3) by auto
  ultimately show ?case using i n(1,2) L1(1) by (subst stop_loop.simps) auto
qed

end
