(* ===== verification/Sip_Tsx_Layer_Props.thy ===== *)
theory Sip_Tsx_Layer_Props
  imports Sip_Tsx_Layer_Spec Sip_Tsx_Props
begin

text \<open>
  Properties of the transaction layer together with the transactions, the hash table and the timer
  heap.
\<close>

lemma run_from_init:
  assumes "pjsip_tsx_layer_init_module tls pool mutex reg1 reg2 max_count Li = Some (PJ_SUCCESS, L0)" "max_count \<le> 2 ^ 31"
    "l_mem Li = Map.empty" "fresh_timers (l_timers Li)" "layer_run env L0 L"
  shows "layer_inv L"
  using layer_run_inv [OF assms(5) init_layer_inv [OF assms(1-4)]] .

lemma find_tsx_map: "layer_inv L \<Longrightarrow> pjsip_tsx_layer_find_tsx key L = Some (ht_map (l_htable L) key)"
  using layer_atD(1) [OF layer_invD(1)] by (simp add: pjsip_tsx_layer_find_tsx_def hash_get_map)

subsection \<open>An example\<close>

definition ex_idle_entry :: pj_timer_entry where
  "ex_idle_entry = \<lparr>te_user_data = 0, te_id = 0, te_cb = None, te_timer_id = -1, te_timer_value = TimeVal 0 0\<rparr>"

definition ex_heap :: pj_timer_heap where
  "ex_heap = projr (pj_timer_heap_create (\<lambda>_. True) (\<lambda>_. 0) (\<lambda>_. ex_idle_entry) 10)"

definition ex_start :: tsx_layer where
  "ex_start = \<lparr>l_endpt = False, l_htable = \<lparr>ht_table = [], ht_count = 0, ht_rows = 0\<rparr>, l_timers = ex_heap, l_mem = Map.empty\<rparr>"

lemma ex_start_fresh: "fresh_timers (l_timers ex_start)"
proof -
  have "pj_timer_heap_create (\<lambda>_. True) (\<lambda>_. 0) (\<lambda>_. ex_idle_entry) 10 = Inr ex_heap"
    by (simp add: ex_heap_def pj_timer_heap_create_def Let_def)
  from create_correct [OF this] show ?thesis
    by (simp add: fresh_timers_def ex_start_def ex_idle_entry_def)
qed

text \<open>The layer with one client transaction, at address 0.\<close>

lemma ex_layer:
  "\<exists>L0 L. pjsip_tsx_layer_init_module PJ_SUCCESS True PJ_SUCCESS PJ_SUCCESS PJ_SUCCESS 31 ex_start = Some (PJ_SUCCESS, L0) \<and>
     layer_run ex_env L0 L \<and> l_mem L = [0 \<mapsto> ex_uac]"
proof -
  obtain ht where "pj_hash_create 31 = Some (ht :: nat pj_hash_table_t)" using hash_create_inv [of 31] by auto
  then obtain L0 where L0: "pjsip_tsx_layer_init_module PJ_SUCCESS True PJ_SUCCESS PJ_SUCCESS PJ_SUCCESS 31 ex_start = Some (PJ_SUCCESS, L0)"
    "l_mem L0 = Map.empty" by (simp add: pjsip_tsx_layer_init_module_def ex_start_def)
  have inv: "layer_inv L0"
    by (rule init_layer_inv [OF L0(1)]) (use ex_start_fresh in \<open>simp_all add: ex_start_def\<close>)
  have free: "free_at L0 0" using L0(2) by (simp add: free_at_def)
  obtain L where "layer_add (\<lambda>_. 0) (\<lambda>_. TimeVal 0 0) 0 ex_uac L0 = Some L" "l_mem L = (l_mem L0)(0 \<mapsto> ex_uac)"
    using layer_add_inv [OF inv free ex_uac_created] by blast
  moreover from this have "layer_run ex_env L0 L" by (intro layer_create [OF layer_start free ex_uac_created])
  ultimately show ?thesis using L0 by auto
qed

subsection \<open>Memory safety of the layer\<close>

text \<open>
  C3: No dangling references. Whatever the layer has been through since its start (transactions
  created at unused or reused addresses, requests and responses received, calls of the user and of the
  transport layer, polls of the timer heap, a stop of the module), a look-up in the transaction table
  returns only transactions whose memory is allocated and whose key is the one that was looked up, and
  a timer entry of a transaction is in the timer heap only while the transaction is allocated and
  marks the timer as active. So neither a received message nor a timer reaches freed memory.
\<close>

theorem layer_never_dangles:
  assumes "pjsip_tsx_layer_init_module tls pool mutex reg1 reg2 max_count Li = Some (PJ_SUCCESS, L0)" "max_count \<le> 2 ^ 31"
    "l_mem Li = Map.empty" "fresh_timers (l_timers Li)" "layer_run env L0 L"
  shows "(\<forall>key. \<exists>found. pjsip_tsx_layer_find_tsx key L = Some found \<and>
            (\<forall>i. found = Some i \<longrightarrow> (\<exists>w. l_mem L i = Some w \<and> w_alive w \<and> transaction_key (w_tsx w) = key))) \<and>
         (\<forall>i k. pending (l_timers L) (entry_of i k) \<noteq> None \<longrightarrow>
            (\<exists>w. l_mem L i = Some w \<and> w_alive w \<and> timer_id k (w_tsx w) \<noteq> 0))"
proof -
  note inv = run_from_init [OF assms]
  have "\<exists>w. l_mem L i = Some w \<and> w_alive w \<and> timer_id k (w_tsx w) \<noteq> 0" if p: "pending (l_timers L) (entry_of i k) \<noteq> None" for i k
  proof -
    obtain w where w: "l_mem L i = Some w" using layer_atD(5) [OF layer_invD(1) [OF inv], of i k] p by (cases "l_mem L i") simp_all
    then have "timer_pending k (w_log w)" using layer_atD(4) [OF layer_invD(1) [OF inv] w, of k] p by (simp add: logs_def)
    then show ?thesis using layer_invD(3) [OF inv w] w by (auto simp: tracked_def)
  qed
  then show ?thesis using found_alive [OF inv] by (simp add: find_tsx_map [OF inv])
qed

theorem layer_never_dangles_witness:
  "\<exists>L. l_mem L = [0 \<mapsto> ex_uac] \<and> (\<exists>found. pjsip_tsx_layer_find_tsx ''c$z9hG4bK1'' L = Some found) \<and>
     (\<forall>k. pending (l_timers L) (entry_of 5 k) = None)"
proof -
  obtain L0 L where L: "pjsip_tsx_layer_init_module PJ_SUCCESS True PJ_SUCCESS PJ_SUCCESS PJ_SUCCESS 31 ex_start = Some (PJ_SUCCESS, L0)"
    "layer_run ex_env L0 L" "l_mem L = [0 \<mapsto> ex_uac]" using ex_layer by blast
  have "l_mem ex_start = Map.empty" by (simp add: ex_start_def)
  from layer_never_dangles [OF L(1) _ this ex_start_fresh L(2)] L(3) show ?thesis by (intro exI [of _ L]) fastforce
qed

subsection \<open>Responses\<close>

text \<open>
  C21: A response with an RFC 3261 branch is handed to the client transaction that sent the request: the
  one with the same branch and method (ACK counting as INVITE). Only when that transaction has
  terminated, or when the table has no such transaction, is the response passed on to the upper layers,
  and then the layer is unchanged. (Branches and method names do not contain the separator of keys.)
\<close>

theorem response_reaches_its_transaction:
  assumes "pjsip_tsx_layer_init_module tls pool mutex reg1 reg2 max_count Li = Some (PJ_SUCCESS, L0)" "max_count \<le> 2 ^ 31"
    "l_mem Li = Map.empty" "fresh_timers (l_timers Li)" "layer_run env L0 L"
    and rx: "rx_via rdata = Some via" "rx_cseq rdata = Some cseq" "pj_strncmp (via_branch via) PJSIP_RFC3261_BRANCH_ID PJSIP_RFC3261_BRANCH_LEN = 0"
    and plain: "CHR ''$'' \<notin> set (via_branch via)" "CHR ''$'' \<notin> set (m_name (cseq_method cseq))"
      "\<forall>i w. l_mem L i = Some w \<longrightarrow> CHR ''$'' \<notin> set (t_branch (w_tsx w)) \<and> CHR ''$'' \<notin> set (m_name (t_method (w_tsx w)))"
  shows "(\<exists>i w. l_mem L i = Some w \<and> w_alive w \<and> role (w_tsx w) = PJSIP_ROLE_UAC \<and> t_branch (w_tsx w) = via_branch via \<and>
            same_tsx_method (t_method (w_tsx w)) (cseq_method cseq) \<and>
            mod_tsx_layer_on_rx_response junk clock env rdata L =
              (if state (w_tsx w) = PJSIP_TSX_STATE_TERMINATED then Some (False, L)
               else map_option (Pair True) (on_tsx junk clock i (pjsip_tsx_recv_msg env rdata) L))) \<or>
         (mod_tsx_layer_on_rx_response junk clock env rdata L = Some (False, L) \<and>
          (\<forall>i w. l_mem L i = Some w \<and> role (w_tsx w) = PJSIP_ROLE_UAC \<and> t_branch (w_tsx w) = via_branch via \<and>
             same_tsx_method (t_method (w_tsx w)) (cseq_method cseq) \<longrightarrow>
             pjsip_tsx_layer_find_tsx (transaction_key (w_tsx w)) L = Some None))"
proof -
  note inv = run_from_init [OF assms(1-5)]
  let ?m = "cseq_method cseq" and ?b = "via_branch via"
  obtain key where key: "create_tsx_key_3261 PJSIP_ROLE_UAC ?m ?b = Some key" by (simp add: key_3261)
  then have ck: "pjsip_tsx_create_key PJSIP_ROLE_UAC ?m rdata = Some (Inr key)" using rx by (simp add: pjsip_tsx_create_key_def)
  note eq = on_rx_eq [OF inv rx(2) ck, of junk clock env]
  have uac: "transaction_key (w_tsx w) = key \<longleftrightarrow> t_branch (w_tsx w) = ?b \<and> same_tsx_method (t_method (w_tsx w)) ?m"
    if "l_mem L i = Some w" "role (w_tsx w) = PJSIP_ROLE_UAC" for i w
    using layer_invD(4) [OF inv that(1)] that key plain same_key [of "t_method (w_tsx w)" ?m "t_branch (w_tsx w)" ?b PJSIP_ROLE_UAC PJSIP_ROLE_UAC]
    by (auto simp: ident_def)
  show ?thesis
  proof (cases "ht_map (l_htable L) key")
    case None
    then have "mod_tsx_layer_on_rx_response junk clock env rdata L = Some (False, L)"
      by (simp add: mod_tsx_layer_on_rx_response_def eq)
    moreover have "pjsip_tsx_layer_find_tsx (transaction_key (w_tsx w)) L = Some None"
      if "l_mem L i = Some w" "role (w_tsx w) = PJSIP_ROLE_UAC" "t_branch (w_tsx w) = ?b" "same_tsx_method (t_method (w_tsx w)) ?m" for i w
      using uac [OF that(1,2)] that(3,4) None by (simp add: find_tsx_map [OF inv])
    ultimately show ?thesis by blast
  next
    case (Some i)
    then obtain w where w: "l_mem L i = Some w" "w_alive w" "transaction_key (w_tsx w) = key" using found_alive [OF inv Some] by blast
    have "take 1 key = role_char PJSIP_ROLE_UAC" using key by (auto simp: key_3261 role_char_def)
    then have r: "role (w_tsx w) = PJSIP_ROLE_UAC"
      using layer_invD(4) [OF inv w(1)] w(3) by (cases "role (w_tsx w)") (auto simp: ident_def role_char_def)
    have "mod_tsx_layer_on_rx_response junk clock env rdata L =
        (if state (w_tsx w) = PJSIP_TSX_STATE_TERMINATED then Some (False, L)
         else map_option (Pair True) (on_tsx junk clock i (pjsip_tsx_recv_msg env rdata) L))"
      by (simp add: mod_tsx_layer_on_rx_response_def eq Some w(1))
    then show ?thesis using w r uac [OF w(1) r] by blast
  qed
qed

definition ex_ringing :: pjsip_rx_data where
  "ex_ringing = \<lparr>rx_line = Status_line 180 ''Ringing'', rx_via = Some \<lparr>via_host = ''h'', via_port = 5060, via_branch = ''z9hG4bK1''\<rparr>,
     rx_cseq = Some \<lparr>cseq_no = 1, cseq_method = ex_invite\<rparr>, rx_from_tag = Some ''t'', rx_call_id = ''c''\<rparr>"

theorem response_reaches_its_transaction_witness:
  "\<exists>L. l_mem L = [0 \<mapsto> ex_uac] \<and>
     (mod_tsx_layer_on_rx_response (\<lambda>_. 0) (\<lambda>_. TimeVal 0 0) ex_env ex_ringing L =
        map_option (Pair True) (on_tsx (\<lambda>_. 0) (\<lambda>_. TimeVal 0 0) 0 (pjsip_tsx_recv_msg ex_env ex_ringing) L) \<or>
      pjsip_tsx_layer_find_tsx ''c$z9hG4bK1'' L = Some None)"
proof -
  obtain L0 L where L: "pjsip_tsx_layer_init_module PJ_SUCCESS True PJ_SUCCESS PJ_SUCCESS PJ_SUCCESS 31 ex_start = Some (PJ_SUCCESS, L0)"
    "layer_run ex_env L0 L" "l_mem L = [0 \<mapsto> ex_uac]" using ex_layer by blast
  have m: "l_mem ex_start = Map.empty" by (simp add: ex_start_def)
  let ?via = "\<lparr>via_host = ''h'', via_port = 5060, via_branch = ''z9hG4bK1''\<rparr>" and ?cseq = "\<lparr>cseq_no = 1, cseq_method = ex_invite\<rparr>"
  have n: "(31 :: nat) \<le> 2 ^ 31" by simp
  have rx: "rx_via ex_ringing = Some ?via" "rx_cseq ex_ringing = Some ?cseq" by (simp_all add: ex_ringing_def)
  have c: "pj_strncmp (via_branch ?via) PJSIP_RFC3261_BRANCH_ID PJSIP_RFC3261_BRANCH_LEN = 0" by code_simp
  have d: "CHR ''$'' \<notin> set (via_branch ?via)" "CHR ''$'' \<notin> set (m_name (cseq_method ?cseq))" by (simp_all add: ex_invite_def)
  have u: "role (w_tsx ex_uac) = PJSIP_ROLE_UAC" "t_branch (w_tsx ex_uac) = via_branch ?via"
    "same_tsx_method (t_method (w_tsx ex_uac)) (cseq_method ?cseq)" "state (w_tsx ex_uac) \<noteq> PJSIP_TSX_STATE_TERMINATED"
    "transaction_key (w_tsx ex_uac) = ''c$z9hG4bK1''" "CHR ''$'' \<notin> set (t_branch (w_tsx ex_uac))"
    "CHR ''$'' \<notin> set (m_name (t_method (w_tsx ex_uac)))"
    by (simp_all add: ex_defs same_tsx_method_def)
  have w: "i = 0 \<and> w = ex_uac" if "l_mem L i = Some w" for i w using that L(3) by (auto split: if_splits)
  have p: "\<forall>i w. l_mem L i = Some w \<longrightarrow> CHR ''$'' \<notin> set (t_branch (w_tsx w)) \<and> CHR ''$'' \<notin> set (m_name (t_method (w_tsx w)))"
    using w u(6,7) by blast
  from response_reaches_its_transaction [OF L(1) n m ex_start_fresh L(2) rx c d p, of "\<lambda>_. 0" "\<lambda>_. TimeVal 0 0"] show ?thesis
  proof (elim disjE exE conjE)
    fix i w assume a: "l_mem L i = Some w" and "mod_tsx_layer_on_rx_response (\<lambda>_. 0) (\<lambda>_. TimeVal 0 0) ex_env ex_ringing L =
        (if state (w_tsx w) = PJSIP_TSX_STATE_TERMINATED then Some (False, L)
         else map_option (Pair True) (on_tsx (\<lambda>_. 0) (\<lambda>_. TimeVal 0 0) i (pjsip_tsx_recv_msg ex_env ex_ringing) L))"
    then show ?thesis using w [OF a] u(4) L(3) by (intro exI [of _ L]) simp
  next
    assume "\<forall>i w. l_mem L i = Some w \<and> role (w_tsx w) = PJSIP_ROLE_UAC \<and> t_branch (w_tsx w) = via_branch ?via \<and>
      same_tsx_method (t_method (w_tsx w)) (cseq_method ?cseq) \<longrightarrow> pjsip_tsx_layer_find_tsx (transaction_key (w_tsx w)) L = Some None"
    moreover have "l_mem L 0 = Some ex_uac" using L(3) by simp
    ultimately have "pjsip_tsx_layer_find_tsx (transaction_key (w_tsx ex_uac)) L = Some None" using u(1-3) by blast
    then show ?thesis using u(5) L(3) by (intro exI [of _ L]) simp
  qed
qed

subsection \<open>Stopping the module\<close>

text \<open>
  C26: Stopping the module always ends and empties the transaction table, whatever state the
  transactions are in, so that the module is then unloaded. Transactions that wait for a transport are
  not destroyed but leave the table all the same: the check in \<open>mod_tsx_layer_unload\<close>, which is meant to
  keep the module loaded while there are such transactions, never refuses after a stop.
\<close>

theorem unload_ignores_waiting_transactions:
  assumes "pjsip_tsx_layer_init_module tls pool mutex reg1 reg2 max_count Li = Some (PJ_SUCCESS, L0)" "max_count \<le> 2 ^ 31"
    "l_mem Li = Map.empty" "fresh_timers (l_timers Li)" "layer_run env L0 L"
  shows "\<exists>L'. mod_tsx_layer_stop junk clock L = Some L' \<and> (\<forall>key. pjsip_tsx_layer_find_tsx key L' = Some None) \<and>
    fst (mod_tsx_layer_unload L') = PJ_SUCCESS \<and>
    (\<forall>i w. l_mem L i = Some w \<and> w_alive w \<and> has_flag TSX_HAS_PENDING_TRANSPORT w \<longrightarrow>
       (\<exists>w'. l_mem L' i = Some w' \<and> w_alive w' \<and> has_flag TSX_HAS_PENDING_TRANSPORT w'))"
proof -
  note inv = run_from_init [OF assms]
  have ht: "ht_inv (l_htable L)" by (rule layer_atD(1) [OF layer_invD(1) [OF inv]])
  have "0 + (ht_rows (l_htable L) + 1) = length (ht_table (l_htable L))" using ht by (simp add: ht_inv_def)
  from next_row_rest [OF this] obtain it where it: "pj_hash_first (l_htable L) = Some it"
    "it_rest (ht_table (l_htable L)) it (concat (ht_table (l_htable L)))" by (auto simp: pj_hash_first_def)
  obtain L' where L': "stop_loop junk clock it L = Some L'" "layer_inv L'" "concat (ht_table (l_htable L')) = []" "on_hold L \<subseteq> on_hold L'"
    using stop_loop_total [OF inv it(2) refl] by blast
  have ht': "ht_inv (l_htable L')" by (rule layer_atD(1) [OF layer_invD(1) [OF L'(2)]])
  then have "ht_count (l_htable L') = 0" using L'(3) by (simp add: ht_inv_def wrap32_def)
  then have "fst (mod_tsx_layer_unload L') = PJ_SUCCESS" by (simp add: mod_tsx_layer_unload_def pj_hash_count_def)
  moreover have "pjsip_tsx_layer_find_tsx key L' = Some None" for key
    using ht_dom [OF ht'] L'(3) by (auto simp: find_tsx_map [OF L'(2)] dom_def)
  moreover have "mod_tsx_layer_stop junk clock L = Some L'" using it(1) L'(1) by (simp add: mod_tsx_layer_stop_def)
  moreover have "\<exists>w'. l_mem L' i = Some w' \<and> w_alive w' \<and> has_flag TSX_HAS_PENDING_TRANSPORT w'"
    if "l_mem L i = Some w" "w_alive w" "has_flag TSX_HAS_PENDING_TRANSPORT w" for i w
    using L'(4) that unfolding on_hold_def by blast
  ultimately show ?thesis by blast
qed

theorem unload_ignores_waiting_transactions_witness:
  "\<exists>L L'. l_mem L = [0 \<mapsto> ex_uac] \<and> mod_tsx_layer_stop (\<lambda>_. 0) (\<lambda>_. TimeVal 0 0) L = Some L' \<and>
     fst (mod_tsx_layer_unload L') = PJ_SUCCESS"
proof -
  obtain L0 L where L: "pjsip_tsx_layer_init_module PJ_SUCCESS True PJ_SUCCESS PJ_SUCCESS PJ_SUCCESS 31 ex_start = Some (PJ_SUCCESS, L0)"
    "layer_run ex_env L0 L" "l_mem L = [0 \<mapsto> ex_uac]" using ex_layer by blast
  have "l_mem ex_start = Map.empty" by (simp add: ex_start_def)
  from unload_ignores_waiting_transactions [OF L(1) _ this ex_start_fresh L(2), of "\<lambda>_. 0" "\<lambda>_. TimeVal 0 0"] L(3) show ?thesis by auto
qed

end
