(* ===== verification/Cs_Base.thy ===== *)
theory Cs_Base
  imports Pj_Prelude
begin

text \<open>
  What the C# parts of the program use of their library.

  \<^item> A \<open>Dictionary\<close> is the list of its entries in the order in which it enumerates them. That order is
    not specified: where \<open>Add\<close> puts a new entry is the parameter \<open>slot\<close>.
  \<^item> A \<open>DateTime\<close> is its number of ticks (100 ns since the first of January of the year 1, which was a
    Monday), a \<open>TimeSpan\<close> a number of ticks as well.
  \<^item> \<open>int.TryParse\<close> and \<open>string.Split\<close> work on strings of characters; the result of \<open>TryParse\<close> is
    \<open>None\<close> when it returns false.
  \<^item> An exception that leaves the modelled code is the left value of a sum.
\<close>

datatype cs_exception =
    ArgumentException | ArgumentOutOfRangeException | KeyNotFoundException | InvalidCastException
  | NullReferenceException | FormatException | OverflowException

text \<open>The rest of a computation, unless an exception came before.\<close>

definition bind_sum :: "'e + 'a \<Rightarrow> ('a \<Rightarrow> 'e + 'b) \<Rightarrow> 'e + 'b" where
  "bind_sum x f = (case x of Inl e \<Rightarrow> Inl e | Inr y \<Rightarrow> f y)"

lemma bind_sum_simps [simp]: "bind_sum (Inl e) f = Inl e" "bind_sum (Inr y) f = f y"
  by (simp_all add: bind_sum_def)

section \<open>Dictionaries\<close>

definition dict_contains :: "('k \<times> 'v) list \<Rightarrow> 'k \<Rightarrow> bool" where
  "dict_contains d k = (map_of d k \<noteq> None)"

definition dict_remove :: "'k \<Rightarrow> ('k \<times> 'v) list \<Rightarrow> ('k \<times> 'v) list" where
  "dict_remove k d = filter (\<lambda>e. fst e \<noteq> k) d"

definition dict_add :: "(('k \<times> 'v) list \<Rightarrow> nat) \<Rightarrow> 'k \<Rightarrow> 'v \<Rightarrow> ('k \<times> 'v) list \<Rightarrow> cs_exception + ('k \<times> 'v) list" where
  "dict_add slot k v d =
     (if dict_contains d k then Inl ArgumentException else Inr (take (slot d) d @ (k, v) # drop (slot d) d))"

lemma dict_contains_set: "dict_contains d k \<longleftrightarrow> k \<in> fst ` set d"
  by (simp add: dict_contains_def map_of_eq_None_iff)

lemma set_dict_remove [simp]: "set (dict_remove k d) = {e \<in> set d. fst e \<noteq> k}"
  by (simp add: dict_remove_def)

lemma distinct_dict_remove: "distinct (map fst d) \<Longrightarrow> distinct (map fst (dict_remove k d))"
  by (induction d) (auto simp: dict_remove_def)

lemma map_of_dict_remove: "map_of (dict_remove k d) j = (if j = k then None else map_of d j)"
  by (induction d) (auto simp: dict_remove_def)

lemma dict_add_fresh:
  "\<not> dict_contains d k \<Longrightarrow> dict_add slot k v d = Inr (take (slot d) d @ (k, v) # drop (slot d) d)"
  by (simp add: dict_add_def)

lemma set_insert_at: "set (take n d @ x # drop n d) = insert x (set d)"
  by (metis Un_insert_right append_take_drop_id list.simps(15) set_append)

lemma distinct_insert_at:
  assumes "distinct (map fst d)" and "k \<notin> fst ` set d"
  shows "distinct (map fst (take n d @ (k, v) # drop n d))"
proof -
  have "map fst (take n d @ (k, v) # drop n d) = take n (map fst d) @ k # drop n (map fst d)"
    by (simp add: take_map drop_map)
  moreover have "distinct (take n (map fst d) @ drop n (map fst d))" using assms(1) by simp
  moreover have "k \<notin> set (take n (map fst d)) \<union> set (drop n (map fst d))"
    using assms(2) by (metis append_take_drop_id list.set_map set_append)
  moreover have "set (take n (map fst d)) \<inter> set (drop n (map fst d)) = {}"
    using assms(1) by (simp add: set_take_disj_set_drop_if_distinct)
  ultimately show ?thesis by auto
qed

lemma map_of_insert_at:
  assumes "k \<notin> fst ` set d"
  shows "map_of (take n d @ (k, v) # drop n d) j = (if j = k then Some v else map_of d j)"
  using assms
proof (induction d arbitrary: n)
  case (Cons e d)
  then show ?case by (cases n) auto
qed simp

section \<open>Dates\<close>

definition ticks_per_second :: int where "ticks_per_second = 10000000"

definition ticks_per_ms :: int where "ticks_per_ms = 10000"

definition ticks_per_day :: int where "ticks_per_day = 86400 * ticks_per_second"

definition DayOfWeek :: "int \<Rightarrow> int" where "DayOfWeek t = (t div ticks_per_day + 1) mod 7"

text \<open>The time of day of a date, and midnight of its day.\<close>

definition time_of_day :: "int \<Rightarrow> int" where "time_of_day t = t mod ticks_per_day"

definition midnight :: "int \<Rightarrow> int" where "midnight t = t - time_of_day t"

section \<open>Strings\<close>

fun Split :: "char \<Rightarrow> string \<Rightarrow> string list" where
  "Split d [] = [[]]"
| "Split d (c # cs) =
     (if c = d then [] # Split d cs else (case Split d cs of t # ts \<Rightarrow> (c # t) # ts | [] \<Rightarrow> [[c]]))"

definition white :: "char \<Rightarrow> bool" where
  "white c = (c \<in> {CHR 0x09, CHR 0x0A, CHR 0x0B, CHR 0x0C, CHR 0x0D, CHR 0x20})"

definition Trim :: "string \<Rightarrow> string" where
  "Trim s = rev (dropWhile white (rev (dropWhile white s)))"

definition digit_val :: "char \<Rightarrow> int" where "digit_val c = int (of_char c) - 48"

definition is_digit :: "char \<Rightarrow> bool" where
  "is_digit c = (48 \<le> (of_char c :: nat) \<and> (of_char c :: nat) \<le> 57)"

definition decimal :: "string \<Rightarrow> int" where
  "decimal s = foldl (\<lambda>v c. 10 * v + digit_val c) 0 s"

definition int_TryParse :: "string \<Rightarrow> int option" where
  "int_TryParse s =
     (let s = Trim s;
          (sg, ds) = (case s of [] \<Rightarrow> (1, s)
                      | c # cs \<Rightarrow> if c = CHR ''-'' then (- 1, cs) else if c = CHR ''+'' then (1, cs) else (1, s));
          v = sg * decimal ds
      in if ds \<noteq> [] \<and> list_all is_digit ds \<and> - (2 ^ 31) \<le> v \<and> v < 2 ^ 31 then Some v else None)"

definition lower :: "char \<Rightarrow> char" where
  "lower c = (if 65 \<le> (of_char c :: nat) \<and> (of_char c :: nat) \<le> 90 then char_of ((of_char c :: nat) + 32) else c)"

lemma Split_nonempty [simp]: "Split d s \<noteq> []"
  by (cases s) (auto split: list.splits)

lemma Split_append:
  "d \<notin> set xs \<Longrightarrow> Split d (xs @ d # ys) = xs # Split d ys"
  by (induction xs) auto

lemma Split_none: "d \<notin> set xs \<Longrightarrow> Split d xs = [xs]"
  by (induction xs) auto

lemma Trim_id: "s \<noteq> [] \<Longrightarrow> \<not> white (hd s) \<Longrightarrow> \<not> white (last s) \<Longrightarrow> Trim s = s"
  by (simp add: Trim_def dropWhile_eq_self_iff[THEN iffD2] hd_rev)

end
