(* ===== verification/Call_Data.thy ===== *)
theory Call_Data
  imports Cs_Base
begin

text \<open>
  The data of call control (\<^verbatim>\<open>SpiekSdk/Common\<close>) and of the SIP call provider of the answering machine
  (\<^verbatim>\<open>Deveck.TAM/Sipek\<close>).

  The objects of class \<open>CStateMachine\<close> are a list, an object is its position there; a reference is an
  object or the \<open>NullStateMachine\<close>. The same holds for the objects of class \<open>SIPCall\<close>. What the modelled
  classes ask of the proxies (the signalling proxy that each state machine owns, the media proxy, the
  call log and the listeners of the call manager) is recorded, in order, as a list of actions.
\<close>

section \<open>Call control\<close>

datatype EStateId =
    NULL | IDLE | CONNECTING | ALERTING | ACTIVE | RELEASED | INCOMING | HOLDING | TERMINATED

definition state_code :: "EStateId \<Rightarrow> int" where
  "state_code s = (case s of NULL \<Rightarrow> 0x0 | IDLE \<Rightarrow> 0x1 | CONNECTING \<Rightarrow> 0x2 | ALERTING \<Rightarrow> 0x4 | ACTIVE \<Rightarrow> 0x8
     | RELEASED \<Rightarrow> 0x10 | INCOMING \<Rightarrow> 0x20 | HOLDING \<Rightarrow> 0x40 | TERMINATED \<Rightarrow> 0x80)"

datatype ECallType = EDialed | EReceived | EMissed | EAll | EUndefined

datatype ETimerType = ENOREPLY | ERELEASED | ENORESPONSE

datatype ETones = EToneDial | EToneCongestion | EToneRingback | EToneRing

datatype EServiceCodes = SC_CD | SC_CFU | SC_CFNR | SC_DND | SC_3PTY | SC_CFB

datatype ESessionState =
    SESSION_STATE_NULL | SESSION_STATE_CALLING | SESSION_STATE_INCOMING | SESSION_STATE_EARLY
  | SESSION_STATE_CONNECTING | SESSION_STATE_CONFIRMED | SESSION_STATE_DISCONNECTED

text \<open>The class \<open>Timer\<close> of the answering machine, around a system timer.\<close>

record Timer =
  timer_interval :: int
  timer_enabled :: bool

record CStateMachine =
  sm_state :: EStateId
  callType :: ECallType
  duration :: int
  timestamp :: int
  noreplyTimer :: Timer
  releasedTimer :: Timer
  noresponseTimer :: Timer
  session :: int
  proxySession :: int
  callingNumber :: string
  callingName :: string
  incoming :: bool
  counting :: bool
  holdRequested :: bool
  retrieveRequested :: bool
  disableStateNotifications :: bool

datatype smref = NullStateMachine | SM nat

datatype PendingAction = EUserAnswer int | ECreateSession string int | EUserHold int

text \<open>The requests to a signalling proxy.\<close>

datatype proxy_op =
    P_makeCall string int | P_endCall | P_alerted | P_acceptCall | P_holdCall | P_retrieveCall
  | P_xferCall string | P_xferCallSession int | P_serviceRequest EServiceCodes string | P_dialDtmf string | P_conferenceCall

text \<open>
  \<open>Proxy a s op\<close> is the request \<open>op\<close> to the proxy that state machine \<open>a\<close> owns, whose session is \<open>s\<close>;
  \<open>Add_call a t num name time dur\<close> the call of \<open>addCall\<close> by state machine \<open>a\<close>.
\<close>

datatype call_action =
    Proxy nat int proxy_op | Stack_service EServiceCodes string | Play_tone ETones | Stop_tone
  | Add_call nat ECallType string string int int | Save_log
  | Refresh int | Incoming_notification int string string | Play_wav int string | Stack_shutdown

record configurator =
  CFUFlag :: bool
  CFUNumber :: string
  CFNRFlag :: bool
  CFNRNumber :: string
  DNDFlag :: bool
  AAFlag :: bool
  CFBFlag :: bool
  CFBNumber :: string

section \<open>The provider\<close>

datatype CallState = Ringing | Error | Connected | HangUp | Disconnected

text \<open>
  A call of the provider. \<open>playbackCompleted\<close> is the state of its \<open>AutoResetEvent\<close>; \<open>account\<close> is the
  position of the account that is its action provider.
\<close>

record SIPCall =
  sipekCallId :: int
  callState :: CallState
  call_date :: int
  remoteIdentifier :: string
  account :: nat
  playbackCompleted :: bool

section \<open>The state\<close>

text \<open>
  \<open>w_objs\<close>, \<open>w_calls\<close>, \<open>w_pending\<close> and \<open>w_init\<close> are the state machines and the fields of the call manager,
  \<open>w_sips\<close> and \<open>w_list\<close> the calls of the provider and its list \<open>_calls\<close>; \<open>w_now\<close> is the clock.
\<close>

record call_world =
  w_objs :: "CStateMachine list"
  w_calls :: "(int \<times> smref) list"
  w_pending :: "PendingAction option"
  w_init :: bool
  w_sips :: "SIPCall list"
  w_list :: "nat list"
  w_now :: int
  w_acts :: "call_action list"

text \<open>
  The surroundings: the settings, the session that the stack gives to a new outgoing call (\<open>dll_makeCall\<close>,
  -1 when it fails), where a new entry of the call table is enumerated, and the number of accounts.
\<close>

record call_env =
  e_config :: configurator
  e_makeCall :: "call_world \<Rightarrow> string \<Rightarrow> int \<Rightarrow> int"
  e_slot :: "(int \<times> smref) list \<Rightarrow> nat"
  e_accounts :: nat

definition sm :: "call_world \<Rightarrow> nat \<Rightarrow> CStateMachine" where
  "sm w a = w_objs w ! a"

definition upd_sm :: "nat \<Rightarrow> (CStateMachine \<Rightarrow> CStateMachine) \<Rightarrow> call_world \<Rightarrow> call_world" where
  "upd_sm a f w = w\<lparr>w_objs := (w_objs w)[a := f (w_objs w ! a)]\<rparr>"

definition act :: "call_action \<Rightarrow> call_world \<Rightarrow> call_world" where
  "act x w = w\<lparr>w_acts := w_acts w @ [x]\<rparr>"

definition proxy :: "proxy_op \<Rightarrow> nat \<Rightarrow> call_world \<Rightarrow> call_world" where
  "proxy r a w = act (Proxy a (proxySession (sm w a)) r) w"

definition upd_sip :: "nat \<Rightarrow> (SIPCall \<Rightarrow> SIPCall) \<Rightarrow> call_world \<Rightarrow> call_world" where
  "upd_sip i f w = w\<lparr>w_sips := (w_sips w)[i := f (w_sips w ! i)]\<rparr>"

definition getCall :: "int \<Rightarrow> call_world \<Rightarrow> smref" where
  "getCall s w = (if w_calls w = [] \<or> \<not> dict_contains (w_calls w) s then NullStateMachine
                  else the (map_of (w_calls w) s))"

definition StateId :: "smref \<Rightarrow> call_world \<Rightarrow> EStateId" where
  "StateId r w = (case r of NullStateMachine \<Rightarrow> NULL | SM a \<Rightarrow> sm_state (sm w a))"

text \<open>The setter of \<open>Session\<close>, which passes the session on to the proxy.\<close>

definition set_Session :: "int \<Rightarrow> nat \<Rightarrow> call_world \<Rightarrow> call_world" where
  "set_Session s a w = upd_sm a (\<lambda>m. m\<lparr>session := s, proxySession := s\<rparr>) w"

end
