(* ===== verification/Tam_Calllog.thy ===== *)
theory Tam_Calllog
  imports Call_Data
begin

text \<open>
  The call log (\<^verbatim>\<open>Deveck.TAM/Sipek/Calllog.cs\<close>, with the class \<open>CCallRecord\<close> of
  \<^verbatim>\<open>SpiekSdk/Common/ICallLogInterface.cs\<close>): a stack of records, and its file.

  A stack is the list of its elements, the top first, which is how it is enumerated. The type of a record
  is the number of the enumeration, because a file may have any number there. An XML document is a tree;
  \<open>stored\<close> is what reading a written document gives, where text of white space only is dropped. The texts
  of dates and durations depend on the settings of the machine and are parameters (\<open>culture\<close>).
\<close>

section \<open>Records\<close>

record CCallRecord =
  rec_type :: int
  rec_name :: string
  rec_number :: string
  rec_time :: int
  rec_duration :: int
  rec_count :: int

definition type_code :: "ECallType \<Rightarrow> int" where
  "type_code t = (case t of EDialed \<Rightarrow> 0 | EReceived \<Rightarrow> 1 | EMissed \<Rightarrow> 2 | EAll \<Rightarrow> 3 | EUndefined \<Rightarrow> 4)"

definition new_CCallRecord :: CCallRecord where
  "new_CCallRecord = \<lparr>rec_type = 0, rec_name = '''', rec_number = '''', rec_time = 0, rec_duration = 0, rec_count = 0\<rparr>"

definition findRecord :: "string \<Rightarrow> int \<Rightarrow> CCallRecord list \<Rightarrow> CCallRecord option" where
  "findRecord number type callList = List.find (\<lambda>item. rec_number item = number \<and> rec_type item = type) callList"

definition deleteRecord :: "string \<Rightarrow> int \<Rightarrow> CCallRecord list \<Rightarrow> CCallRecord list" where
  "deleteRecord number type callList =
     fold (\<lambda>item st. if rec_number item = number \<and> rec_type item = type then st else item # st) (rev callList) []"

definition addRecord :: "CCallRecord \<Rightarrow> CCallRecord list \<Rightarrow> CCallRecord list" where
  "addRecord r callList =
     (case findRecord (rec_number r) (rec_type r) callList of
        None \<Rightarrow> r # callList
      | Some item \<Rightarrow>
          if rec_type r \<noteq> rec_type item then r # callList
          else r\<lparr>rec_count := rec_count item + 1\<rparr> # deleteRecord (rec_number r) (rec_type r) callList)"

definition addCall :: "ECallType \<Rightarrow> string \<Rightarrow> string \<Rightarrow> int \<Rightarrow> int \<Rightarrow> CCallRecord list \<Rightarrow> CCallRecord list" where
  "addCall type number name time dur callList =
     addRecord (new_CCallRecord\<lparr>rec_name := name, rec_number := number, rec_duration := dur,
                                rec_type := type_code type, rec_time := time\<rparr>) callList"

definition getList :: "ECallType \<Rightarrow> CCallRecord list \<Rightarrow> CCallRecord list" where
  "getList type callList =
     fold (\<lambda>item st. if rec_type item = type_code type \<or> type = EAll then item # st else st) callList []"

section \<open>The file\<close>

datatype xml_node = Element string "xml_node list" | Text string

fun node_name :: "xml_node \<Rightarrow> string" where
  "node_name (Element n ns) = n"
| "node_name (Text s) = ''#text''"

fun child_nodes :: "xml_node \<Rightarrow> xml_node list" where
  "child_nodes (Element n ns) = ns"
| "child_nodes (Text s) = []"

text \<open>\<open>FirstChild.Value\<close> of the first child with a name, \<open>None\<close> where the code finds a null on the way.\<close>

definition child_value :: "string \<Rightarrow> xml_node \<Rightarrow> string option" where
  "child_value n item =
     (case List.find (\<lambda>c. node_name c = n) (child_nodes item) of
        Some (Element _ (Text v # _)) \<Rightarrow> Some v
      | _ \<Rightarrow> None)"

definition text_element :: "string \<Rightarrow> string \<Rightarrow> xml_node" where
  "text_element n s = Element n [Text s]"

definition blank :: "string \<Rightarrow> bool" where "blank s = list_all white s"

fun blank_text :: "xml_node \<Rightarrow> bool" where
  "blank_text (Text s) = blank s"
| "blank_text (Element n ns) = False"

fun stored :: "xml_node \<Rightarrow> xml_node" where
  "stored (Element n ns) = Element n (map stored (filter (\<lambda>c. \<not> blank_text c) ns))"
| "stored (Text s) = Text s"

record culture =
  show_time :: "int \<Rightarrow> string"
  parse_time :: "string \<Rightarrow> cs_exception + int"
  show_span :: "int \<Rightarrow> string"
  parse_span :: "string \<Rightarrow> cs_exception + int"

fun nat_digits :: "nat \<Rightarrow> string" where
  "nat_digits n = (if n < 10 then [char_of (48 + n)] else nat_digits (n div 10) @ [char_of (48 + n mod 10)])"

declare nat_digits.simps [simp del]

definition int_ToString :: "int \<Rightarrow> string" where
  "int_ToString i = (if i < 0 then CHR ''-'' # nat_digits (nat (- i)) else nat_digits (nat i))"

text \<open>\<open>int.Parse\<close>, which tells a number that is too large from other text.\<close>

definition int_Parse :: "string \<Rightarrow> cs_exception + int" where
  "int_Parse s =
     (case int_TryParse s of
        Some i \<Rightarrow> Inr i
      | None \<Rightarrow>
          let s = Trim s; ds = (if s \<noteq> [] \<and> hd s \<in> {CHR ''-'', CHR ''+''} then tl s else s)
          in Inl (if ds \<noteq> [] \<and> list_all is_digit ds then OverflowException else FormatException))"

definition record_node :: "culture \<Rightarrow> CCallRecord \<Rightarrow> xml_node" where
  "record_node c item = Element ''Record''
     [text_element ''Name'' (rec_name item), text_element ''Number'' (rec_number item),
      text_element ''Duration'' (show_span c (rec_duration item)), text_element ''Time'' (show_time c (rec_time item)),
      text_element ''Count'' (int_ToString (rec_count item)), text_element ''Type'' (int_ToString (rec_type item))]"

definition save :: "culture \<Rightarrow> CCallRecord list \<Rightarrow> xml_node" where
  "save c callList = Element ''Calllog'' (map (record_node c) (rev callList))"

definition clearAll :: "culture \<Rightarrow> CCallRecord list \<Rightarrow> CCallRecord list \<times> xml_node" where
  "clearAll c callList = ([], save c [])"

text \<open>
  A field of a record while it is read: the text, if there is one, is parsed and put into the record; a
  text that does not parse is an exception.
\<close>

definition set_field :: "(string \<Rightarrow> cs_exception + 'a) \<Rightarrow> ('a \<Rightarrow> CCallRecord \<Rightarrow> CCallRecord) \<Rightarrow> string option \<Rightarrow>
    CCallRecord \<Rightarrow> cs_exception + CCallRecord" where
  "set_field parse put v r =
     (case v of None \<Rightarrow> Inr r | Some s \<Rightarrow> bind_sum (parse s) (\<lambda>x. Inr (put x r)))"

definition load_record :: "culture \<Rightarrow> xml_node \<Rightarrow> cs_exception + CCallRecord option" where
  "load_record c item =
     (let r = new_CCallRecord;
          r = (case child_value ''Name'' item of None \<Rightarrow> r | Some v \<Rightarrow> r\<lparr>rec_name := v\<rparr>)
      in case child_value ''Number'' item of
           None \<Rightarrow> Inr None
         | Some v \<Rightarrow>
             bind_sum (set_field (parse_time c) (\<lambda>x r. r\<lparr>rec_time := x\<rparr>) (child_value ''Time'' item) (r\<lparr>rec_number := v\<rparr>)) (\<lambda>r.
             bind_sum (set_field (parse_span c) (\<lambda>x r. r\<lparr>rec_duration := x\<rparr>) (child_value ''Duration'' item) r) (\<lambda>r.
             bind_sum (set_field int_Parse (\<lambda>x r. r\<lparr>rec_count := x\<rparr>) (child_value ''Count'' item) r) (\<lambda>r.
             bind_sum (set_field int_Parse (\<lambda>x r. r\<lparr>rec_type := x\<rparr>) (child_value ''Type'' item) r) (\<lambda>r.
             Inr (Some r))))))"

fun load_records :: "culture \<Rightarrow> xml_node list \<Rightarrow> CCallRecord list \<Rightarrow> cs_exception + CCallRecord list" where
  "load_records c [] st = Inr st"
| "load_records c (item # items) st =
     bind_sum (load_record c item) (\<lambda>r. load_records c items (case r of None \<Rightarrow> st | Some x \<Rightarrow> x # st))"

text \<open>A file that does not exist or is not well formed is \<open>None\<close>; the log is then empty.\<close>

definition load :: "culture \<Rightarrow> xml_node option \<Rightarrow> cs_exception + CCallRecord list" where
  "load c doc =
     (case doc of
        None \<Rightarrow> Inr []
      | Some root \<Rightarrow>
          load_records c (if node_name root = ''Calllog'' then filter (\<lambda>n. node_name n = ''Record'') (child_nodes root) else []) [])"

end
