(* ===== verification/Tam_Trigger.thy ===== *)
theory Tam_Trigger
  imports Tam_Calllog
begin

text \<open>
  The triggers of the answering machine (\<^verbatim>\<open>Deveck.TAM/Triggers\<close>, \<^verbatim>\<open>Deveck.TAM/Utils/Tokenizer.cs\<close>): the text of
  a day trigger is parsed token by token, a trigger decides for a call and a date, and the triggers of
  the file \<^verbatim>\<open>accounts.xml\<close> are collected under their names.

  An element of the file is a \<open>xml_node\<close>. \<open>ArgumentNullException\<close> is an \<open>ArgumentException\<close> and not told from it;
  \<open>TotalMilliseconds\<close>, a floating point number in the code, is exact here.
\<close>

section \<open>Tokens\<close>

record Tokenizer =
  tokens :: "string list"
  currentIndex :: int

definition new_Tokenizer :: "string \<Rightarrow> char \<Rightarrow> Tokenizer" where
  "new_Tokenizer text delimiter = \<lparr>tokens = Split delimiter text, currentIndex = - 1\<rparr>"

definition TokenAvailable :: "Tokenizer \<Rightarrow> bool" where
  "TokenAvailable t = (int (length (tokens t)) > currentIndex t + 1)"

definition NextToken :: "Tokenizer \<Rightarrow> cs_exception + string \<times> Tokenizer" where
  "NextToken t =
     (if \<not> TokenAvailable t then Inl ArgumentException
      else let t = t\<lparr>currentIndex := currentIndex t + 1\<rparr> in Inr (tokens t ! nat (currentIndex t), t))"

section \<open>Day triggers\<close>

text \<open>
  \<open>Enum.Parse\<close> for the days of the week, which ignores case: a number, or names with commas between
  them, whose values are combined bit by bit.
\<close>

definition day_names :: "string list" where
  "day_names = [''sunday'', ''monday'', ''tuesday'', ''wednesday'', ''thursday'', ''friday'', ''saturday'']"

definition day_of_name :: "string \<Rightarrow> int option" where
  "day_of_name s = map_of (zip day_names [0, 1, 2, 3, 4, 5, 6]) (map lower (Trim s))"

fun combine_days :: "string list \<Rightarrow> cs_exception + int" where
  "combine_days [] = Inr 0"
| "combine_days (s # ss) =
     (case day_of_name s of None \<Rightarrow> Inl ArgumentException | Some v \<Rightarrow> bind_sum (combine_days ss) (\<lambda>vs. Inr (or v vs)))"

definition parse_DayOfWeek :: "string \<Rightarrow> cs_exception + int" where
  "parse_DayOfWeek s =
     (let s = Trim s in
      if s = [] then Inl ArgumentException
      else if is_digit (hd s) \<or> hd s = CHR ''-'' \<or> hd s = CHR ''+''
      then (case int_Parse s of Inr v \<Rightarrow> Inr v | Inl OverflowException \<Rightarrow> Inl OverflowException | Inl _ \<Rightarrow> combine_days (Split CHR '','' s))
      else combine_days (Split CHR '','' s))"

definition ticks_per_minute :: int where "ticks_per_minute = 60 * ticks_per_second"

text \<open>\<open>now\<close> is the clock, which gives the date of the parsed time.\<close>

definition ParseTime :: "int \<Rightarrow> string \<Rightarrow> cs_exception + int" where
  "ParseTime now token =
     (case Split CHR '':'' token of
        [h, m] \<Rightarrow>
          (case (int_TryParse h, int_TryParse m) of
             (Some hour, Some minute) \<Rightarrow>
               if hour < 0 \<or> hour \<ge> 24 \<or> minute < 0 \<or> minute \<ge> 60 then Inl ArgumentException
               else Inr (midnight now + (60 * hour + minute) * ticks_per_minute)
           | _ \<Rightarrow> Inl ArgumentException)
      | _ \<Rightarrow> Inl ArgumentException)"

record DayTrigger =
  dt_day :: int
  fromTime :: "int option"
  toTime :: "int option"

text \<open>An optional part of the text: a keyword and a time. The tokenizer has no more tokens or is at a keyword.\<close>

definition time_clause :: "int \<Rightarrow> string \<Rightarrow> Tokenizer \<Rightarrow> cs_exception + int \<times> Tokenizer" where
  "time_clause now keyword t =
     bind_sum (NextToken t) (\<lambda>(token, t).
       if token = keyword
       then bind_sum (NextToken t) (\<lambda>(token, t). bind_sum (ParseTime now token) (\<lambda>v. Inr (v, t)))
       else Inl ArgumentException)"

definition new_DayTrigger :: "int \<Rightarrow> string \<Rightarrow> cs_exception + DayTrigger" where
  "new_DayTrigger now triggerText =
     bind_sum (NextToken (new_Tokenizer triggerText CHR '' '')) (\<lambda>(token, t).
     bind_sum (parse_DayOfWeek token) (\<lambda>day.
       if \<not> TokenAvailable t then Inr \<lparr>dt_day = day, fromTime = None, toTime = None\<rparr>
       else bind_sum (time_clause now ''from'' t) (\<lambda>(from, t).
         if \<not> TokenAvailable t then Inr \<lparr>dt_day = day, fromTime = Some from, toTime = None\<rparr>
         else bind_sum (time_clause now ''to'' t) (\<lambda>(to, t).
           Inr \<lparr>dt_day = day, fromTime = Some from, toTime = Some to\<rparr>))))"

definition CombineDate :: "int \<Rightarrow> int \<Rightarrow> int" where
  "CombineDate date time = midnight date + time_of_day time div ticks_per_second * ticks_per_second"

definition DayTrigger_IsTriggered :: "DayTrigger \<Rightarrow> int \<Rightarrow> bool" where
  "DayTrigger_IsTriggered d triggerDate =
     (if DayOfWeek triggerDate \<noteq> dt_day d then False
      else if (case fromTime d of None \<Rightarrow> False | Some f \<Rightarrow> triggerDate < CombineDate triggerDate f) then False
      else if (case toTime d of None \<Rightarrow> False | Some t \<Rightarrow> triggerDate > CombineDate triggerDate t) then False
      else True)"

section \<open>Other triggers\<close>

definition new_RingDelay :: "string \<Rightarrow> cs_exception + int" where
  "new_RingDelay triggerText = (case int_TryParse triggerText of None \<Rightarrow> Inl ArgumentException | Some d \<Rightarrow> Inr d)"

definition RingDelay_IsTriggered :: "int \<Rightarrow> int \<Rightarrow> int \<Rightarrow> bool" where
  "RingDelay_IsTriggered delay date triggerDate = (triggerDate - date \<ge> delay * ticks_per_ms)"

datatype trigger = Day DayTrigger | Ring_delay int | TriggerCollector "trigger list"

text \<open>The date of the call is all that the triggers read of it.\<close>

fun IsTriggered :: "trigger \<Rightarrow> int \<Rightarrow> int \<Rightarrow> bool" where
  "IsTriggered (Day d) date triggerDate = DayTrigger_IsTriggered d triggerDate"
| "IsTriggered (Ring_delay n) date triggerDate = RingDelay_IsTriggered n date triggerDate"
| "IsTriggered (TriggerCollector ts) date triggerDate = list_ex (\<lambda>t. IsTriggered t date triggerDate) ts"

section \<open>The triggers of the file\<close>

fun InnerText :: "xml_node \<Rightarrow> string" where
  "InnerText (Text s) = s"
| "InnerText (Element n ns) = concat (map InnerText ns)"

definition SelectNodes :: "string \<Rightarrow> xml_node \<Rightarrow> xml_node list" where
  "SelectNodes n root = filter (\<lambda>c. node_name c = n) (child_nodes root)"

definition ReadString :: "string \<Rightarrow> xml_node \<Rightarrow> string option" where
  "ReadString n root = map_option InnerText (List.find (\<lambda>c. node_name c = n) (child_nodes root))"

fun load_trigger :: "int \<Rightarrow> xml_node list \<Rightarrow> trigger list \<Rightarrow> cs_exception + trigger list" where
  "load_trigger now [] ts = Inr ts"
| "load_trigger now (Text s # ns) ts = Inl InvalidCastException"
| "load_trigger now (Element n cs # ns) ts =
     (if n = ''day''
      then bind_sum (new_DayTrigger now (InnerText (Element n cs))) (\<lambda>d. load_trigger now ns (ts @ [Day d]))
      else if n = ''ringDelay''
      then bind_sum (new_RingDelay (InnerText (Element n cs))) (\<lambda>d. load_trigger now ns (ts @ [Ring_delay d]))
      else load_trigger now ns ts)"

fun load_triggers :: "int \<Rightarrow> xml_node list \<Rightarrow> (string \<times> trigger) list \<Rightarrow> cs_exception + (string \<times> trigger) list" where
  "load_triggers now [] triggers = Inr triggers"
| "load_triggers now (n # ns) triggers =
     bind_sum (load_trigger now (child_nodes n) []) (\<lambda>ts.
       case ReadString ''name'' n of
         None \<Rightarrow> Inl ArgumentException
       | Some name \<Rightarrow> bind_sum (dict_add length name (TriggerCollector ts) triggers) (load_triggers now ns))"

definition LoadTriggers :: "int \<Rightarrow> xml_node \<Rightarrow> cs_exception + (string \<times> trigger) list" where
  "LoadTriggers now root = load_triggers now (SelectNodes ''trigger'' root) []"

definition FindTrigger :: "string \<Rightarrow> (string \<times> trigger) list \<Rightarrow> cs_exception + trigger" where
  "FindTrigger name triggers = (case map_of triggers name of None \<Rightarrow> Inl KeyNotFoundException | Some t \<Rightarrow> Inr t)"

end
