(* ===== verification/Call_Machine.thy ===== *)
theory Call_Machine
  imports Call_Data
begin

text \<open>
  One call: the state machine of \<^verbatim>\<open>SpiekSdk/Common/CallControl/callStateMachine.cs\<close>, its states of
  \<^verbatim>\<open>callStates.cs\<close> (with the defaults of \<open>IAbstractState\<close> and \<open>NullState\<close>), its timers and the listener of
  the provider that it informs (\<^verbatim>\<open>Deveck.TAM/Sipek\<close>). Results that no caller reads are left out.

  A state change runs the exit code of the old state, the entry code of the new one and then informs
  the listener. The entry code of some states changes the state again, so that the operations are in
  an order in which they call each other: first the entries that do not.
\<close>

section \<open>The listener\<close>

definition FindCallById :: "int \<Rightarrow> call_world \<Rightarrow> nat option" where
  "FindCallById s w = List.find (\<lambda>i. sipekCallId (w_sips w ! i) = s) (w_list w)"

text \<open>
  \<open>onCallStateChanged\<close>. When it hangs up, the state of the call is no longer \<open>Connected\<close>, and all that
  \<open>Hangup\<close> does is to set the event for which \<open>PlayAudioFile\<close> waits.
\<close>

definition set_completed :: "nat \<Rightarrow> call_world \<Rightarrow> call_world" where
  "set_completed i w = upd_sip i (\<lambda>c. c\<lparr>playbackCompleted := True\<rparr>) w"

definition set_callState :: "CallState \<Rightarrow> nat \<Rightarrow> call_world \<Rightarrow> call_world" where
  "set_callState s i w = upd_sip i (\<lambda>c. c\<lparr>callState := s\<rparr>) w"

definition onCallStateChanged :: "int \<Rightarrow> call_world \<Rightarrow> call_world" where
  "onCallStateChanged s w =
     (case FindCallById s w of
        None \<Rightarrow> w
      | Some i \<Rightarrow>
          (case StateId (getCall s w) w of
             ACTIVE \<Rightarrow> set_callState Connected i w
           | INCOMING \<Rightarrow> set_callState Ringing i w
           | TERMINATED \<Rightarrow> set_completed i (set_callState Disconnected i w)
           | IDLE \<Rightarrow> set_completed i (set_callState Disconnected i w)
           | RELEASED \<Rightarrow> set_callState HangUp i w
           | NULL \<Rightarrow> (let w = set_callState Disconnected i w in w\<lparr>w_list := remove1 i (w_list w)\<rparr>)
           | _ \<Rightarrow> w))"

definition updateGui :: "int \<Rightarrow> call_world \<Rightarrow> call_world" where
  "updateGui s w = onCallStateChanged s (act (Refresh s) w)"

section \<open>Timers\<close>

text \<open>The constructor of the class \<open>Timer\<close> enables the system timer; setting an interval does not stop it.\<close>

definition createTimer :: Timer where
  "createTimer = \<lparr>timer_interval = 100, timer_enabled = True\<rparr>"

definition set_Interval :: "int \<Rightarrow> Timer \<Rightarrow> Timer" where
  "set_Interval i t = t\<lparr>timer_interval := i\<rparr>"

definition Start :: "Timer \<Rightarrow> bool \<times> Timer" where "Start t = (True, t\<lparr>timer_enabled := True\<rparr>)"

definition Stop :: "Timer \<Rightarrow> bool \<times> Timer" where "Stop t = (True, t\<lparr>timer_enabled := False\<rparr>)"

definition startTimer :: "ETimerType \<Rightarrow> nat \<Rightarrow> call_world \<Rightarrow> bool \<times> call_world" where
  "startTimer k a w =
     (case k of
        ENOREPLY \<Rightarrow> let (ok, t) = Start (noreplyTimer (sm w a)) in (ok, upd_sm a (\<lambda>m. m\<lparr>noreplyTimer := t\<rparr>) w)
      | ERELEASED \<Rightarrow> let (ok, t) = Start (releasedTimer (sm w a)) in (ok, upd_sm a (\<lambda>m. m\<lparr>releasedTimer := t\<rparr>) w)
      | ENORESPONSE \<Rightarrow>
          let (ok, t) = Start (noresponseTimer (sm w a)) in (ok, upd_sm a (\<lambda>m. m\<lparr>noresponseTimer := t\<rparr>) w))"

definition stopTimer :: "ETimerType \<Rightarrow> nat \<Rightarrow> call_world \<Rightarrow> bool \<times> call_world" where
  "stopTimer k a w =
     (case k of
        ENOREPLY \<Rightarrow> let (ok, t) = Stop (noreplyTimer (sm w a)) in (ok, upd_sm a (\<lambda>m. m\<lparr>noreplyTimer := t\<rparr>) w)
      | ERELEASED \<Rightarrow> let (ok, t) = Stop (releasedTimer (sm w a)) in (ok, upd_sm a (\<lambda>m. m\<lparr>releasedTimer := t\<rparr>) w)
      | ENORESPONSE \<Rightarrow>
          let (ok, t) = Stop (noresponseTimer (sm w a)) in (ok, upd_sm a (\<lambda>m. m\<lparr>noresponseTimer := t\<rparr>) w))"

definition stopAllTimers :: "nat \<Rightarrow> call_world \<Rightarrow> call_world" where
  "stopAllTimers a w =
     upd_sm a (\<lambda>m. m\<lparr>noreplyTimer := snd (Stop (noreplyTimer m)), releasedTimer := snd (Stop (releasedTimer m)),
                     noresponseTimer := snd (Stop (noresponseTimer m))\<rparr>) w"

section \<open>The state machine\<close>

text \<open>The constructor. The proxy has session 0 until the state machine gets one.\<close>

definition new_CStateMachine :: "int \<Rightarrow> CStateMachine" where
  "new_CStateMachine now = \<lparr>sm_state = IDLE, callType = EDialed, duration = 0, timestamp = now,
     noreplyTimer = set_Interval 15000 createTimer, releasedTimer = set_Interval 5000 createTimer,
     noresponseTimer = set_Interval 60000 createTimer, session = - 1, proxySession = 0,
     callingNumber = '''', callingName = '''', incoming = False, counting = False, holdRequested = False,
     retrieveRequested = False, disableStateNotifications = False\<rparr>"

definition createStateMachine :: "call_world \<Rightarrow> smref \<times> call_world" where
  "createStateMachine w = (SM (length (w_objs w)), w\<lparr>w_objs := w_objs w @ [new_CStateMachine (w_now w)]\<rparr>)"

definition CAlertingState_onExit :: "nat \<Rightarrow> call_world \<Rightarrow> call_world" where [simp]:
  "CAlertingState_onExit a w = act Stop_tone w"

definition CReleasedState_onExit :: "nat \<Rightarrow> call_world \<Rightarrow> call_world" where [simp]:
  "CReleasedState_onExit a w = stopAllTimers a (act Stop_tone w)"

definition CTerminatedState_onExit :: "nat \<Rightarrow> call_world \<Rightarrow> call_world" where [simp]:
  "CTerminatedState_onExit a w = stopAllTimers a w"

definition CIncomingState_onExit :: "nat \<Rightarrow> call_world \<Rightarrow> call_world" where [simp]:
  "CIncomingState_onExit a w = stopAllTimers a (act Stop_tone w)"

definition onExit :: "nat \<Rightarrow> call_world \<Rightarrow> call_world" where
  "onExit a w = (case sm_state (sm w a) of
       ALERTING \<Rightarrow> CAlertingState_onExit a w
     | RELEASED \<Rightarrow> CReleasedState_onExit a w
     | TERMINATED \<Rightarrow> CTerminatedState_onExit a w
     | INCOMING \<Rightarrow> CIncomingState_onExit a w
     | _ \<Rightarrow> w)"

definition inform :: "nat \<Rightarrow> call_world \<Rightarrow> call_world" where
  "inform a w = (if session (sm w a) \<noteq> - 1 \<and> \<not> disableStateNotifications (sm w a)
                 then updateGui (session (sm w a)) w else w)"

text \<open>The two methods \<open>changeState\<close>, for a new state with the entry code \<open>entry\<close>.\<close>

definition change_to :: "EStateId \<Rightarrow> (nat \<Rightarrow> call_world \<Rightarrow> call_world) \<Rightarrow> nat \<Rightarrow> call_world \<Rightarrow> call_world" where
  "change_to st entry a w =
     (let w = onExit a w;
          w = upd_sm a (\<lambda>m. m\<lparr>sm_state := st\<rparr>) w;
          w = entry a w
      in inform a w)"

definition no_entry :: "nat \<Rightarrow> call_world \<Rightarrow> call_world" where "no_entry a w = w"

definition CConnectingState_onEntry :: "nat \<Rightarrow> call_world \<Rightarrow> call_world" where
  "CConnectingState_onEntry a w = upd_sm a (\<lambda>m. m\<lparr>callType := EDialed\<rparr>) w"

definition CAlertingState_onEntry :: "nat \<Rightarrow> call_world \<Rightarrow> call_world" where
  "CAlertingState_onEntry a w = act (Play_tone EToneRingback) w"

definition CActiveState_onEntry :: "nat \<Rightarrow> call_world \<Rightarrow> call_world" where
  "CActiveState_onEntry a w = act Stop_tone (upd_sm a (\<lambda>m. m\<lparr>counting := True\<rparr>) w)"

definition destroySession :: "int \<Rightarrow> call_world \<Rightarrow> call_world" where
  "destroySession s w =
     (let notify = (case getCall s w of NullStateMachine \<Rightarrow> False | SM a \<Rightarrow> \<not> disableStateNotifications (sm w a));
          w = w\<lparr>w_calls := dict_remove s (w_calls w)\<rparr>
      in if notify then updateGui s w else w)"

definition add_to_log :: "nat \<Rightarrow> call_world \<Rightarrow> call_world" where
  "add_to_log a w =
     (let m = sm w a in
      if (callType m \<noteq> EDialed \<or> length (callingNumber m) > 0) \<and> callType m \<noteq> EUndefined
      then act Save_log (act (Add_call a (callType m) (callingNumber m) (callingName m) (timestamp m) (duration m)) w)
      else w)"

definition destroy :: "nat \<Rightarrow> call_world \<Rightarrow> call_world" where
  "destroy a w =
     (let w = stopAllTimers a w;
          w = act Stop_tone w;
          w = (if counting (sm w a) then upd_sm a (\<lambda>m. m\<lparr>duration := w_now w - timestamp m\<rparr>) w else w);
          w = add_to_log a w;
          w = upd_sm a (\<lambda>m. m\<lparr>callingNumber := '''', incoming := False\<rparr>) w;
          w = change_to IDLE no_entry a w
      in destroySession (session (sm w a)) w)"

definition CReleasedState_onEntry :: "nat \<Rightarrow> call_world \<Rightarrow> call_world" where
  "CReleasedState_onEntry a w =
     (let (success, w) = startTimer ERELEASED a (act (Play_tone EToneCongestion) w)
      in if success then w else destroy a w)"

definition CTerminatedState_onEntry :: "nat \<Rightarrow> call_world \<Rightarrow> call_world" where
  "CTerminatedState_onEntry a w =
     (let (success, w) = startTimer ERELEASED a w in if success then w else destroy a w)"

definition CIncomingState_acceptCall :: "nat \<Rightarrow> call_world \<Rightarrow> call_world" where
  "CIncomingState_acceptCall a w =
     (let w = upd_sm a (\<lambda>m. m\<lparr>callType := EReceived, timestamp := w_now w\<rparr>) w;
          w = proxy P_acceptCall a w
      in change_to ACTIVE CActiveState_onEntry a w)"

definition CIncomingState_onEntry :: "configurator \<Rightarrow> nat \<Rightarrow> call_world \<Rightarrow> call_world" where
  "CIncomingState_onEntry c a w =
     (let w = upd_sm a (\<lambda>m. m\<lparr>incoming := True\<rparr>) w;
          w = snd (startTimer ENORESPONSE a w);
          w = proxy P_alerted a w;
          w = upd_sm a (\<lambda>m. m\<lparr>callType := EMissed\<rparr>) w;
          w = act (Play_tone EToneRing) w;
          w = (if CFNRFlag c then snd (startTimer ENOREPLY a w) else w)
      in if AAFlag c \<and> length (w_calls w) = 1 then CIncomingState_acceptCall a w else w)"

definition changeState :: "configurator \<Rightarrow> EStateId \<Rightarrow> nat \<Rightarrow> call_world \<Rightarrow> call_world" where
  "changeState c st a w = (case st of
       IDLE \<Rightarrow> change_to IDLE no_entry a w
     | CONNECTING \<Rightarrow> change_to CONNECTING CConnectingState_onEntry a w
     | ALERTING \<Rightarrow> change_to ALERTING CAlertingState_onEntry a w
     | ACTIVE \<Rightarrow> change_to ACTIVE CActiveState_onEntry a w
     | RELEASED \<Rightarrow> change_to RELEASED CReleasedState_onEntry a w
     | INCOMING \<Rightarrow> change_to INCOMING (CIncomingState_onEntry c) a w
     | HOLDING \<Rightarrow> change_to HOLDING no_entry a w
     | TERMINATED \<Rightarrow> change_to TERMINATED CTerminatedState_onEntry a w
     | NULL \<Rightarrow> inform a w)"

section \<open>The operations of the states\<close>

text \<open>
  Each operation is the virtual method of the current state of state machine \<open>a\<close>; the states without
  a case have the method of \<open>IAbstractState\<close>.
\<close>

definition CIdleState_endCall :: "nat \<Rightarrow> call_world \<Rightarrow> call_world" where
  "CIdleState_endCall a w = proxy P_endCall a (destroy a w)"

text \<open>The common body of \<open>endCall\<close> of a call that this side ends.\<close>

definition end_by_user :: "configurator \<Rightarrow> nat \<Rightarrow> call_world \<Rightarrow> call_world" where
  "end_by_user c a w = proxy P_endCall a (changeState c TERMINATED a w)"

definition CActiveState_endCall :: "configurator \<Rightarrow> nat \<Rightarrow> call_world \<Rightarrow> call_world" where
  "CActiveState_endCall c a w =
     end_by_user c a (upd_sm a (\<lambda>m. m\<lparr>duration := w_now w - timestamp m\<rparr>) w)"

definition CConnectingState_endCall :: "configurator \<Rightarrow> nat \<Rightarrow> call_world \<Rightarrow> call_world" where [simp]:
  "CConnectingState_endCall c a w = end_by_user c a w"

definition CAlertingState_endCall :: "configurator \<Rightarrow> nat \<Rightarrow> call_world \<Rightarrow> call_world" where [simp]:
  "CAlertingState_endCall c a w = end_by_user c a w"

definition CIncomingState_endCall :: "configurator \<Rightarrow> nat \<Rightarrow> call_world \<Rightarrow> call_world" where [simp]:
  "CIncomingState_endCall c a w = end_by_user c a w"

definition CReleasedState_endCall :: "nat \<Rightarrow> call_world \<Rightarrow> call_world" where [simp]:
  "CReleasedState_endCall a w = destroy a (proxy P_endCall a w)"

definition CTerminatedState_endCall :: "nat \<Rightarrow> call_world \<Rightarrow> call_world" where [simp]:
  "CTerminatedState_endCall a w = proxy P_endCall a w"

definition CHoldingState_endCall :: "configurator \<Rightarrow> nat \<Rightarrow> call_world \<Rightarrow> call_world" where [simp]:
  "CHoldingState_endCall c a w = changeState c TERMINATED a (proxy P_endCall a w)"

definition State_endCall :: "configurator \<Rightarrow> nat \<Rightarrow> call_world \<Rightarrow> call_world" where
  "State_endCall c a w = (case sm_state (sm w a) of
       IDLE \<Rightarrow> CIdleState_endCall a w
     | CONNECTING \<Rightarrow> CConnectingState_endCall c a w
     | ALERTING \<Rightarrow> CAlertingState_endCall c a w
     | ACTIVE \<Rightarrow> CActiveState_endCall c a w
     | RELEASED \<Rightarrow> CReleasedState_endCall a w
     | TERMINATED \<Rightarrow> CTerminatedState_endCall a w
     | INCOMING \<Rightarrow> CIncomingState_endCall c a w
     | HOLDING \<Rightarrow> CHoldingState_endCall c a w
     | NULL \<Rightarrow> w)"

definition CIdleState_makeCall :: "call_env \<Rightarrow> string \<Rightarrow> int \<Rightarrow> nat \<Rightarrow> call_world \<Rightarrow> int \<times> call_world" where
  "CIdleState_makeCall e number acc a w =
     (let w = upd_sm a (\<lambda>m. m\<lparr>callingNumber := number\<rparr>) w;
          w = changeState (e_config e) CONNECTING a w;
          s = e_makeCall e w number acc;
          w = set_Session s a (proxy (P_makeCall number acc) a w)
      in (s, w))"

definition State_makeCall :: "call_env \<Rightarrow> string \<Rightarrow> int \<Rightarrow> nat \<Rightarrow> call_world \<Rightarrow> int \<times> call_world" where
  "State_makeCall e number acc a w =
     (if sm_state (sm w a) = IDLE then CIdleState_makeCall e number acc a w else (- 1, w))"

definition CIdleState_incomingCall :: "configurator \<Rightarrow> string \<Rightarrow> string \<Rightarrow> nat \<Rightarrow> call_world \<Rightarrow> call_world" where
  "CIdleState_incomingCall c number display a w =
     (if CFUFlag c \<and> length (CFUNumber c) > 0
      then CIdleState_endCall a
             (proxy (P_serviceRequest SC_CFU (CFUNumber c)) a
               (upd_sm a (\<lambda>m. m\<lparr>disableStateNotifications := True\<rparr>) w))
      else if DNDFlag c
      then CIdleState_endCall a
             (proxy (P_serviceRequest SC_DND '''') a
               (upd_sm a (\<lambda>m. m\<lparr>disableStateNotifications := True\<rparr>) w))
      else changeState c INCOMING a (upd_sm a (\<lambda>m. m\<lparr>callingNumber := number, callingName := display\<rparr>) w))"

definition State_incomingCall :: "configurator \<Rightarrow> string \<Rightarrow> string \<Rightarrow> nat \<Rightarrow> call_world \<Rightarrow> call_world" where
  "State_incomingCall c number display a w =
     (if sm_state (sm w a) = IDLE then CIdleState_incomingCall c number display a w else w)"

definition CConnectingState_onAlerting :: "configurator \<Rightarrow> nat \<Rightarrow> call_world \<Rightarrow> call_world" where [simp]:
  "CConnectingState_onAlerting c a w = changeState c ALERTING a w"

definition CTerminatedState_onAlerting :: "nat \<Rightarrow> call_world \<Rightarrow> call_world" where [simp]:
  "CTerminatedState_onAlerting a w = proxy P_endCall a w"

definition State_onAlerting :: "configurator \<Rightarrow> nat \<Rightarrow> call_world \<Rightarrow> call_world" where
  "State_onAlerting c a w = (case sm_state (sm w a) of
       CONNECTING \<Rightarrow> CConnectingState_onAlerting c a w
     | TERMINATED \<Rightarrow> CTerminatedState_onAlerting a w
     | _ \<Rightarrow> w)"

definition CConnectingState_onConnect :: "configurator \<Rightarrow> nat \<Rightarrow> call_world \<Rightarrow> call_world" where [simp]:
  "CConnectingState_onConnect c a w = changeState c ACTIVE a w"

definition CAlertingState_onConnect :: "configurator \<Rightarrow> nat \<Rightarrow> call_world \<Rightarrow> call_world" where [simp]:
  "CAlertingState_onConnect c a w = changeState c ACTIVE a (upd_sm a (\<lambda>m. m\<lparr>timestamp := w_now w\<rparr>) w)"

definition CTerminatedState_onConnect :: "nat \<Rightarrow> call_world \<Rightarrow> call_world" where [simp]:
  "CTerminatedState_onConnect a w = proxy P_endCall a w"

definition State_onConnect :: "configurator \<Rightarrow> nat \<Rightarrow> call_world \<Rightarrow> call_world" where
  "State_onConnect c a w = (case sm_state (sm w a) of
       CONNECTING \<Rightarrow> CConnectingState_onConnect c a w
     | ALERTING \<Rightarrow> CAlertingState_onConnect c a w
     | TERMINATED \<Rightarrow> CTerminatedState_onConnect a w
     | _ \<Rightarrow> w)"

definition CConnectingState_onReleased :: "configurator \<Rightarrow> nat \<Rightarrow> call_world \<Rightarrow> call_world" where [simp]:
  "CConnectingState_onReleased c a w = changeState c RELEASED a w"

definition CAlertingState_onReleased :: "configurator \<Rightarrow> nat \<Rightarrow> call_world \<Rightarrow> call_world" where [simp]:
  "CAlertingState_onReleased c a w = changeState c RELEASED a w"

definition CActiveState_onReleased :: "configurator \<Rightarrow> nat \<Rightarrow> call_world \<Rightarrow> call_world" where [simp]:
  "CActiveState_onReleased c a w = changeState c RELEASED a w"

definition CReleasedState_onReleased :: "nat \<Rightarrow> call_world \<Rightarrow> call_world" where [simp]:
  "CReleasedState_onReleased a w = destroy a w"

definition CTerminatedState_onReleased :: "nat \<Rightarrow> call_world \<Rightarrow> call_world" where [simp]:
  "CTerminatedState_onReleased a w = destroy a w"

definition CIncomingState_onReleased :: "configurator \<Rightarrow> nat \<Rightarrow> call_world \<Rightarrow> call_world" where [simp]:
  "CIncomingState_onReleased c a w = changeState c RELEASED a w"

definition CHoldingState_onReleased :: "configurator \<Rightarrow> nat \<Rightarrow> call_world \<Rightarrow> call_world" where [simp]:
  "CHoldingState_onReleased c a w = changeState c RELEASED a w"

definition State_onReleased :: "configurator \<Rightarrow> nat \<Rightarrow> call_world \<Rightarrow> call_world" where
  "State_onReleased c a w = (case sm_state (sm w a) of
       CONNECTING \<Rightarrow> CConnectingState_onReleased c a w
     | ALERTING \<Rightarrow> CAlertingState_onReleased c a w
     | ACTIVE \<Rightarrow> CActiveState_onReleased c a w
     | RELEASED \<Rightarrow> CReleasedState_onReleased a w
     | TERMINATED \<Rightarrow> CTerminatedState_onReleased a w
     | INCOMING \<Rightarrow> CIncomingState_onReleased c a w
     | HOLDING \<Rightarrow> CHoldingState_onReleased c a w
     | _ \<Rightarrow> w)"

definition State_acceptCall :: "nat \<Rightarrow> call_world \<Rightarrow> call_world" where
  "State_acceptCall a w = (if sm_state (sm w a) = INCOMING then CIncomingState_acceptCall a w else w)"

definition CActiveState_holdCall :: "nat \<Rightarrow> call_world \<Rightarrow> call_world" where [simp]:
  "CActiveState_holdCall a w = proxy P_holdCall a (upd_sm a (\<lambda>m. m\<lparr>holdRequested := True\<rparr>) w)"

definition State_holdCall :: "nat \<Rightarrow> call_world \<Rightarrow> call_world" where
  "State_holdCall a w = (if sm_state (sm w a) = ACTIVE then CActiveState_holdCall a w else w)"

definition CHoldingState_retrieveCall :: "configurator \<Rightarrow> nat \<Rightarrow> call_world \<Rightarrow> call_world" where [simp]:
  "CHoldingState_retrieveCall c a w = changeState c ACTIVE a (proxy P_retrieveCall a (upd_sm a (\<lambda>m. m\<lparr>retrieveRequested := True\<rparr>) w))"

definition State_retrieveCall :: "configurator \<Rightarrow> nat \<Rightarrow> call_world \<Rightarrow> call_world" where
  "State_retrieveCall c a w = (if sm_state (sm w a) = HOLDING then CHoldingState_retrieveCall c a w else w)"

definition CActiveState_xferCall :: "string \<Rightarrow> nat \<Rightarrow> call_world \<Rightarrow> call_world" where [simp]:
  "CActiveState_xferCall number a w = proxy (P_xferCall number) a w"

definition CIncomingState_xferCall :: "string \<Rightarrow> nat \<Rightarrow> call_world \<Rightarrow> call_world" where [simp]:
  "CIncomingState_xferCall number a w = proxy (P_serviceRequest SC_CD number) a w"

definition State_xferCall :: "string \<Rightarrow> nat \<Rightarrow> call_world \<Rightarrow> call_world" where
  "State_xferCall number a w = (case sm_state (sm w a) of
       ACTIVE \<Rightarrow> CActiveState_xferCall number a w
     | INCOMING \<Rightarrow> CIncomingState_xferCall number a w
     | _ \<Rightarrow> w)"

definition CActiveState_xferCallSession :: "int \<Rightarrow> nat \<Rightarrow> call_world \<Rightarrow> call_world" where [simp]:
  "CActiveState_xferCallSession partner a w = proxy (P_xferCallSession partner) a w"

definition State_xferCallSession :: "int \<Rightarrow> nat \<Rightarrow> call_world \<Rightarrow> call_world" where
  "State_xferCallSession partner a w =
     (if sm_state (sm w a) = ACTIVE then CActiveState_xferCallSession partner a w else w)"

definition State_serviceRequest :: "EServiceCodes \<Rightarrow> string \<Rightarrow> nat \<Rightarrow> call_world \<Rightarrow> call_world" where
  "State_serviceRequest code dest a w = proxy (P_serviceRequest code dest) a w"

definition State_dialDtmf :: "string \<Rightarrow> nat \<Rightarrow> call_world \<Rightarrow> call_world" where
  "State_dialDtmf digits a w = proxy (P_dialDtmf digits) a w"

definition CActiveState_conferenceCall :: "nat \<Rightarrow> call_world \<Rightarrow> call_world" where [simp]:
  "CActiveState_conferenceCall a w = proxy P_conferenceCall a w"

definition State_conferenceCall :: "nat \<Rightarrow> call_world \<Rightarrow> call_world" where
  "State_conferenceCall a w = (if sm_state (sm w a) = ACTIVE then CActiveState_conferenceCall a w else w)"

definition CIncomingState_noReplyTimerExpired :: "configurator \<Rightarrow> nat \<Rightarrow> call_world \<Rightarrow> call_world" where [simp]:
  "CIncomingState_noReplyTimerExpired c a w = proxy (P_serviceRequest SC_CFNR (CFUNumber c)) a w"

definition State_noReplyTimerExpired :: "configurator \<Rightarrow> nat \<Rightarrow> call_world \<Rightarrow> call_world" where
  "State_noReplyTimerExpired c a w =
     (if sm_state (sm w a) = INCOMING then CIncomingState_noReplyTimerExpired c a w else w)"

definition CReleasedState_releasedTimerExpired :: "nat \<Rightarrow> call_world \<Rightarrow> call_world" where [simp]:
  "CReleasedState_releasedTimerExpired a w = destroy a w"

definition CTerminatedState_releasedTimerExpired :: "nat \<Rightarrow> call_world \<Rightarrow> call_world" where [simp]:
  "CTerminatedState_releasedTimerExpired a w = destroy a w"

definition State_releasedTimerExpired :: "nat \<Rightarrow> call_world \<Rightarrow> call_world" where
  "State_releasedTimerExpired a w = (case sm_state (sm w a) of
       RELEASED \<Rightarrow> CReleasedState_releasedTimerExpired a w
     | TERMINATED \<Rightarrow> CTerminatedState_releasedTimerExpired a w
     | _ \<Rightarrow> w)"

definition CIncomingState_noResponseTimerExpired :: "configurator \<Rightarrow> nat \<Rightarrow> call_world \<Rightarrow> call_world" where [simp]:
  "CIncomingState_noResponseTimerExpired c a w = end_by_user c a w"

definition State_noResponseTimerExpired :: "configurator \<Rightarrow> nat \<Rightarrow> call_world \<Rightarrow> call_world" where
  "State_noResponseTimerExpired c a w =
     (if sm_state (sm w a) = INCOMING then CIncomingState_noResponseTimerExpired c a w else w)"

lemma State_releasedTimerExpired_eq:
  "State_releasedTimerExpired a w = (if sm_state (sm w a) \<in> {RELEASED, TERMINATED} then destroy a w else w)"
  by (simp add: State_releasedTimerExpired_def split: EStateId.split)

definition noreplyTimer_Elapsed :: "configurator \<Rightarrow> nat \<Rightarrow> call_world \<Rightarrow> call_world" where [simp]:
  "noreplyTimer_Elapsed c a w = State_noReplyTimerExpired c a w"

definition releasedTimer_Elapsed :: "nat \<Rightarrow> call_world \<Rightarrow> call_world" where [simp]:
  "releasedTimer_Elapsed a w = State_releasedTimerExpired a w"

definition noresponseTimer_Elapsed :: "configurator \<Rightarrow> nat \<Rightarrow> call_world \<Rightarrow> call_world" where [simp]:
  "noresponseTimer_Elapsed c a w = State_noResponseTimerExpired c a w"

text \<open>A timer elapses: the class \<open>Timer\<close> stops it and calls the state machine, which calls its state.\<close>

definition timer_Tick :: "configurator \<Rightarrow> ETimerType \<Rightarrow> nat \<Rightarrow> call_world \<Rightarrow> call_world" where
  "timer_Tick c k a w = (case k of
       ENOREPLY \<Rightarrow> noreplyTimer_Elapsed c a (upd_sm a (\<lambda>m. m\<lparr>noreplyTimer := snd (Stop (noreplyTimer m))\<rparr>) w)
     | ERELEASED \<Rightarrow> releasedTimer_Elapsed a (upd_sm a (\<lambda>m. m\<lparr>releasedTimer := snd (Stop (releasedTimer m))\<rparr>) w)
     | ENORESPONSE \<Rightarrow>
         noresponseTimer_Elapsed c a (upd_sm a (\<lambda>m. m\<lparr>noresponseTimer := snd (Stop (noresponseTimer m))\<rparr>) w))"

end
