(* ===== verification/Call_Manager.thy ===== *)
theory Call_Manager
  imports Call_Machine
begin

text \<open>
  The call manager (\<^verbatim>\<open>SpiekSdk/Common/CallControl/callManager.cs\<close>): the table of calls, the requests of the
  user, the two-stage requests that wait until another call is on hold, and the events of the stack.
  An operation on \<open>this[session].State\<close> of a session without a call is the one of \<open>NullState\<close>, which
  does nothing (\<open>on_call\<close>).
\<close>

definition on_call :: "smref \<Rightarrow> (nat \<Rightarrow> call_world \<Rightarrow> call_world) \<Rightarrow> call_world \<Rightarrow> call_world" where
  "on_call r f w = (case r of NullStateMachine \<Rightarrow> w | SM a \<Rightarrow> f a w)"

section \<open>Queries\<close>

definition index_call :: "int \<Rightarrow> call_world \<Rightarrow> smref" where
  "index_call s w = (if \<not> dict_contains (w_calls w) s then NullStateMachine else the (map_of (w_calls w) s))"

definition getCallInState :: "EStateId \<Rightarrow> call_world \<Rightarrow> smref" where
  "getCallInState st w =
     (case List.find (\<lambda>e. StateId (snd e) w = st) (w_calls w) of None \<Rightarrow> NullStateMachine | Some e \<Rightarrow> snd e)"

definition getNoCallsInState :: "EStateId \<Rightarrow> call_world \<Rightarrow> nat" where
  "getNoCallsInState st w = length (filter (\<lambda>e. st = StateId (snd e) w) (w_calls w))"

definition getNoCallsInStates :: "int \<Rightarrow> call_world \<Rightarrow> nat" where
  "getNoCallsInStates states w =
     length (filter (\<lambda>e. and states (state_code (StateId (snd e) w)) = state_code (StateId (snd e) w)) (w_calls w))"

definition enumCallsInState :: "EStateId \<Rightarrow> call_world \<Rightarrow> smref list" where
  "enumCallsInState st w = map snd (filter (\<lambda>e. st = StateId (snd e) w) (w_calls w))"

section \<open>Requests of the user\<close>

definition onUserRelease :: "configurator \<Rightarrow> int \<Rightarrow> call_world \<Rightarrow> call_world" where
  "onUserRelease c s w = on_call (index_call s w) (State_endCall c) w"

definition onUserAnswer :: "int \<Rightarrow> call_world \<Rightarrow> call_world" where
  "onUserAnswer s w =
     (case enumCallsInState ACTIVE w of
        r # _ \<Rightarrow> (on_call r State_holdCall w)\<lparr>w_pending := Some (EUserAnswer s)\<rparr>
      | [] \<Rightarrow> on_call (index_call s w) State_acceptCall w)"

definition onUserHoldRetrieve :: "configurator \<Rightarrow> int \<Rightarrow> call_world \<Rightarrow> call_world" where
  "onUserHoldRetrieve c s w =
     (if StateId (index_call s w) w = ACTIVE then on_call (getCall s w) State_holdCall w
      else if StateId (index_call s w) w = HOLDING then
        (if getNoCallsInState ACTIVE w > 0
         then (on_call (hd (enumCallsInState ACTIVE w)) State_holdCall w)\<lparr>w_pending := Some (EUserHold s)\<rparr>
         else on_call (index_call s w) (State_retrieveCall c) w)
      else w)"

definition onUserTransfer :: "int \<Rightarrow> string \<Rightarrow> call_world \<Rightarrow> call_world" where
  "onUserTransfer s number w = on_call (index_call s w) (State_xferCall number) w"

definition onUserDialDigit :: "int \<Rightarrow> string \<Rightarrow> call_world \<Rightarrow> call_world" where
  "onUserDialDigit s digits w = on_call (index_call s w) (State_dialDtmf digits) w"

definition onUserConference :: "configurator \<Rightarrow> call_world \<Rightarrow> call_world" where
  "onUserConference c w =
     (if getNoCallsInState ACTIVE w = 1 \<and> getNoCallsInState HOLDING w \<ge> 1
      then let r = getCallInState HOLDING w
           in on_call r State_conferenceCall (on_call r (State_retrieveCall c) w)
      else w)"

text \<open>
  \<open>_calls.Add\<close> of a new call: when the session is in the table, the exception is caught, the old call
  is destroyed and the new one added.
\<close>

definition add_call :: "call_env \<Rightarrow> int \<Rightarrow> nat \<Rightarrow> call_world \<Rightarrow> cs_exception + call_world" where
  "add_call e s a w =
     (case dict_add (e_slot e) s (SM a) (w_calls w) of
        Inr d \<Rightarrow> Inr (w\<lparr>w_calls := d\<rparr>)
      | Inl _ \<Rightarrow>
          let w = on_call (the (map_of (w_calls w) s)) destroy w
          in (case dict_add (e_slot e) s (SM a) (w_calls w) of Inr d \<Rightarrow> Inr (w\<lparr>w_calls := d\<rparr>) | Inl x \<Rightarrow> Inl x))"

text \<open>\<open>createStateMachine\<close> never gives the null state machine, for which the code has a branch.\<close>

definition createOutboundCall :: "call_env \<Rightarrow> string \<Rightarrow> int \<Rightarrow> call_world \<Rightarrow> cs_exception + smref \<times> call_world" where
  "createOutboundCall e number acc w =
     (if \<not> w_init w then Inr (NullStateMachine, w)
      else if getNoCallsInStates (or (state_code CONNECTING) (state_code ALERTING)) w > 0
      then Inr (NullStateMachine, w)
      else if getNoCallsInState ACTIVE w = 0 then
        (case createStateMachine w of
           (NullStateMachine, w) \<Rightarrow> Inr (NullStateMachine, w)
         | (SM a, w) \<Rightarrow>
             (case State_makeCall e number acc a w of (s, w) \<Rightarrow>
               if s = - 1 then Inr (NullStateMachine, w)
               else (case add_call e s a (set_Session s a w) of Inr w \<Rightarrow> Inr (SM a, w) | Inl x \<Rightarrow> Inl x)))
      else
        (let w = w\<lparr>w_pending := Some (ECreateSession number acc)\<rparr>
         in Inr (NullStateMachine, on_call (getCallInState ACTIVE w) State_holdCall w)))"

section \<open>Pending actions\<close>

definition Activate :: "call_env \<Rightarrow> PendingAction \<Rightarrow> call_world \<Rightarrow> cs_exception + call_world" where
  "Activate e p w = (case p of
       EUserAnswer s \<Rightarrow> Inr (onUserAnswer s w)
     | ECreateSession number acc \<Rightarrow>
         (case createOutboundCall e number acc w of Inr (_, w) \<Rightarrow> Inr w | Inl x \<Rightarrow> Inl x)
     | EUserHold s \<Rightarrow> Inr (onUserHoldRetrieve (e_config e) s w))"

definition activatePendingAction :: "call_env \<Rightarrow> call_world \<Rightarrow> cs_exception + call_world" where
  "activatePendingAction e w =
     (case w_pending w of
        None \<Rightarrow> Inr (w\<lparr>w_pending := None\<rparr>)
      | Some p \<Rightarrow> (case Activate e p w of Inr w \<Rightarrow> Inr (w\<lparr>w_pending := None\<rparr>) | Inl x \<Rightarrow> Inl x))"

definition CActiveState_onHoldConfirm :: "call_env \<Rightarrow> nat \<Rightarrow> call_world \<Rightarrow> cs_exception + call_world" where [simp]:
  "CActiveState_onHoldConfirm e a w =
     (case (if holdRequested (sm w a) then activatePendingAction e (changeState (e_config e) HOLDING a w) else Inr w) of
        Inr w \<Rightarrow> Inr (upd_sm a (\<lambda>m. m\<lparr>holdRequested := False\<rparr>) w)
      | Inl x \<Rightarrow> Inl x)"

definition State_onHoldConfirm :: "call_env \<Rightarrow> nat \<Rightarrow> call_world \<Rightarrow> cs_exception + call_world" where
  "State_onHoldConfirm e a w = (if sm_state (sm w a) \<noteq> ACTIVE then Inr w else CActiveState_onHoldConfirm e a w)"

section \<open>Events of the stack\<close>

definition OnCallStateChanged :: "call_env \<Rightarrow> int \<Rightarrow> ESessionState \<Rightarrow> call_world \<Rightarrow> cs_exception + call_world" where
  "OnCallStateChanged e s st w =
     (let c = e_config e in
      if st = SESSION_STATE_INCOMING then
        (case createStateMachine w of
           (NullStateMachine, w) \<Rightarrow>
             (if CFBFlag c then Inr (act (Stack_service SC_CFB (CFBNumber c)) w)
              else if dict_contains (w_calls w) s then Inr (on_call (the (map_of (w_calls w) s)) (State_endCall c) w)
              else map_sum id (\<lambda>d. w\<lparr>w_calls := d\<rparr>) (dict_add (e_slot e) s NullStateMachine (w_calls w)))
         | (SM a, w) \<Rightarrow>
             (let w = set_Session s a w in
              if dict_contains (w_calls w) s then Inr (on_call (the (map_of (w_calls w) s)) (State_endCall c) w)
              else map_sum id (\<lambda>d. w\<lparr>w_calls := d\<rparr>) (dict_add (e_slot e) s (SM a) (w_calls w))))
      else
        Inr (case st of
               SESSION_STATE_EARLY \<Rightarrow> on_call (getCall s w) (State_onAlerting c) w
             | SESSION_STATE_CONNECTING \<Rightarrow> on_call (getCall s w) (State_onConnect c) w
             | SESSION_STATE_DISCONNECTED \<Rightarrow> on_call (getCall s w) (State_onReleased c) w
             | _ \<Rightarrow> w))"

text \<open>
  \<open>IncomingCallNotification\<close> of the provider. It takes the first account; with no account the index is
  out of range. The call is then queued for a thread of the answering machine.
\<close>

definition new_SIPCall :: "int \<Rightarrow> string \<Rightarrow> int \<Rightarrow> SIPCall" where
  "new_SIPCall s number now = \<lparr>sipekCallId = s, callState = Ringing, call_date = now, remoteIdentifier = number,
     account = 0, playbackCompleted = False\<rparr>"

definition IncomingCallNotification :: "call_env \<Rightarrow> int \<Rightarrow> string \<Rightarrow> call_world \<Rightarrow> cs_exception + call_world" where
  "IncomingCallNotification e s number w =
     (if e_accounts e = 0 then Inl ArgumentOutOfRangeException
      else Inr (w\<lparr>w_sips := w_sips w @ [new_SIPCall s number (w_now w)], w_list := w_list w @ [length (w_sips w)]\<rparr>))"

definition OnIncomingCall :: "call_env \<Rightarrow> int \<Rightarrow> string \<Rightarrow> string \<Rightarrow> call_world \<Rightarrow> cs_exception + call_world" where
  "OnIncomingCall e s number info w =
     (case getCall s w of
        NullStateMachine \<Rightarrow> Inr w
      | SM a \<Rightarrow>
          (let w = State_incomingCall (e_config e) number info a w in
           if \<not> disableStateNotifications (sm w a)
           then IncomingCallNotification e s number (act (Incoming_notification s number info) w)
           else Inr w))"

definition OnCallNotification :: "call_env \<Rightarrow> int \<Rightarrow> call_world \<Rightarrow> cs_exception + call_world" where
  "OnCallNotification e s w =
     (case getCall s w of NullStateMachine \<Rightarrow> Inr w | SM a \<Rightarrow> State_onHoldConfirm e a w)"

definition OnCallReplaced :: "call_env \<Rightarrow> int \<Rightarrow> int \<Rightarrow> call_world \<Rightarrow> cs_exception + call_world" where
  "OnCallReplaced e oldid newid w =
     (case map_of (w_calls w) oldid of
        None \<Rightarrow> Inl KeyNotFoundException
      | Some r \<Rightarrow>
          (let w = w\<lparr>w_calls := dict_remove oldid (w_calls w)\<rparr>;
               w = on_call r (set_Session newid) w
           in map_sum id (\<lambda>d. w\<lparr>w_calls := d\<rparr>) (dict_add (e_slot e) newid r (w_calls w))))"

section \<open>Start and end\<close>

definition Initialize :: "int \<Rightarrow> call_world \<Rightarrow> int \<times> call_world" where
  "Initialize status w =
     (if \<not> w_init w then
        (let w = w\<lparr>w_calls := []\<rparr> in if status \<noteq> 0 then (status, w) else (status, w\<lparr>w_init := True\<rparr>))
      else (0, w\<lparr>w_init := True\<rparr>))"

definition Shutdown :: "call_world \<Rightarrow> call_world" where
  "Shutdown w =
     (let w = fold (\<lambda>r. on_call r destroy) (map snd (w_calls w)) w;
          w = act Stack_shutdown (w\<lparr>w_calls := []\<rparr>)
      in w\<lparr>w_init := False\<rparr>)"

end
