(* ===== verification/Call_Effects.thy ===== *)
theory Call_Effects
  imports Call_Manager
begin

text \<open>
  What the operations of a state machine do to the state, field by field: the listener changes only the
  calls of the provider, and an operation of state machine \<open>a\<close> changes no other state machine. These
  are the rules (\<open>call_simps\<close>) by which the proofs on call control compute.
\<close>

named_theorems call_simps

lemma upd_sm_fields [call_simps]:
  "w_objs (upd_sm a f w) = (w_objs w)[a := f (w_objs w ! a)]" "w_calls (upd_sm a f w) = w_calls w"
  "w_pending (upd_sm a f w) = w_pending w" "w_init (upd_sm a f w) = w_init w" "w_sips (upd_sm a f w) = w_sips w"
  "w_list (upd_sm a f w) = w_list w" "w_now (upd_sm a f w) = w_now w" "w_acts (upd_sm a f w) = w_acts w"
  by (simp_all add: upd_sm_def)

lemma act_fields [call_simps]:
  "w_objs (act x w) = w_objs w" "w_calls (act x w) = w_calls w" "w_pending (act x w) = w_pending w"
  "w_init (act x w) = w_init w" "w_sips (act x w) = w_sips w" "w_list (act x w) = w_list w"
  "w_now (act x w) = w_now w" "w_acts (act x w) = w_acts w @ [x]"
  by (simp_all add: act_def)

lemma upd_sip_fields [call_simps]:
  "w_objs (upd_sip i f w) = w_objs w" "w_calls (upd_sip i f w) = w_calls w" "w_pending (upd_sip i f w) = w_pending w"
  "w_init (upd_sip i f w) = w_init w" "w_sips (upd_sip i f w) = (w_sips w)[i := f (w_sips w ! i)]"
  "w_list (upd_sip i f w) = w_list w" "w_now (upd_sip i f w) = w_now w" "w_acts (upd_sip i f w) = w_acts w"
  by (simp_all add: upd_sip_def)

lemma proxy_fields [call_simps]:
  "w_objs (proxy r a w) = w_objs w" "w_calls (proxy r a w) = w_calls w" "w_pending (proxy r a w) = w_pending w"
  "w_init (proxy r a w) = w_init w" "w_sips (proxy r a w) = w_sips w" "w_list (proxy r a w) = w_list w"
  "w_now (proxy r a w) = w_now w" "w_acts (proxy r a w) = w_acts w @ [Proxy a (proxySession (w_objs w ! a)) r]"
  by (simp_all add: proxy_def call_simps sm_def)

lemma set_Session_fields [call_simps]:
  "w_objs (set_Session s a w) = (w_objs w)[a := (w_objs w ! a)\<lparr>session := s, proxySession := s\<rparr>]"
  "w_calls (set_Session s a w) = w_calls w"
  "w_pending (set_Session s a w) = w_pending w" "w_init (set_Session s a w) = w_init w"
  "w_sips (set_Session s a w) = w_sips w" "w_list (set_Session s a w) = w_list w"
  "w_now (set_Session s a w) = w_now w" "w_acts (set_Session s a w) = w_acts w"
  by (simp_all add: set_Session_def call_simps)

section \<open>The listener\<close>

lemma onCallStateChanged_fields [call_simps]:
  "w_objs (onCallStateChanged s w) = w_objs w" "w_calls (onCallStateChanged s w) = w_calls w"
  "w_pending (onCallStateChanged s w) = w_pending w" "w_init (onCallStateChanged s w) = w_init w"
  "w_now (onCallStateChanged s w) = w_now w" "w_acts (onCallStateChanged s w) = w_acts w"
  by (simp_all add: onCallStateChanged_def set_completed_def set_callState_def call_simps Let_def
    split: option.split EStateId.split)

lemma updateGui_fields [call_simps]:
  "w_objs (updateGui s w) = w_objs w" "w_calls (updateGui s w) = w_calls w"
  "w_pending (updateGui s w) = w_pending w" "w_init (updateGui s w) = w_init w"
  "w_now (updateGui s w) = w_now w" "w_acts (updateGui s w) = w_acts w @ [Refresh s]"
  by (simp_all add: updateGui_def call_simps)

section \<open>One state machine\<close>

text \<open>The actions of state machine \<open>a\<close>; tones and notifications are of none.\<close>

fun mine :: "nat \<Rightarrow> call_action \<Rightarrow> bool" where
  "mine a (Proxy b s r) = (b = a)"
| "mine a (Add_call b t number name time dur) = (b = a)"
| "mine a x = False"

definition hist :: "nat \<Rightarrow> call_world \<Rightarrow> call_action list" where
  "hist a w = filter (mine a) (w_acts w)"

lemma hist_act [call_simps]: "hist a (act x w) = hist a w @ (if mine a x then [x] else [])"
  by (simp add: hist_def act_fields)

lemma hist_proxy [call_simps]:
  "hist a (proxy r b w) = hist a w @ (if b = a then [Proxy b (proxySession (w_objs w ! b)) r] else [])"
  by (simp add: hist_def proxy_fields)

lemma hist_same [call_simps]:
  "hist a (upd_sm b f w) = hist a w" "hist a (upd_sip i g w) = hist a w" "hist a (set_Session s b w) = hist a w"
  "hist a (updateGui s w) = hist a w" "hist a (onCallStateChanged s w) = hist a w"
  "hist a (w_calls_update f0 w) = hist a w" "hist a (w_pending_update f1 w) = hist a w"
  "hist a (w_objs_update f2 w) = hist a w" "hist a (w_init_update f3 w) = hist a w"
  "hist a (w_sips_update f4 w) = hist a w" "hist a (w_list_update f5 w) = hist a w" "hist a (w_now_update f6 w) = hist a w"
  by (simp_all add: hist_def call_simps)

definition stopped :: "Timer \<Rightarrow> Timer" where "stopped t = t\<lparr>timer_enabled := False\<rparr>"

definition stop_timers :: "CStateMachine \<Rightarrow> CStateMachine" where
  "stop_timers m = m\<lparr>noreplyTimer := stopped (noreplyTimer m), releasedTimer := stopped (releasedTimer m),
     noresponseTimer := stopped (noresponseTimer m)\<rparr>"

lemma stopAllTimers_eq [call_simps]: "stopAllTimers a w = upd_sm a stop_timers w"
proof -
  have "(\<lambda>m. m\<lparr>noreplyTimer := snd (Stop (noreplyTimer m)), releasedTimer := snd (Stop (releasedTimer m)),
           noresponseTimer := snd (Stop (noresponseTimer m))\<rparr>) = stop_timers"
    by (simp add: fun_eq_iff stop_timers_def Stop_def stopped_def)
  then show ?thesis by (simp add: stopAllTimers_def)
qed

lemma stop_timers_sel [simp]:
  "sm_state (stop_timers m) = sm_state m" "callType (stop_timers m) = callType m" "session (stop_timers m) = session m"
  "proxySession (stop_timers m) = proxySession m" "callingNumber (stop_timers m) = callingNumber m"
  "callingName (stop_timers m) = callingName m" "timestamp (stop_timers m) = timestamp m" "counting (stop_timers m) = counting m"
  "duration (stop_timers m) = duration m"
  "disableStateNotifications (stop_timers m) = disableStateNotifications m"
  by (simp_all add: stop_timers_def)

text \<open>What leaving and entering a state does to the state machine.\<close>

definition left :: "CStateMachine \<Rightarrow> CStateMachine" where
  "left m = (if sm_state m \<in> {RELEASED, TERMINATED, INCOMING} then stop_timers m else m)"

lemma left_sel [simp]:
  "sm_state (left m) = sm_state m" "callType (left m) = callType m" "session (left m) = session m"
  "proxySession (left m) = proxySession m" "callingNumber (left m) = callingNumber m"
  "callingName (left m) = callingName m" "timestamp (left m) = timestamp m" "counting (left m) = counting m"
  "duration (left m) = duration m"
  "disableStateNotifications (left m) = disableStateNotifications m"
  by (simp_all add: left_def)

lemma onExit_fields [call_simps]:
  "w_objs (onExit a w) = (w_objs w)[a := left (w_objs w ! a)]" "w_calls (onExit a w) = w_calls w"
  "w_pending (onExit a w) = w_pending w" "w_init (onExit a w) = w_init w" "w_now (onExit a w) = w_now w"
  "w_sips (onExit a w) = w_sips w" "w_list (onExit a w) = w_list w"
  "hist b (onExit a w) = hist b w"
  by (simp_all add: onExit_def left_def call_simps sm_def split: EStateId.split)

lemma inform_fields [call_simps]:
  "w_objs (inform a w) = w_objs w" "w_calls (inform a w) = w_calls w"
  "w_pending (inform a w) = w_pending w" "w_init (inform a w) = w_init w" "w_now (inform a w) = w_now w"
  "hist b (inform a w) = hist b w"
  by (simp_all add: inform_def call_simps)

definition entered :: "EStateId \<Rightarrow> CStateMachine \<Rightarrow> CStateMachine" where
  "entered st m = (case st of
       CONNECTING \<Rightarrow> m\<lparr>sm_state := st, callType := EDialed\<rparr>
     | ACTIVE \<Rightarrow> m\<lparr>sm_state := st, counting := True\<rparr>
     | RELEASED \<Rightarrow> m\<lparr>sm_state := st, releasedTimer := (releasedTimer m)\<lparr>timer_enabled := True\<rparr>\<rparr>
     | TERMINATED \<Rightarrow> m\<lparr>sm_state := st, releasedTimer := (releasedTimer m)\<lparr>timer_enabled := True\<rparr>\<rparr>
     | _ \<Rightarrow> m\<lparr>sm_state := st\<rparr>)"

lemma startTimer_eq [call_simps]:
  "startTimer ENOREPLY a w = (True, upd_sm a (\<lambda>m. m\<lparr>noreplyTimer := (noreplyTimer (w_objs w ! a))\<lparr>timer_enabled := True\<rparr>\<rparr>) w)"
  "startTimer ERELEASED a w = (True, upd_sm a (\<lambda>m. m\<lparr>releasedTimer := (releasedTimer (w_objs w ! a))\<lparr>timer_enabled := True\<rparr>\<rparr>) w)"
  "startTimer ENORESPONSE a w = (True, upd_sm a (\<lambda>m. m\<lparr>noresponseTimer := (noresponseTimer (w_objs w ! a))\<lparr>timer_enabled := True\<rparr>\<rparr>) w)"
  by (simp_all add: startTimer_def Start_def sm_def)

lemmas entry_defs = no_entry_def CConnectingState_onEntry_def CAlertingState_onEntry_def CActiveState_onEntry_def
  CReleasedState_onEntry_def CTerminatedState_onEntry_def

lemma changeState_fields [call_simps]:
  assumes "a < length (w_objs w)" and "st \<noteq> NULL" and "st \<noteq> INCOMING"
  shows "w_objs (changeState c st a w) = (w_objs w)[a := entered st (left (w_objs w ! a))]"
    and "w_calls (changeState c st a w) = w_calls w"
    and "w_pending (changeState c st a w) = w_pending w"
    and "w_init (changeState c st a w) = w_init w"
    and "w_now (changeState c st a w) = w_now w"
    and "hist b (changeState c st a w) = hist b w"
  using assms
  by (cases st; simp add: changeState_def change_to_def entered_def entry_defs call_simps Let_def)+

lemma change_to_eq [call_simps]:
  "change_to IDLE no_entry a w = changeState undefined IDLE a w"
  "change_to ACTIVE CActiveState_onEntry a w = changeState undefined ACTIVE a w"
  by (simp_all add: changeState_def)

section \<open>The end of a call\<close>

definition destroyed :: "int \<Rightarrow> CStateMachine \<Rightarrow> CStateMachine" where
  "destroyed now m =
     (if counting m then (stop_timers m)\<lparr>duration := now - timestamp m\<rparr> else stop_timers m)
       \<lparr>callingNumber := '''', incoming := False, sm_state := IDLE\<rparr>"

text \<open>The entry of the call log, if there is one.\<close>

definition log_entry :: "int \<Rightarrow> nat \<Rightarrow> CStateMachine \<Rightarrow> call_action list" where
  "log_entry now a m =
     (if (callType m \<noteq> EDialed \<or> callingNumber m \<noteq> []) \<and> callType m \<noteq> EUndefined
      then [Add_call a (callType m) (callingNumber m) (callingName m) (timestamp m)
              (if counting m then now - timestamp m else duration m)]
      else [])"

lemma destroySession_fields [call_simps]:
  "w_objs (destroySession s w) = w_objs w" "w_calls (destroySession s w) = dict_remove s (w_calls w)"
  "w_pending (destroySession s w) = w_pending w" "w_init (destroySession s w) = w_init w"
  "w_now (destroySession s w) = w_now w" "hist b (destroySession s w) = hist b w"
  by (simp_all add: destroySession_def call_simps Let_def)

lemma left_stop_timers [simp]:
  "left (stop_timers m\<lparr>duration := d, callingNumber := x, incoming := y\<rparr>) = stop_timers m\<lparr>duration := d, callingNumber := x, incoming := y\<rparr>"
  "left (stop_timers m\<lparr>callingNumber := x, incoming := y\<rparr>) = stop_timers m\<lparr>callingNumber := x, incoming := y\<rparr>"
  by (simp_all add: left_def stop_timers_def stopped_def)

lemma add_to_log_fields [call_simps]:
  "w_objs (add_to_log a w) = w_objs w" "w_calls (add_to_log a w) = w_calls w"
  "w_pending (add_to_log a w) = w_pending w" "w_init (add_to_log a w) = w_init w" "w_now (add_to_log a w) = w_now w"
  "w_sips (add_to_log a w) = w_sips w" "w_list (add_to_log a w) = w_list w"
  by (simp_all add: add_to_log_def call_simps Let_def)

lemma destroy_fields [call_simps]:
  assumes "a < length (w_objs w)"
  shows "w_objs (destroy a w) = (w_objs w)[a := destroyed (w_now w) (w_objs w ! a)]"
    and "w_calls (destroy a w) = dict_remove (session (w_objs w ! a)) (w_calls w)"
    and "w_pending (destroy a w) = w_pending w" and "w_init (destroy a w) = w_init w" and "w_now (destroy a w) = w_now w"
    and "hist b (destroy a w) = hist b w @ (if b = a then log_entry (w_now w) a (w_objs w ! a) else [])"
  using assms
  by (simp_all add: destroy_def call_simps Let_def sm_def destroyed_def entered_def)
     (simp_all add: add_to_log_def log_entry_def call_simps Let_def sm_def)

end
