(* ===== verification/Call_Spec.thy ===== *)
theory Call_Spec
  imports Call_Effects
begin

text \<open>
  Call control as a whole: the events that reach the call manager, the runs of the program, and the
  invariant of the runs. The invariant is about one state machine at a time (\<open>mach_ok\<close>): its state, its
  timers, and its history, the requests that it made to its proxy and to the call log.
\<close>

section \<open>Runs\<close>

datatype call_event =
    User_call string int | User_release int | User_answer int | User_hold int | User_transfer int string
  | User_dial int string | User_conference
  | Stack_state int ESessionState | Stack_incoming int string string | Stack_hold_confirm int | Stack_replaced int int
  | Timer_elapsed nat ETimerType | Clock int | Playback_ended int | Playback_awaited nat | Playback_stopped nat | Play_file int string

definition run_event :: "call_env \<Rightarrow> call_event \<Rightarrow> call_world \<Rightarrow> cs_exception + call_world" where
  "run_event e ev w = (case ev of
       User_call number acc \<Rightarrow> map_sum id snd (createOutboundCall e number acc w)
     | User_release s \<Rightarrow> Inr (onUserRelease (e_config e) s w)
     | User_answer s \<Rightarrow> Inr (onUserAnswer s w)
     | User_hold s \<Rightarrow> Inr (onUserHoldRetrieve (e_config e) s w)
     | User_transfer s number \<Rightarrow> Inr (onUserTransfer s number w)
     | User_dial s digits \<Rightarrow> Inr (onUserDialDigit s digits w)
     | User_conference \<Rightarrow> Inr (onUserConference (e_config e) w)
     | Stack_state s st \<Rightarrow> OnCallStateChanged e s st w
     | Stack_incoming s number info \<Rightarrow> OnIncomingCall e s number info w
     | Stack_hold_confirm s \<Rightarrow> OnCallNotification e s w
     | Stack_replaced oldid newid \<Rightarrow> OnCallReplaced e oldid newid w
     | Timer_elapsed a k \<Rightarrow> Inr (timer_Tick (e_config e) k a w)
     | Clock t \<Rightarrow> Inr (w\<lparr>w_now := t\<rparr>)
     | Playback_ended s \<Rightarrow> Inr (case FindCallById s w of None \<Rightarrow> w | Some i \<Rightarrow> set_completed i w)
     | Playback_awaited i \<Rightarrow> Inr (upd_sip i (\<lambda>c. c\<lparr>playbackCompleted := False\<rparr>) w)
     | Playback_stopped i \<Rightarrow> Inr (set_completed i w)
     | Play_file s file \<Rightarrow> Inr (act (Play_wav s file) w))"

definition timer_runs :: "ETimerType \<Rightarrow> CStateMachine \<Rightarrow> bool" where
  "timer_runs k m = timer_enabled (case k of ENOREPLY \<Rightarrow> noreplyTimer m | ERELEASED \<Rightarrow> releasedTimer m | ENORESPONSE \<Rightarrow> noresponseTimer m)"

text \<open>
  What the surroundings promise: a session is not -1, the stack announces the caller of a call once,
  after it has reported the new call (\<open>pjsua_call_on_incoming\<close> sends the provisional response, which
  reports the state \<open>INCOMING\<close>, and then calls \<open>on_incoming_call\<close> or \<open>on_call_replaced\<close>), only a running
  timer elapses, and the clock does not go back.
\<close>

definition event_ok :: "call_event \<Rightarrow> call_world \<Rightarrow> bool" where
  "event_ok ev w = (case ev of
       Stack_state s st \<Rightarrow> st = SESSION_STATE_INCOMING \<longrightarrow> s \<noteq> - 1
     | Stack_incoming s number info \<Rightarrow> StateId (getCall s w) w \<in> {NULL, IDLE}
     | Stack_replaced oldid newid \<Rightarrow> oldid \<noteq> newid \<and> dict_contains (w_calls w) newid
     | Timer_elapsed a k \<Rightarrow> a < length (w_objs w) \<and> timer_runs k (w_objs w ! a)
     | Clock t \<Rightarrow> w_now w \<le> t
     | _ \<Rightarrow> True)"

definition no_calls :: "int \<Rightarrow> call_world" where
  "no_calls now = \<lparr>w_objs = [], w_calls = [], w_pending = None, w_init = False, w_sips = [], w_list = [], w_now = now, w_acts = []\<rparr>"

inductive call_run :: "call_env \<Rightarrow> call_world \<Rightarrow> bool" for e where
  start: "call_run e (snd (Initialize 0 (no_calls now)))"
| step: "call_run e w \<Longrightarrow> event_ok ev w \<Longrightarrow> run_event e ev w = Inr w' \<Longrightarrow> call_run e w'"

section \<open>The invariant\<close>

definition in_tab :: "nat \<Rightarrow> call_world \<Rightarrow> bool" where
  "in_tab a w = (SM a \<in> snd ` set (w_calls w))"

definition table_ok :: "call_world \<Rightarrow> bool" where
  "table_ok w = (distinct (map fst (w_calls w)) \<and>
     (\<forall>(s, r)\<in>set (w_calls w). \<exists>a. r = SM a \<and> a < length (w_objs w) \<and> session (w_objs w ! a) = s \<and>
        proxySession (w_objs w ! a) = s \<and> s \<noteq> - 1))"

definition alerted :: "call_action list \<Rightarrow> bool" where "alerted h = (\<exists>a s. Proxy a s P_alerted \<in> set h)"

definition accepted :: "call_action list \<Rightarrow> bool" where "accepted h = (\<exists>a s. Proxy a s P_acceptCall \<in> set h)"

definition dialled :: "call_action list \<Rightarrow> bool" where
  "dialled h = (\<exists>a s number acc. Proxy a s (P_makeCall number acc) \<in> set h)"

fun is_entry :: "call_action \<Rightarrow> bool" where
  "is_entry (Add_call a t number name time dur) = True"
| "is_entry _ = False"

fun entry_type :: "call_action \<Rightarrow> ECallType" where
  "entry_type (Add_call a t number name time dur) = t"
| "entry_type _ = EUndefined"

definition entries :: "call_action list \<Rightarrow> nat" where "entries h = length (filter is_entry h)"

text \<open>The type of a call, by what happened to it.\<close>

definition kind_of :: "call_action list \<Rightarrow> ECallType" where
  "kind_of h = (if accepted h then EReceived else if alerted h then EMissed else EDialed)"

definition typed :: "CStateMachine \<Rightarrow> call_action list \<Rightarrow> bool" where
  "typed m h = (callType m = kind_of h \<and> (accepted h \<longrightarrow> alerted h) \<and> (dialled h \<longrightarrow> \<not> alerted h) \<and>
     (sm_state m = INCOMING \<longrightarrow> alerted h \<and> \<not> accepted h) \<and>
     (sm_state m \<in> {CONNECTING, ALERTING} \<longrightarrow> \<not> alerted h \<and> entries h = 0) \<and>
     (callingNumber m \<noteq> [] \<and> \<not> alerted h \<longrightarrow> dialled h))"

definition recorded :: "bool \<Rightarrow> call_action list \<Rightarrow> bool" where
  "recorded tab h = (entries h \<le> 1 \<and> (tab \<longrightarrow> entries h = 0) \<and> (alerted h \<and> \<not> tab \<longrightarrow> entries h = 1) \<and>
     (\<forall>x\<in>set h. is_entry x \<longrightarrow> entry_type x = kind_of h \<and> (kind_of h = EDialed \<longrightarrow> dialled h)))"

definition timed_out :: "CStateMachine \<Rightarrow> bool" where
  "timed_out m = ((sm_state m \<in> {RELEASED, TERMINATED} \<longrightarrow> timer_enabled (releasedTimer m)) \<and>
     (sm_state m = INCOMING \<longrightarrow> timer_enabled (noresponseTimer m)))"

definition mach_ok :: "bool \<Rightarrow> CStateMachine \<Rightarrow> call_action list \<Rightarrow> bool" where
  "mach_ok tab m h = (sm_state m \<noteq> NULL \<and> (\<not> tab \<longrightarrow> sm_state m \<in> {IDLE, CONNECTING}) \<and>
     (tab \<and> sm_state m = IDLE \<longrightarrow> \<not> alerted h \<and> \<not> dialled h) \<and> timed_out m \<and> typed m h \<and> recorded tab h)"

definition call_inv :: "call_world \<Rightarrow> bool" where
  "call_inv w = (table_ok w \<and> (\<forall>a<length (w_objs w). mach_ok (in_tab a w) (w_objs w ! a) (hist a w)) \<and>
     (\<forall>a\<ge>length (w_objs w). hist a w = []))"

lemmas mach_defs = mach_ok_def timed_out_def typed_def recorded_def

section \<open>Histories\<close>

lemma hist_append [simp]:
  "alerted (h @ k) \<longleftrightarrow> alerted h \<or> alerted k" "accepted (h @ k) \<longleftrightarrow> accepted h \<or> accepted k"
  "dialled (h @ k) \<longleftrightarrow> dialled h \<or> dialled k" "entries (h @ k) = entries h + entries k"
  by (auto simp: alerted_def accepted_def dialled_def entries_def)

lemma hist_nil [simp]: "\<not> alerted []" "\<not> accepted []" "\<not> dialled []" "entries [] = 0"
  by (auto simp: alerted_def accepted_def dialled_def entries_def)

lemma hist_one [simp]:
  "alerted [Proxy a s r] \<longleftrightarrow> r = P_alerted" "accepted [Proxy a s r] \<longleftrightarrow> r = P_acceptCall"
  "dialled [Proxy a s r] \<longleftrightarrow> (\<exists>number acc. r = P_makeCall number acc)" "entries [Proxy a s r] = 0"
  "\<not> alerted [Add_call a t n m d l]" "\<not> accepted [Add_call a t n m d l]" "\<not> dialled [Add_call a t n m d l]"
  "entries [Add_call a t n m d l] = 1"
  by (auto simp: alerted_def accepted_def dialled_def entries_def)

text \<open>A request that does not count for the type of the call.\<close>

definition plain :: "proxy_op \<Rightarrow> bool" where
  "plain r = (r \<noteq> P_alerted \<and> r \<noteq> P_acceptCall \<and> (\<forall>number acc. r \<noteq> P_makeCall number acc))"

lemma kind_of_plain [simp]: "plain r \<Longrightarrow> kind_of (h @ [Proxy a s r]) = kind_of h"
  by (simp add: kind_of_def plain_def)

lemma plain_hist:
  "plain r \<Longrightarrow> alerted (h @ [Proxy a s r]) = alerted h" "plain r \<Longrightarrow> accepted (h @ [Proxy a s r]) = accepted h"
  "plain r \<Longrightarrow> dialled (h @ [Proxy a s r]) = dialled h"
  by (simp_all add: plain_def)

lemma mach_ok_plain: "mach_ok tab m h \<Longrightarrow> plain r \<Longrightarrow> mach_ok tab m (h @ [Proxy a s r])"
  unfolding mach_defs by (simp add: plain_hist del: hist_append(1-3))

lemma plain_simps [simp]:
  "plain P_endCall" "plain P_holdCall" "plain P_retrieveCall" "plain (P_xferCall n)" "plain (P_serviceRequest k d)"
  "plain (P_dialDtmf ds)" "plain P_conferenceCall"
  by (simp_all add: plain_def)

section \<open>Steps of one state machine\<close>

lemma in_tab_bound: "table_ok w \<Longrightarrow> in_tab a w \<Longrightarrow> a < length (w_objs w)"
  by (auto simp: table_ok_def in_tab_def)

lemma inv_bound: "call_inv w \<Longrightarrow> in_tab a w \<Longrightarrow> a < length (w_objs w)"
  by (simp add: call_inv_def in_tab_bound)

lemma inv_mach: "call_inv w \<Longrightarrow> in_tab a w \<Longrightarrow> mach_ok True (w_objs w ! a) (hist a w)"
  using inv_bound[of w a] unfolding call_inv_def by force

lemma inv_touch:
  assumes inv: "call_inv w" and a: "a < length (w_objs w)"
    and objs: "w_objs w' = (w_objs w)[a := m']" and calls: "w_calls w' = w_calls w"
    and others: "\<And>b. b \<noteq> a \<Longrightarrow> hist b w' = hist b w"
    and sess: "in_tab a w \<Longrightarrow> session m' = session (w_objs w ! a) \<and> proxySession m' = proxySession (w_objs w ! a)"
    and ok: "mach_ok (in_tab a w) m' (hist a w')"
  shows "call_inv w'"
proof -
  have "table_ok w'"
    unfolding table_ok_def calls
  proof (intro conjI ballI)
    show "distinct (map fst (w_calls w))" using inv by (simp add: call_inv_def table_ok_def)
  next
    fix p assume p: "p \<in> set (w_calls w)"
    obtain s r where sr: "p = (s, r)" by (cases p)
    obtain b where b: "r = SM b" "b < length (w_objs w)" "session (w_objs w ! b) = s" "proxySession (w_objs w ! b) = s" "s \<noteq> - 1"
      using inv p unfolding sr call_inv_def table_ok_def by blast
    have "b = a \<Longrightarrow> in_tab a w" using p sr b(1) by (force simp: in_tab_def)
    then show "case p of (s, r) \<Rightarrow> \<exists>b. r = SM b \<and> b < length (w_objs w') \<and> session (w_objs w' ! b) = s \<and>
        proxySession (w_objs w' ! b) = s \<and> s \<noteq> - 1"
      using b sess a by (cases "b = a") (auto simp: sr objs)
  qed
  moreover have "mach_ok (in_tab b w') (w_objs w' ! b) (hist b w')" if "b < length (w_objs w')" for b
    using that ok inv others by (cases "b = a") (auto simp: objs calls in_tab_def call_inv_def)
  moreover have "hist b w' = []" if "b \<ge> length (w_objs w')" for b
  proof -
    have "b \<noteq> a" using that a objs by auto
    then show ?thesis using others that inv by (simp add: objs call_inv_def)
  qed
  ultimately show ?thesis by (simp add: call_inv_def)
qed

lemma inv_entry:
  assumes "call_inv w" and "(s, r) \<in> set (w_calls w)"
  obtains a where "r = SM a" "a < length (w_objs w)" "session (w_objs w ! a) = s" "proxySession (w_objs w ! a) = s" "s \<noteq> - 1"
    "in_tab a w"
proof -
  obtain a where a: "r = SM a" "a < length (w_objs w)" "session (w_objs w ! a) = s" "proxySession (w_objs w ! a) = s" "s \<noteq> - 1"
    using assms unfolding call_inv_def table_ok_def by blast
  have "in_tab a w" using assms(2) a(1) by (force simp: in_tab_def)
  then show thesis using that a by blast
qed

lemma inv_in_tab:
  assumes "call_inv w" and "in_tab a w"
  shows "(session (w_objs w ! a), SM a) \<in> set (w_calls w)" and "session (w_objs w ! a) \<noteq> - 1"
    and "proxySession (w_objs w ! a) = session (w_objs w ! a)"
proof -
  obtain s where s: "(s, SM a) \<in> set (w_calls w)" using assms(2) by (auto simp: in_tab_def)
  from inv_entry[OF assms(1) s] obtain b where "SM a = SM b" "session (w_objs w ! b) = s" "proxySession (w_objs w ! b) = s" "s \<noteq> - 1"
    by metis
  then show "(session (w_objs w ! a), SM a) \<in> set (w_calls w)" "session (w_objs w ! a) \<noteq> - 1"
    "proxySession (w_objs w ! a) = session (w_objs w ! a)" using s by simp_all
qed

lemma in_tab_dict_remove:
  assumes inv: "call_inv w" and a: "in_tab a w" and calls: "w_calls w' = dict_remove (session (w_objs w ! a)) (w_calls w)"
  shows "in_tab b w' \<longleftrightarrow> in_tab b w \<and> b \<noteq> a"
proof -
  note ia = inv_in_tab[OF inv a]
  have "b \<noteq> a" if "(s, SM b) \<in> set (w_calls w)" "s \<noteq> session (w_objs w ! a)" for s
    using inv_entry[OF inv that(1)] that(2) by (metis smref.inject)
  moreover have "s \<noteq> session (w_objs w ! a)" if "(s, SM b) \<in> set (w_calls w)" "b \<noteq> a" for s
  proof
    assume "s = session (w_objs w ! a)"
    then have sa: "(s, SM a) \<in> set (w_calls w)" using ia(1) by simp
    have "distinct (map fst (w_calls w))" using inv by (simp add: call_inv_def table_ok_def)
    from map_of_is_SomeI[OF this that(1)] map_of_is_SomeI[OF this sa] show False using that(2) by simp
  qed
  ultimately show ?thesis unfolding in_tab_def calls by force
qed

lemma destroyed_sel [simp]:
  "sm_state (destroyed now m) = IDLE" "callType (destroyed now m) = callType m" "callingNumber (destroyed now m) = []"
  "session (destroyed now m) = session m" "proxySession (destroyed now m) = proxySession m"
  by (simp_all add: destroyed_def)

lemma log_entry_hist [simp]:
  "\<not> alerted (log_entry now a m)" "\<not> accepted (log_entry now a m)" "\<not> dialled (log_entry now a m)"
  "kind_of (h @ log_entry now a m) = kind_of h"
  by (simp_all add: log_entry_def kind_of_def)

lemma mach_ok_destroyed:
  assumes "mach_ok True m h"
  shows "mach_ok False (destroyed now m) (h @ log_entry now a m)"
proof -
  have t: "typed m h" and r: "recorded True h" using assms by (simp_all add: mach_ok_def)
  have "typed (destroyed now m) (h @ log_entry now a m)" using t by (simp add: typed_def)
  moreover have c: "kind_of h = EDialed \<longleftrightarrow> \<not> alerted h" "kind_of h \<noteq> EUndefined" "callType m = kind_of h"
    "callingNumber m \<noteq> [] \<and> \<not> alerted h \<longrightarrow> dialled h"
    using t by (auto simp: typed_def kind_of_def)
  have "recorded False (h @ log_entry now a m)"
  proof (cases "alerted h \<or> callingNumber m \<noteq> []")
    case True
    then obtain number name time dur where l: "log_entry now a m = [Add_call a (kind_of h) number name time dur]"
      using c by (auto simp: log_entry_def)
    have "kind_of (h @ log_entry now a m) = kind_of h" by simp
    then show ?thesis using r c True unfolding recorded_def l by auto
  next
    case False
    then have "log_entry now a m = []" using c by (auto simp: log_entry_def)
    then show ?thesis using r False by (simp add: recorded_def)
  qed
  ultimately show ?thesis by (simp add: mach_ok_def timed_out_def)
qed

lemma inv_destroy:
  assumes inv: "call_inv w" and a: "in_tab a w"
  shows "call_inv (destroy a w)"
proof -
  let ?w' = "destroy a w"
  have la: "a < length (w_objs w)" using inv a by (rule inv_bound)
  note f = destroy_fields[OF la] and tab = in_tab_dict_remove[OF inv a destroy_fields(2)[OF la]]
  have "table_ok ?w'"
    unfolding table_ok_def f
  proof (intro conjI ballI)
    show "distinct (map fst (dict_remove (session (w_objs w ! a)) (w_calls w)))"
      using inv by (simp add: call_inv_def table_ok_def distinct_dict_remove)
  next
    fix p assume "p \<in> set (dict_remove (session (w_objs w ! a)) (w_calls w))"
    then obtain s r where sr: "p = (s, r)" "(s, r) \<in> set (w_calls w)" "s \<noteq> session (w_objs w ! a)"
      by (metis (mono_tags, lifting) mem_Collect_eq prod.collapse set_dict_remove)
    from inv_entry[OF inv sr(2)] obtain b where b: "r = SM b" "b < length (w_objs w)" "session (w_objs w ! b) = s"
      "proxySession (w_objs w ! b) = s" "s \<noteq> - 1" by metis
    then have "b \<noteq> a" using sr(3) by auto
    with b show "case p of (s, r) \<Rightarrow> \<exists>b. r = SM b \<and> b < length ((w_objs w)[a := destroyed (w_now w) (w_objs w ! a)]) \<and>
        session ((w_objs w)[a := destroyed (w_now w) (w_objs w ! a)] ! b) = s \<and>
        proxySession ((w_objs w)[a := destroyed (w_now w) (w_objs w ! a)] ! b) = s \<and> s \<noteq> - 1"
      by (auto simp: sr)
  qed
  moreover have "mach_ok (in_tab b ?w') (w_objs ?w' ! b) (hist b ?w')" if "b < length (w_objs ?w')" for b
    using that inv la mach_ok_destroyed[OF inv_mach[OF inv a]] by (cases "b = a") (auto simp: f tab call_inv_def)
  moreover have "hist b ?w' = []" if "b \<ge> length (w_objs ?w')" for b
    using that inv la by (auto simp: f call_inv_def)
  ultimately show ?thesis by (simp add: call_inv_def)
qed

lemma inv_create:
  assumes inv: "call_inv w" and ok: "mach_ok False m []"
  shows "call_inv (w\<lparr>w_objs := w_objs w @ [m]\<rparr>)" and "\<not> in_tab (length (w_objs w)) (w\<lparr>w_objs := w_objs w @ [m]\<rparr>)"
proof -
  let ?w' = "w\<lparr>w_objs := w_objs w @ [m]\<rparr>" and ?n = "length (w_objs w)"
  have tab: "in_tab b ?w' = in_tab b w" for b by (simp add: in_tab_def)
  show fresh: "\<not> in_tab ?n ?w'" using inv_bound[OF inv, of ?n] unfolding tab by auto
  have "table_ok ?w'" using inv unfolding call_inv_def table_ok_def by (fastforce simp: nth_append)
  moreover have "mach_ok (in_tab b ?w') (w_objs ?w' ! b) (hist b ?w')" if "b < length (w_objs ?w')" for b
    using that inv ok fresh by (cases "b = ?n") (auto simp: tab call_simps nth_append call_inv_def less_Suc_eq)
  ultimately show "call_inv ?w'" using inv by (auto simp: call_inv_def call_simps)
qed

lemma inv_add:
  assumes inv: "call_inv w" and a: "a < length (w_objs w)" "\<not> in_tab a w"
    and s: "session (w_objs w ! a) = s" "proxySession (w_objs w ! a) = s" "s \<noteq> - 1" "\<not> dict_contains (w_calls w) s"
    and ok: "mach_ok True (w_objs w ! a) (hist a w)"
    and calls: "set d = insert (s, SM a) (set (w_calls w))" "distinct (map fst d)"
  shows "call_inv (w\<lparr>w_calls := d\<rparr>)"
proof -
  let ?w' = "w\<lparr>w_calls := d\<rparr>"
  have tab: "in_tab b ?w' \<longleftrightarrow> in_tab b w \<or> b = a" for b using calls(1) by (auto simp: in_tab_def)
  have "table_ok ?w'" using inv a s unfolding call_inv_def table_ok_def by (auto simp: calls)
  moreover have "mach_ok (in_tab b ?w') (w_objs ?w' ! b) (hist b ?w')" if "b < length (w_objs ?w')" for b
    using that inv ok by (cases "b = a") (auto simp: tab call_simps call_inv_def)
  ultimately show ?thesis using inv by (auto simp: call_inv_def call_simps)
qed

section \<open>The operations keep the invariant\<close>

lemma recorded_unlogged: "entries h = 0 \<Longrightarrow> recorded True h"
  by (auto simp: recorded_def entries_def filter_empty_conv)

lemma inv_proxy:
  assumes "call_inv w" and "a < length (w_objs w)" and "plain r"
  shows "call_inv (proxy r a w)"
proof (rule inv_touch[OF assms(1,2)])
  show "w_objs (proxy r a w) = (w_objs w)[a := w_objs w ! a]" by (simp add: call_simps)
  show "mach_ok (in_tab a w) (w_objs w ! a) (hist a (proxy r a w))"
    using assms by (simp add: call_simps mach_ok_plain call_inv_def)
qed (simp_all add: call_simps)

text \<open>The fields of which the invariant does not speak.\<close>

definition alike :: "CStateMachine \<Rightarrow> CStateMachine \<Rightarrow> bool" where
  "alike m m' = (sm_state m' = sm_state m \<and> callType m' = callType m \<and> callingNumber m' = callingNumber m \<and>
     session m' = session m \<and> proxySession m' = proxySession m \<and> releasedTimer m' = releasedTimer m \<and>
     noresponseTimer m' = noresponseTimer m)"

lemma mach_ok_alike: "alike m m' \<Longrightarrow> mach_ok tab m' h = mach_ok tab m h"
  by (simp add: alike_def mach_defs)

lemma inv_upd:
  assumes "call_inv w" and "a < length (w_objs w)" and "alike (w_objs w ! a) (f (w_objs w ! a))"
  shows "call_inv (upd_sm a f w)"
proof (rule inv_touch[OF assms(1,2)])
  show "w_objs (upd_sm a f w) = (w_objs w)[a := f (w_objs w ! a)]" by (simp add: call_simps)
  show "mach_ok (in_tab a w) (f (w_objs w ! a)) (hist a (upd_sm a f w))"
    using assms by (simp add: call_simps mach_ok_alike call_inv_def)
  show "session (f (w_objs w ! a)) = session (w_objs w ! a) \<and> proxySession (f (w_objs w ! a)) = proxySession (w_objs w ! a)"
    using assms(3) by (simp add: alike_def)
qed (simp_all add: call_simps)

lemma entered_sel [simp]:
  "sm_state (entered st m) = st" "st \<noteq> CONNECTING \<Longrightarrow> callType (entered st m) = callType m"
  "callingNumber (entered st m) = callingNumber m" "session (entered st m) = session m"
  "proxySession (entered st m) = proxySession m" "disableStateNotifications (entered st m) = disableStateNotifications m"
  by (cases st; simp add: entered_def)+

lemma mach_ok_entered:
  assumes "mach_ok True m h" and "sm_state m \<noteq> IDLE"
    and "st \<in> {ACTIVE, HOLDING, RELEASED, TERMINATED} \<or> st = ALERTING \<and> sm_state m = CONNECTING"
  shows "mach_ok True (entered st (left m)) h"
proof -
  have st: "st \<noteq> CONNECTING" "st \<noteq> INCOMING" "st \<noteq> NULL" "st \<noteq> IDLE" "st = ALERTING \<Longrightarrow> sm_state m = CONNECTING"
    using assms(3) by auto
  have "typed m h" "recorded True h" using assms(1) by (simp_all add: mach_ok_def)
  then have "typed (entered st (left m)) h" using st by (simp add: typed_def)
  moreover have "timed_out (entered st (left m))" using st by (cases st) (simp_all add: timed_out_def entered_def)
  ultimately show ?thesis using st \<open>recorded True h\<close> by (simp add: mach_ok_def)
qed

lemma inv_change:
  assumes inv: "call_inv w" and a: "in_tab a w" and "sm_state (w_objs w ! a) \<noteq> IDLE"
    and "st \<in> {ACTIVE, HOLDING, RELEASED, TERMINATED} \<or> st = ALERTING \<and> sm_state (w_objs w ! a) = CONNECTING"
  shows "call_inv (changeState c st a w)" and "in_tab b (changeState c st a w) = in_tab b w"
proof -
  have la: "a < length (w_objs w)" using inv a by (rule inv_bound)
  have st: "st \<noteq> NULL" "st \<noteq> INCOMING" using assms(4) by auto
  note f = changeState_fields[OF la st]
  show "call_inv (changeState c st a w)"
    using mach_ok_entered[OF inv_mach[OF inv a] assms(3,4)] a
    by (intro inv_touch[OF inv la f(1)]) (simp_all add: f)
  show "in_tab b (changeState c st a w) = in_tab b w" by (simp add: in_tab_def f)
qed

lemma inv_accept:
  assumes inv: "call_inv w" and a: "in_tab a w" and st: "sm_state (w_objs w ! a) = INCOMING"
  shows "call_inv (CIncomingState_acceptCall a w)"
proof -
  have la: "a < length (w_objs w)" using inv a by (rule inv_bound)
  let ?m = "w_objs w ! a"
  let ?m' = "entered ACTIVE (left (?m\<lparr>callType := EReceived, timestamp := w_now w\<rparr>))"
  have objs: "w_objs (CIncomingState_acceptCall a w) = (w_objs w)[a := ?m']"
    and h: "hist b (CIncomingState_acceptCall a w) = hist b w @ (if b = a then [Proxy a (proxySession ?m) P_acceptCall] else [])"
    and calls: "w_calls (CIncomingState_acceptCall a w) = w_calls w" for b
    using la by (simp_all add: CIncomingState_acceptCall_def Let_def call_simps)
  have m: "mach_ok True ?m (hist a w)" using inv a by (rule inv_mach)
  then have "entries (hist a w) = 0" "alerted (hist a w)" "\<not> dialled (hist a w)" "\<not> accepted (hist a w)"
    using st by (auto simp: mach_ok_def recorded_def typed_def)
  then have "mach_ok True ?m' (hist a w @ [Proxy a (proxySession ?m) P_acceptCall])"
    by (simp add: mach_ok_def timed_out_def typed_def recorded_unlogged kind_of_def)
  then show ?thesis using a by (intro inv_touch[OF inv la objs calls]) (simp_all add: h)
qed

text \<open>The state \<open>INCOMING\<close>, before the call is answered automatically.\<close>

definition ringing :: "configurator \<Rightarrow> string \<Rightarrow> string \<Rightarrow> CStateMachine \<Rightarrow> CStateMachine" where
  "ringing c number display m =
     (let m = m\<lparr>callingNumber := number, callingName := display, sm_state := INCOMING, incoming := True,
                noresponseTimer := (noresponseTimer m)\<lparr>timer_enabled := True\<rparr>, callType := EMissed\<rparr>
      in if CFNRFlag c then m\<lparr>noreplyTimer := (noreplyTimer m)\<lparr>timer_enabled := True\<rparr>\<rparr> else m)"

lemma ringing_sel [simp]:
  "sm_state (ringing c number display m) = INCOMING" "callType (ringing c number display m) = EMissed"
  "session (ringing c number display m) = session m" "proxySession (ringing c number display m) = proxySession m"
  "timer_enabled (noresponseTimer (ringing c number display m))"
  by (simp_all add: ringing_def Let_def)

definition before_answer :: "configurator \<Rightarrow> string \<Rightarrow> string \<Rightarrow> nat \<Rightarrow> call_world \<Rightarrow> call_world" where
  "before_answer c number display a w =
     (let w = upd_sm a (\<lambda>m. m\<lparr>callingNumber := number, callingName := display\<rparr>) w;
          w = upd_sm a (\<lambda>m. m\<lparr>sm_state := INCOMING\<rparr>) w
      in CIncomingState_onEntry (c\<lparr>AAFlag := False\<rparr>) a w)"

lemma incoming_eq:
  assumes "a < length (w_objs w)" and "sm_state (w_objs w ! a) = IDLE"
  shows "changeState c INCOMING a (upd_sm a (\<lambda>m. m\<lparr>callingNumber := number, callingName := display\<rparr>) w)
    = inform a (if AAFlag c \<and> length (w_calls w) = 1 then CIncomingState_acceptCall a (before_answer c number display a w)
                else before_answer c number display a w)"
  using assms
  by (simp add: changeState_def change_to_def onExit_def before_answer_def CIncomingState_onEntry_def Let_def call_simps sm_def)

lemma before_answer_fields:
  assumes "a < length (w_objs w)"
  shows "w_objs (before_answer c number display a w) = (w_objs w)[a := ringing c number display (w_objs w ! a)]"
    and "w_calls (before_answer c number display a w) = w_calls w"
    and "hist b (before_answer c number display a w)
           = hist b w @ (if b = a then [Proxy a (proxySession (w_objs w ! a)) P_alerted] else [])"
    and "w_sips (before_answer c number display a w) = w_sips w" and "w_list (before_answer c number display a w) = w_list w"
  using assms
  by (simp_all add: before_answer_def CIncomingState_onEntry_def Let_def call_simps ringing_def)

lemma inv_before_answer:
  assumes inv: "call_inv w" and a: "in_tab a w" and st: "sm_state (w_objs w ! a) = IDLE"
  shows "call_inv (before_answer c number display a w)"
proof -
  have la: "a < length (w_objs w)" using inv a by (rule inv_bound)
  note f = before_answer_fields[OF la]
  have m: "mach_ok True (w_objs w ! a) (hist a w)" using inv a by (rule inv_mach)
  then have "entries (hist a w) = 0" "\<not> alerted (hist a w)" "\<not> dialled (hist a w)" "\<not> accepted (hist a w)"
    using st by (auto simp: mach_ok_def recorded_def typed_def)
  then have "mach_ok True (ringing c number display (w_objs w ! a)) (hist a w @ [Proxy a (proxySession (w_objs w ! a)) P_alerted])"
    by (simp add: mach_ok_def timed_out_def typed_def recorded_unlogged kind_of_def)
  then show ?thesis using a by (intro inv_touch[OF inv la f(1)]) (simp_all add: f)
qed

lemma inv_inform: "call_inv (inform a w) = call_inv w"
  by (simp add: call_inv_def table_ok_def in_tab_def call_simps)

lemma inv_ringing:
  assumes inv: "call_inv w" and a: "in_tab a w" and st: "sm_state (w_objs w ! a) = IDLE"
  shows "call_inv (changeState c INCOMING a (upd_sm a (\<lambda>m. m\<lparr>callingNumber := number, callingName := display\<rparr>) w))"
proof -
  have la: "a < length (w_objs w)" using inv a by (rule inv_bound)
  have b: "call_inv (before_answer c number display a w)" using assms by (rule inv_before_answer)
  moreover have "call_inv (CIncomingState_acceptCall a (before_answer c number display a w))"
    using b a la by (intro inv_accept) (simp_all add: before_answer_fields in_tab_def)
  ultimately show ?thesis using la st by (simp add: incoming_eq inv_inform)
qed

lemma inv_incoming:
  assumes inv: "call_inv w" and a: "in_tab a w" and st: "sm_state (w_objs w ! a) = IDLE"
  shows "call_inv (CIdleState_incomingCall c number display a w)"
proof -
  let ?m = "w_objs w ! a" and ?off = "\<lambda>m. m\<lparr>disableStateNotifications := True\<rparr>"
  have la: "a < length (w_objs w)" using inv a by (rule inv_bound)
  have off: "call_inv (CIdleState_endCall a (proxy r a (upd_sm a ?off w)))" if "plain r" for r
  proof -
    have "call_inv (upd_sm a ?off w)" using inv la by (rule inv_upd) (simp add: alike_def)
    then have "call_inv (proxy r a (upd_sm a ?off w))" using la that by (intro inv_proxy) (simp_all add: call_simps)
    moreover have "in_tab a (proxy r a (upd_sm a ?off w))" using a by (simp add: in_tab_def call_simps)
    ultimately have "call_inv (destroy a (proxy r a (upd_sm a ?off w)))" by (rule inv_destroy)
    then show ?thesis unfolding CIdleState_endCall_def using la by (intro inv_proxy) (simp_all add: call_simps)
  qed
  have "call_inv (changeState c INCOMING a (upd_sm a (\<lambda>m. m\<lparr>callingNumber := number, callingName := display\<rparr>) w))"
    using inv a st by (rule inv_ringing)
  then show ?thesis using off by (simp add: CIdleState_incomingCall_def)
qed

subsection \<open>The operations of the states\<close>

lemma inv_end_by_user:
  assumes inv: "call_inv w" and a: "in_tab a w" and st: "sm_state (w_objs w ! a) \<noteq> IDLE"
  shows "call_inv (end_by_user c a w)"
proof -
  have la: "a < length (w_objs w)" using inv a by (rule inv_bound)
  have "call_inv (changeState c TERMINATED a w)" using inv_change(1)[OF inv a st, of TERMINATED] by simp
  then show ?thesis using la unfolding end_by_user_def by (intro inv_proxy) (simp_all add: call_simps)
qed

lemma inv_endCall:
  assumes inv: "call_inv w" and a: "in_tab a w"
  shows "call_inv (State_endCall c a w)"
proof -
  have la: "a < length (w_objs w)" using inv a by (rule inv_bound)
  have px: "call_inv (proxy P_endCall a w)" "in_tab a (proxy P_endCall a w)"
    using inv la a by (simp_all add: inv_proxy in_tab_def call_simps)
  have idle: "call_inv (CIdleState_endCall a w)"
    unfolding CIdleState_endCall_def using inv_destroy[OF inv a] la by (intro inv_proxy) (simp_all add: call_simps)
  have up: "call_inv (upd_sm a (\<lambda>m. m\<lparr>duration := w_now w - timestamp m\<rparr>) w)"
    "in_tab a (upd_sm a (\<lambda>m. m\<lparr>duration := w_now w - timestamp m\<rparr>) w)"
    using inv la a by (simp_all add: inv_upd alike_def in_tab_def call_simps)
  have active: "sm_state (w_objs w ! a) = ACTIVE \<Longrightarrow> call_inv (CActiveState_endCall c a w)"
    unfolding CActiveState_endCall_def using up la by (intro inv_end_by_user) (simp_all add: call_simps)
  have hold: "sm_state (w_objs w ! a) = HOLDING \<Longrightarrow> call_inv (changeState c TERMINATED a (proxy P_endCall a w))"
    using inv_change(1)[OF px, of TERMINATED] by (simp add: call_simps)
  show ?thesis
    using inv_end_by_user[OF inv a, of c] px idle active hold inv inv_destroy[OF px]
    unfolding State_endCall_def sm_def by (cases "sm_state (w_objs w ! a)") simp_all
qed

lemma inv_onAlerting: "call_inv w \<Longrightarrow> in_tab a w \<Longrightarrow> call_inv (State_onAlerting c a w)"
  using inv_change(1)[of w a ALERTING c] inv_proxy[of w a P_endCall] inv_bound[of w a]
  unfolding State_onAlerting_def sm_def by (cases "sm_state (w_objs w ! a)") simp_all

lemma inv_onConnect:
  assumes inv: "call_inv w" and a: "in_tab a w"
  shows "call_inv (State_onConnect c a w)"
proof -
  let ?t = "upd_sm a (\<lambda>m. m\<lparr>timestamp := w_now w\<rparr>) w"
  have la: "a < length (w_objs w)" using inv a by (rule inv_bound)
  have up: "call_inv ?t" "in_tab a ?t" using inv la a by (simp_all add: inv_upd alike_def in_tab_def call_simps)
  have "sm_state (w_objs w ! a) = ALERTING \<Longrightarrow> call_inv (changeState c ACTIVE a ?t)"
    using inv_change(1)[OF up, of ACTIVE] la by (simp add: call_simps)
  then show ?thesis using inv_change(1)[OF inv a, of ACTIVE c] inv_proxy[OF inv la, of P_endCall] inv
    unfolding State_onConnect_def sm_def by (cases "sm_state (w_objs w ! a)") simp_all
qed

lemma inv_onReleased: "call_inv w \<Longrightarrow> in_tab a w \<Longrightarrow> call_inv (State_onReleased c a w)"
  using inv_change(1)[of w a RELEASED c] inv_destroy[of w a]
  unfolding State_onReleased_def sm_def by (cases "sm_state (w_objs w ! a)") simp_all

lemma inv_acceptCall: "call_inv w \<Longrightarrow> in_tab a w \<Longrightarrow> call_inv (State_acceptCall a w)"
  by (simp add: State_acceptCall_def sm_def inv_accept)

lemma inv_holdCall:
  assumes inv: "call_inv w" and a: "in_tab a w"
  shows "call_inv (State_holdCall a w)"
proof -
  have la: "a < length (w_objs w)" using inv a by (rule inv_bound)
  have "call_inv (upd_sm a (\<lambda>m. m\<lparr>holdRequested := True\<rparr>) w)" using inv la by (simp add: inv_upd alike_def)
  then show ?thesis using inv la by (simp add: State_holdCall_def inv_proxy call_simps)
qed

lemma inv_retrieveCall:
  assumes inv: "call_inv w" and a: "in_tab a w"
  shows "call_inv (State_retrieveCall c a w)"
proof -
  let ?r = "proxy P_retrieveCall a (upd_sm a (\<lambda>m. m\<lparr>retrieveRequested := True\<rparr>) w)"
  have la: "a < length (w_objs w)" using inv a by (rule inv_bound)
  have "call_inv (upd_sm a (\<lambda>m. m\<lparr>retrieveRequested := True\<rparr>) w)" using inv la by (simp add: inv_upd alike_def)
  then have r: "call_inv ?r" "in_tab a ?r" using la a by (simp_all add: inv_proxy in_tab_def call_simps)
  show ?thesis using inv_change(1)[OF r, of ACTIVE c] inv la by (simp add: State_retrieveCall_def sm_def call_simps)
qed

lemma inv_other_ops:
  assumes inv: "call_inv w" and a: "in_tab a w"
  shows "call_inv (State_xferCall number a w)" and "call_inv (State_dialDtmf digits a w)"
    and "call_inv (State_conferenceCall a w)"
  using inv inv_proxy[OF inv inv_bound[OF inv a]]
  by (simp_all add: State_xferCall_def State_dialDtmf_def State_conferenceCall_def split: EStateId.split)

text \<open>
  The timers. They may elapse in a state machine that is no longer (or not yet) in the table: its state
  does not react.
\<close>

lemma not_stray: "call_inv w \<Longrightarrow> a < length (w_objs w) \<Longrightarrow> sm_state (w_objs w ! a) \<notin> {IDLE, CONNECTING} \<Longrightarrow> in_tab a w"
  by (auto simp: call_inv_def mach_ok_def)

text \<open>A stopped timer that the state of the machine still needs is restored by the change that follows.\<close>

lemma change_ignores_timer:
  assumes "a < length (w_objs w)"
  shows "destroy a (upd_sm a (\<lambda>m. m\<lparr>releasedTimer := snd (Stop (releasedTimer m))\<rparr>) w) = destroy a w"
proof -
  have "stop_timers (m\<lparr>releasedTimer := snd (Stop (releasedTimer m))\<rparr>) = stop_timers m" for m :: CStateMachine
    by (simp add: stop_timers_def Stop_def stopped_def)
  then have "stopAllTimers a (upd_sm a (\<lambda>m. m\<lparr>releasedTimer := snd (Stop (releasedTimer m))\<rparr>) w) = stopAllTimers a w"
    using assms by (simp add: call_simps upd_sm_def)
  then show ?thesis by (simp add: destroy_def Let_def)
qed

lemma end_ignores_timer:
  assumes "a < length (w_objs w)" and "sm_state (w_objs w ! a) = INCOMING"
  shows "end_by_user c a (upd_sm a (\<lambda>m. m\<lparr>noresponseTimer := snd (Stop (noresponseTimer m))\<rparr>) w) = end_by_user c a w"
proof -
  have "stop_timers (m\<lparr>noresponseTimer := snd (Stop (noresponseTimer m))\<rparr>) = stop_timers m" for m :: CStateMachine
    by (simp add: stop_timers_def Stop_def stopped_def)
  then have "onExit a (upd_sm a (\<lambda>m. m\<lparr>noresponseTimer := snd (Stop (noresponseTimer m))\<rparr>) w) = onExit a w"
    using assms by (simp add: onExit_def sm_def call_simps upd_sm_def act_def)
  then show ?thesis by (simp add: end_by_user_def changeState_def change_to_def)
qed

lemma inv_stop_timer:
  assumes inv: "call_inv w" and la: "a < length (w_objs w)"
    and f: "f = (\<lambda>m. m\<lparr>releasedTimer := snd (Stop (releasedTimer m))\<rparr>) \<and> sm_state (w_objs w ! a) \<notin> {RELEASED, TERMINATED} \<or>
      f = (\<lambda>m. m\<lparr>noresponseTimer := snd (Stop (noresponseTimer m))\<rparr>) \<and> sm_state (w_objs w ! a) \<noteq> INCOMING \<or>
      f = (\<lambda>m. m\<lparr>noreplyTimer := snd (Stop (noreplyTimer m))\<rparr>)"
  shows "call_inv (upd_sm a f w)"
proof (rule inv_touch[OF inv la])
  show "w_objs (upd_sm a f w) = (w_objs w)[a := f (w_objs w ! a)]" by (simp add: call_simps)
  have "mach_ok (in_tab a w) (w_objs w ! a) (hist a w)" using inv la by (simp add: call_inv_def)
  then show "mach_ok (in_tab a w) (f (w_objs w ! a)) (hist a (upd_sm a f w))"
    using f by (elim disjE conjE) (simp_all add: call_simps mach_ok_def timed_out_def typed_def)
  show "session (f (w_objs w ! a)) = session (w_objs w ! a) \<and> proxySession (f (w_objs w ! a)) = proxySession (w_objs w ! a)"
    using f by (elim disjE conjE) simp_all
qed (simp_all add: call_simps)

lemma inv_timer_Tick:
  assumes inv: "call_inv w" and la: "a < length (w_objs w)"
  shows "call_inv (timer_Tick c k a w)"
proof (cases k)
  case ENOREPLY
  let ?f = "\<lambda>m :: CStateMachine. m\<lparr>noreplyTimer := snd (Stop (noreplyTimer m))\<rparr>"
  have "call_inv (upd_sm a ?f w)" using inv_stop_timer[OF inv la, of ?f] by simp
  then show ?thesis using la
    by (simp add: ENOREPLY timer_Tick_def State_noReplyTimerExpired_def inv_proxy call_simps)
next
  case ERELEASED
  let ?f = "\<lambda>m :: CStateMachine. m\<lparr>releasedTimer := snd (Stop (releasedTimer m))\<rparr>"
  show ?thesis
  proof (cases "sm_state (w_objs w ! a) \<in> {RELEASED, TERMINATED}")
    case True
    then have "in_tab a w" using inv la by (auto intro: not_stray)
    then show ?thesis using True la inv_destroy[OF inv]
      by (simp add: ERELEASED timer_Tick_def State_releasedTimerExpired_eq change_ignores_timer call_simps sm_def)
  next
    case False
    then have "call_inv (upd_sm a ?f w)" using inv_stop_timer[OF inv la, of ?f] by simp
    then show ?thesis using False la
      by (simp add: ERELEASED timer_Tick_def State_releasedTimerExpired_eq call_simps sm_def)
  qed
next
  case ENORESPONSE
  let ?f = "\<lambda>m :: CStateMachine. m\<lparr>noresponseTimer := snd (Stop (noresponseTimer m))\<rparr>"
  show ?thesis
  proof (cases "sm_state (w_objs w ! a) = INCOMING")
    case True
    then have "in_tab a w" using inv la by (auto intro: not_stray)
    then show ?thesis using True la inv_end_by_user[OF inv]
      by (simp add: ENORESPONSE timer_Tick_def State_noResponseTimerExpired_def end_ignores_timer call_simps sm_def)
  next
    case False
    then have "call_inv (upd_sm a ?f w)" using inv_stop_timer[OF inv la, of ?f] by simp
    then show ?thesis using False la
      by (simp add: ENORESPONSE timer_Tick_def State_noResponseTimerExpired_def call_simps sm_def)
  qed
qed

subsection \<open>The call manager\<close>

definition known :: "smref \<Rightarrow> call_world \<Rightarrow> bool" where
  "known r w = (case r of NullStateMachine \<Rightarrow> True | SM a \<Rightarrow> in_tab a w)"

lemma inv_on_call: "call_inv w \<Longrightarrow> known r w \<Longrightarrow> (\<And>a. in_tab a w \<Longrightarrow> call_inv (f a w)) \<Longrightarrow> call_inv (on_call r f w)"
  by (cases r) (simp_all add: on_call_def known_def)

lemma known_member: "(s, r) \<in> set (w_calls w) \<Longrightarrow> known r w"
  by (force simp: known_def in_tab_def split: smref.split)

lemma known_map_of: "map_of (w_calls w) s = Some r \<Longrightarrow> known r w"
  using map_of_SomeD known_member by fast

lemma known_lookup: "known (getCall s w) w" "known (index_call s w) w"
  using known_map_of[of w s] by (auto simp: getCall_def index_call_def dict_contains_def known_def split: option.split)

lemma known_getCallInState: "known (getCallInState st w) w"
proof (cases "List.find (\<lambda>e. StateId (snd e) w = st) (w_calls w)")
  case None
  then show ?thesis by (simp add: getCallInState_def known_def)
next
  case (Some e)
  then have "e \<in> set (w_calls w)" by (auto simp: find_Some_iff)
  then show ?thesis using known_member[of "fst e" "snd e" w] by (simp add: getCallInState_def Some)
qed

lemma known_enum: "r \<in> set (enumCallsInState st w) \<Longrightarrow> known r w"
  using known_member by (auto simp: enumCallsInState_def)

lemma inv_pending [simp]: "call_inv (w_pending_update f w) = call_inv w"
  by (simp add: call_inv_def table_ok_def in_tab_def call_simps)

lemma inv_onUserAnswer: "call_inv w \<Longrightarrow> call_inv (onUserAnswer s w)"
  using known_enum[of _ ACTIVE w]
  by (auto simp: onUserAnswer_def intro!: inv_on_call inv_holdCall inv_acceptCall known_lookup split: list.split)

lemma enum_nonempty: "getNoCallsInState st w > 0 \<Longrightarrow> enumCallsInState st w \<noteq> []"
  by (auto simp: getNoCallsInState_def enumCallsInState_def)

lemma inv_onUserHoldRetrieve: "call_inv w \<Longrightarrow> call_inv (onUserHoldRetrieve c s w)"
  using known_enum[of _ ACTIVE w] enum_nonempty[of ACTIVE w]
  by (auto simp: onUserHoldRetrieve_def intro!: inv_on_call inv_holdCall inv_retrieveCall known_lookup)

lemma known_on_retrieve: "known r w \<Longrightarrow> call_inv w \<Longrightarrow> known r (on_call r (State_retrieveCall c) w)"
  using inv_bound[of w]
  by (cases r) (simp_all add: known_def on_call_def State_retrieveCall_def in_tab_def call_simps)

lemma inv_onUserConference: "call_inv w \<Longrightarrow> call_inv (onUserConference c w)"
  by (auto simp: onUserConference_def Let_def
      intro!: inv_on_call inv_retrieveCall inv_other_ops known_getCallInState known_on_retrieve)

lemma new_mach_ok: "mach_ok False (new_CStateMachine now) []"
  by (simp add: new_CStateMachine_def mach_ok_def timed_out_def typed_def recorded_def kind_of_def)

lemma createStateMachine_eq:
  "createStateMachine w = (SM (length (w_objs w)), w\<lparr>w_objs := w_objs w @ [new_CStateMachine (w_now w)]\<rparr>)"
  by (simp add: createStateMachine_def)

lemma made_call:
  assumes inv: "call_inv w" and la: "a < length (w_objs w)" and tab: "\<not> in_tab a w"
    and m: "sm_state (w_objs w ! a) = IDLE" "callType (w_objs w ! a) = EDialed" and h: "hist a w = []"
    and made: "State_makeCall e number acc a w = (s, w')"
  shows "call_inv w'" and "\<not> in_tab a w'" and "length (w_objs w') = length (w_objs w)"
    and "sm_state (w_objs w' ! a) = CONNECTING" and "w_calls w' = w_calls w"
    and "session (w_objs w' ! a) = s" and "proxySession (w_objs w' ! a) = s"
    and "mach_ok True (w_objs w' ! a) (hist a w')"
proof -
  let ?m = "(w_objs w ! a)\<lparr>callingNumber := number\<rparr>"
  let ?m' = "(entered CONNECTING (left ?m))\<lparr>session := s, proxySession := s\<rparr>"
  have objs: "w_objs w' = (w_objs w)[a := ?m']" and calls: "w_calls w' = w_calls w"
    and hi: "hist b w' = hist b w @ (if b = a then [Proxy a (proxySession (w_objs w ! a)) (P_makeCall number acc)] else [])" for b
    using made la m(1) by (auto simp: State_makeCall_def CIdleState_makeCall_def sm_def Let_def call_simps)
  have ok: "mach_ok tab ?m' [Proxy a (proxySession (w_objs w ! a)) (P_makeCall number acc)]" for tab
    using m by (simp add: mach_ok_def timed_out_def typed_def recorded_def entered_def kind_of_def)
  show "call_inv w'" using tab ok by (intro inv_touch[OF inv la objs calls]) (simp_all add: hi h)
  show "mach_ok True (w_objs w' ! a) (hist a w')" using ok la by (simp add: objs hi h)
  show "\<not> in_tab a w'" using tab by (simp add: in_tab_def calls)
qed (use assms la in \<open>auto simp: State_makeCall_def CIdleState_makeCall_def sm_def Let_def call_simps\<close>)

lemma set_Session_same:
  assumes "session (w_objs w ! a) = s" and "proxySession (w_objs w ! a) = s"
  shows "set_Session s a w = w"
proof -
  have "(w_objs w ! a)\<lparr>session := s, proxySession := s\<rparr> = w_objs w ! a"
    using assms by (cases "w_objs w ! a") simp
  then show ?thesis by (simp add: set_Session_def upd_sm_def)
qed

lemma inv_insert:
  assumes "call_inv w" "a < length (w_objs w)" "\<not> in_tab a w" "session (w_objs w ! a) = s" "proxySession (w_objs w ! a) = s"
    "s \<noteq> - 1" "mach_ok True (w_objs w ! a) (hist a w)"
    and "dict_add slot s (SM a) (w_calls w) = Inr d"
  shows "call_inv (w\<lparr>w_calls := d\<rparr>)"
proof -
  have fresh: "\<not> dict_contains (w_calls w) s" and d: "d = take (slot (w_calls w)) (w_calls w) @ (s, SM a) # drop (slot (w_calls w)) (w_calls w)"
    using assms(8) by (auto simp: dict_add_def split: if_splits)
  have "distinct (map fst (w_calls w))" using assms(1) by (simp add: call_inv_def table_ok_def)
  then have "distinct (map fst d)" unfolding d using fresh by (intro distinct_insert_at) (simp_all add: dict_contains_set)
  moreover have "set d = insert (s, SM a) (set (w_calls w))" unfolding d by (rule set_insert_at)
  ultimately show ?thesis using assms fresh by (intro inv_add) simp_all
qed

lemma inv_add_call:
  assumes inv: "call_inv w" and a: "a < length (w_objs w)" "\<not> in_tab a w" "session (w_objs w ! a) = s" "proxySession (w_objs w ! a) = s"
    "s \<noteq> - 1" "mach_ok True (w_objs w ! a) (hist a w)"
  shows "\<exists>w'. add_call e s a w = Inr w' \<and> call_inv w'"
proof (cases "dict_contains (w_calls w) s")
  case False
  then show ?thesis using inv_insert[OF inv a, of "e_slot e"] by (simp add: add_call_def dict_add_fresh)
next
  case True
  then obtain r where r: "map_of (w_calls w) s = Some r" by (auto simp: dict_contains_def)
  then have sr: "(s, r) \<in> set (w_calls w)" by (rule map_of_SomeD)
  obtain b where b: "r = SM b" "b < length (w_objs w)" "session (w_objs w ! b) = s" "in_tab b w"
    using inv_entry[OF inv sr] by metis
  then have ab: "a \<noteq> b" using a(2) by auto
  let ?w = "destroy b w"
  have f: "w_objs ?w ! a = w_objs w ! a" "length (w_objs ?w) = length (w_objs w)" "hist a ?w = hist a w"
    "w_calls ?w = dict_remove s (w_calls w)"
    using b(2,3) ab by (simp_all add: call_simps)
  have "\<not> in_tab a ?w" using a(2) by (auto simp: in_tab_def f)
  moreover have "\<not> dict_contains (w_calls ?w) s" by (auto simp: f dict_contains_set)
  ultimately have "\<exists>d. dict_add (e_slot e) s (SM a) (w_calls ?w) = Inr d \<and> call_inv (?w\<lparr>w_calls := d\<rparr>)"
    using inv_insert[of ?w a s "e_slot e"] inv_destroy[OF inv b(4)] a f by (simp add: dict_add_fresh)
  moreover have "dict_add (e_slot e) s (SM a) (w_calls w) = Inl ArgumentException" using True by (simp add: dict_add_def)
  ultimately show ?thesis by (auto simp: add_call_def r b(1) on_call_def)
qed

lemma inv_createOutboundCall:
  assumes inv: "call_inv w"
  shows "\<exists>r w'. createOutboundCall e number acc w = Inr (r, w') \<and> call_inv w'"
proof -
  let ?a = "length (w_objs w)" and ?w = "w\<lparr>w_objs := w_objs w @ [new_CStateMachine (w_now w)]\<rparr>"
  have new: "call_inv ?w" "\<not> in_tab ?a ?w" using inv_create[OF inv new_mach_ok] by simp_all
  obtain s w1 where made: "State_makeCall e number acc ?a ?w = (s, w1)" by (cases "State_makeCall e number acc ?a ?w")
  have "hist ?a ?w = []" using inv by (simp add: call_inv_def call_simps)
  then have m: "call_inv w1" "\<not> in_tab ?a w1" "length (w_objs w1) = Suc ?a" "w_calls w1 = w_calls w"
    "session (w_objs w1 ! ?a) = s" "proxySession (w_objs w1 ! ?a) = s" "mach_ok True (w_objs w1 ! ?a) (hist ?a w1)"
    using made_call[OF new(1) _ new(2) _ _ _ made] by (simp_all add: new_CStateMachine_def)
  have eq: "set_Session s ?a w1 = w1" using m by (intro set_Session_same) simp_all
  have "\<exists>w'. add_call e s ?a w1 = Inr w' \<and> call_inv w'" if "s \<noteq> - 1"
    using inv_add_call[OF m(1) _ m(2) m(5,6) that m(7)] m(3) by simp
  then have outgoing: "\<exists>r w'. (if s = - 1 then Inr (NullStateMachine, w1)
      else (case add_call e s ?a (set_Session s ?a w1) of Inr w \<Rightarrow> Inr (SM ?a, w) | Inl x \<Rightarrow> Inl x)) = Inr (r, w') \<and> call_inv w'"
    using m(1) eq by auto
  have "call_inv (on_call (getCallInState ACTIVE (w\<lparr>w_pending := p\<rparr>)) State_holdCall (w\<lparr>w_pending := p\<rparr>))" for p
    using inv by (intro inv_on_call inv_holdCall known_getCallInState) simp_all
  then show ?thesis using inv outgoing by (simp add: createOutboundCall_def createStateMachine_eq made Let_def)
qed

subsection \<open>Events\<close>

lemma inv_Activate:
  assumes "call_inv w"
  shows "\<exists>w'. Activate e p w = Inr w' \<and> call_inv w'"
proof (cases p)
  case (ECreateSession number acc)
  obtain r w' where "createOutboundCall e number acc w = Inr (r, w')" "call_inv w'"
    using inv_createOutboundCall[OF assms] by blast
  then show ?thesis by (simp add: Activate_def ECreateSession)
qed (use assms in \<open>simp_all add: Activate_def inv_onUserAnswer inv_onUserHoldRetrieve\<close>)

lemma inv_activatePendingAction:
  assumes "call_inv w"
  shows "\<exists>w'. activatePendingAction e w = Inr w' \<and> call_inv w'"
proof (cases "w_pending w")
  case (Some p)
  obtain w' where "Activate e p w = Inr w'" "call_inv w'" using inv_Activate[OF assms] by blast
  then show ?thesis by (simp add: activatePendingAction_def Some)
qed (use assms in \<open>simp add: activatePendingAction_def\<close>)

lemma inv_upd_any:
  assumes "call_inv w" and "\<And>m. alike m (f m)"
  shows "call_inv (upd_sm a f w)"
proof (cases "a < length (w_objs w)")
  case False
  then show ?thesis using assms(1) by (simp add: upd_sm_def list_update_beyond)
qed (use assms inv_upd in blast)

lemma inv_onHoldConfirm:
  assumes inv: "call_inv w" and a: "in_tab a w"
  shows "\<exists>w'. State_onHoldConfirm e a w = Inr w' \<and> call_inv w'"
proof -
  let ?h = "\<lambda>m :: CStateMachine. m\<lparr>holdRequested := False\<rparr>"
  have un: "call_inv v \<Longrightarrow> call_inv (upd_sm a ?h v)" for v by (rule inv_upd_any) (simp_all add: alike_def)
  have "\<exists>w'. activatePendingAction e (changeState (e_config e) HOLDING a w) = Inr w' \<and> call_inv w'"
    if "sm_state (w_objs w ! a) = ACTIVE"
    using that inv_change(1)[OF inv a, of HOLDING] by (intro inv_activatePendingAction) simp
  then show ?thesis using un inv by (auto simp: State_onHoldConfirm_def sm_def)
qed

lemma inv_OnCallStateChanged:
  assumes inv: "call_inv w" and s: "st = SESSION_STATE_INCOMING \<Longrightarrow> s \<noteq> - 1"
  shows "\<exists>w'. OnCallStateChanged e s st w = Inr w' \<and> call_inv w'"
proof (cases "st = SESSION_STATE_INCOMING")
  case True
  let ?a = "length (w_objs w)" and ?w = "w\<lparr>w_objs := w_objs w @ [new_CStateMachine (w_now w)]\<rparr>"
  let ?w' = "set_Session s ?a ?w"
  have new: "call_inv ?w" "\<not> in_tab ?a ?w" using inv_create[OF inv new_mach_ok] by simp_all
  have h: "hist ?a ?w = []" using inv by (simp add: call_inv_def call_simps)
  let ?m = "(new_CStateMachine (w_now w))\<lparr>session := s, proxySession := s\<rparr>"
  have ok: "mach_ok tab ?m []" for tab
    by (simp add: new_CStateMachine_def mach_ok_def timed_out_def typed_def recorded_def kind_of_def)
  have inv': "call_inv ?w'" using new(2) h ok
    by (intro inv_touch[OF new(1), where a = ?a and m' = ?m]) (simp_all add: call_simps)
  have tab: "\<not> in_tab ?a ?w'" using new(2) by (simp add: in_tab_def call_simps)
  have calls: "w_calls ?w' = w_calls w" by (simp add: call_simps)
  show ?thesis
  proof (cases "dict_contains (w_calls w) s")
    case c: True
    then obtain r where r: "map_of (w_calls w) s = Some r" by (auto simp: dict_contains_def)
    then have "known r ?w'" using known_map_of[of ?w' s r] by (simp add: calls)
    then have "call_inv (on_call r (State_endCall (e_config e)) ?w')" using inv' by (intro inv_on_call inv_endCall)
    then show ?thesis using c r by (simp add: OnCallStateChanged_def True createStateMachine_eq Let_def calls)
  next
    case False
    have "call_inv (?w'\<lparr>w_calls := d\<rparr>)" if "dict_add (e_slot e) s (SM ?a) (w_calls ?w') = Inr d" for d
      using that inv' tab s True ok h
      by (intro inv_insert[where a = ?a and s = s and slot = "e_slot e"]) (simp_all add: call_simps)
    then show ?thesis using False
      by (simp add: OnCallStateChanged_def True createStateMachine_eq Let_def calls dict_add_fresh)
  qed
next
  case False
  then show ?thesis using inv
    by (auto simp: OnCallStateChanged_def Let_def
        intro!: inv_on_call known_lookup inv_onAlerting inv_onConnect inv_onReleased split: ESessionState.split)
qed

lemma inv_sips [simp]: "call_inv (w_sips_update f w) = call_inv w" "call_inv (w_list_update g w) = call_inv w"
  "call_inv (w_now_update n w) = call_inv w" "call_inv (upd_sip i k w) = call_inv w"
  by (simp_all add: call_inv_def table_ok_def in_tab_def call_simps)

lemma inv_act: "(\<And>a. \<not> mine a x) \<Longrightarrow> call_inv (act x w) = call_inv w"
  by (simp add: call_inv_def table_ok_def in_tab_def call_simps)

lemma inv_OnIncomingCall:
  assumes inv: "call_inv w" and r: "OnIncomingCall e s number info w = Inr w'"
  shows "call_inv w'"
proof (cases "getCall s w")
  case NullStateMachine
  then show ?thesis using inv r by (simp add: OnIncomingCall_def)
next
  case (SM a)
  then have a: "in_tab a w" using known_lookup(1)[of s w] by (simp add: known_def)
  have "call_inv (State_incomingCall (e_config e) number info a w)"
    using inv inv_incoming[OF inv a] by (simp add: State_incomingCall_def sm_def)
  then show ?thesis using r SM
    by (auto simp: OnIncomingCall_def IncomingCallNotification_def Let_def inv_act split: if_splits)
qed

text \<open>The events keep the invariant, and only two of them can raise an exception.\<close>

lemma inv_run_event:
  assumes inv: "call_inv w" and ok: "event_ok ev w" and run: "run_event e ev w = Inr w'"
  shows "call_inv w'"
proof (cases ev)
  case (User_call number acc)
  then show ?thesis using run inv_createOutboundCall[OF inv, of e number acc] by (auto simp: run_event_def)
next
  case (Stack_state s st)
  then show ?thesis using run ok inv_OnCallStateChanged[OF inv, of st s e] by (auto simp: run_event_def event_ok_def)
next
  case (Stack_incoming s number info)
  then show ?thesis using run inv_OnIncomingCall[OF inv, of e s number info w'] by (simp add: run_event_def)
next
  case (Stack_hold_confirm s)
  then show ?thesis using run inv inv_onHoldConfirm[OF inv, of _ e] known_lookup(1)[of s w]
    by (fastforce simp: run_event_def OnCallNotification_def known_def split: smref.splits)
next
  case (Stack_replaced oldid newid)
  then have "run_event e ev w \<noteq> Inr w'" using ok
    by (auto simp: run_event_def event_ok_def OnCallReplaced_def Let_def dict_add_def dict_contains_def map_of_dict_remove
        on_call_def call_simps split: option.splits smref.splits)
  then show ?thesis using run by simp
next
  case (Timer_elapsed a k)
  then show ?thesis using run ok inv_timer_Tick[OF inv, of a "e_config e" k] by (auto simp: run_event_def event_ok_def)
next
  case (Playback_ended s)
  then show ?thesis using run inv by (auto simp: run_event_def set_completed_def split: option.splits)
next
  case (Playback_stopped i)
  then show ?thesis using run inv by (auto simp: run_event_def set_completed_def)
qed (use run inv in \<open>auto simp: run_event_def onUserRelease_def onUserTransfer_def onUserDialDigit_def inv_act
      intro!: inv_onUserAnswer inv_onUserHoldRetrieve inv_onUserConference inv_on_call inv_endCall inv_other_ops known_lookup\<close>)

theorem call_run_inv: "call_run e w \<Longrightarrow> call_inv w"
proof (induction rule: call_run.induct)
  case (start now)
  then show ?case by (simp add: Initialize_def no_calls_def call_inv_def table_ok_def hist_def)
next
  case (step w ev w')
  then show ?case using inv_run_event by blast
qed

end
