(* ===== verification/Tam_Actions.thy ===== *)
theory Tam_Actions
  imports Tam_Trigger Call_Spec
begin

text \<open>
  The answering machine (\<^verbatim>\<open>Deveck.TAM/Actions\<close>, \<^verbatim>\<open>Deveck.TAM/Core/TAMCore.cs\<close>, \<^verbatim>\<open>Deveck.TAM/Sipek/SIPCall.cs\<close>,
  \<^verbatim>\<open>SIPIncomingCall.cs\<close>): the action packs of an account and the thread that works through them for a call.

  A thread is a program counter with what it has still to do; a step of a thread runs until the thread
  sleeps, waits, or has done one action. Between the steps of a thread come the steps of other threads
  and the events of call control. Exceptions of an action are caught in the code; the only one that can
  occur is of a delay that is less than -1. The conversion of an audio file, done by another library when the
  action is created, is a parameter.
\<close>

section \<open>Actions\<close>

datatype IAction = AcceptCallAction | DelayAction int | HangupAction | PlaywavAction string

record ActionPack =
  pack_name :: string
  pack_triggers :: "trigger list"
  pack_actions :: "IAction list"

definition new_PlaywavAction :: "(string \<Rightarrow> cs_exception option) \<Rightarrow> string \<Rightarrow> cs_exception + IAction" where
  "new_PlaywavAction convert file = (case convert file of Some x \<Rightarrow> Inl x | None \<Rightarrow> Inr (PlaywavAction file))"

fun pack_triggers_of :: "(string \<times> trigger) list \<Rightarrow> xml_node list \<Rightarrow> trigger list \<Rightarrow> cs_exception + trigger list" where
  "pack_triggers_of triggers [] ts = Inr ts"
| "pack_triggers_of triggers (n # ns) ts =
     bind_sum (FindTrigger (InnerText n) triggers) (\<lambda>t. pack_triggers_of triggers ns (ts @ [t]))"

fun pack_actions_of :: "(string \<Rightarrow> cs_exception option) \<Rightarrow> xml_node list \<Rightarrow> IAction list \<Rightarrow> cs_exception + IAction list" where
  "pack_actions_of convert [] as = Inr as"
| "pack_actions_of convert (Text s # ns) as = Inl InvalidCastException"
| "pack_actions_of convert (Element n cs # ns) as =
     (if n = ''playwav''
      then bind_sum (new_PlaywavAction convert (InnerText (Element n cs))) (\<lambda>a. pack_actions_of convert ns (as @ [a]))
      else if n = ''delay''
      then bind_sum (int_Parse (InnerText (Element n cs))) (\<lambda>d. pack_actions_of convert ns (as @ [DelayAction d]))
      else if n = ''hangup'' then pack_actions_of convert ns (as @ [HangupAction])
      else if n = ''accept'' then pack_actions_of convert ns (as @ [AcceptCallAction])
      else pack_actions_of convert ns as)"

fun load_packs :: "(string \<Rightarrow> cs_exception option) \<Rightarrow> (string \<times> trigger) list \<Rightarrow> xml_node list \<Rightarrow>
    (string \<times> ActionPack) list \<Rightarrow> cs_exception + (string \<times> ActionPack) list" where
  "load_packs convert triggers [] packs = Inr packs"
| "load_packs convert triggers (n # ns) packs =
     bind_sum (pack_triggers_of triggers (SelectNodes ''trigger'' n) []) (\<lambda>ts.
     bind_sum (pack_actions_of convert (child_nodes n) []) (\<lambda>as.
       case ReadString ''name'' n of
         None \<Rightarrow> Inl ArgumentException
       | Some name \<Rightarrow>
           bind_sum (dict_add length name \<lparr>pack_name = name, pack_triggers = ts, pack_actions = as\<rparr> packs)
             (load_packs convert triggers ns)))"

definition LoadActions :: "(string \<Rightarrow> cs_exception option) \<Rightarrow> (string \<times> trigger) list \<Rightarrow> xml_node \<Rightarrow>
    cs_exception + (string \<times> ActionPack) list" where
  "LoadActions convert triggers root = load_packs convert triggers (SelectNodes ''actions'' root) []"

definition FindActionPack :: "string \<Rightarrow> (string \<times> ActionPack) list \<Rightarrow> cs_exception + ActionPack" where
  "FindActionPack name packs = (case map_of packs name of None \<Rightarrow> Inl KeyNotFoundException | Some p \<Rightarrow> Inr p)"

fun account_packs :: "(string \<times> ActionPack) list \<Rightarrow> xml_node list \<Rightarrow> ActionPack list \<Rightarrow> cs_exception + ActionPack list" where
  "account_packs packs [] ps = Inr ps"
| "account_packs packs (n # ns) ps = bind_sum (FindActionPack (InnerText n) packs) (\<lambda>p. account_packs packs ns (ps @ [p]))"

definition ActionPacks :: "(string \<times> ActionPack) list \<Rightarrow> xml_node \<Rightarrow> cs_exception + ActionPack list" where
  "ActionPacks packs accountRoot = account_packs packs (SelectNodes ''actions'' accountRoot) []"

section \<open>Operations of a call\<close>

definition Hangup :: "configurator \<Rightarrow> nat \<Rightarrow> call_world \<Rightarrow> call_world" where
  "Hangup c i w =
     (let w = (if callState (w_sips w ! i) = Connected then onUserRelease c (sipekCallId (w_sips w ! i)) w else w)
      in set_completed i w)"

definition AcceptCall :: "nat \<Rightarrow> call_world \<Rightarrow> call_world" where
  "AcceptCall i w =
     (if callState (w_sips w ! i) = Ringing then onUserAnswer (sipekCallId (w_sips w ! i)) w else w)"

text \<open>\<open>PlayAudioFile\<close> up to the wait for the end of the playback.\<close>

definition playWavFile :: "nat \<Rightarrow> string \<Rightarrow> call_world \<Rightarrow> call_world" where
  "playWavFile i file w = act (Play_wav (sipekCallId (w_sips w ! i)) file) w"

section \<open>The thread of a call\<close>

text \<open>
  \<open>Queued\<close>: handed to the thread pool. \<open>Looping ps\<close>: at the condition of the loop, with the packs \<open>ps\<close> left.
  \<open>Acting as ps\<close>: in the loop of \<open>TriggeredExecution\<close>, with the actions \<open>as\<close> of the pack and the packs \<open>ps\<close> after
  it. \<open>Delaying t as ps\<close>, \<open>Playing as ps\<close>: in a delay until \<open>t\<close>, in the wait for the end of a playback.
  \<open>Sleeping t ps\<close>: in the sleep at the end of the loop. \<open>Forever\<close>: in a delay without end.
\<close>

datatype tam_pc = Queued | Looping "ActionPack list" | Acting "IAction list" "ActionPack list"
  | Delaying int "IAction list" "ActionPack list" | Playing "IAction list" "ActionPack list"
  | Sleeping int "ActionPack list" | Forever | Ended | Thrown cs_exception

definition call_over :: "nat \<Rightarrow> call_world \<Rightarrow> bool" where
  "call_over i w = (callState (w_sips w ! i) \<in> {Error, Disconnected, HangUp})"

definition execute :: "configurator \<Rightarrow> nat \<Rightarrow> IAction \<Rightarrow> IAction list \<Rightarrow> ActionPack list \<Rightarrow> call_world \<Rightarrow> tam_pc \<times> call_world" where
  "execute c i a as ps w =
     (case a of
        AcceptCallAction \<Rightarrow> (Acting as ps, AcceptCall i w)
      | DelayAction d \<Rightarrow>
          (if d = - 1 then (Forever, w)
           else if d < - 1 then (Acting as ps, w)
           else (Delaying (w_now w + d * ticks_per_ms) as ps, w))
      | HangupAction \<Rightarrow> (Acting as ps, Hangup c i w)
      | PlaywavAction file \<Rightarrow> (Playing as ps, playWavFile i (file @ ''.sampled'') w))"

definition triggered :: "ActionPack \<Rightarrow> nat \<Rightarrow> call_world \<Rightarrow> bool" where
  "triggered p i w = list_all (\<lambda>t. IsTriggered t (call_date (w_sips w ! i)) (w_now w)) (pack_triggers p)"

text \<open>A step of the thread of call \<open>i\<close>, \<open>None\<close> while the thread sleeps or waits and after its end.\<close>

definition tam_step :: "configurator \<Rightarrow> cs_exception + ActionPack list \<Rightarrow> nat \<Rightarrow> tam_pc \<Rightarrow> call_world \<Rightarrow> (tam_pc \<times> call_world) option" where
  "tam_step c packs i pc w =
     (case pc of
        Queued \<Rightarrow>
          (case packs of
             Inl x \<Rightarrow> Some (Thrown x, w)
           | Inr ps \<Rightarrow> Some (if ps = [] then (Ended, Hangup c i w) else (Looping ps, w)))
      | Looping ps \<Rightarrow>
          Some (if ps \<noteq> [] \<and> \<not> call_over i w
                then (if triggered (hd ps) i w then (Acting (pack_actions (hd ps)) (tl ps), w)
                      else (Sleeping (w_now w + 500 * ticks_per_ms) ps, w))
                else (Ended, if call_over i w then w else Hangup c i w))
      | Acting [] ps \<Rightarrow> Some (Sleeping (w_now w + 500 * ticks_per_ms) ps, w)
      | Acting (a # as) ps \<Rightarrow> Some (execute c i a as ps w)
      | Delaying t as ps \<Rightarrow> (if t \<le> w_now w then Some (Acting as ps, w) else None)
      | Playing as ps \<Rightarrow>
          (if playbackCompleted (w_sips w ! i)
           then Some (Acting as ps, upd_sip i (\<lambda>c. c\<lparr>playbackCompleted := False\<rparr>) w) else None)
      | Sleeping t ps \<Rightarrow> (if t \<le> w_now w then Some (Looping ps, w) else None)
      | Forever \<Rightarrow> None | Ended \<Rightarrow> None | Thrown x \<Rightarrow> None)"

section \<open>Runs of the answering machine\<close>

text \<open>
  Call control in the answering machine has no other user than the threads: the events from outside are
  those of the stack, of the timers and of the clock. A new call of the provider gets a thread. The
  accounts are the same for all calls, because the provider always takes the first one.
\<close>

definition outside :: "call_event \<Rightarrow> bool" where
  "outside ev = (case ev of
       Stack_state s st \<Rightarrow> True | Stack_incoming s number info \<Rightarrow> True | Stack_hold_confirm s \<Rightarrow> True
     | Stack_replaced x y \<Rightarrow> True | Timer_elapsed a k \<Rightarrow> True | Clock t \<Rightarrow> True | Playback_ended s \<Rightarrow> True | _ \<Rightarrow> False)"

definition new_threads :: "tam_pc list \<Rightarrow> call_world \<Rightarrow> tam_pc list" where
  "new_threads ths w = ths @ replicate (length (w_sips w) - length ths) Queued"

datatype tam_event = Outside call_event | Thread nat

definition tam_event_step :: "call_env \<Rightarrow> cs_exception + ActionPack list \<Rightarrow> tam_event \<Rightarrow> call_world \<times> tam_pc list \<Rightarrow>
    (call_world \<times> tam_pc list) option" where
  "tam_event_step e packs tv st =
     (case st of (w, ths) \<Rightarrow>
      (case tv of
         Outside ev \<Rightarrow>
           (if outside ev \<and> event_ok ev w
            then (case run_event e ev w of Inr w' \<Rightarrow> Some (w', new_threads ths w') | Inl x \<Rightarrow> None) else None)
       | Thread i \<Rightarrow>
           (if i < length ths
            then (case tam_step (e_config e) packs i (ths ! i) w of
                    Some (pc, w') \<Rightarrow> Some (w', ths[i := pc]) | None \<Rightarrow> None)
            else None)))"

inductive tam_run :: "call_env \<Rightarrow> cs_exception + ActionPack list \<Rightarrow> call_world \<times> tam_pc list \<Rightarrow> bool" for e packs where
  start: "tam_run e packs (snd (Initialize 0 (no_calls now)), [])"
| step: "tam_run e packs st \<Longrightarrow> tam_event_step e packs tv st = Some st' \<Longrightarrow> tam_run e packs st'"

end
