(* ===== verification/Call_Provider.thy ===== *)
theory Call_Provider
  imports Call_Spec
begin

text \<open>
  The calls of the provider against the state machines. The answering machine decides by the \<open>CallState\<close>
  of its \<open>SIPCall\<close> objects, which the listener of the call manager keeps up to date. Unless calls are
  answered automatically, every call in the list of the provider is in the table of the call manager
  and shows the state of its state machine, and every call that has left the list is \<open>Disconnected\<close>.
\<close>

definition shown :: "EStateId \<Rightarrow> CallState option" where
  "shown st = (case st of INCOMING \<Rightarrow> Some Ringing | ACTIVE \<Rightarrow> Some Connected | HOLDING \<Rightarrow> Some Connected
     | RELEASED \<Rightarrow> Some HangUp | TERMINATED \<Rightarrow> Some Disconnected | _ \<Rightarrow> None)"

text \<open>The call \<open>i\<close> of the provider has a state machine and shows its state.\<close>

definition linked :: "nat \<Rightarrow> call_world \<Rightarrow> bool" where
  "linked i w = (\<exists>a. (sipekCallId (w_sips w ! i), SM a) \<in> set (w_calls w) \<and>
     shown (sm_state (w_objs w ! a)) = Some (callState (w_sips w ! i)) \<and> \<not> disableStateNotifications (w_objs w ! a))"

text \<open>The list is in order but for the call with identification \<open>k\<close>.\<close>

definition prov_but :: "int set \<Rightarrow> call_world \<Rightarrow> bool" where
  "prov_but K w = (distinct (map (\<lambda>i. sipekCallId (w_sips w ! i)) (w_list w)) \<and> set (w_list w) \<subseteq> {..<length (w_sips w)} \<and>
     (\<forall>i\<in>set (w_list w). sipekCallId (w_sips w ! i) \<notin> K \<longrightarrow> linked i w) \<and>
     (\<forall>i<length (w_sips w). i \<notin> set (w_list w) \<longrightarrow> callState (w_sips w ! i) = Disconnected))"

abbreviation prov_ok :: "call_world \<Rightarrow> bool" where "prov_ok \<equiv> prov_but {}"

definition listed :: "int \<Rightarrow> call_world \<Rightarrow> bool" where
  "listed k w = (\<exists>i\<in>set (w_list w). sipekCallId (w_sips w ! i) = k)"

lemma FindCallById_cases:
  assumes "prov_but K w"
  obtains "FindCallById k w = None" "\<not> listed k w"
  | i where "FindCallById k w = Some i" "i \<in> set (w_list w)" "i < length (w_sips w)" "sipekCallId (w_sips w ! i) = k"
      "\<And>j. j \<in> set (w_list w) \<Longrightarrow> sipekCallId (w_sips w ! j) = k \<Longrightarrow> j = i"
proof (cases "FindCallById k w")
  case None
  then show thesis using that(1) by (auto simp: FindCallById_def find_None_iff listed_def)
next
  case (Some i)
  then have i: "i \<in> set (w_list w)" "sipekCallId (w_sips w ! i) = k"
    by (auto simp: FindCallById_def find_Some_iff)
  have inj: "inj_on (\<lambda>i. sipekCallId (w_sips w ! i)) (set (w_list w))" using assms by (simp add: prov_but_def distinct_map)
  have li: "i < length (w_sips w)" using i(1) assms by (auto simp: prov_but_def)
  show thesis
  proof (rule that(2)[OF Some i(1) li i(2)])
    fix j assume "j \<in> set (w_list w)" "sipekCallId (w_sips w ! j) = k"
    then show "j = i" using inj_onD[OF inj, of j i] i by simp
  qed
qed

text \<open>What the listener does, by the state that it finds.\<close>

lemma prov_set_state:
  assumes p: "prov_but {k} w" and i: "i \<in> set (w_list w)" "i < length (w_sips w)" "sipekCallId (w_sips w ! i) = k"
    and u: "\<And>j. j \<in> set (w_list w) \<Longrightarrow> sipekCallId (w_sips w ! j) = k \<Longrightarrow> j = i"
    and a: "(k, SM a) \<in> set (w_calls w)" "shown (sm_state (w_objs w ! a)) = Some s" "\<not> disableStateNotifications (w_objs w ! a)"
    and f: "\<And>c. sipekCallId (f c) = sipekCallId c" "callState (f (w_sips w ! i)) = s"
  shows "prov_ok (upd_sip i f w)"
proof -
  let ?w = "upd_sip i f w"
  have id: "sipekCallId (w_sips ?w ! j) = sipekCallId (w_sips w ! j)" for j
    using i(2) f(1) by (cases "j = i") (simp_all add: call_simps)
  have st: "j \<noteq> i \<Longrightarrow> w_sips ?w ! j = w_sips w ! j" for j by (simp add: call_simps)
  have "linked i ?w" unfolding linked_def id
    using a i f(2) by (intro exI[where x = a]) (simp add: call_simps)
  moreover have "linked j ?w" if "j \<in> set (w_list w)" "j \<noteq> i" for j
  proof -
    have "linked j w" using p that u by (auto simp: prov_but_def)
    then show ?thesis using that(2) by (simp add: linked_def st) (simp add: call_simps)
  qed
  ultimately have "\<forall>j\<in>set (w_list ?w). linked j ?w" by (auto simp: call_simps)
  moreover have "callState (w_sips ?w ! j) = Disconnected" if "j < length (w_sips w)" "j \<notin> set (w_list w)" for j
  proof -
    have "j \<noteq> i" using that i(1) by auto
    then show ?thesis using p that by (simp add: st prov_but_def)
  qed
  ultimately show ?thesis using p unfolding prov_but_def id by (simp add: call_simps)
qed

lemma prov_cong:
  assumes "w_sips w' = w_sips w" "w_list w' = w_list w" "w_calls w' = w_calls w"
    and "\<And>a. SM a \<in> snd ` set (w_calls w) \<Longrightarrow> sm_state (w_objs w' ! a) = sm_state (w_objs w ! a) \<and>
      disableStateNotifications (w_objs w' ! a) = disableStateNotifications (w_objs w ! a)"
  shows "prov_but K w' = prov_but K w"
proof -
  have same: "sm_state (w_objs w' ! a) = sm_state (w_objs w ! a) \<and>
      disableStateNotifications (w_objs w' ! a) = disableStateNotifications (w_objs w ! a)"
    if "(k, SM a) \<in> set (w_calls w)" for k a
    by (rule assms(4)) (use that in force)
  have "linked i w' = linked i w" for i
    unfolding linked_def assms(1,3) by (intro iff_exI conj_cong refl) (simp_all add: same)
  then show ?thesis by (simp add: prov_but_def assms(1,2))
qed

lemma prov_act [simp]: "prov_but K (act x w) = prov_but K w" "prov_but K (proxy r a w) = prov_but K w"
  by (rule prov_cong; simp add: call_simps)+

lemma prov_other [simp]: "prov_but K (w_pending_update f w) = prov_but K w" "prov_but K (w_now_update g w) = prov_but K w"
  by (simp_all add: prov_but_def linked_def)

lemma updateGui_unlisted: "prov_but K w \<Longrightarrow> \<not> listed k w \<Longrightarrow> updateGui k w = act (Refresh k) w"
  by (auto simp: updateGui_def onCallStateChanged_def FindCallById_def find_None_iff[THEN iffD2] listed_def call_simps)

lemma prov_unlisted: "prov_but {k} w \<Longrightarrow> \<not> listed k w \<Longrightarrow> prov_ok w"
  by (auto simp: prov_but_def listed_def)

lemma getCall_entry: "distinct (map fst (w_calls w)) \<Longrightarrow> (k, SM a) \<in> set (w_calls w) \<Longrightarrow> getCall k w = SM a"
  by (auto simp: getCall_def dict_contains_def)

lemma getCall_none: "\<not> dict_contains (w_calls w) k \<Longrightarrow> getCall k w = NullStateMachine"
  by (simp add: getCall_def)

lemma updateGui_shown:
  assumes p: "prov_but {k} w" and d: "distinct (map fst (w_calls w))" and a: "(k, SM a) \<in> set (w_calls w)"
    "shown (sm_state (w_objs w ! a)) \<noteq> None" "\<not> disableStateNotifications (w_objs w ! a)"
    and held: "sm_state (w_objs w ! a) = HOLDING \<Longrightarrow> \<forall>i\<in>set (w_list w). sipekCallId (w_sips w ! i) = k \<longrightarrow> callState (w_sips w ! i) = Connected"
  shows "prov_ok (updateGui k w)"
proof -
  let ?w = "act (Refresh k) w"
  have p': "prov_but {k} ?w" using p by simp
  have g: "StateId (getCall k ?w) ?w = sm_state (w_objs w ! a)"
    using d a(1) getCall_entry[of ?w k a] by (simp add: StateId_def sm_def call_simps)
  show ?thesis
  proof (rule FindCallById_cases[OF p', of k])
    assume "FindCallById k ?w = None" "\<not> listed k ?w"
    then show ?thesis using prov_unlisted[OF p'] by (simp add: updateGui_def onCallStateChanged_def)
  next
    fix i assume i: "FindCallById k ?w = Some i" "i \<in> set (w_list ?w)" "i < length (w_sips ?w)" "sipekCallId (w_sips ?w ! i) = k"
      "\<And>j. j \<in> set (w_list ?w) \<Longrightarrow> sipekCallId (w_sips ?w ! j) = k \<Longrightarrow> j = i"
    have set: "prov_ok (upd_sip i f ?w)"
      if "\<And>c. sipekCallId (f c) = sipekCallId c" "shown (sm_state (w_objs w ! a)) = Some (callState (f (w_sips ?w ! i)))" for f
      using that a by (intro prov_set_state[OF p' i(2-5), of a]) (simp_all add: call_simps)
    have two: "set_completed i (set_callState Disconnected i ?w)
        = upd_sip i (\<lambda>c. c\<lparr>callState := Disconnected, playbackCompleted := True\<rparr>) ?w"
      using i(3) by (simp add: set_completed_def set_callState_def upd_sip_def)
    have hold: "sm_state (w_objs w ! a) = HOLDING \<Longrightarrow> prov_ok (upd_sip i (\<lambda>c. c) ?w)"
      using held i(2,4) by (intro set) (auto simp: shown_def call_simps)
    have one: "shown (sm_state (w_objs w ! a)) = Some s \<Longrightarrow> prov_ok (set_callState s i ?w)" for s
      unfolding set_callState_def by (rule set) simp_all
    have ended: "shown (sm_state (w_objs w ! a)) = Some Disconnected \<Longrightarrow> prov_ok (set_completed i (set_callState Disconnected i ?w))"
      unfolding two by (rule set) simp_all
    have same: "upd_sip i (\<lambda>c. c) ?w = ?w" by (simp add: upd_sip_def)
    show ?thesis
      unfolding updateGui_def onCallStateChanged_def i(1) option.case g
      using a(2) one ended hold unfolding same by (cases "sm_state (w_objs w ! a)") (simp_all add: shown_def)
  qed
qed

lemma prov_but_id:
  assumes p: "prov_but {k} w" and i: "i \<in> set (w_list w)" "i < length (w_sips w)" "sipekCallId (w_sips w ! i) = k"
    and f: "\<And>c. sipekCallId (f c) = sipekCallId c"
  shows "prov_but {k} (upd_sip i f w)"
proof -
  let ?w = "upd_sip i f w"
  have id: "sipekCallId (w_sips ?w ! j) = sipekCallId (w_sips w ! j)" for j
    using i(2) f by (cases "j = i") (simp_all add: call_simps)
  have st: "j \<noteq> i \<Longrightarrow> w_sips ?w ! j = w_sips w ! j" for j by (simp add: call_simps)
  have "linked j ?w" if "j \<in> set (w_list w)" "sipekCallId (w_sips w ! j) \<noteq> k" for j
  proof -
    have "j \<noteq> i" "linked j w" using p that i(3) by (auto simp: prov_but_def)
    then show ?thesis by (simp add: linked_def st) (simp add: call_simps)
  qed
  moreover have "callState (w_sips ?w ! j) = Disconnected" if "j < length (w_sips w)" "j \<notin> set (w_list w)" for j
  proof -
    have "j \<noteq> i" using that i(1) by auto
    then show ?thesis using p that by (simp add: st prov_but_def)
  qed
  ultimately show ?thesis using p unfolding prov_but_def id by (simp add: call_simps)
qed

lemma updateGui_idle:
  assumes p: "prov_but {k} w" and d: "distinct (map fst (w_calls w))" and a: "(k, SM a) \<in> set (w_calls w)"
    "sm_state (w_objs w ! a) = IDLE"
  shows "prov_but {k} (updateGui k w)"
proof -
  let ?w = "act (Refresh k) w"
  have p': "prov_but {k} ?w" using p by simp
  have g: "StateId (getCall k ?w) ?w = IDLE"
    using d a getCall_entry[of ?w k a] by (simp add: StateId_def sm_def call_simps)
  show ?thesis
  proof (rule FindCallById_cases[OF p', of k])
    assume "FindCallById k ?w = None"
    then show ?thesis using p' by (simp add: updateGui_def onCallStateChanged_def)
  next
    fix i assume i: "FindCallById k ?w = Some i" "i \<in> set (w_list ?w)" "i < length (w_sips ?w)" "sipekCallId (w_sips ?w ! i) = k"
    have "set_completed i (set_callState Disconnected i ?w)
        = upd_sip i (\<lambda>c. c\<lparr>callState := Disconnected, playbackCompleted := True\<rparr>) ?w"
      using i(3) by (simp add: set_completed_def set_callState_def upd_sip_def)
    moreover have "prov_but {k} (upd_sip i (\<lambda>c. c\<lparr>callState := Disconnected, playbackCompleted := True\<rparr>) ?w)"
      by (rule prov_but_id[OF p' i(2-4)]) simp
    ultimately show ?thesis by (simp add: updateGui_def onCallStateChanged_def i(1) g)
  qed
qed

lemma prov_removed:
  assumes v: "prov_but {k} v" and dl: "distinct (w_list v)" and gone: "callState (w_sips v ! i) = Disconnected"
    and ids: "\<And>j. sipekCallId (w_sips v ! j) = k \<Longrightarrow> j \<in> set (w_list v) \<Longrightarrow> j = i"
  shows "prov_ok (v\<lparr>w_list := remove1 i (w_list v)\<rparr>)"
proof -
  let ?id = "\<lambda>i. sipekCallId (w_sips v ! i)"
  have sub: "set (remove1 i (w_list v)) = set (w_list v) - {i}" using dl by simp
  have v': "distinct (map ?id (w_list v))" "set (w_list v) \<subseteq> {..<length (w_sips v)}"
    "\<And>j. j \<in> set (w_list v) \<Longrightarrow> ?id j \<noteq> k \<Longrightarrow> linked j v"
    "\<And>j. j < length (w_sips v) \<Longrightarrow> j \<notin> set (w_list v) \<Longrightarrow> callState (w_sips v ! j) = Disconnected"
    using v by (simp_all add: prov_but_def)
  have "distinct (map ?id (remove1 i (w_list v)))" using v'(1) by (simp add: distinct_map inj_on_def)
  moreover have "linked j (v\<lparr>w_list := remove1 i (w_list v)\<rparr>)" if "j \<in> set (w_list v)" "j \<noteq> i" for j
    using v'(3)[OF that(1)] ids that by (auto simp: linked_def)
  moreover have "callState (w_sips v ! j) = Disconnected" if "j < length (w_sips v)" "j \<notin> set (w_list v) \<or> j = i" for j
    using v'(4) gone that by auto
  moreover have "set (w_list v) - {i} \<subseteq> {..<length (w_sips v)}" using v'(2) by blast
  ultimately show ?thesis by (simp add: prov_but_def sub)
qed

lemma updateGui_gone:
  assumes p: "prov_but {k} w" and k: "\<not> dict_contains (w_calls w) k"
  shows "prov_ok (updateGui k w)"
proof -
  let ?w = "act (Refresh k) w"
  have p': "prov_but {k} ?w" using p by simp
  have g: "StateId (getCall k ?w) ?w = NULL" using k getCall_none[of ?w k] by (simp add: StateId_def call_simps)
  show ?thesis
  proof (rule FindCallById_cases[OF p', of k])
    assume "FindCallById k ?w = None" "\<not> listed k ?w"
    then show ?thesis using prov_unlisted[OF p'] by (simp add: updateGui_def onCallStateChanged_def)
  next
    fix i assume i: "FindCallById k ?w = Some i" "i \<in> set (w_list ?w)" "i < length (w_sips ?w)" "sipekCallId (w_sips ?w ! i) = k"
      "\<And>j. j \<in> set (w_list ?w) \<Longrightarrow> sipekCallId (w_sips ?w ! j) = k \<Longrightarrow> j = i"
    let ?v = "set_callState Disconnected i ?w"
    have v: "prov_but {k} ?v" unfolding set_callState_def by (rule prov_but_id[OF p' i(2-4)]) simp
    have dl: "distinct (w_list ?v)" using v by (simp add: prov_but_def distinct_map)
    have gone: "callState (w_sips ?v ! i) = Disconnected" using i(3) by (simp add: set_callState_def call_simps)
    have ids: "j = i" if j: "sipekCallId (w_sips ?v ! j) = k" "j \<in> set (w_list ?v)" for j
    proof (rule ccontr)
      assume ne: "j \<noteq> i"
      then have "w_sips ?v ! j = w_sips ?w ! j" by (simp add: set_callState_def upd_sip_def)
      then have "sipekCallId (w_sips ?w ! j) = k" using j(1) by simp
      moreover have "j \<in> set (w_list ?w)" using j(2) by (simp add: set_callState_def upd_sip_def)
      ultimately show False using i(5) ne by blast
    qed
    have "prov_ok (?v\<lparr>w_list := remove1 i (w_list ?v)\<rparr>)" by (rule prov_removed[OF v dl gone ids])
    then show ?thesis by (simp add: updateGui_def onCallStateChanged_def i(1) g Let_def)
  qed
qed

section \<open>The operations keep the provider in step\<close>

lemma table_distinct: "call_inv w \<Longrightarrow> distinct (map fst (w_calls w))"
  by (simp add: call_inv_def table_ok_def)

lemma same_session: "call_inv w \<Longrightarrow> in_tab a w \<Longrightarrow> (session (w_objs w ! a), SM b) \<in> set (w_calls w) \<Longrightarrow> b = a"
  using map_of_is_SomeI[OF table_distinct] inv_in_tab(1) by (metis option.inject smref.inject)

lemma listed_linked:
  assumes p: "prov_ok w" and inv: "call_inv w" and a: "in_tab a w"
    and i: "i \<in> set (w_list w)" "sipekCallId (w_sips w ! i) = session (w_objs w ! a)"
  shows "shown (sm_state (w_objs w ! a)) = Some (callState (w_sips w ! i))" and "\<not> disableStateNotifications (w_objs w ! a)"
proof -
  have "linked i w" using p i(1) by (simp add: prov_but_def)
  then obtain b where b: "(sipekCallId (w_sips w ! i), SM b) \<in> set (w_calls w)"
    "shown (sm_state (w_objs w ! b)) = Some (callState (w_sips w ! i))" "\<not> disableStateNotifications (w_objs w ! b)"
    by (auto simp: linked_def)
  then have "b = a" using same_session[OF inv a] i(2) by simp
  then show "shown (sm_state (w_objs w ! a)) = Some (callState (w_sips w ! i))" "\<not> disableStateNotifications (w_objs w ! a)"
    using b by simp_all
qed

lemma prov_touch:
  assumes p: "prov_ok w" and inv: "call_inv w" and a: "in_tab a w"
    and w1: "w_objs w1 = (w_objs w)[a := m']" "w_calls w1 = w_calls w" "w_sips w1 = w_sips w" "w_list w1 = w_list w"
  shows "prov_but {session (w_objs w ! a)} w1"
proof -
  have "linked i w1" if "i \<in> set (w_list w)" "sipekCallId (w_sips w ! i) \<noteq> session (w_objs w ! a)" for i
  proof -
    have "linked i w" using p that(1) by (simp add: prov_but_def)
    then obtain b where b: "(sipekCallId (w_sips w ! i), SM b) \<in> set (w_calls w)"
      "shown (sm_state (w_objs w ! b)) = Some (callState (w_sips w ! i))" "\<not> disableStateNotifications (w_objs w ! b)"
      by (auto simp: linked_def)
    then have "session (w_objs w ! b) = sipekCallId (w_sips w ! i)" using inv_entry[OF inv b(1)] by (metis smref.inject)
    then have "b \<noteq> a" using that(2) by auto
    then show ?thesis using b by (auto simp: linked_def w1)
  qed
  then show ?thesis using p by (simp add: prov_but_def w1)
qed

text \<open>A change of the state, before the listener is informed.\<close>

definition enter :: "configurator \<Rightarrow> EStateId \<Rightarrow> nat \<Rightarrow> call_world \<Rightarrow> call_world" where
  "enter c st a w =
     (let w = upd_sm a (\<lambda>m. m\<lparr>sm_state := st\<rparr>) (onExit a w) in
      case st of CONNECTING \<Rightarrow> CConnectingState_onEntry a w | ALERTING \<Rightarrow> CAlertingState_onEntry a w
      | ACTIVE \<Rightarrow> CActiveState_onEntry a w | RELEASED \<Rightarrow> CReleasedState_onEntry a w
      | TERMINATED \<Rightarrow> CTerminatedState_onEntry a w | INCOMING \<Rightarrow> CIncomingState_onEntry c a w | _ \<Rightarrow> w)"

lemma changeState_enter: "st \<noteq> NULL \<Longrightarrow> changeState c st a w = inform a (enter c st a w)"
  by (cases st) (simp_all add: changeState_def change_to_def enter_def no_entry_def Let_def)

lemma enter_fields:
  assumes "a < length (w_objs w)" and "st \<noteq> NULL" and "st \<noteq> INCOMING"
  shows "w_objs (enter c st a w) = (w_objs w)[a := entered st (left (w_objs w ! a))]"
    and "w_calls (enter c st a w) = w_calls w" and "w_sips (enter c st a w) = w_sips w" and "w_list (enter c st a w) = w_list w"
  using assms by (cases st; simp add: enter_def entry_defs entered_def call_simps Let_def)+

lemma prov_inform:
  assumes p: "prov_ok w" and inv: "call_inv w" and a: "in_tab a w"
    and w1: "w_objs w1 = (w_objs w)[a := m']" "w_calls w1 = w_calls w" "w_sips w1 = w_sips w" "w_list w1 = w_list w"
    and m': "session m' = session (w_objs w ! a)" "disableStateNotifications m' = disableStateNotifications (w_objs w ! a)"
      "shown (sm_state (w_objs w ! a)) \<noteq> None \<Longrightarrow> shown (sm_state m') \<noteq> None"
      "sm_state m' = HOLDING \<Longrightarrow> shown (sm_state (w_objs w ! a)) = Some Connected"
  shows "prov_ok (inform a w1)"
proof -
  let ?k = "session (w_objs w ! a)"
  have la: "a < length (w_objs w)" using inv a by (rule inv_bound)
  have p1: "prov_but {?k} w1" using p inv a w1 by (rule prov_touch)
  have k: "?k \<noteq> - 1" "(?k, SM a) \<in> set (w_calls w1)" using inv_in_tab[OF inv a] by (simp_all add: w1)
  have m: "w_objs w1 ! a = m'" using la by (simp add: w1)
  show ?thesis
  proof (cases "listed ?k w")
    case False
    then have u: "\<not> listed ?k w1" by (simp add: listed_def w1)
    then have "prov_ok w1" using p1 by (intro prov_unlisted)
    then show ?thesis using updateGui_unlisted[OF p1 u] m m'(1) by (simp add: inform_def sm_def)
  next
    case True
    then obtain i where i: "i \<in> set (w_list w)" "sipekCallId (w_sips w ! i) = ?k" by (auto simp: listed_def)
    note l = listed_linked[OF p inv a]
    have "prov_ok (updateGui ?k w1)"
      using p1 _ k(2)
    proof (rule updateGui_shown)
      show "distinct (map fst (w_calls w1))" using inv by (simp add: w1 table_distinct)
      show "shown (sm_state (w_objs w1 ! a)) \<noteq> None" using l(1)[OF i] m'(3) by (simp add: m)
      show "\<not> disableStateNotifications (w_objs w1 ! a)" using l(2)[OF i] m'(2) by (simp add: m)
      show "\<forall>j\<in>set (w_list w1). sipekCallId (w_sips w1 ! j) = ?k \<longrightarrow> callState (w_sips w1 ! j) = Connected"
        if "sm_state (w_objs w1 ! a) = HOLDING"
      proof -
        have "shown (sm_state (w_objs w ! a)) = Some Connected" using that m'(4) unfolding m by simp
        then show ?thesis using l(1) by (simp add: w1)
      qed
    qed
    then show ?thesis using k(1) l(2)[OF i] m m' by (simp add: inform_def sm_def)
  qed
qed

lemma prov_change:
  assumes p: "prov_ok w" and inv: "call_inv w" and a: "in_tab a w"
    and st: "st \<in> {ACTIVE, RELEASED, TERMINATED} \<or> st = HOLDING \<and> sm_state (w_objs w ! a) = ACTIVE \<or>
      st = ALERTING \<and> sm_state (w_objs w ! a) = CONNECTING"
  shows "prov_ok (changeState c st a w)"
proof -
  have la: "a < length (w_objs w)" using inv a by (rule inv_bound)
  have ne: "st \<noteq> NULL" "st \<noteq> INCOMING" using st by auto
  show ?thesis unfolding changeState_enter[OF ne(1)]
    by (rule prov_inform[OF p inv a enter_fields[OF la ne]]) (use st in \<open>auto simp: shown_def\<close>)
qed

lemma destroy_inner:
  assumes "a < length (w_objs w)"
  shows "\<exists>w1 m1. destroy a w = destroySession (session (w_objs w ! a)) (inform a w1) \<and>
    w_objs w1 = (w_objs w)[a := m1] \<and> w_calls w1 = w_calls w \<and> w_sips w1 = w_sips w \<and> w_list w1 = w_list w \<and>
    session m1 = session (w_objs w ! a) \<and> sm_state m1 = IDLE \<and>
    disableStateNotifications m1 = disableStateNotifications (w_objs w ! a)"
proof -
  let ?w0 = "act Stop_tone (stopAllTimers a w)"
  let ?w1 = "add_to_log a (if counting (sm ?w0 a) then upd_sm a (\<lambda>m. m\<lparr>duration := w_now ?w0 - timestamp m\<rparr>) ?w0 else ?w0)"
  let ?w2 = "upd_sm a (\<lambda>m. m\<lparr>sm_state := IDLE\<rparr>) (onExit a (upd_sm a (\<lambda>m. m\<lparr>callingNumber := '''', incoming := False\<rparr>) ?w1))"
  have w2: "w_objs ?w2 = (w_objs w)[a := w_objs ?w2 ! a]" "w_calls ?w2 = w_calls w" "w_sips ?w2 = w_sips w" "w_list ?w2 = w_list w"
    "session (w_objs ?w2 ! a) = session (w_objs w ! a)" "sm_state (w_objs ?w2 ! a) = IDLE"
    "disableStateNotifications (w_objs ?w2 ! a) = disableStateNotifications (w_objs w ! a)"
    using assms by (simp_all add: call_simps)
  have "destroy a w = destroySession (session (w_objs ?w2 ! a)) (inform a ?w2)"
    by (simp add: destroy_def change_to_def no_entry_def Let_def sm_def call_simps)
  then show ?thesis using w2 by (intro exI[where x = ?w2] exI[where x = "w_objs ?w2 ! a"]) simp
qed

lemma prov_destroy:
  assumes p: "prov_ok w" and inv: "call_inv w" and a: "in_tab a w"
  shows "prov_ok (destroy a w)"
proof -
  let ?m = "w_objs w ! a"
  let ?k = "session ?m"
  have la: "a < length (w_objs w)" using inv a by (rule inv_bound)
  obtain w1 m1 where eq: "destroy a w = destroySession ?k (inform a w1)"
    and w1: "w_objs w1 = (w_objs w)[a := m1]" "w_calls w1 = w_calls w" "w_sips w1 = w_sips w" "w_list w1 = w_list w"
    and m1: "session m1 = ?k" "sm_state m1 = IDLE" "disableStateNotifications m1 = disableStateNotifications ?m"
    using destroy_inner[OF la] by blast
  have p1: "prov_but {?k} w1" using p inv a w1 by (rule prov_touch)
  have m: "w_objs w1 ! a = m1" using la by (simp add: w1)
  have d: "distinct (map fst (w_calls w1))" using inv by (simp add: w1 table_distinct)
  have k: "?k \<noteq> - 1" "(?k, SM a) \<in> set (w_calls w1)" using inv_in_tab[OF inv a] by (simp_all add: w1)
  let ?v = "inform a w1"
  have p2: "prov_but {?k} ?v"
    using updateGui_idle[OF p1 d k(2)] p1 m m1 by (simp add: inform_def sm_def)
  have calls: "w_calls ?v = w_calls w1" "w_objs ?v = w_objs w1" by (simp_all add: call_simps)
  have g: "getCall ?k ?v = SM a" using getCall_entry[of ?v ?k a] d k(2) by (simp add: calls)
  have gone: "\<not> dict_contains (dict_remove ?k (w_calls ?v)) ?k" by (auto simp: dict_contains_set)
  let ?r = "?v\<lparr>w_calls := dict_remove ?k (w_calls ?v)\<rparr>"
  have p3: "prov_but {?k} ?r" using p2 by (auto simp: prov_but_def linked_def)
  show ?thesis
  proof (cases "disableStateNotifications ?m")
    case True
    then have "\<not> listed ?k w" using listed_linked(2)[OF p inv a] by (auto simp: listed_def)
    then have "\<not> listed ?k ?r" using True m m1 by (simp add: listed_def inform_def sm_def w1)
    then have "prov_ok ?r" using p3 by (intro prov_unlisted)
    then show ?thesis using True m m1 by (simp add: eq destroySession_def g sm_def calls)
  next
    case False
    have "prov_ok (updateGui ?k ?r)" by (rule updateGui_gone[OF p3]) (use gone in simp)
    then show ?thesis using False m m1 by (simp add: eq destroySession_def g sm_def calls)
  qed
qed

lemma prov_upd:
  assumes "\<And>m. sm_state (f m) = sm_state m" and "\<And>m. disableStateNotifications (f m) = disableStateNotifications m"
  shows "prov_but K (upd_sm a f w) = prov_but K w"
proof (rule prov_cong)
  fix b
  have "w_objs (upd_sm a f w) ! b = w_objs w ! b \<or> w_objs (upd_sm a f w) ! b = f (w_objs w ! b)"
    by (cases "a < length (w_objs w)"; cases "a = b") (simp_all add: call_simps list_update_beyond)
  then show "sm_state (w_objs (upd_sm a f w) ! b) = sm_state (w_objs w ! b) \<and>
      disableStateNotifications (w_objs (upd_sm a f w) ! b) = disableStateNotifications (w_objs w ! b)"
    using assms by auto
qed (simp_all add: call_simps)

text \<open>The whole invariant.\<close>

definition sys :: "call_world \<Rightarrow> bool" where "sys w = (call_inv w \<and> prov_ok w)"

lemma sys_end_by_user:
  assumes "sys w" and a: "in_tab a w" and "sm_state (w_objs w ! a) \<noteq> IDLE"
  shows "sys (end_by_user c a w)"
  using assms inv_end_by_user[of w a c] prov_change[of w a TERMINATED c] by (simp add: sys_def end_by_user_def)

lemma sys_destroy: "sys w \<Longrightarrow> in_tab a w \<Longrightarrow> sys (destroy a w)"
  by (simp add: sys_def inv_destroy prov_destroy)

lemma sys_endCall:
  assumes s: "sys w" and a: "in_tab a w"
  shows "sys (State_endCall c a w)"
proof -
  have inv: "call_inv w" and p: "prov_ok w" using s by (simp_all add: sys_def)
  have la: "a < length (w_objs w)" using inv a by (rule inv_bound)
  let ?x = "proxy P_endCall a w" and ?d = "upd_sm a (\<lambda>m. m\<lparr>duration := w_now w - timestamp m\<rparr>) w"
  have x: "call_inv ?x" "prov_ok ?x" "in_tab a ?x" "w_objs ?x = w_objs w"
    using inv p la a by (simp_all add: inv_proxy in_tab_def call_simps)
  have d: "call_inv ?d" "prov_ok ?d" "in_tab a ?d" "sm_state (w_objs ?d ! a) = sm_state (w_objs w ! a)"
    using inv p la a by (simp_all add: inv_upd alike_def in_tab_def call_simps prov_upd)
  have "prov_ok (State_endCall c a w)"
    using prov_change[OF p inv a, of TERMINATED c] prov_change[OF d(2,1,3), of TERMINATED c]
      prov_change[OF x(2,1,3), of TERMINATED c] prov_destroy[OF p inv a] prov_destroy[OF x(2,1,3)] p x(2)
    unfolding State_endCall_def sm_def CIdleState_endCall_def CActiveState_endCall_def
    by (cases "sm_state (w_objs w ! a)") (simp_all add: end_by_user_def)
  then show ?thesis using inv_endCall[OF inv a] by (simp add: sys_def)
qed

lemma sys_stack_ops:
  assumes s: "sys w" and a: "in_tab a w"
  shows "sys (State_onAlerting c a w)" and "sys (State_onConnect c a w)" and "sys (State_onReleased c a w)"
proof -
  have inv: "call_inv w" and p: "prov_ok w" using s by (simp_all add: sys_def)
  have la: "a < length (w_objs w)" using inv a by (rule inv_bound)
  let ?t = "upd_sm a (\<lambda>m. m\<lparr>timestamp := w_now w\<rparr>) w"
  have t: "call_inv ?t" "prov_ok ?t" "in_tab a ?t"
    using inv p la a by (simp_all add: inv_upd alike_def in_tab_def call_simps prov_upd)
  have "prov_ok (State_onAlerting c a w)"
    using prov_change[OF p inv a, of ALERTING c] p unfolding State_onAlerting_def sm_def
    by (cases "sm_state (w_objs w ! a)") simp_all
  then show "sys (State_onAlerting c a w)" using inv_onAlerting[OF inv a] by (simp add: sys_def)
  have "prov_ok (State_onConnect c a w)"
    using prov_change[OF p inv a, of ACTIVE c] prov_change[OF t(2,1,3), of ACTIVE c] p unfolding State_onConnect_def sm_def
    by (cases "sm_state (w_objs w ! a)") simp_all
  then show "sys (State_onConnect c a w)" using inv_onConnect[OF inv a] by (simp add: sys_def)
  have "prov_ok (State_onReleased c a w)"
    using prov_change[OF p inv a, of RELEASED c] prov_destroy[OF p inv a] p unfolding State_onReleased_def sm_def
    by (cases "sm_state (w_objs w ! a)") simp_all
  then show "sys (State_onReleased c a w)" using inv_onReleased[OF inv a] by (simp add: sys_def)
qed

lemma sys_accept:
  assumes s: "sys w" and a: "in_tab a w"
  shows "sys (State_acceptCall a w)"
proof -
  have inv: "call_inv w" and p: "prov_ok w" using s by (simp_all add: sys_def)
  have la: "a < length (w_objs w)" using inv a by (rule inv_bound)
  let ?m = "(w_objs w ! a)\<lparr>callType := EReceived, timestamp := w_now w\<rparr>"
  let ?w = "proxy P_acceptCall a (upd_sm a (\<lambda>m. m\<lparr>callType := EReceived, timestamp := w_now w\<rparr>) w)"
  let ?e = "enter undefined ACTIVE a ?w"
  have lw: "a < length (w_objs ?w)" using la by (simp add: call_simps)
  have e: "w_objs ?e = (w_objs w)[a := entered ACTIVE (left ?m)]" "w_calls ?e = w_calls w" "w_sips ?e = w_sips w" "w_list ?e = w_list w"
    using enter_fields[OF lw, of ACTIVE] la by (simp_all add: call_simps)
  have "prov_ok (inform a ?e)" by (rule prov_inform[OF p inv a e]) (simp_all add: shown_def)
  moreover have "CIncomingState_acceptCall a w = inform a ?e"
    using changeState_enter[of ACTIVE undefined a ?w] by (simp add: CIncomingState_acceptCall_def Let_def call_simps)
  ultimately have "prov_ok (State_acceptCall a w)" using p by (simp add: State_acceptCall_def)
  then show ?thesis using inv_acceptCall[OF inv a] by (simp add: sys_def)
qed

lemma sys_user_ops:
  assumes s: "sys w" and a: "in_tab a w"
  shows "sys (State_holdCall a w)" and "sys (State_retrieveCall c a w)" and "sys (State_xferCall number a w)"
    and "sys (State_dialDtmf digits a w)" and "sys (State_conferenceCall a w)"
proof -
  have inv: "call_inv w" and p: "prov_ok w" using s by (simp_all add: sys_def)
  have la: "a < length (w_objs w)" using inv a by (rule inv_bound)
  have "prov_ok (State_holdCall a w)" using p by (simp add: State_holdCall_def prov_upd)
  then show "sys (State_holdCall a w)" using inv_holdCall[OF inv a] by (simp add: sys_def)
  let ?r = "proxy P_retrieveCall a (upd_sm a (\<lambda>m. m\<lparr>retrieveRequested := True\<rparr>) w)"
  have "call_inv (upd_sm a (\<lambda>m. m\<lparr>retrieveRequested := True\<rparr>) w)" using inv la by (simp add: inv_upd alike_def)
  then have r: "call_inv ?r" "prov_ok ?r" "in_tab a ?r"
    using p la a by (simp_all add: inv_proxy in_tab_def call_simps prov_upd)
  have "prov_ok (State_retrieveCall c a w)"
    using prov_change[OF r(2,1,3), of ACTIVE c] p by (simp add: State_retrieveCall_def)
  then show "sys (State_retrieveCall c a w)" using inv_retrieveCall[OF inv a] by (simp add: sys_def)
  show "sys (State_xferCall number a w)" "sys (State_dialDtmf digits a w)" "sys (State_conferenceCall a w)"
    using p inv_other_ops[OF inv a]
    by (simp_all add: sys_def State_xferCall_def State_dialDtmf_def State_conferenceCall_def split: EStateId.split)
qed

text \<open>A new call is not in the list of the provider.\<close>

lemma idle_unlisted:
  assumes "prov_ok w" and "call_inv w" and "in_tab a w" and "sm_state (w_objs w ! a) = IDLE"
  shows "\<not> listed (session (w_objs w ! a)) w"
  using listed_linked(1)[OF assms(1-3)] assms(4) by (auto simp: listed_def shown_def)

lemma ringing_more [simp]:
  "disableStateNotifications (ringing c number display m) = disableStateNotifications m"
  by (simp add: ringing_def Let_def)

lemma sys_refused:
  assumes s: "sys w" and a: "in_tab a w" and idle: "sm_state (w_objs w ! a) = IDLE" and r: "plain r"
  shows "sys (CIdleState_endCall a (proxy r a (upd_sm a (\<lambda>m. m\<lparr>disableStateNotifications := True\<rparr>) w)))"
proof -
  let ?u = "upd_sm a (\<lambda>m. m\<lparr>disableStateNotifications := True\<rparr>) w"
  have inv: "call_inv w" and p: "prov_ok w" using s by (simp_all add: sys_def)
  have la: "a < length (w_objs w)" using inv a by (rule inv_bound)
  have "prov_but {session (w_objs w ! a)} ?u" by (rule prov_touch[OF p inv a]) (simp_all add: call_simps)
  moreover have "\<not> listed (session (w_objs w ! a)) ?u"
    using idle_unlisted[OF p inv a idle] by (simp add: listed_def call_simps)
  ultimately have "prov_ok ?u" by (rule prov_unlisted)
  moreover have "call_inv ?u" using inv la by (rule inv_upd) (simp add: alike_def)
  ultimately have "sys (proxy r a ?u)" "in_tab a (proxy r a ?u)"
    using la a r by (simp_all add: sys_def inv_proxy in_tab_def call_simps)
  then have "sys (destroy a (proxy r a ?u))" by (rule sys_destroy)
  then show ?thesis using la unfolding CIdleState_endCall_def by (simp add: sys_def inv_proxy call_simps)
qed

lemma sys_ringing:
  assumes s: "sys w" and a: "in_tab a w" and idle: "sm_state (w_objs w ! a) = IDLE" and aa: "\<not> AAFlag c"
    and w': "w' = changeState c INCOMING a (upd_sm a (\<lambda>m. m\<lparr>callingNumber := number, callingName := display\<rparr>) w)"
  shows "sys w'" and "\<not> listed (session (w_objs w ! a)) w'" and "w_calls w' = w_calls w"
    and "w_objs w' = (w_objs w)[a := ringing c number display (w_objs w ! a)]"
proof -
  have inv: "call_inv w" and p: "prov_ok w" using s by (simp_all add: sys_def)
  have la: "a < length (w_objs w)" using inv a by (rule inv_bound)
  let ?b = "before_answer c number display a w" and ?k = "session (w_objs w ! a)"
  note b = before_answer_fields[OF la, where c = c and number = number and display = display]
  have eq: "w' = inform a ?b" using aa la idle unfolding w' by (simp add: incoming_eq)
  have "prov_ok (inform a ?b)"
    by (rule prov_inform[OF p inv a b(1,2,4,5)]) (simp_all add: idle shown_def)
  moreover have "call_inv w'" using inv_ringing[OF inv a idle] w' by simp
  ultimately show "sys w'" by (simp add: sys_def eq)
  have u: "\<not> listed ?k ?b" using idle_unlisted[OF p inv a idle] by (simp add: listed_def b)
  have "prov_but {?k} ?b" using p inv a b(1,2,4,5) by (rule prov_touch)
  then have "inform a ?b = ?b \<or> inform a ?b = act (Refresh ?k) ?b"
    using updateGui_unlisted[OF _ u] la by (auto simp: inform_def sm_def b)
  then show "\<not> listed ?k w'" using u by (auto simp: eq listed_def call_simps)
qed (use inv_bound[of w a] s a idle aa w' in \<open>simp_all add: sys_def incoming_eq before_answer_fields call_simps\<close>)

lemma prov_new_call:
  assumes v: "prov_ok v" and new: "\<not> listed k v" and a: "(k, SM a) \<in> set (w_calls v)" "sm_state (w_objs v ! a) = INCOMING"
    "\<not> disableStateNotifications (w_objs v ! a)"
  shows "prov_ok (v\<lparr>w_sips := w_sips v @ [new_SIPCall k number now], w_list := w_list v @ [length (w_sips v)]\<rparr>)"
    (is "prov_ok ?u")
proof -
  let ?n = "length (w_sips v)"
  have v': "distinct (map (\<lambda>i. sipekCallId (w_sips v ! i)) (w_list v))" "set (w_list v) \<subseteq> {..<?n}"
    "\<And>i. i \<in> set (w_list v) \<Longrightarrow> linked i v"
    "\<And>i. i < ?n \<Longrightarrow> i \<notin> set (w_list v) \<Longrightarrow> callState (w_sips v ! i) = Disconnected"
    using v by (simp_all add: prov_but_def)
  have old: "w_sips ?u ! i = w_sips v ! i" if "i \<in> set (w_list v)" for i using v'(2) that by (auto simp: nth_append)
  have id: "map (\<lambda>i. sipekCallId (w_sips ?u ! i)) (w_list ?u) = map (\<lambda>i. sipekCallId (w_sips v ! i)) (w_list v) @ [k]"
    using old by (simp add: new_SIPCall_def)
  have "distinct (map (\<lambda>i. sipekCallId (w_sips ?u ! i)) (w_list ?u))"
    unfolding id using v'(1) new by (auto simp: listed_def)
  moreover have "linked ?n ?u" using a by (auto simp: linked_def new_SIPCall_def shown_def)
  moreover have "linked i ?u" if "i \<in> set (w_list v)" for i
    using v'(3)[OF that] old[OF that] by (simp add: linked_def)
  moreover have "callState (w_sips ?u ! i) = Disconnected" if "i < Suc ?n" "i \<noteq> ?n" "i \<notin> set (w_list v)" for i
    using that v'(4) by (simp add: nth_append)
  ultimately show ?thesis using v'(2) by (auto simp: prov_but_def)
qed

lemma sys_OnIncomingCall:
  assumes s: "sys w" and aa: "\<not> AAFlag (e_config e)" and ok: "StateId (getCall k w) w \<in> {NULL, IDLE}"
    and run: "OnIncomingCall e k number info w = Inr w'"
  shows "sys w'"
proof (cases "getCall k w")
  case NullStateMachine
  then show ?thesis using s run by (simp add: OnIncomingCall_def)
next
  case (SM a)
  let ?c = "e_config e"
  have inv: "call_inv w" and p: "prov_ok w" using s by (simp_all add: sys_def)
  have a: "in_tab a w" using known_lookup(1)[of k w] by (simp add: known_def SM)
  have "(k, SM a) \<in> set (w_calls w)" using SM map_of_SomeD[of "w_calls w" k] by (auto simp: getCall_def dict_contains_def split: if_splits)
  then have k: "session (w_objs w ! a) = k" using inv_entry[OF inv] by (metis smref.inject)
  have idle: "sm_state (w_objs w ! a) = IDLE"
    using ok inv_mach[OF inv a] by (auto simp: SM StateId_def sm_def mach_ok_def)
  let ?w1 = "CIdleState_incomingCall ?c number info a w"
  have inc: "State_incomingCall ?c number info a w = ?w1" using idle by (simp add: State_incomingCall_def sm_def)
  show ?thesis
  proof (cases "CFUFlag ?c \<and> length (CFUNumber ?c) > 0 \<or> DNDFlag ?c")
    case True
    then have "sys ?w1" "disableStateNotifications (w_objs ?w1 ! a)"
      using sys_refused[OF s a idle] inv_bound[OF inv a]
      by (auto simp: CIdleState_incomingCall_def CIdleState_endCall_def call_simps destroyed_def)
    then show ?thesis using run by (simp add: OnIncomingCall_def SM inc sm_def)
  next
    case False
    let ?w2 = "changeState ?c INCOMING a (upd_sm a (\<lambda>m. m\<lparr>callingNumber := number, callingName := info\<rparr>) w)"
    have w1: "?w1 = ?w2" using False by (auto simp: CIdleState_incomingCall_def)
    note r = sys_ringing[OF s a idle aa refl, where number = number and display = info]
    let ?v = "act (Incoming_notification k number info) ?w2"
    have v: "call_inv ?v" "prov_ok ?v" using r(1) by (simp_all add: sys_def inv_act)
    show ?thesis
    proof (cases "disableStateNotifications (w_objs ?w2 ! a)")
      case True
      then show ?thesis using run r(1) by (simp add: OnIncomingCall_def SM inc w1 sm_def)
    next
      case False
      let ?u = "?v\<lparr>w_sips := w_sips ?v @ [new_SIPCall k number (w_now ?v)], w_list := w_list ?v @ [length (w_sips ?v)]\<rparr>"
      have u: "w' = ?u"
        using run False by (simp add: OnIncomingCall_def SM inc w1 sm_def IncomingCallNotification_def Let_def split: if_splits)
      have "prov_ok ?u"
        using v(2)
      proof (rule prov_new_call)
        show "\<not> listed k ?v" using r(2) k by (simp add: listed_def call_simps)
        show "(k, SM a) \<in> set (w_calls ?v)" using inv_in_tab(1)[OF inv a] k r(3) by (simp add: call_simps)
        show "sm_state (w_objs ?v ! a) = INCOMING" using r(4) inv_bound[OF inv a] by (simp add: call_simps)
        show "\<not> disableStateNotifications (w_objs ?v ! a)" using False by (simp add: call_simps)
      qed
      then show ?thesis using v(1) by (simp add: u sys_def)
    qed
  qed
qed

section \<open>Events\<close>

lemma sys_timer_Tick:
  assumes s: "sys w" and la: "a < length (w_objs w)"
  shows "sys (timer_Tick c k a w)"
proof -
  have inv: "call_inv w" and p: "prov_ok w" using s by (simp_all add: sys_def)
  have tab: "sm_state (w_objs w ! a) \<notin> {IDLE, CONNECTING} \<Longrightarrow> in_tab a w" using inv la by (rule not_stray)
  have "prov_ok (timer_Tick c k a w)"
  proof (cases k)
    case ENOREPLY
    then show ?thesis using p by (simp add: timer_Tick_def State_noReplyTimerExpired_def prov_upd)
  next
    case ERELEASED
    show ?thesis
    proof (cases "sm_state (w_objs w ! a) \<in> {RELEASED, TERMINATED}")
      case True
      then show ?thesis using prov_destroy[OF p inv tab] la
        by (auto simp: ERELEASED timer_Tick_def State_releasedTimerExpired_eq change_ignores_timer call_simps sm_def)
    next
      case False
      then show ?thesis using p la
        by (simp add: ERELEASED timer_Tick_def State_releasedTimerExpired_eq call_simps sm_def prov_upd)
    qed
  next
    case ENORESPONSE
    show ?thesis
    proof (cases "sm_state (w_objs w ! a) = INCOMING")
      case True
      then have "sys (end_by_user c a w)" using s tab by (intro sys_end_by_user) simp_all
      then show ?thesis using True la
        by (simp add: ENORESPONSE timer_Tick_def State_noResponseTimerExpired_def end_ignores_timer call_simps sm_def sys_def)
    next
      case False
      then show ?thesis using p la
        by (simp add: ENORESPONSE timer_Tick_def State_noResponseTimerExpired_def call_simps sm_def prov_upd)
    qed
  qed
  then show ?thesis using inv_timer_Tick[OF inv la] by (simp add: sys_def)
qed

lemma sys_on_call: "sys w \<Longrightarrow> known r w \<Longrightarrow> (\<And>a. in_tab a w \<Longrightarrow> sys (f a w)) \<Longrightarrow> sys (on_call r f w)"
  by (cases r) (simp_all add: on_call_def known_def)

lemma sys_pending [simp]: "sys (w_pending_update f w) = sys w"
  by (simp add: sys_def)

lemma sys_onUserAnswer: "sys w \<Longrightarrow> sys (onUserAnswer s w)"
  using known_enum[of _ ACTIVE w]
  by (auto simp: onUserAnswer_def intro!: sys_on_call sys_user_ops sys_accept known_lookup split: list.split)

lemma sys_onUserHoldRetrieve: "sys w \<Longrightarrow> sys (onUserHoldRetrieve c s w)"
  using known_enum[of _ ACTIVE w] enum_nonempty[of ACTIVE w]
  by (auto simp: onUserHoldRetrieve_def intro!: sys_on_call sys_user_ops known_lookup)

lemma sys_onUserConference: "sys w \<Longrightarrow> sys (onUserConference c w)"
  by (auto simp: onUserConference_def Let_def sys_def[of w]
      intro!: sys_on_call sys_user_ops known_getCallInState known_on_retrieve)

text \<open>New state machines and new entries of the table.\<close>

lemma prov_new_object:
  assumes p: "prov_ok w" and inv: "call_inv w"
  shows "prov_ok (w\<lparr>w_objs := w_objs w @ [m]\<rparr>)"
proof -
  have "a < length (w_objs w)" if "SM a \<in> snd ` set (w_calls w)" for a
    using inv_bound[OF inv, of a] that by (simp add: in_tab_def)
  then show ?thesis using p prov_cong[of "w\<lparr>w_objs := w_objs w @ [m]\<rparr>" w "{}"] by (simp add: nth_append)
qed

lemma prov_stray:
  assumes p: "prov_ok w" and a: "\<not> in_tab a w"
    and w': "w_objs w' = (w_objs w)[a := m]" "w_calls w' = w_calls w" "w_sips w' = w_sips w" "w_list w' = w_list w"
  shows "prov_ok w'"
proof -
  have "w_objs w' ! b = w_objs w ! b" if "SM b \<in> snd ` set (w_calls w)" for b
    using a that by (cases "b = a") (simp_all add: in_tab_def w')
  then have "prov_ok w' = prov_ok w" by (intro prov_cong w') simp
  then show ?thesis using p by simp
qed

lemma prov_insert:
  assumes "prov_ok w" and "dict_add slot k r (w_calls w) = Inr d"
  shows "prov_ok (w\<lparr>w_calls := d\<rparr>)"
proof -
  have "set d = insert (k, r) (set (w_calls w))"
    using assms(2) set_insert_at[of "slot (w_calls w)" "w_calls w" "(k, r)"]
    by (simp add: dict_add_def split: if_splits del: set_append)
  then have "linked i w \<Longrightarrow> linked i (w\<lparr>w_calls := d\<rparr>)" for i by (auto simp: linked_def)
  then show ?thesis using assms(1) by (simp add: prov_but_def)
qed

lemma prov_made_call:
  assumes p: "prov_ok w" and la: "a < length (w_objs w)" and tab: "\<not> in_tab a w"
    and m: "sm_state (w_objs w ! a) = IDLE" "session (w_objs w ! a) = - 1"
    and made: "State_makeCall e number acc a w = (s, w')"
  shows "prov_ok w'"
proof -
  let ?m = "(w_objs w ! a)\<lparr>callingNumber := number\<rparr>"
  let ?u = "upd_sm a (\<lambda>m. m\<lparr>callingNumber := number\<rparr>) w"
  let ?m' = "(entered CONNECTING (left ?m))\<lparr>session := s, proxySession := s\<rparr>"
  have lu: "a < length (w_objs ?u)" using la by (simp add: call_simps)
  have c: "changeState (e_config e) CONNECTING a ?u = enter (e_config e) CONNECTING a ?u"
    using enter_fields(1)[OF lu, of CONNECTING] la m(2) by (simp add: changeState_enter inform_def sm_def call_simps)
  have w': "w' = set_Session s a (proxy (P_makeCall number acc) a (enter (e_config e) CONNECTING a ?u))"
    using made m(1) by (clarsimp simp: State_makeCall_def CIdleState_makeCall_def sm_def Let_def c)
  let ?e = "enter (e_config e) CONNECTING a ?u"
  have e: "w_objs ?e = (w_objs w)[a := entered CONNECTING (left ?m)]" "w_calls ?e = w_calls w" "w_sips ?e = w_sips w" "w_list ?e = w_list w"
    using enter_fields[OF lu, of CONNECTING "e_config e"] la by (simp_all add: upd_sm_fields)
  have "w_objs w' = (w_objs w)[a := ?m']" "w_calls w' = w_calls w" "w_sips w' = w_sips w" "w_list w' = w_list w"
    unfolding w' using la by (simp_all add: set_Session_fields proxy_fields e)
  then show ?thesis by (rule prov_stray[OF p tab])
qed

lemma sys_createOutboundCall:
  assumes s: "sys w" and run: "createOutboundCall e number acc w = Inr (r, w')"
  shows "sys w'"
proof -
  have inv: "call_inv w" and p: "prov_ok w" using s by (simp_all add: sys_def)
  let ?a = "length (w_objs w)" and ?w = "w\<lparr>w_objs := w_objs w @ [new_CStateMachine (w_now w)]\<rparr>"
  have new: "call_inv ?w" "\<not> in_tab ?a ?w" "prov_ok ?w"
    using inv_create[OF inv new_mach_ok] prov_new_object[OF p inv] by simp_all
  obtain k w1 where made: "State_makeCall e number acc ?a ?w = (k, w1)" by (cases "State_makeCall e number acc ?a ?w")
  have "hist ?a ?w = []" using inv by (simp add: call_inv_def call_simps)
  then have m: "call_inv w1" "\<not> in_tab ?a w1" "length (w_objs w1) = Suc ?a" "w_calls w1 = w_calls w"
    "session (w_objs w1 ! ?a) = k" "proxySession (w_objs w1 ! ?a) = k" "mach_ok True (w_objs w1 ! ?a) (hist ?a w1)"
    using made_call[OF new(1) _ new(2) _ _ _ made] by (simp_all add: new_CStateMachine_def)
  have p1: "prov_ok w1" by (rule prov_made_call[OF new(3) _ new(2) _ _ made]) (simp_all add: new_CStateMachine_def)
  have eq: "set_Session k ?a w1 = w1" using m by (intro set_Session_same) simp_all
  have added: "prov_ok w2" if add: "add_call e k ?a w1 = Inr w2" for w2
  proof (cases "dict_add (e_slot e) k (SM ?a) (w_calls w1)")
    case (Inr d)
    then have "w2 = w1\<lparr>w_calls := d\<rparr>" using add by (simp add: add_call_def)
    then show ?thesis using prov_insert[OF p1 Inr] by simp
  next
    case (Inl x)
    then have "dict_contains (w_calls w1) k" by (simp add: dict_add_def split: if_splits)
    then obtain q where q: "map_of (w_calls w1) k = Some q" by (auto simp: dict_contains_def)
    then have "sys (on_call q destroy w1)" using m(1) p1 known_map_of[of w1 k q] by (intro sys_on_call sys_destroy) (simp_all add: sys_def)
    then show ?thesis using add prov_insert[of "on_call q destroy w1"]
      by (auto simp: add_call_def Inl q sys_def Let_def split: sum.splits)
  qed
  have hold: "sys (on_call (getCallInState ACTIVE (w\<lparr>w_pending := x\<rparr>)) State_holdCall (w\<lparr>w_pending := x\<rparr>))" for x
    using s by (intro sys_on_call sys_user_ops known_getCallInState) simp_all
  have "prov_ok w'"
    using run p p1 added hold eq
    by (auto simp: createOutboundCall_def createStateMachine_eq made Let_def sys_def split: if_splits sum.splits)
  then show ?thesis using run inv_createOutboundCall[OF inv, of e number acc] by (auto simp: sys_def)
qed

lemma sys_Activate:
  assumes s: "sys w" and run: "Activate e q w = Inr w'"
  shows "sys w'"
  using run s sys_createOutboundCall[OF s, of e]
  by (cases q) (auto simp: Activate_def sys_onUserAnswer sys_onUserHoldRetrieve split: sum.splits)

lemma sys_onHoldConfirm:
  assumes s: "sys w" and a: "in_tab a w" and run: "State_onHoldConfirm e a w = Inr w'"
  shows "sys w'"
proof -
  have inv: "call_inv w" and p: "prov_ok w" using s by (simp_all add: sys_def)
  let ?h = "changeState (e_config e) HOLDING a w"
  have h: "sys ?h" if "sm_state (w_objs w ! a) = ACTIVE"
    using that inv_change(1)[OF inv a, of HOLDING] prov_change[OF p inv a, of HOLDING] by (simp add: sys_def)
  have "sys v" if "sm_state (w_objs w ! a) = ACTIVE" "activatePendingAction e ?h = Inr v" for v
    using h[OF that(1)] that(2) sys_Activate[of ?h e]
    by (auto simp: activatePendingAction_def split: option.splits sum.splits)
  moreover have "sys v \<Longrightarrow> sys (upd_sm a (\<lambda>m. m\<lparr>holdRequested := False\<rparr>) v)" for v
    using inv_upd_any[of v "\<lambda>m. m\<lparr>holdRequested := False\<rparr>" a] by (simp add: sys_def alike_def prov_upd)
  ultimately show ?thesis using run s
    by (auto simp: State_onHoldConfirm_def sm_def split: if_splits sum.splits)
qed

lemma sys_OnCallStateChanged:
  assumes s: "sys w" and k: "st = SESSION_STATE_INCOMING \<Longrightarrow> k \<noteq> - 1" and run: "OnCallStateChanged e k st w = Inr w'"
  shows "sys w'"
proof -
  have inv: "call_inv w" and p: "prov_ok w" using s by (simp_all add: sys_def)
  have "prov_ok w'"
  proof (cases "st = SESSION_STATE_INCOMING")
    case True
    let ?a = "length (w_objs w)" and ?w = "w\<lparr>w_objs := w_objs w @ [new_CStateMachine (w_now w)]\<rparr>"
    let ?w' = "set_Session k ?a ?w"
    have new: "call_inv ?w" "\<not> in_tab ?a ?w" "prov_ok ?w"
      using inv_create[OF inv new_mach_ok] prov_new_object[OF p inv] by simp_all
    have p': "prov_ok ?w'" by (rule prov_stray[OF new(3,2)]) (simp_all add: call_simps)
    show ?thesis
    proof (cases "dict_contains (w_calls w) k")
      case c: True
      then obtain r where r: "map_of (w_calls w) k = Some r" by (auto simp: dict_contains_def)
      have ok: "mach_ok False ((new_CStateMachine (w_now w))\<lparr>session := k, proxySession := k\<rparr>) []"
        by (simp add: new_CStateMachine_def mach_ok_def timed_out_def typed_def recorded_def kind_of_def)
      have h: "hist ?a ?w = []" using inv by (simp add: call_inv_def call_simps)
      have "call_inv ?w'" using new(2) h ok
        by (intro inv_touch[OF new(1), where a = ?a and m' = "(new_CStateMachine (w_now w))\<lparr>session := k, proxySession := k\<rparr>"])
           (simp_all add: call_simps)
      then have "sys (on_call r (State_endCall (e_config e)) ?w')"
        using p' known_map_of[of ?w' k r] r by (intro sys_on_call sys_endCall) (simp_all add: sys_def call_simps)
      then show ?thesis using run c r
        by (simp add: OnCallStateChanged_def True createStateMachine_eq Let_def sys_def call_simps)
    next
      case False
      have "dict_add (e_slot e) k (SM ?a) (w_calls ?w') = Inr d \<Longrightarrow> prov_ok (?w'\<lparr>w_calls := d\<rparr>)" for d
        using p' by (rule prov_insert)
      then show ?thesis using run False
        by (auto simp: OnCallStateChanged_def True createStateMachine_eq Let_def dict_add_fresh call_simps)
    qed
  next
    case False
    then have "sys w'" using s run
      by (auto simp: OnCallStateChanged_def Let_def intro!: sys_on_call known_lookup sys_stack_ops split: ESessionState.splits)
    then show ?thesis by (simp add: sys_def)
  qed
  then show ?thesis using inv_OnCallStateChanged[OF inv, of st k e] k run by (auto simp: sys_def)
qed

lemma prov_playback:
  assumes "\<And>c. sipekCallId (f c) = sipekCallId c" and "\<And>c. callState (f c) = callState c"
  shows "prov_ok (upd_sip i f w) = prov_ok w"
proof (cases "i < length (w_sips w)")
  case False
  then show ?thesis by (simp add: upd_sip_def list_update_beyond)
next
  case True
  have "sipekCallId (w_sips (upd_sip i f w) ! j) = sipekCallId (w_sips w ! j)"
    and "callState (w_sips (upd_sip i f w) ! j) = callState (w_sips w ! j)" for j
    using True assms by (cases "j = i"; simp add: call_simps)+
  then show ?thesis by (simp add: prov_but_def linked_def) (simp add: call_simps)
qed

theorem sys_run_event:
  assumes s: "sys w" and aa: "\<not> AAFlag (e_config e)" and ok: "event_ok ev w" and run: "run_event e ev w = Inr w'"
  shows "sys w'"
proof -
  have inv: "call_inv w" and p: "prov_ok w" using s by (simp_all add: sys_def)
  have inv': "call_inv w'" using inv ok run by (rule inv_run_event)
  show ?thesis
  proof (cases ev)
    case (User_call number acc)
    then show ?thesis using run sys_createOutboundCall[OF s, of e number acc]
      by (cases "createOutboundCall e number acc w") (auto simp: run_event_def)
  next
    case (Stack_state k st)
    then show ?thesis using run ok sys_OnCallStateChanged[OF s, of st k e w'] by (simp add: run_event_def event_ok_def)
  next
    case (Stack_incoming k number info)
    then show ?thesis using run ok sys_OnIncomingCall[OF s aa, of k number info w'] by (simp add: run_event_def event_ok_def)
  next
    case (Stack_hold_confirm k)
    then show ?thesis using run s sys_onHoldConfirm[OF s, of _ e w'] known_lookup(1)[of k w]
      by (auto simp: run_event_def OnCallNotification_def known_def split: smref.splits)
  next
    case (Stack_replaced oldid newid)
    then have "run_event e ev w \<noteq> Inr w'" using ok
      by (auto simp: run_event_def event_ok_def OnCallReplaced_def Let_def dict_add_def dict_contains_def map_of_dict_remove
          on_call_def call_simps split: option.splits smref.splits)
    then show ?thesis using run by simp
  next
    case (Timer_elapsed a k)
    then show ?thesis using run ok sys_timer_Tick[OF s, of a "e_config e" k] by (auto simp: run_event_def event_ok_def)
  next
    case (Playback_ended k)
    then show ?thesis using run s p inv'
      by (auto simp: run_event_def set_completed_def prov_playback sys_def split: option.splits)
  next
    case (Playback_awaited i)
    then show ?thesis using run p inv' by (auto simp: run_event_def prov_playback sys_def)
  next
    case (Playback_stopped i)
    then show ?thesis using run p inv' by (auto simp: run_event_def set_completed_def prov_playback sys_def)
  qed (use run s inv' p in \<open>auto simp: run_event_def onUserRelease_def onUserTransfer_def onUserDialDigit_def sys_def[of "act _ _"] sys_def[of "w_now_update _ _"]
      intro!: sys_onUserAnswer sys_onUserHoldRetrieve sys_onUserConference sys_on_call sys_endCall sys_user_ops known_lookup\<close>)
qed

theorem call_run_sys: "call_run e w \<Longrightarrow> \<not> AAFlag (e_config e) \<Longrightarrow> sys w"
proof (induction rule: call_run.induct)
  case (start now)
  then show ?case by (simp add: Initialize_def no_calls_def sys_def call_inv_def table_ok_def hist_def prov_but_def)
next
  case (step w ev w')
  then show ?case using sys_run_event by blast
qed

end
