(* ===== verification/Call_Props.thy ===== *)
theory Call_Props
  imports Call_Provider
begin

text \<open>
  The properties of call control: the call table and its state machines are well formed in every run,
  the call log tells what happened to each call, ended and unanswered calls go away by themselves, and
  the provider of the answering machine shows the state of its calls. Three properties are of
  behaviour that the code does not mean: redirection without its flag, the replacement of a call, and
  calls that are answered automatically.
\<close>

section \<open>Runs by computation\<close>

fun run_events :: "call_env \<Rightarrow> call_event list \<Rightarrow> call_world \<Rightarrow> call_world option" where
  "run_events e [] w = Some w"
| "run_events e (ev # evs) w =
     (if event_ok ev w then (case run_event e ev w of Inr w' \<Rightarrow> run_events e evs w' | Inl _ \<Rightarrow> None) else None)"

lemma run_events_call_run: "call_run e w \<Longrightarrow> run_events e evs w = Some w' \<Longrightarrow> call_run e w'"
proof (induction evs arbitrary: w)
  case (Cons ev evs)
  then show ?case by (auto split: if_splits sum.splits intro: call_run.step)
qed simp

definition ex_config :: configurator where
  "ex_config = \<lparr>CFUFlag = False, CFUNumber = '''', CFNRFlag = False, CFNRNumber = '''', DNDFlag = False, AAFlag = False,
     CFBFlag = False, CFBNumber = ''''\<rparr>"

definition ex_env :: call_env where
  "ex_env = \<lparr>e_config = ex_config, e_makeCall = (\<lambda>w number acc. 7), e_slot = length, e_accounts = 1\<rparr>"

definition ex_start :: call_world where "ex_start = snd (Initialize 0 (no_calls 0))"

lemma ex_start_run: "call_run e ex_start"
  unfolding ex_start_def by (rule call_run.start)

section \<open>The table\<close>

text \<open>
  C30: In every state that call control reaches, the call table has no session twice, and each entry is
  an existing state machine whose session and whose proxy's session are the key, in a state other than
  \<open>NULL\<close>; the state machines outside the table are \<open>IDLE\<close> or \<open>CONNECTING\<close> (a call that the stack
  refused), where no timer has an effect.
\<close>

theorem call_table_well_formed:
  assumes "call_run e w"
  shows "distinct (map fst (w_calls w)) \<and>
    (\<forall>s r. (s, r) \<in> set (w_calls w) \<longrightarrow>
       (\<exists>a. r = SM a \<and> a < length (w_objs w) \<and> session (w_objs w ! a) = s \<and> proxySession (w_objs w ! a) = s \<and>
            sm_state (w_objs w ! a) \<noteq> NULL)) \<and>
    (\<forall>a < length (w_objs w). SM a \<notin> snd ` set (w_calls w) \<longrightarrow>
       sm_state (w_objs w ! a) \<in> {IDLE, CONNECTING} \<and>
       (\<forall>c k. w_acts (timer_Tick c k a w) = w_acts w \<and> sm_state (w_objs (timer_Tick c k a w) ! a) = sm_state (w_objs w ! a)))"
proof (intro conjI allI impI)
  have inv: "call_inv w" using assms by (rule call_run_inv)
  show "distinct (map fst (w_calls w))" using inv by (rule table_distinct)
  show "\<exists>a. r = SM a \<and> a < length (w_objs w) \<and> session (w_objs w ! a) = s \<and> proxySession (w_objs w ! a) = s \<and>
      sm_state (w_objs w ! a) \<noteq> NULL" if "(s, r) \<in> set (w_calls w)" for s r
    using inv_entry[OF inv that] inv_mach[OF inv] by (metis mach_ok_def)
  fix a assume a: "a < length (w_objs w)" "SM a \<notin> snd ` set (w_calls w)"
  then show st: "sm_state (w_objs w ! a) \<in> {IDLE, CONNECTING}" using inv by (simp add: call_inv_def mach_ok_def in_tab_def)
  show "w_acts (timer_Tick c k a w) = w_acts w" "sm_state (w_objs (timer_Tick c k a w) ! a) = sm_state (w_objs w ! a)" for c k
    using st a(1) by (cases k; auto simp: timer_Tick_def State_noReplyTimerExpired_def State_releasedTimerExpired_eq
        State_noResponseTimerExpired_def call_simps sm_def)+
qed

theorem call_table_well_formed_witness:
  "distinct (map fst (w_calls (the (run_events ex_env [User_call ''12'' 0, Stack_state 7 SESSION_STATE_EARLY] ex_start))))"
proof -
  have "run_events ex_env [User_call ''12'' 0, Stack_state 7 SESSION_STATE_EARLY] ex_start
      = Some (the (run_events ex_env [User_call ''12'' 0, Stack_state 7 SESSION_STATE_EARLY] ex_start))"
    by code_simp
  from call_table_well_formed[OF run_events_call_run[OF ex_start_run this]] show ?thesis by blast
qed

section \<open>The call log\<close>

text \<open>
  C4: In every run, a state machine makes at most one entry of the call log, and none while it is in the
  table; one that has rung and left the table has made exactly one. The type of the entry is what
  happened to the call: \<open>EReceived\<close> if and only if it was accepted, \<open>EMissed\<close> if and only if it rang and
  was not, and \<open>EDialed\<close> only if it was dialled.
\<close>

theorem call_log_is_truthful:
  assumes "call_run e w" and "a < length (w_objs w)"
  shows "length (filter is_entry (hist a w)) \<le> 1 \<and>
    (SM a \<in> snd ` set (w_calls w) \<longrightarrow> filter is_entry (hist a w) = []) \<and>
    (alerted (hist a w) \<and> SM a \<notin> snd ` set (w_calls w) \<longrightarrow> length (filter is_entry (hist a w)) = 1) \<and>
    (\<forall>t number name time dur. Add_call a t number name time dur \<in> set (w_acts w) \<longrightarrow>
       (t = EReceived \<longleftrightarrow> accepted (hist a w)) \<and> (t = EMissed \<longleftrightarrow> alerted (hist a w) \<and> \<not> accepted (hist a w)) \<and>
       (t = EDialed \<longrightarrow> dialled (hist a w)))"
proof -
  have inv: "call_inv w" using assms(1) by (rule call_run_inv)
  then have "mach_ok (in_tab a w) (w_objs w ! a) (hist a w)" using assms(2) by (simp add: call_inv_def)
  then have r: "recorded (in_tab a w) (hist a w)" and t: "accepted (hist a w) \<longrightarrow> alerted (hist a w)"
    by (simp_all add: mach_ok_def typed_def)
  have "(t = EReceived \<longleftrightarrow> accepted (hist a w)) \<and> (t = EMissed \<longleftrightarrow> alerted (hist a w) \<and> \<not> accepted (hist a w)) \<and>
      (t = EDialed \<longrightarrow> dialled (hist a w))" if "Add_call a t number name time dur \<in> set (w_acts w)" for t number name time dur
  proof -
    have "Add_call a t number name time dur \<in> set (hist a w)" using that by (simp add: hist_def)
    then have "t = kind_of (hist a w)" "kind_of (hist a w) = EDialed \<longrightarrow> dialled (hist a w)"
      using r by (fastforce simp: recorded_def)+
    then show ?thesis using t by (auto simp: kind_of_def)
  qed
  then show ?thesis using r by (auto simp: recorded_def entries_def in_tab_def)
qed

definition ex_missed :: "call_event list" where
  "ex_missed = [Stack_state 3 SESSION_STATE_INCOMING, Stack_incoming 3 ''55'' '''', Stack_state 3 SESSION_STATE_DISCONNECTED,
     Timer_elapsed 0 ERELEASED]"

theorem call_log_is_truthful_witness:
  "length (filter is_entry (hist 0 (the (run_events ex_env ex_missed ex_start)))) = 1 \<and>
   entry_type (hd (filter is_entry (hist 0 (the (run_events ex_env ex_missed ex_start))))) = EMissed"
proof -
  let ?w = "the (run_events ex_env ex_missed ex_start)"
  have run: "run_events ex_env ex_missed ex_start = Some ?w" and "0 < length (w_objs ?w)" by code_simp+
  from call_log_is_truthful[OF run_events_call_run[OF ex_start_run run] this(2)]
  have "alerted (hist 0 ?w) \<and> SM 0 \<notin> snd ` set (w_calls ?w) \<longrightarrow> length (filter is_entry (hist 0 ?w)) = 1" by blast
  moreover have "Proxy 0 3 P_alerted \<in> set (hist 0 ?w)" "SM 0 \<notin> snd ` set (w_calls ?w)"
    "entry_type (hd (filter is_entry (hist 0 ?w))) = EMissed" by code_simp+
  ultimately show ?thesis unfolding alerted_def by blast
qed

section \<open>The end of a call\<close>

text \<open>
  C9: No call stays in the table for ever after its end, and no call rings for ever. In every reachable
  state, the release timer of a call in state \<open>RELEASED\<close> or \<open>TERMINATED\<close> runs, and when it elapses the call
  leaves the table and, unless calls are answered automatically, the list of the provider; the timer for
  no response of a ringing call runs, and when it elapses the call is ended by the user side.
\<close>

theorem ended_calls_go_away:
  assumes run: "call_run e w" and a: "(s, SM a) \<in> set (w_calls w)"
  shows "(sm_state (w_objs w ! a) \<in> {RELEASED, TERMINATED} \<longrightarrow>
      (\<exists>w'. event_ok (Timer_elapsed a ERELEASED) w \<and> run_event e (Timer_elapsed a ERELEASED) w = Inr w' \<and>
         \<not> dict_contains (w_calls w') s \<and> sm_state (w_objs w' ! a) = IDLE \<and>
         (\<not> AAFlag (e_config e) \<longrightarrow> FindCallById s w' = None))) \<and>
    (sm_state (w_objs w ! a) = INCOMING \<longrightarrow>
      (\<exists>w'. event_ok (Timer_elapsed a ENORESPONSE) w \<and> run_event e (Timer_elapsed a ENORESPONSE) w = Inr w' \<and>
         sm_state (w_objs w' ! a) = TERMINATED \<and> Proxy a s P_endCall \<in> set (w_acts w')))"
proof -
  have inv: "call_inv w" using run by (rule call_run_inv)
  obtain b where b: "SM a = SM b" "b < length (w_objs w)" "session (w_objs w ! b) = s" "proxySession (w_objs w ! b) = s" "in_tab b w"
    by (rule inv_entry[OF inv a]) blast
  then have la: "a < length (w_objs w)" and k: "session (w_objs w ! a) = s" "proxySession (w_objs w ! a) = s" and tab: "in_tab a w"
    by simp_all
  have "mach_ok True (w_objs w ! a) (hist a w)" using inv tab by (rule inv_mach)
  then have timers: "sm_state (w_objs w ! a) \<in> {RELEASED, TERMINATED} \<Longrightarrow> timer_enabled (releasedTimer (w_objs w ! a))"
    "sm_state (w_objs w ! a) = INCOMING \<Longrightarrow> timer_enabled (noresponseTimer (w_objs w ! a))"
    by (auto simp: mach_ok_def timed_out_def)
  have released: "timer_Tick (e_config e) ERELEASED a w = destroy a w" if "sm_state (w_objs w ! a) \<in> {RELEASED, TERMINATED}"
    using that la by (auto simp: timer_Tick_def State_releasedTimerExpired_eq change_ignores_timer call_simps sm_def)
  have gone: "\<not> dict_contains (w_calls (destroy a w)) s" using la k by (auto simp: call_simps dict_contains_set)
  have unlisted: "FindCallById s (destroy a w) = None" if "\<not> AAFlag (e_config e)"
  proof -
    have "prov_ok (destroy a w)" using call_run_sys[OF run that] tab by (simp add: sys_def prov_destroy)
    then show ?thesis using gone by (auto simp: FindCallById_def find_None_iff prov_but_def linked_def dict_contains_set) force
  qed
  have ringing: "timer_Tick (e_config e) ENORESPONSE a w = end_by_user (e_config e) a w" if "sm_state (w_objs w ! a) = INCOMING"
    using that la by (simp add: timer_Tick_def State_noResponseTimerExpired_def end_ignores_timer call_simps sm_def)
  have "sm_state (w_objs (end_by_user (e_config e) a w) ! a) = TERMINATED"
    "Proxy a s P_endCall \<in> set (w_acts (end_by_user (e_config e) a w))"
    using la k by (simp_all add: end_by_user_def call_simps)
  then show ?thesis
    using timers released gone unlisted ringing la by (simp add: event_ok_def timer_runs_def run_event_def call_simps destroyed_def)
qed

theorem ended_calls_go_away_witness:
  "\<exists>w'. run_event ex_env (Timer_elapsed 0 ERELEASED) (the (run_events ex_env (take 3 ex_missed) ex_start)) = Inr w' \<and>
     \<not> dict_contains (w_calls w') 3"
proof -
  let ?w = "the (run_events ex_env (take 3 ex_missed) ex_start)"
  have run: "run_events ex_env (take 3 ex_missed) ex_start = Some ?w" and a: "(3, SM 0) \<in> set (w_calls ?w)"
    and st: "sm_state (w_objs ?w ! 0) \<in> {RELEASED, TERMINATED}" by code_simp+
  from ended_calls_go_away[OF run_events_call_run[OF ex_start_run run] a] st show ?thesis by blast
qed

section \<open>The provider\<close>

text \<open>
  C8: Unless calls are answered automatically, the provider is in step with call control in every run: no
  two calls of its list have the same identification, each has a call in the table whose state its
  \<open>CallState\<close> shows (\<open>Ringing\<close>, \<open>Connected\<close> for an active or held call, \<open>HangUp\<close> when the other side
  released it, \<open>Disconnected\<close> when this side did), and each call that has left the list is \<open>Disconnected\<close>.
\<close>

theorem provider_shows_call_states:
  assumes "call_run e w" and "\<not> AAFlag (e_config e)"
  shows "distinct (map (\<lambda>i. sipekCallId (w_sips w ! i)) (w_list w)) \<and>
    (\<forall>i < length (w_sips w).
       if i \<in> set (w_list w)
       then shown (StateId (getCall (sipekCallId (w_sips w ! i)) w) w) = Some (callState (w_sips w ! i))
       else callState (w_sips w ! i) = Disconnected)"
proof -
  have inv: "call_inv w" and p: "prov_ok w" using call_run_sys[OF assms] by (simp_all add: sys_def)
  have "shown (StateId (getCall (sipekCallId (w_sips w ! i)) w) w) = Some (callState (w_sips w ! i))" if "i \<in> set (w_list w)" for i
  proof -
    have "linked i w" using p that by (simp add: prov_but_def)
    then show ?thesis using getCall_entry[OF table_distinct[OF inv]] by (auto simp: linked_def StateId_def sm_def)
  qed
  then show ?thesis using p by (simp add: prov_but_def)
qed

theorem provider_shows_call_states_witness:
  "callState (w_sips (the (run_events ex_env (take 3 ex_missed) ex_start)) ! 0) = HangUp"
proof -
  let ?w = "the (run_events ex_env (take 3 ex_missed) ex_start)"
  have run: "run_events ex_env (take 3 ex_missed) ex_start = Some ?w" and "\<not> AAFlag (e_config ex_env)"
    and i: "0 < length (w_sips ?w)" "0 \<in> set (w_list ?w)"
    and st: "shown (StateId (getCall (sipekCallId (w_sips ?w ! 0)) ?w) ?w) = Some HangUp" by code_simp+
  from provider_shows_call_states[OF run_events_call_run[OF ex_start_run run] this(2)] i
  have "shown (StateId (getCall (sipekCallId (w_sips ?w ! 0)) ?w) ?w) = Some (callState (w_sips ?w ! 0))" by presburger
  then show ?thesis using st by simp
qed

section \<open>Behaviour that the code does not mean\<close>

lemma new_call_announced:
  assumes inv: "call_inv w" and s: "\<not> dict_contains (w_calls w) s"
    and acc: "e_accounts e \<noteq> 0" and fl: "\<not> CFUFlag (e_config e)" "\<not> DNDFlag (e_config e)" "\<not> AAFlag (e_config e)"
  obtains w1 w2 where "run_event e (Stack_state s SESSION_STATE_INCOMING) w = Inr w1"
    "event_ok (Stack_incoming s number info) w1" "run_event e (Stack_incoming s number info) w1 = Inr w2"
    "length (w_objs w2) = Suc (length (w_objs w))"
    "w_objs w2 ! length (w_objs w) =
       ringing (e_config e) number info ((new_CStateMachine (w_now w))\<lparr>session := s, proxySession := s\<rparr>)"
proof -
  let ?a = "length (w_objs w)" and ?c = "e_config e"
  let ?m = "(new_CStateMachine (w_now w))\<lparr>session := s, proxySession := s\<rparr>"
  let ?d = "take (e_slot e (w_calls w)) (w_calls w) @ (s, SM ?a) # drop (e_slot e (w_calls w)) (w_calls w)"
  define w1 where "w1 = w\<lparr>w_objs := w_objs w @ [?m], w_calls := ?d\<rparr>"
  have r1: "run_event e (Stack_state s SESSION_STATE_INCOMING) w = Inr w1"
    using s by (simp add: run_event_def OnCallStateChanged_def createStateMachine_def set_Session_def upd_sm_def
        dict_add_fresh Let_def w1_def)
  have new: "s \<notin> fst ` set (w_calls w)" using s by (simp add: dict_contains_set)
  have g: "getCall s w1 = SM ?a"
    using map_of_insert_at[OF new, of "e_slot e (w_calls w)" "SM ?a" s] by (simp add: getCall_def dict_contains_def w1_def)
  have m: "w_objs w1 ! ?a = ?m" "length (w_objs w1) = Suc ?a" by (simp_all add: w1_def)
  have idle: "sm_state (w_objs w1 ! ?a) = IDLE" by (simp add: m new_CStateMachine_def)
  let ?w2 = "State_incomingCall ?c number info ?a w1"
  have w2: "?w2 = inform ?a (before_answer ?c number info ?a w1)"
    using fl idle m(2) incoming_eq[of ?a w1 ?c info number] by (simp add: State_incomingCall_def CIdleState_incomingCall_def sm_def)
  have o2: "w_objs ?w2 = (w_objs w1)[?a := ringing ?c number info ?m]"
    unfolding w2 using m by (simp add: call_simps before_answer_fields)
  have "\<exists>w2. run_event e (Stack_incoming s number info) w1 = Inr w2 \<and> w_objs w2 = w_objs ?w2"
    using acc o2 m(2) by (simp add: run_event_def OnIncomingCall_def g IncomingCallNotification_def Let_def sm_def new_CStateMachine_def call_simps)
  then obtain w3 where "run_event e (Stack_incoming s number info) w1 = Inr w3" "w_objs w3 = w_objs ?w2" by blast
  moreover have "event_ok (Stack_incoming s number info) w1" by (simp add: event_ok_def g StateId_def sm_def idle)
  ultimately show thesis using r1 o2 m(2) that[of w1 w3] by simp
qed

text \<open>
  C31: The flag for forwarding a call that is not answered has no effect: whether it is set or not, the
  timer for it runs from the creation of the call, because the constructor of the class \<open>Timer\<close> starts
  it, and when it elapses while the call rings, the call is forwarded, to the number for unconditional
  forwarding.
\<close>

theorem no_reply_ignores_its_flag:
  assumes "call_run e w" and "\<not> dict_contains (w_calls w) s"
    and "e_accounts e \<noteq> 0" and "\<not> CFUFlag (e_config e)" and "\<not> DNDFlag (e_config e)" and "\<not> AAFlag (e_config e)"
    and "\<not> CFNRFlag (e_config e)"
  shows "\<exists>w1 w2 w3 a. run_event e (Stack_state s SESSION_STATE_INCOMING) w = Inr w1 \<and>
    event_ok (Stack_incoming s number info) w1 \<and> run_event e (Stack_incoming s number info) w1 = Inr w2 \<and>
    event_ok (Timer_elapsed a ENOREPLY) w2 \<and> run_event e (Timer_elapsed a ENOREPLY) w2 = Inr w3 \<and>
    w_acts w3 = w_acts w2 @ [Proxy a s (P_serviceRequest SC_CFNR (CFUNumber (e_config e)))]"
proof -
  let ?a = "length (w_objs w)"
  have inv: "call_inv w" using assms(1) by (rule call_run_inv)
  obtain w1 w2 where r: "run_event e (Stack_state s SESSION_STATE_INCOMING) w = Inr w1"
    "event_ok (Stack_incoming s number info) w1" "run_event e (Stack_incoming s number info) w1 = Inr w2"
    "length (w_objs w2) = Suc ?a"
    "w_objs w2 ! ?a = ringing (e_config e) number info ((new_CStateMachine (w_now w))\<lparr>session := s, proxySession := s\<rparr>)"
    by (rule new_call_announced[OF inv assms(2-6)])
  have "event_ok (Timer_elapsed ?a ENOREPLY) w2"
    using assms(7) by (simp add: event_ok_def timer_runs_def r(4,5) ringing_def new_CStateMachine_def createTimer_def set_Interval_def Let_def)
  moreover have "w_acts (timer_Tick (e_config e) ENOREPLY ?a w2) = w_acts w2 @ [Proxy ?a s (P_serviceRequest SC_CFNR (CFUNumber (e_config e)))]"
    using r(4,5) by (simp add: timer_Tick_def State_noReplyTimerExpired_def call_simps sm_def)
  ultimately show ?thesis using r(1-3) by (auto simp: run_event_def)
qed

theorem no_reply_ignores_its_flag_witness:
  "\<exists>w1 w2 w3 a. run_event ex_env (Stack_state 4 SESSION_STATE_INCOMING) ex_start = Inr w1 \<and>
    run_event ex_env (Stack_incoming 4 ''1'' ''2'') w1 = Inr w2 \<and>
    run_event ex_env (Timer_elapsed a ENOREPLY) w2 = Inr w3 \<and> w_acts w3 = w_acts w2 @ [Proxy a 4 (P_serviceRequest SC_CFNR '''')]"
proof -
  have h: "\<not> dict_contains (w_calls ex_start) 4" "e_accounts ex_env \<noteq> 0" "\<not> CFUFlag (e_config ex_env)"
    "\<not> DNDFlag (e_config ex_env)" "\<not> AAFlag (e_config ex_env)" "\<not> CFNRFlag (e_config ex_env)"
    "CFUNumber (e_config ex_env) = ''''" by code_simp+
  show ?thesis using no_reply_ignores_its_flag[OF ex_start_run h(1-6), of "''1''" "''2''"] unfolding h(7) by metis
qed

text \<open>
  C32: The replacement of a call never works: the stack reports the replacing call as a new call before it
  reports the replacement, so that its identification is in the table already, and \<open>OnCallReplaced\<close> ends
  with an exception in the callback of the stack in every reachable state.
\<close>

theorem call_replacement_throws:
  assumes "call_run e w" and "dict_contains (w_calls w) oldid" and "oldid \<noteq> newid" and "newid \<noteq> - 1"
  shows "\<exists>w'. OnCallStateChanged e newid SESSION_STATE_INCOMING w = Inr w' \<and>
    (dict_contains (w_calls w') newid \<longrightarrow> OnCallReplaced e oldid newid w' \<in> {Inl ArgumentException, Inl KeyNotFoundException}) \<and>
    (\<not> dict_contains (w_calls w) newid \<longrightarrow> OnCallReplaced e oldid newid w' = Inl ArgumentException)"
proof -
  have inv: "call_inv w" using assms(1) by (rule call_run_inv)
  obtain w' where w': "OnCallStateChanged e newid SESSION_STATE_INCOMING w = Inr w'"
    using inv_OnCallStateChanged[OF inv, of SESSION_STATE_INCOMING newid e] assms(4) by blast
  have throws: "OnCallReplaced e oldid newid v = (if dict_contains (w_calls v) oldid then Inl ArgumentException else Inl KeyNotFoundException)"
    if "dict_contains (w_calls v) newid" for v
    using that assms(3)
    by (auto simp: OnCallReplaced_def Let_def dict_add_def dict_contains_def map_of_dict_remove on_call_def call_simps
        split: option.split smref.split)
  have "dict_contains (w_calls w') newid \<and> dict_contains (w_calls w') oldid" if "\<not> dict_contains (w_calls w) newid"
  proof -
    have new: "newid \<notin> fst ` set (w_calls w)" using that by (simp add: dict_contains_set)
    have "w_calls w' = take (e_slot e (w_calls w)) (w_calls w) @ (newid, SM (length (w_objs w))) # drop (e_slot e (w_calls w)) (w_calls w)"
      using w' that by (auto simp: OnCallStateChanged_def createStateMachine_def dict_add_fresh Let_def call_simps)
    then show ?thesis using assms(2,3) map_of_insert_at[OF new] by (simp add: dict_contains_def)
  qed
  then show ?thesis using w' throws by auto
qed

theorem call_replacement_throws_witness:
  "\<exists>w'. OnCallStateChanged ex_env 8 SESSION_STATE_INCOMING (the (run_events ex_env (take 2 ex_missed) ex_start)) = Inr w' \<and>
     OnCallReplaced ex_env 3 8 w' = Inl ArgumentException"
proof -
  let ?w = "the (run_events ex_env (take 2 ex_missed) ex_start)"
  have run: "run_events ex_env (take 2 ex_missed) ex_start = Some ?w" and a: "dict_contains (w_calls ?w) 3"
    and b: "\<not> dict_contains (w_calls ?w) 8" by code_simp+
  from call_replacement_throws[OF run_events_call_run[OF ex_start_run run] a, of 8] b show ?thesis by auto
qed

text \<open>
  Two calls can be active at once, which a comment of \<open>onUserAnswer\<close> excludes: an outgoing call is made, an
  incoming one is answered meanwhile, and then the outgoing one is connected.
\<close>

lemma two_active_calls:
  "getNoCallsInState ACTIVE (the (run_events ex_env [User_call ''12'' 0, Stack_state 3 SESSION_STATE_INCOMING,
     Stack_incoming 3 ''55'' '''', User_answer 3, Stack_state 7 SESSION_STATE_CONNECTING] ex_start)) = 2"
  by code_simp

end
