(* ===== verification/Tam_Calllog_Spec.thy ===== *)
theory Tam_Calllog_Spec
  imports Tam_Calllog Call_Props
begin

text \<open>
  What the call log promises: after any calls it has one record for each number and type, the latest
  first, with the data of the latest call and a count of the earlier ones; it survives a restart of the
  program; and together with call control it counts the missed calls.
\<close>

section \<open>The records after a sequence of calls\<close>

datatype logged = Logged ECallType string string int int

fun log_call :: "logged \<Rightarrow> CCallRecord list \<Rightarrow> CCallRecord list" where
  "log_call (Logged t number name time dur) l = addCall t number name time dur l"

definition log_calls :: "logged list \<Rightarrow> CCallRecord list" where
  "log_calls cs = fold log_call cs []"

fun call_key :: "logged \<Rightarrow> string \<times> int" where
  "call_key (Logged t number name time dur) = (number, type_code t)"

fun call_record :: "logged \<Rightarrow> CCallRecord" where
  "call_record (Logged t number name time dur) =
     \<lparr>rec_type = type_code t, rec_name = name, rec_number = number, rec_time = time, rec_duration = dur, rec_count = 0\<rparr>"

definition rec_key :: "CCallRecord \<Rightarrow> string \<times> int" where "rec_key r = (rec_number r, rec_type r)"

definition calls_of :: "string \<times> int \<Rightarrow> logged list \<Rightarrow> logged list" where
  "calls_of k cs = filter (\<lambda>c. call_key c = k) cs"

text \<open>The record that belongs to a number and type after the calls \<open>cs\<close>.\<close>

definition summary :: "logged list \<Rightarrow> string \<times> int \<Rightarrow> CCallRecord" where
  "summary cs k = (call_record (last (calls_of k cs)))\<lparr>rec_count := int (length (calls_of k cs)) - 1\<rparr>"

lemma deleteRecord_filter: "deleteRecord n t l = filter (\<lambda>r. rec_key r \<noteq> (n, t)) l"
proof -
  have "fold (\<lambda>r st. if rec_number r = n \<and> rec_type r = t then st else r # st) xs st
      = rev (filter (\<lambda>r. rec_key r \<noteq> (n, t)) xs) @ st" for xs st
    by (induction xs arbitrary: st) (auto simp: rec_key_def)
  then show ?thesis by (simp add: deleteRecord_def rev_filter[symmetric])
qed

lemma findRecord_key: "findRecord n t l = List.find (\<lambda>r. rec_key r = (n, t)) l"
  by (simp add: findRecord_def rec_key_def)

lemma remdups_snoc: "remdups (xs @ [x]) = filter (\<lambda>y. y \<noteq> x) (remdups xs) @ [x]"
  by (induction xs) auto

lemma rec_key_call_record [simp]: "rec_key (call_record c) = call_key c" "rec_key (r\<lparr>rec_count := n\<rparr>) = rec_key r"
  by (cases c; simp add: rec_key_def)+

lemma calls_of_snoc: "calls_of k (cs @ [c]) = calls_of k cs @ (if call_key c = k then [c] else [])"
  by (simp add: calls_of_def)

lemma calls_of_empty: "calls_of k cs = [] \<longleftrightarrow> k \<notin> call_key ` set cs"
  by (auto simp: calls_of_def filter_empty_conv)

lemma rec_key_summary:
  assumes "k \<in> call_key ` set cs" shows "rec_key (summary cs k) = k"
proof -
  have "calls_of k cs \<noteq> []" using assms by (simp add: calls_of_empty)
  then have "last (calls_of k cs) \<in> set (calls_of k cs)" by simp
  then show ?thesis by (simp add: summary_def calls_of_def)
qed

lemma find_summary:
  assumes "set ks \<subseteq> call_key ` set cs"
  shows "List.find (\<lambda>r. rec_key r = k) (map (summary cs) ks) = (if k \<in> set ks then Some (summary cs k) else None)"
  using assms by (induction ks) (auto simp: rec_key_summary)

lemma log_call_key:
  "log_call c l = (case List.find (\<lambda>r. rec_key r = call_key c) l of
      None \<Rightarrow> call_record c # l
    | Some item \<Rightarrow> (call_record c)\<lparr>rec_count := rec_count item + 1\<rparr> # filter (\<lambda>r. rec_key r \<noteq> call_key c) l)"
proof (cases c)
  case (Logged t n nm tm d)
  have "rec_type item = type_code t" if "List.find (\<lambda>r. rec_key r = (n, type_code t)) l = Some item" for item
    using that by (auto simp: find_Some_iff rec_key_def)
  then show ?thesis using Logged
    by (auto simp: addCall_def addRecord_def findRecord_key deleteRecord_filter new_CCallRecord_def split: option.split)
qed

lemma log_calls_summary: "log_calls cs = map (summary cs) (rev (remdups (map call_key cs)))"
proof (induction cs rule: rev_induct)
  case Nil
  then show ?case by (simp add: log_calls_def)
next
  case (snoc c cs)
  let ?ks = "rev (remdups (map call_key cs))" and ?k = "call_key c"
  have old: "summary (cs @ [c]) k = summary cs k" if "k \<noteq> ?k" for k
    using that by (simp add: summary_def calls_of_snoc)
  have rest: "map (summary (cs @ [c])) (filter (\<lambda>k. k \<noteq> ?k) ?ks) = map (summary cs) (filter (\<lambda>k. k \<noteq> ?k) ?ks)"
    by (rule map_cong) (auto simp: old)
  have new: "summary (cs @ [c]) ?k = (call_record c)\<lparr>rec_count := int (length (calls_of ?k cs))\<rparr>"
    by (simp add: summary_def calls_of_snoc)
  have keys: "rev (remdups (map call_key (cs @ [c]))) = ?k # filter (\<lambda>k. k \<noteq> ?k) ?ks"
    by (simp add: remdups_snoc rev_filter)
  have filt: "filter (\<lambda>r. rec_key r \<noteq> ?k) (map (summary cs) ?ks) = map (summary cs) (filter (\<lambda>k. k \<noteq> ?k) ?ks)"
    by (auto simp: filter_map rec_key_summary intro!: map_cong filter_cong)
  have "log_calls (cs @ [c]) = log_call c (map (summary cs) ?ks)" using snoc by (simp add: log_calls_def)
  also have "\<dots> = map (summary (cs @ [c])) (?k # filter (\<lambda>k. k \<noteq> ?k) ?ks)"
  proof (cases "?k \<in> call_key ` set cs")
    case True
    then have "calls_of ?k cs \<noteq> []" by (simp add: calls_of_empty)
    then have "rec_count (summary cs ?k) + 1 = int (length (calls_of ?k cs))" by (simp add: summary_def)
    then show ?thesis using True by (simp add: log_call_key find_summary filt rest new)
  next
    case False
    have "filter (\<lambda>k. k \<noteq> ?k) ?ks = ?ks" using False by (intro filter_True) (metis list.set_map set_remdups set_rev)
    moreover have "call_record c = (call_record c)\<lparr>rec_count := 0\<rparr>" by (cases c) simp
    ultimately show ?thesis using False rest
      by (simp add: log_call_key find_summary new calls_of_empty[THEN iffD2])
  qed
  finally show ?case by (simp only: keys)
qed

text \<open>
  C36: After any sequence of calls the call log has one record for each number and type that occurred, in
  the order of their latest calls, the latest first; a record has the name, time and duration of the
  latest call with its number and type, and its count is the number of the earlier ones.
\<close>

theorem call_log_summarises_calls:
  "log_calls cs = map (summary cs) (rev (remdups (map call_key cs)))"
  by (rule log_calls_summary)

section \<open>The file\<close>

lemma digit_of_char: "n < 10 \<Longrightarrow> is_digit (char_of (48 + n))" "n < 10 \<Longrightarrow> digit_val (char_of (48 + n)) = int n"
  by (simp_all add: is_digit_def digit_val_def)

lemma decimal_snoc: "decimal (xs @ [c]) = 10 * decimal xs + digit_val c"
  by (simp add: decimal_def)

lemma nat_digits_correct:
  "nat_digits n \<noteq> [] \<and> list_all is_digit (nat_digits n) \<and> decimal (nat_digits n) = int n"
proof (induction n rule: nat_digits.induct)
  case (1 n)
  show ?case
  proof (cases "n < 10")
    case True
    then have "nat_digits n = [char_of (48 + n)]" by (simp add: nat_digits.simps)
    then show ?thesis using True by (simp add: digit_of_char decimal_def del: of_char_of)
  next
    case False
    then have e: "nat_digits n = nat_digits (n div 10) @ [char_of (48 + n mod 10)]" by (subst nat_digits.simps) simp
    have "10 * (n div 10) + n mod 10 = n" by simp
    then have "10 * int (n div 10) + int (n mod 10) = int n" by linarith
    then show ?thesis using 1[OF False] unfolding e by (simp only: decimal_snoc digit_of_char list_all_append) (simp add: digit_of_char)
  qed
qed

lemma digit_not_white: "is_digit c \<Longrightarrow> \<not> white c \<and> c \<noteq> CHR ''-'' \<and> c \<noteq> CHR ''+''"
  by (auto simp: is_digit_def white_def)

lemma int_TryParse_ToString:
  assumes "- (2 ^ 31) \<le> i" and "i < 2 ^ 31"
  shows "int_TryParse (int_ToString i) = Some i"
proof -
  define n where "n = nat \<bar>i\<bar>"
  obtain d ds where n: "nat_digits n = d # ds" using nat_digits_correct[of n] by (cases "nat_digits n") auto
  have d: "list_all is_digit (d # ds)" "decimal (d # ds) = \<bar>i\<bar>" using nat_digits_correct[of n] n by (simp_all add: n_def)
  have last: "\<not> white (last (d # ds))" using d(1) digit_not_white by (metis last_in_set list.distinct(1) list_all_iff)
  have hd: "\<not> white d" "d \<noteq> CHR ''-''" "d \<noteq> CHR ''+''" using d(1) digit_not_white by simp_all
  have "Trim (CHR ''-'' # d # ds) = CHR ''-'' # d # ds" "Trim (d # ds) = d # ds"
    using last hd by (simp_all add: Trim_id white_def)
  moreover have "int_ToString i = (if i < 0 then CHR ''-'' # d # ds else d # ds)" using n by (cases "i < 0") (simp_all add: int_ToString_def n_def)
  ultimately show ?thesis using d hd assms by (auto simp: int_TryParse_def)
qed

lemma int_ToString_not_blank: "\<not> blank (int_ToString i)"
proof -
  have "\<not> blank (nat_digits n)" for n
    using nat_digits_correct[of n] digit_not_white by (cases "nat_digits n") (auto simp: blank_def)
  then show ?thesis by (simp add: int_ToString_def blank_def white_def)
qed

text \<open>
  What is known of the texts of dates and durations: a date is written without the fraction of its
  seconds, a duration exactly, and both are text.
\<close>

definition culture_ok :: "culture \<Rightarrow> bool" where
  "culture_ok c =
     ((\<forall>t. 0 \<le> t \<and> t \<le> 3155378975999999999 \<longrightarrow>
         \<not> blank (show_time c t) \<and> parse_time c (show_time c t) = Inr (t - t mod ticks_per_second)) \<and>
      (\<forall>d. - (2 ^ 63) \<le> d \<and> d < 2 ^ 63 \<longrightarrow> \<not> blank (show_span c d) \<and> parse_span c (show_span c d) = Inr d))"

definition int32 :: "int \<Rightarrow> bool" where "int32 i = (- (2 ^ 31) \<le> i \<and> i < 2 ^ 31)"

definition printable :: "string \<Rightarrow> bool" where
  "printable s = list_all (\<lambda>c. 32 \<le> (of_char c :: nat) \<and> (of_char c :: nat) < 127) s"

definition storable :: "CCallRecord \<Rightarrow> bool" where
  "storable r = (printable (rec_name r) \<and> printable (rec_number r) \<and> 0 \<le> rec_time r \<and> rec_time r \<le> 3155378975999999999 \<and>
     - (2 ^ 63) \<le> rec_duration r \<and> rec_duration r < 2 ^ 63 \<and> int32 (rec_count r) \<and> int32 (rec_type r))"

definition reloaded :: "CCallRecord \<Rightarrow> CCallRecord" where
  "reloaded r = r\<lparr>rec_name := (if blank (rec_name r) then '''' else rec_name r), rec_time := rec_time r - rec_time r mod ticks_per_second\<rparr>"

lemma load_record_stored:
  assumes "culture_ok c" and "storable r"
  shows "load_record c (stored (record_node c r)) = Inr (if blank (rec_number r) then None else Some (reloaded r))"
proof -
  have t: "\<not> blank (show_time c (rec_time r))" "parse_time c (show_time c (rec_time r)) = Inr (rec_time r - rec_time r mod ticks_per_second)"
    and d: "\<not> blank (show_span c (rec_duration r))" "parse_span c (show_span c (rec_duration r)) = Inr (rec_duration r)"
    using assms by (simp_all add: culture_ok_def storable_def)
  have i: "int_Parse (int_ToString (rec_count r)) = Inr (rec_count r)" "int_Parse (int_ToString (rec_type r)) = Inr (rec_type r)"
    using assms(2) by (simp_all add: storable_def int32_def int_Parse_def int_TryParse_ToString)
  show ?thesis
    using t d i by (cases r) (auto simp: load_record_def child_value_def record_node_def text_element_def set_field_def bind_sum_def
        int_ToString_not_blank reloaded_def new_CCallRecord_def Let_def)
qed

lemma load_records_stored:
  assumes "culture_ok c" and "list_all storable l"
  shows "load_records c (map (\<lambda>r. stored (record_node c r)) l) st
    = Inr (rev (map reloaded (filter (\<lambda>r. \<not> blank (rec_number r)) l)) @ st)"
  using assms(2) by (induction l arbitrary: st) (simp_all add: load_record_stored[OF assms(1)] bind_sum_def)

text \<open>
  C37: A restart keeps the call log: loading the file that \<open>save\<close> has written gives the same records in
  the same order, with the times cut to seconds, except that records without a number are dropped.
\<close>

theorem call_log_survives_restart:
  assumes "culture_ok c" and "list_all storable l"
  shows "load c (Some (stored (save c l))) = Inr (map reloaded (filter (\<lambda>r. \<not> blank (rec_number r)) l))"
proof -
  have "filter (\<lambda>x. \<not> blank_text x) (map (record_node c) (rev l)) = map (record_node c) (rev l)"
    by (auto simp: filter_id_conv record_node_def)
  moreover have "filter (\<lambda>n. node_name n = ''Record'') (map (\<lambda>r. stored (record_node c r)) xs) = map (\<lambda>r. stored (record_node c r)) xs" for xs
    by (auto simp: filter_id_conv record_node_def)
  moreover have "list_all storable (rev l)" using assms(2) by (simp add: list_all_iff)
  ultimately show ?thesis
    using load_records_stored[OF assms(1)] by (simp add: load_def save_def o_def rev_map rev_filter)
qed

text \<open>Dates as seconds and durations as ticks, in digits.\<close>

definition ex_culture :: culture where
  "ex_culture = \<lparr>show_time = (\<lambda>t. nat_digits (nat (t div ticks_per_second))), parse_time = (\<lambda>s. Inr (decimal s * ticks_per_second)),
     show_span = (\<lambda>d. if d < 0 then CHR ''-'' # nat_digits (nat (- d)) else nat_digits (nat d)),
     parse_span = (\<lambda>s. Inr (if hd s = CHR ''-'' then - decimal (tl s) else decimal s))\<rparr>"

lemma hd_nat_digits: "hd (nat_digits n) \<noteq> CHR ''-''"
proof -
  have "list_all is_digit (nat_digits n)" "nat_digits n \<noteq> []" using nat_digits_correct[of n] by simp_all
  then have "is_digit (hd (nat_digits n))" by (cases "nat_digits n") simp_all
  then show ?thesis by (simp add: digit_not_white)
qed

lemma ex_culture_ok: "culture_ok ex_culture"
proof -
  have nb: "\<not> blank (nat_digits n)" for n using int_ToString_not_blank[of "int n"] by (simp add: int_ToString_def)
  have time: "decimal (nat_digits (nat (t div ticks_per_second))) * ticks_per_second = t - t mod ticks_per_second" if "0 \<le> t" for t
  proof -
    have "0 \<le> t div ticks_per_second" using that by (simp add: ticks_per_second_def pos_imp_zdiv_nonneg_iff)
    then have "decimal (nat_digits (nat (t div ticks_per_second))) = t div ticks_per_second" by (simp add: nat_digits_correct)
    then show ?thesis by (simp only: minus_mod_eq_div_mult)
  qed
  have minus: "\<not> blank (CHR ''-'' # s)" for s by (simp add: blank_def white_def)
  have span: "(if hd s = CHR ''-'' then - decimal (tl s) else decimal s) = d"
    if "s = (if d < 0 then CHR ''-'' # nat_digits (nat (- d)) else nat_digits (nat d))" for s d
    using that by (simp add: nat_digits_correct hd_nat_digits)
  show ?thesis unfolding culture_ok_def ex_culture_def using time span nb minus by auto
qed

theorem call_log_survives_restart_witness:
  "load ex_culture (Some (stored (save ex_culture (log_calls
     [Logged EMissed ''55'' ''Ann'' 70000000000000001 0, Logged EReceived '''' ''Bob'' 80000000000000000 50, Logged EMissed ''55'' '''' 90000000000000002 0]))))
   = Inr [\<lparr>rec_type = 2, rec_name = '''', rec_number = ''55'', rec_time = 90000000000000000, rec_duration = 0, rec_count = 1\<rparr>]"
proof -
  let ?l = "log_calls [Logged EMissed ''55'' ''Ann'' 70000000000000001 0, Logged EReceived '''' ''Bob'' 80000000000000000 50,
      Logged EMissed ''55'' '''' 90000000000000002 0]"
  have "list_all storable ?l" by code_simp
  moreover have "map reloaded (filter (\<lambda>r. \<not> blank (rec_number r)) ?l)
      = [\<lparr>rec_type = 2, rec_name = '''', rec_number = ''55'', rec_time = 90000000000000000, rec_duration = 0, rec_count = 1\<rparr>]" by code_simp
  ultimately show ?thesis using call_log_survives_restart[OF ex_culture_ok, of ?l] by simp
qed

section \<open>The call log of a run\<close>

fun log_acts :: "call_action list \<Rightarrow> logged list" where
  "log_acts [] = []"
| "log_acts (Add_call a t number name time dur # xs) = Logged t number name time dur # log_acts xs"
| "log_acts (x # xs) = log_acts xs"

text \<open>The call log after a run that started with an empty one.\<close>

definition run_log :: "call_world \<Rightarrow> CCallRecord list" where
  "run_log w = log_calls (log_acts (w_acts w))"

text \<open>The calls that the records of a type stand for.\<close>

definition counted :: "ECallType \<Rightarrow> CCallRecord list \<Rightarrow> int" where
  "counted t l = (\<Sum>r\<leftarrow>filter (\<lambda>r. rec_type r = type_code t) l. rec_count r + 1)"

lemma sum_filter_key:
  assumes "finite S"
  shows "(\<Sum>k\<in>S. length (filter (\<lambda>c. f c = k) cs)) = length (filter (\<lambda>c. f c \<in> S) cs)"
proof (induction cs)
  case (Cons c cs)
  have "(\<Sum>k\<in>S. length (filter (\<lambda>c. f c = k) (c # cs))) = (\<Sum>k\<in>S. (if f c = k then 1 else 0) + length (filter (\<lambda>c. f c = k) cs))"
    by (rule sum.cong) simp_all
  then show ?case using Cons assms by (simp add: sum.distrib)
qed simp

lemma counted_calls:
  "counted t (log_calls cs) = int (length (filter (\<lambda>c. snd (call_key c) = type_code t) cs))"
proof -
  let ?K = "{k \<in> call_key ` set cs. snd k = type_code t}"
  let ?ks = "filter (\<lambda>k. snd k = type_code t) (rev (remdups (map call_key cs)))"
  have ty: "rec_type (summary cs k) = snd k" if "k \<in> call_key ` set cs" for k
    using rec_key_summary[OF that] by (metis rec_key_def snd_conv)
  have "filter (\<lambda>r. rec_type r = type_code t) (log_calls cs) = map (summary cs) ?ks"
    unfolding log_calls_summary filter_map by (rule arg_cong[where f = "map (summary cs)"]) (rule filter_cong, auto simp: ty)
  then have "counted t (log_calls cs) = (\<Sum>k\<leftarrow>?ks. rec_count (summary cs k) + 1)"
    by (simp add: counted_def o_def)
  also have "\<dots> = (\<Sum>k\<in>set ?ks. rec_count (summary cs k) + 1)"
    by (rule sum_list_distinct_conv_sum_set) simp
  also have "\<dots> = (\<Sum>k\<in>?K. int (length (filter (\<lambda>c. call_key c = k) cs)))"
    by (rule sum.cong) (auto simp: summary_def calls_of_def)
  also have "\<dots> = int (length (filter (\<lambda>c. call_key c \<in> ?K) cs))"
    using sum_filter_key[of ?K call_key cs] by (simp flip: of_nat_sum)
  also have "filter (\<lambda>c. call_key c \<in> ?K) cs = filter (\<lambda>c. snd (call_key c) = type_code t) cs"
    by (rule filter_cong) auto
  finally show ?thesis .
qed

fun entry_of :: "call_action \<Rightarrow> nat" where
  "entry_of (Add_call a t number name time dur) = a"
| "entry_of _ = 0"

lemma type_code_inj [simp]: "type_code t = type_code u \<longleftrightarrow> t = u"
  by (cases t; cases u) (simp_all add: type_code_def)

lemma log_acts_typed:
  "length (filter (\<lambda>c. snd (call_key c) = type_code t) (log_acts xs)) = length (filter (\<lambda>x. is_entry x \<and> entry_type x = t) xs)"
  by (induction xs rule: log_acts.induct) auto

lemma distinct_by_count:
  assumes "\<And>a. length (filter (\<lambda>x. f x = a) xs) \<le> 1"
  shows "distinct (map f xs)"
  using assms
proof (induction xs)
  case (Cons x xs)
  have "filter (\<lambda>y. f y = f x) xs = []" using Cons.prems[of "f x"] by simp
  then have "f x \<notin> f ` set xs" by (auto simp: filter_empty_conv)
  moreover have "length (filter (\<lambda>x. f x = a) xs) \<le> 1" for a using Cons.prems[of a] by (simp split: if_splits)
  ultimately show ?case using Cons.IH by simp
qed simp

lemma entries_of_machine: "filter (\<lambda>x. entry_of x = a) (filter is_entry xs) = filter is_entry (filter (mine a) xs)"
proof (induction xs)
  case (Cons x xs)
  then show ?case by (cases x) simp_all
qed simp

lemma inv_recorded: "call_inv w \<Longrightarrow> recorded (in_tab a w) (hist a w)"
proof (cases "a < length (w_objs w)")
  case False
  assume inv: "call_inv w"
  have "\<not> in_tab a w"
  proof
    assume "in_tab a w"
    then obtain s where "(s, SM a) \<in> set (w_calls w)" by (auto simp: in_tab_def)
    then show False using False by (auto elim: inv_entry[OF inv])
  qed
  moreover have "hist a w = []" using inv False by (simp add: call_inv_def)
  ultimately show ?thesis by (simp add: recorded_def)
qed (simp add: call_inv_def mach_ok_def)

lemma counted_run:
  assumes "call_inv w"
  shows "counted t (run_log w) = int (card {a. entries (hist a w) = 1 \<and> kind_of (hist a w) = t})"
proof -
  let ?E = "filter is_entry (w_acts w)" and ?P = "\<lambda>x. entry_type x = t"
  have one: "filter (\<lambda>x. entry_of x = a) ?E = filter is_entry (hist a w)" for a by (simp only: entries_of_machine hist_def)
  have mem: "x \<in> set (filter is_entry (hist a w)) \<longleftrightarrow> x \<in> set ?E \<and> entry_of x = a" for a x
    using arg_cong[OF one[of a], of set] by (auto simp: set_eq_iff)
  have rec: "recorded (in_tab a w) (hist a w)" for a using assms by (rule inv_recorded)
  have "distinct (map entry_of ?E)"
    by (rule distinct_by_count) (use rec in \<open>simp only: one recorded_def entries_def\<close>)
  then have "distinct (map entry_of (filter ?P ?E))" by (rule distinct_map_filter)
  then have "length (filter ?P ?E) = card (entry_of ` set (filter ?P ?E))" by (metis distinct_card length_map list.set_map)
  also have "entry_of ` set (filter ?P ?E) = {a. entries (hist a w) = 1 \<and> kind_of (hist a w) = t}" (is "?L = ?R")
  proof (intro set_eqI iffI)
    fix a assume "a \<in> ?L"
    then obtain x where x: "x \<in> set ?E" "entry_type x = t" "entry_of x = a" by auto
    then have "x \<in> set (filter is_entry (hist a w))" using mem by blast
    then have "entry_type x = kind_of (hist a w)" "0 < entries (hist a w)" using rec[of a]
      by (auto simp: recorded_def entries_def filter_empty_conv)
    moreover have "entries (hist a w) \<le> 1" using rec[of a] by (simp add: recorded_def)
    ultimately show "a \<in> ?R" using x(2) by simp
  next
    fix a assume a: "a \<in> ?R"
    then obtain x where x: "x \<in> set (filter is_entry (hist a w))" by (cases "filter is_entry (hist a w)") (auto simp: entries_def)
    then have "x \<in> set ?E" "entry_of x = a" using mem by blast+
    moreover have "entry_type x = t" using x rec[of a] a by (auto simp: recorded_def)
    ultimately show "a \<in> ?L" by auto
  qed
  finally show ?thesis by (simp add: run_log_def counted_calls log_acts_typed filter_filter conj_commute)
qed

text \<open>
  C38: The call log counts what happened: in every run of call control, the missed calls of the log are as
  many as the state machines that rang, were not answered and have left the table, and the received
  calls as many as those that were answered and have left the table.
\<close>

theorem call_log_counts_run:
  assumes "call_run e w"
  shows "counted EMissed (run_log w) = int (card {a. SM a \<notin> snd ` set (w_calls w) \<and> alerted (hist a w) \<and> \<not> accepted (hist a w)}) \<and>
    counted EReceived (run_log w) = int (card {a. SM a \<notin> snd ` set (w_calls w) \<and> accepted (hist a w)})"
proof -
  have inv: "call_inv w" using assms by (rule call_run_inv)
  have rec: "recorded (in_tab a w) (hist a w)" for a using inv by (rule inv_recorded)
  have acc: "accepted (hist a w) \<longrightarrow> alerted (hist a w)" for a
    using inv by (cases "a < length (w_objs w)") (auto simp: call_inv_def mach_ok_def typed_def)
  have "entries (hist a w) = 1 \<and> kind_of (hist a w) = EMissed \<longleftrightarrow> SM a \<notin> snd ` set (w_calls w) \<and> alerted (hist a w) \<and> \<not> accepted (hist a w)"
    "entries (hist a w) = 1 \<and> kind_of (hist a w) = EReceived \<longleftrightarrow> SM a \<notin> snd ` set (w_calls w) \<and> accepted (hist a w)" for a
    using rec[of a] acc[of a] unfolding recorded_def in_tab_def[symmetric] by (auto simp: kind_of_def split: if_splits)
  then show ?thesis by (simp only: counted_run[OF inv])
qed

theorem call_log_counts_run_witness:
  "card {a. SM a \<notin> snd ` set (w_calls (the (run_events ex_env ex_missed ex_start))) \<and>
      alerted (hist a (the (run_events ex_env ex_missed ex_start))) \<and> \<not> accepted (hist a (the (run_events ex_env ex_missed ex_start)))} = 1"
proof -
  let ?w = "the (run_events ex_env ex_missed ex_start)"
  have run: "run_events ex_env ex_missed ex_start = Some ?w" and c: "counted EMissed (run_log ?w) = 1" by code_simp+
  from call_log_counts_run[OF run_events_call_run[OF ex_start_run run]] c show ?thesis by simp
qed

end
