(* ===== verification/Tam_Trigger_Spec.thy ===== *)
theory Tam_Trigger_Spec
  imports Tam_Trigger Tam_Calllog_Spec
begin

text \<open>
  What a day trigger means: the text of a day with a range of times parses, and the trigger fires exactly
  on that day of the week and in that range.
\<close>

section \<open>Numbers and times\<close>

definition numeral_of :: "string \<Rightarrow> int \<Rightarrow> bool" where
  "numeral_of s n = (s \<noteq> [] \<and> list_all is_digit s \<and> decimal s = n)"

lemma decimal_nonneg: "list_all is_digit s \<Longrightarrow> 0 \<le> decimal s"
proof (induction s rule: rev_induct)
  case (snoc c s)
  then show ?case by (simp add: decimal_snoc is_digit_def digit_val_def)
qed (simp add: decimal_def)

lemma int_TryParse_number:
  assumes "numeral_of s n" and "n < 2 ^ 31"
  shows "int_TryParse s = Some n"
proof -
  obtain d ds where s: "s = d # ds" and d: "list_all is_digit (d # ds)" using assms(1) by (cases s) (auto simp: numeral_of_def)
  have "\<not> white d" "d \<noteq> CHR ''-''" "d \<noteq> CHR ''+''" using d digit_not_white by simp_all
  moreover have "\<not> white (last (d # ds))" using d digit_not_white by (metis last_in_set list.distinct(1) list_all_iff)
  ultimately have "Trim s = s" "d \<noteq> CHR ''-''" "d \<noteq> CHR ''+''" using s by (simp_all add: Trim_id)
  then show ?thesis using assms d decimal_nonneg[OF d] s by (simp add: int_TryParse_def numeral_of_def)
qed

lemma digits_avoid: "list_all is_digit s \<Longrightarrow> \<not> is_digit c \<Longrightarrow> c \<notin> set s"
  by (auto simp: list_all_iff)

lemma ParseTime_number:
  assumes "numeral_of h hour" and "numeral_of m minute" and "hour < 24" and "minute < 60"
  shows "ParseTime now (h @ CHR '':'' # m) = Inr (midnight now + (60 * hour + minute) * ticks_per_minute)"
proof -
  have "CHR '':'' \<notin> set h" "CHR '':'' \<notin> set m"
    using assms by (auto simp: numeral_of_def is_digit_def dest: digits_avoid[where c = "CHR '':''"])
  then have "Split CHR '':'' (h @ CHR '':'' # m) = [h, m]" by (simp add: Split_append Split_none)
  moreover have "int_TryParse h = Some hour" "int_TryParse m = Some minute" using assms by (simp_all add: int_TryParse_number)
  moreover have "0 \<le> hour" "0 \<le> minute" using assms decimal_nonneg by (auto simp: numeral_of_def)
  ultimately show ?thesis using assms by (simp add: ParseTime_def)
qed

lemma CombineDate_minutes:
  assumes "0 \<le> x" and "x < 24 * 60"
  shows "CombineDate date (midnight now + x * ticks_per_minute) = midnight date + x * ticks_per_minute"
proof -
  have "x * ticks_per_minute < ticks_per_day" using assms by (simp add: ticks_per_minute_def ticks_per_day_def ticks_per_second_def)
  moreover have "midnight now = ticks_per_day * (now div ticks_per_day)"
    by (simp add: midnight_def time_of_day_def minus_mod_eq_mult_div)
  ultimately have "time_of_day (midnight now + x * ticks_per_minute) = x * ticks_per_minute"
    using assms by (simp add: time_of_day_def ticks_per_minute_def ticks_per_second_def)
  then show ?thesis by (simp add: CombineDate_def ticks_per_minute_def ticks_per_second_def)
qed

section \<open>Days\<close>

lemma lower_fixed: "c \<in> {CHR '' '', CHR '','', CHR ''-'', CHR ''+''} \<or> is_digit c \<or> white c \<Longrightarrow> lower c = c"
  by (auto simp: lower_def is_digit_def white_def)

lemma day_names_letters: "d < 7 \<Longrightarrow> day_names ! d \<noteq> [] \<and> list_all (\<lambda>c. 97 \<le> (of_char c :: nat)) (day_names ! d)"
proof -
  have "list_all (\<lambda>s. s \<noteq> [] \<and> list_all (\<lambda>c. 97 \<le> (of_char c :: nat)) s) day_names" "length day_names = 7" by code_simp+
  then show "d < 7 \<Longrightarrow> ?thesis" by (simp add: list_all_length)
qed

lemma day_of_name_nth:
  assumes "d < 7" shows "map_of (zip day_names [0, 1, 2, 3, 4, 5, 6]) (day_names ! d) = Some (int d)"
proof -
  have "distinct day_names" "length day_names = 7" by code_simp+
  moreover have "[0, 1, 2, 3, 4, 5, 6 :: int] ! d = int d" using assms by (auto simp: less_Suc_eq numeral_eq_Suc)
  ultimately show ?thesis using assms map_of_zip_nth[of day_names "[0, 1, 2, 3, 4, 5, 6 :: int]" d] by simp
qed

lemma parse_day_name:
  assumes "d < 7" and "map lower s = day_names ! d"
  shows "parse_DayOfWeek s = Inr (int d)" "CHR '' '' \<notin> set s"
proof -
  have letter: "97 \<le> (of_char (lower c) :: nat)" if "c \<in> set s" for c
    using day_names_letters[OF assms(1)] that unfolding assms(2)[symmetric] by (simp add: list_all_iff)
  have plain: "\<not> (c \<in> {CHR '' '', CHR '','', CHR ''-'', CHR ''+''} \<or> is_digit c \<or> white c)" if "c \<in> set s" for c
    using letter[OF that] lower_fixed[of c] by (auto simp: is_digit_def white_def)
  have ne: "s \<noteq> []" using day_names_letters[OF assms(1)] assms(2) by auto
  then have "hd s \<in> set s" "last s \<in> set s" by simp_all
  then have "Trim s = s" "\<not> is_digit (hd s)" "hd s \<noteq> CHR ''-''" "hd s \<noteq> CHR ''+''"
    using plain[of "hd s"] plain[of "last s"] ne by (simp_all add: Trim_id)
  moreover have "Split CHR '','' s = [s]" by (rule Split_none) (use plain in blast)
  moreover have "day_of_name s = Some (int d)" using \<open>Trim s = s\<close> assms by (simp add: day_of_name_def day_of_name_nth)
  ultimately show "parse_DayOfWeek s = Inr (int d)" using ne by (simp add: parse_DayOfWeek_def bind_sum_def)
  show "CHR '' '' \<notin> set s" using plain by blast
qed

section \<open>The trigger\<close>

text \<open>
  C39: A day trigger does what its text says. The text of a day of the week, in any case, with a range
  \<^verbatim>\<open>from h:m to h:m\<close> of times in digits is accepted; the trigger fires at a date exactly when the date is on
  that day and its time of day is in the range, ends included. In particular it never fires when the
  range goes over midnight.
\<close>

theorem day_trigger_fires_in_range:
  assumes day: "d < 7" "map lower day = day_names ! d"
    and t1: "numeral_of h1 hour1" "numeral_of m1 minute1" "hour1 < 24" "minute1 < 60"
    and t2: "numeral_of h2 hour2" "numeral_of m2 minute2" "hour2 < 24" "minute2 < 60"
  shows "\<exists>t. new_DayTrigger now (day @ '' from '' @ h1 @ '':'' @ m1 @ '' to '' @ h2 @ '':'' @ m2) = Inr t \<and>
    (\<forall>date. DayTrigger_IsTriggered t date \<longleftrightarrow> DayOfWeek date = int d \<and>
       (60 * hour1 + minute1) * ticks_per_minute \<le> time_of_day date \<and> time_of_day date \<le> (60 * hour2 + minute2) * ticks_per_minute)"
proof -
  define s1 where "s1 = h1 @ CHR '':'' # m1"
  define s2 where "s2 = h2 @ CHR '':'' # m2"
  let ?x1 = "60 * hour1 + minute1" and ?x2 = "60 * hour2 + minute2"
  have sp: "CHR '' '' \<notin> set s1" "CHR '' '' \<notin> set s2"
    using t1 t2 by (auto simp: s1_def s2_def numeral_of_def is_digit_def dest: digits_avoid[where c = "CHR '' ''"])
  have p: "ParseTime now s1 = Inr (midnight now + ?x1 * ticks_per_minute)" "ParseTime now s2 = Inr (midnight now + ?x2 * ticks_per_minute)"
    unfolding s1_def s2_def using t1 t2 by (simp_all add: ParseTime_number)
  have nonneg: "0 \<le> hour1" "0 \<le> minute1" "0 \<le> hour2" "0 \<le> minute2" using t1 t2 decimal_nonneg by (auto simp: numeral_of_def)
  have tx: "day @ '' from '' @ h1 @ '':'' @ m1 @ '' to '' @ h2 @ '':'' @ m2
      = day @ CHR '' '' # ''from'' @ CHR '' '' # s1 @ CHR '' '' # ''to'' @ CHR '' '' # s2" by (simp add: s1_def s2_def)
  have "Split CHR '' '' (''to'' @ CHR '' '' # s2) = [''to'', s2]" using Split_append[of "CHR '' ''" "''to''"] sp by (simp add: Split_none)
  moreover have "Split CHR '' '' (''from'' @ CHR '' '' # ys) = ''from'' # Split CHR '' '' ys" for ys by (rule Split_append) simp
  ultimately have "Split CHR '' '' (day @ CHR '' '' # ''from'' @ CHR '' '' # s1 @ CHR '' '' # ''to'' @ CHR '' '' # s2)
      = [day, ''from'', s1, ''to'', s2]"
    using sp parse_day_name(2)[OF day] Split_append[of "CHR '' ''"] by metis
  then have t: "new_DayTrigger now (day @ '' from '' @ h1 @ '':'' @ m1 @ '' to '' @ h2 @ '':'' @ m2)
      = Inr \<lparr>dt_day = int d, fromTime = Some (midnight now + ?x1 * ticks_per_minute), toTime = Some (midnight now + ?x2 * ticks_per_minute)\<rparr>"
    unfolding tx by (simp add: new_DayTrigger_def new_Tokenizer_def NextToken_def TokenAvailable_def time_clause_def bind_sum_def
        parse_day_name(1)[OF day] p)
  have "date < midnight date + x \<longleftrightarrow> time_of_day date < x" "date > midnight date + x \<longleftrightarrow> time_of_day date > x" for date x
    by (auto simp: midnight_def)
  then show ?thesis using t1 t2 nonneg t by (auto simp: DayTrigger_IsTriggered_def CombineDate_minutes)
qed

theorem day_trigger_fires_in_range_witness:
  "\<exists>t. new_DayTrigger 0 ''Monday from 08:30 to 17:00'' = Inr t \<and> DayTrigger_IsTriggered t (7 * ticks_per_day + 540 * ticks_per_minute)"
proof -
  have d: "1 < (7 :: nat)" "map lower ''Monday'' = day_names ! 1" by code_simp+
  have n: "numeral_of ''08'' 8" "numeral_of ''30'' 30" "numeral_of ''17'' 17" "numeral_of ''00'' 0" by code_simp+
  have c: "DayOfWeek (7 * ticks_per_day + 540 * ticks_per_minute) = int 1" "(60 * 8 + 30) * ticks_per_minute \<le> time_of_day (7 * ticks_per_day + 540 * ticks_per_minute)"
    "time_of_day (7 * ticks_per_day + 540 * ticks_per_minute) \<le> (60 * 17 + 0) * ticks_per_minute" by code_simp+
  from day_trigger_fires_in_range[OF d n(1,2) _ _ n(3,4), of 0] c show ?thesis by auto
qed

end
