(* ===== verification/Tam_Actions_Spec.thy ===== *)
theory Tam_Actions_Spec
  imports Tam_Actions Tam_Trigger_Spec "HOL-Library.Sublist"
begin

text \<open>
  What the threads of the answering machine can rely on and what they do: a run of the answering machine
  is a run of call control, the threads work through the packs in their order, a call is answered as
  configured, and two ways in which the code goes wrong.
\<close>

section \<open>What call control does to the calls of the provider\<close>

text \<open>
  Call control changes the calls of the provider only by its listener. A property of the calls and the
  list of the provider that the changes of the listener keep (\<open>provider_view\<close>) is kept by every
  operation of call control; if a new call keeps it as well (\<open>provider_growth\<close>), it is kept by every
  event from outside.
\<close>

locale provider_view =
  fixes Q :: "SIPCall list \<Rightarrow> nat list \<Rightarrow> bool"
  assumes shown_keeps: "Q cs l \<Longrightarrow> j \<in> set l \<Longrightarrow> Q (cs[j := (cs ! j)\<lparr>callState := s\<rparr>]) l"
    and completed_keeps: "Q cs l \<Longrightarrow> j \<in> set l \<Longrightarrow> Q (cs[j := (cs ! j)\<lparr>playbackCompleted := True\<rparr>]) l"
    and removed_keeps: "Q cs l \<Longrightarrow> Q cs (remove1 j l)"
begin

abbreviation view :: "call_world \<Rightarrow> bool" where "view w \<equiv> Q (w_sips w) (w_list w)"

lemma view_simps [simp]:
  "view (act x w) = view w" "view (upd_sm a f w) = view w" "view (proxy r a w) = view w" "view (set_Session s a w) = view w"
  by (simp_all add: act_def upd_sm_def proxy_def set_Session_def)

lemma view_timers [simp]:
  "view (stopAllTimers a w) = view w" "view (snd (startTimer k a w)) = view w"
  by (simp_all add: stopAllTimers_def startTimer_def Start_def split: ETimerType.split)

lemma FindCallById_in: "FindCallById s w = Some i \<Longrightarrow> i \<in> set (w_list w)"
  by (auto simp: FindCallById_def find_Some_iff)

lemma view_listener: "view w \<Longrightarrow> view (onCallStateChanged s w)"
proof -
  assume v: "view w"
  have "view (set_callState st i w)" "view (set_completed i (set_callState st i w))" if "FindCallById s w = Some i" for i st
    using completed_keeps[OF shown_keeps[OF v FindCallById_in[OF that], of st] FindCallById_in[OF that]] shown_keeps[OF v FindCallById_in[OF that], of st]
    by (simp_all add: set_callState_def set_completed_def upd_sip_def)
  moreover have "w_list (set_callState st i w) = w_list w" for st i by (simp add: set_callState_def upd_sip_def)
  ultimately show ?thesis using v removed_keeps
    by (auto simp: onCallStateChanged_def Let_def split: option.split EStateId.split)
qed

lemma view_updateGui: "view w \<Longrightarrow> view (updateGui s w)"
  by (simp add: updateGui_def view_listener)

lemma view_onExit [simp]: "view (onExit a w) = view w"
  by (simp add: onExit_def split: EStateId.split)

lemma view_inform: "view w \<Longrightarrow> view (inform a w)"
  by (simp add: inform_def view_updateGui)

lemma view_change_to:
  assumes "view w" and "\<And>w. view w \<Longrightarrow> view (entry a w)"
  shows "view (change_to st entry a w)"
  unfolding change_to_def Let_def using assms by (intro view_inform assms(2)) simp

lemma view_destroy: "view w \<Longrightarrow> view (destroy a w)"
proof -
  have ds: "view w \<Longrightarrow> view (destroySession s w)" for s w
    by (simp add: destroySession_def Let_def view_updateGui)
  have lg: "view (add_to_log a w) = view w" for a w by (simp add: add_to_log_def Let_def)
  show "view w \<Longrightarrow> ?thesis"
    unfolding destroy_def Let_def by (intro ds view_change_to) (simp_all add: lg no_entry_def)
qed

lemma view_acceptCall: "view w \<Longrightarrow> view (CIncomingState_acceptCall a w)"
  unfolding CIncomingState_acceptCall_def Let_def
  by (intro view_change_to) (simp_all add: CActiveState_onEntry_def)

lemma view_changeState: "view w \<Longrightarrow> view (changeState c st a w)"
proof -
  have 1: "view w \<Longrightarrow> view (CReleasedState_onEntry a w)" "view w \<Longrightarrow> view (CTerminatedState_onEntry a w)" for a w
    by (simp_all add: CReleasedState_onEntry_def CTerminatedState_onEntry_def startTimer_def Start_def view_destroy)
  have 2: "view w \<Longrightarrow> view (CIncomingState_onEntry c a w)" for a w
    by (simp add: CIncomingState_onEntry_def Let_def view_acceptCall)
  show "view w \<Longrightarrow> ?thesis"
    by (auto simp: changeState_def no_entry_def CConnectingState_onEntry_def CAlertingState_onEntry_def CActiveState_onEntry_def
        intro!: view_change_to view_inform 1 2 split: EStateId.split)
qed

lemma view_end:
  "view w \<Longrightarrow> view (end_by_user c a w)" "view w \<Longrightarrow> view (State_endCall c a w)" "view w \<Longrightarrow> view (CIdleState_endCall a w)"
  by (auto simp: end_by_user_def State_endCall_def CActiveState_endCall_def CIdleState_endCall_def
      intro!: view_changeState view_destroy split: EStateId.split)

lemma view_ops:
  "view w \<Longrightarrow> view (State_acceptCall a w)" "view w \<Longrightarrow> view (State_holdCall a w)" "view w \<Longrightarrow> view (State_retrieveCall c a w)"
  "view w \<Longrightarrow> view (State_onAlerting c a w)" "view w \<Longrightarrow> view (State_onConnect c a w)" "view w \<Longrightarrow> view (State_onReleased c a w)"
  "view w \<Longrightarrow> view (State_incomingCall c number info a w)" "view w \<Longrightarrow> view (timer_Tick c k a w)"
  by (auto simp: State_acceptCall_def State_holdCall_def State_retrieveCall_def State_onAlerting_def State_onConnect_def
      State_onReleased_def State_incomingCall_def CIdleState_incomingCall_def timer_Tick_def State_noReplyTimerExpired_def
      State_releasedTimerExpired_eq State_noResponseTimerExpired_def
      intro!: view_changeState view_destroy view_acceptCall view_end split: EStateId.split ETimerType.split)

lemma view_on_call: "view w \<Longrightarrow> (\<And>a w. view w \<Longrightarrow> view (f a w)) \<Longrightarrow> view (on_call r f w)"
  by (simp add: on_call_def split: smref.split)

lemma view_user:
  "view w \<Longrightarrow> view (onUserRelease c s w)" "view w \<Longrightarrow> view (onUserAnswer s w)" "view w \<Longrightarrow> view (onUserHoldRetrieve c s w)"
  by (auto simp: onUserRelease_def onUserAnswer_def onUserHoldRetrieve_def intro!: view_on_call view_end view_ops split: list.split)

lemma view_makeCall: "view w \<Longrightarrow> view (snd (State_makeCall e n acc a w))"
  by (simp add: State_makeCall_def CIdleState_makeCall_def Let_def view_changeState)

lemma view_add_call: "view w \<Longrightarrow> add_call e s a w = Inr w' \<Longrightarrow> view w'"
  by (auto simp: add_call_def Let_def view_on_call view_destroy split: sum.splits)

lemma view_createOutboundCall:
  assumes "view w" and "createOutboundCall e n acc w = Inr (r, w')"
  shows "view w'"
proof -
  let ?a = "length (w_objs w)" and ?w = "w\<lparr>w_objs := w_objs w @ [new_CStateMachine (w_now w)]\<rparr>"
  obtain s v where m: "State_makeCall e n acc ?a ?w = (s, v)" by fastforce
  have v: "view v" using view_makeCall[of ?w e n acc ?a] assms(1) m by simp
  show ?thesis using assms v m view_add_call[of "set_Session s ?a v" e s ?a]
    by (auto simp: createOutboundCall_def createStateMachine_def Let_def intro!: view_on_call view_ops split: if_splits sum.splits)
qed

lemma view_Activate: "view w \<Longrightarrow> Activate e p w = Inr w' \<Longrightarrow> view w'"
proof (cases p)
  case (ECreateSession n acc)
  assume "view w" "Activate e p w = Inr w'"
  then show ?thesis using view_createOutboundCall[of w e n acc] ECreateSession
    by (auto simp: Activate_def split: sum.splits)
qed (auto simp: Activate_def view_user)

lemma view_pending: "view w \<Longrightarrow> activatePendingAction e w = Inr w' \<Longrightarrow> view w'"
  by (auto simp: activatePendingAction_def dest: view_Activate split: option.splits sum.splits)

lemma view_onHoldConfirm: "view w \<Longrightarrow> State_onHoldConfirm e a w = Inr w' \<Longrightarrow> view w'"
  using view_pending[OF view_changeState[of w "e_config e" HOLDING a], of e]
  by (auto simp: State_onHoldConfirm_def split: if_splits sum.splits)

lemma map_sum_Inr: "map_sum id f x = Inr y \<longleftrightarrow> (\<exists>d. x = Inr d \<and> y = f d)"
  by (cases x) auto

lemma view_OnCallStateChanged: "view w \<Longrightarrow> OnCallStateChanged e s st w = Inr w' \<Longrightarrow> view w'"
  by (auto simp: OnCallStateChanged_def createStateMachine_def Let_def map_sum_Inr intro!: view_on_call view_ops view_end
      split: if_splits ESessionState.splits)

end

locale provider_growth = provider_view +
  assumes added_keeps: "Q cs l \<Longrightarrow> Q (cs @ [c]) (l @ [length cs])"
begin

lemma view_OnIncomingCall: "view w \<Longrightarrow> OnIncomingCall e s n info w = Inr w' \<Longrightarrow> view w'"
  by (auto simp: OnIncomingCall_def IncomingCallNotification_def Let_def intro!: added_keeps view_ops split: if_splits smref.splits)

lemma view_outside:
  assumes v: "view w" and o: "outside ev" and r: "run_event e ev w = Inr w'"
  shows "view w'"
proof (cases ev)
  case (Stack_state s st)
  then show ?thesis using r v by (auto simp: run_event_def intro: view_OnCallStateChanged)
next
  case (Stack_incoming s n info)
  then show ?thesis using r v by (auto simp: run_event_def intro: view_OnIncomingCall)
next
  case (Stack_hold_confirm s)
  then show ?thesis using r v by (auto simp: run_event_def OnCallNotification_def intro: view_onHoldConfirm split: smref.splits)
next
  case (Stack_replaced x y)
  then show ?thesis using r v
    by (auto simp: run_event_def OnCallReplaced_def Let_def on_call_def map_sum_Inr split: option.splits smref.splits)
next
  case (Timer_elapsed a k)
  then show ?thesis using r v by (auto simp: run_event_def intro: view_ops)
next
  case (Clock t)
  then show ?thesis using r v by (auto simp: run_event_def)
next
  case (Playback_ended s)
  then show ?thesis using r v
    by (auto simp: run_event_def set_completed_def upd_sip_def intro!: completed_keeps FindCallById_in split: option.splits)
qed (use o in \<open>simp_all add: outside_def\<close>)

end

section \<open>Runs\<close>

text \<open>The number of calls never falls, and a call that has left the list stays away and quiet.\<close>

definition gone :: "nat \<Rightarrow> SIPCall list \<Rightarrow> nat list \<Rightarrow> bool" where
  "gone i cs l = (i < length cs \<and> i \<notin> set l \<and> \<not> playbackCompleted (cs ! i))"

lemma nth_other: "j \<in> set l \<Longrightarrow> i \<notin> set l \<Longrightarrow> cs[j := x] ! i = cs ! i"
  by (metis nth_list_update_neq)

interpretation calls_number: provider_view "\<lambda>cs l. length cs = n" for n
  by unfold_locales simp_all

interpretation calls_kept: provider_growth "\<lambda>cs l. n \<le> length cs" for n
  by unfold_locales simp_all

interpretation calls_gone: provider_growth "gone i" for i
proof
  fix cs l j
  show "gone i cs l \<Longrightarrow> gone i cs (remove1 j l)" by (auto simp: gone_def dest: in_set_remove1 notin_set_remove1)
qed (auto simp: gone_def nth_append nth_other)

lemma Hangup_run: "call_run e w \<Longrightarrow> call_run e (Hangup (e_config e) i w)"
proof -
  assume r: "call_run e w"
  let ?s = "sipekCallId (w_sips w ! i)"
  have "call_run e (onUserRelease (e_config e) ?s w)" using r
    by (rule call_run.step[where ev = "User_release ?s"]) (simp_all add: event_ok_def run_event_def)
  then have "call_run e (if callState (w_sips w ! i) = Connected then onUserRelease (e_config e) ?s w else w)" using r by simp
  then show ?thesis unfolding Hangup_def Let_def
    by (rule call_run.step[where ev = "Playback_stopped i"]) (simp_all add: event_ok_def run_event_def)
qed

lemma AcceptCall_run: "call_run e w \<Longrightarrow> call_run e (AcceptCall i w)"
  by (auto simp: AcceptCall_def event_ok_def run_event_def intro: call_run.step[where ev = "User_answer (sipekCallId (w_sips w ! i))"])

lemma execute_run: "call_run e w \<Longrightarrow> call_run e (snd (execute (e_config e) i a as ps w))"
  by (auto simp: execute_def Hangup_run AcceptCall_run playWavFile_def event_ok_def run_event_def
      intro: call_run.step[where ev = "Play_file _ _"] split: IAction.split)

lemma tam_step_run:
  assumes "call_run e w" and "tam_step (e_config e) packs i pc w = Some (pc', w')"
  shows "call_run e w'"
proof (cases pc)
  case (Acting as ps)
  then show ?thesis using assms execute_run[OF assms(1), of i "hd as" "tl as" ps] by (auto simp: tam_step_def split: list.splits)
next
  case (Playing as ps)
  have "call_run e (upd_sip i (\<lambda>c. c\<lparr>playbackCompleted := False\<rparr>) w)" using assms(1)
    by (rule call_run.step[where ev = "Playback_awaited i"]) (simp_all add: event_ok_def run_event_def)
  then show ?thesis using Playing assms by (auto simp: tam_step_def split: if_splits)
qed (use assms in \<open>auto simp: tam_step_def Hangup_run split: if_splits sum.splits\<close>)

lemma sips_set_completed [simp]: "length (w_sips (set_completed i w)) = length (w_sips w)" "w_list (set_completed i w) = w_list w"
  by (simp_all add: set_completed_def upd_sip_def)

lemma tam_step_sips:
  assumes "tam_step c packs i pc w = Some (pc', w')"
  shows "length (w_sips w') = length (w_sips w)"
proof -
  have u: "length (w_sips (onUserRelease c s w)) = length (w_sips w)" "length (w_sips (onUserAnswer s w)) = length (w_sips w)" for s
    by (rule calls_number.view_user, simp)+
  then have h: "length (w_sips (Hangup c i w)) = length (w_sips w)" by (simp add: Hangup_def Let_def)
  show ?thesis using assms u h
    by (auto simp: tam_step_def execute_def AcceptCall_def playWavFile_def act_def upd_sip_def split: tam_pc.splits list.splits IAction.splits if_splits sum.splits)
qed

section \<open>Threads\<close>

text \<open>
  What a thread has still to do, for the packs of the account: the packs after the one that it works
  on, and the rest of its actions.
\<close>

fun on_track :: "ActionPack list \<Rightarrow> tam_pc \<Rightarrow> bool" where
  "on_track ps (Looping qs) = suffix qs ps"
| "on_track ps (Sleeping t qs) = suffix qs ps"
| "on_track ps (Acting as qs) = (\<exists>p. suffix (p # qs) ps \<and> suffix as (pack_actions p))"
| "on_track ps (Delaying t as qs) = (\<exists>p. suffix (p # qs) ps \<and> suffix as (pack_actions p))"
| "on_track ps (Playing as qs) = (\<exists>p. suffix (p # qs) ps \<and> suffix as (pack_actions p))"
| "on_track ps (Thrown x) = False"
| "on_track ps pc = True"

definition thread_ok :: "cs_exception + ActionPack list \<Rightarrow> tam_pc \<Rightarrow> bool" where
  "thread_ok packs pc = (case packs of Inl x \<Rightarrow> pc = Queued \<or> pc = Thrown x | Inr ps \<Rightarrow> on_track ps pc)"

lemma on_track_step:
  assumes "on_track ps pc" and "tam_step c (Inr ps) i pc w = Some (pc', w')"
  shows "on_track ps pc'"
proof (cases pc)
  case (Looping qs)
  then show ?thesis using assms by (cases qs) (auto simp: tam_step_def split: if_splits dest: suffix_ConsD)
next
  case (Acting as qs)
  then obtain p where p: "suffix (p # qs) ps" "suffix as (pack_actions p)" using assms(1) by auto
  show ?thesis
  proof (cases as)
    case Nil
    then show ?thesis using Acting assms(2) p(1) by (auto simp: tam_step_def dest: suffix_ConsD)
  next
    case (Cons a as')
    then have "suffix as' (pack_actions p)" using p(2) by (auto dest: suffix_ConsD)
    then show ?thesis using Acting Cons assms(2) p(1)
      by (auto simp: tam_step_def execute_def split: IAction.splits if_splits)
  qed
qed (use assms in \<open>auto simp: tam_step_def split: if_splits\<close>)

lemma thread_ok_step:
  assumes "thread_ok packs pc" and "tam_step c packs i pc w = Some (pc', w')"
  shows "thread_ok packs pc'"
proof (cases packs)
  case (Inl x)
  then show ?thesis using assms by (auto simp: thread_ok_def tam_step_def)
next
  case (Inr ps)
  then show ?thesis using assms on_track_step by (simp add: thread_ok_def)
qed

definition tam_ok :: "call_env \<Rightarrow> cs_exception + ActionPack list \<Rightarrow> call_world \<times> tam_pc list \<Rightarrow> bool" where
  "tam_ok e packs st = (case st of (w, ths) \<Rightarrow>
     call_run e w \<and> length ths = length (w_sips w) \<and> list_all (thread_ok packs) ths)"

lemma tam_ok_step:
  assumes "tam_ok e packs st" and "tam_event_step e packs tv st = Some st'"
  shows "tam_ok e packs st'"
proof -
  obtain w ths where st: "st = (w, ths)" by fastforce
  have r: "call_run e w" and l: "length ths = length (w_sips w)" and t: "list_all (thread_ok packs) ths"
    using assms(1) st by (simp_all add: tam_ok_def)
  show ?thesis
  proof (cases tv)
    case (Outside ev)
    then obtain w' where o: "outside ev" "event_ok ev w" "run_event e ev w = Inr w'" "st' = (w', new_threads ths w')"
      using assms(2) st by (auto simp: tam_event_step_def split: if_splits sum.splits)
    have "length ths \<le> length (w_sips w')" using calls_kept.view_outside[of "length ths" w ev e w'] l o by simp
    moreover have "thread_ok packs Queued" by (simp add: thread_ok_def split: sum.split)
    ultimately show ?thesis using o call_run.step[OF r o(2,3)] t by (auto simp: tam_ok_def new_threads_def list_all_iff)
  next
    case (Thread i)
    then obtain pc w' where s: "i < length ths" "tam_step (e_config e) packs i (ths ! i) w = Some (pc, w')" "st' = (w', ths[i := pc])"
      using assms(2) st by (auto simp: tam_event_step_def split: if_splits option.splits)
    have "thread_ok packs pc" using thread_ok_step[OF _ s(2)] t s(1) by (simp add: list_all_length)
    then show ?thesis using s tam_step_run[OF r s(2)] tam_step_sips[OF s(2)] l t
      by (auto simp: tam_ok_def list_all_iff dest!: set_update_subset_insert[THEN subsetD])
  qed
qed

lemma tam_run_ok: "tam_run e packs st \<Longrightarrow> tam_ok e packs st"
proof (induction rule: tam_run.induct)
  case (start now)
  have "w_sips (snd (Initialize 0 (no_calls now))) = []" by (simp add: Initialize_def no_calls_def)
  then show ?case by (simp add: tam_ok_def call_run.start)
qed (rule tam_ok_step)

fun tam_schedule :: "call_env \<Rightarrow> cs_exception + ActionPack list \<Rightarrow> tam_event list \<Rightarrow> call_world \<times> tam_pc list \<Rightarrow>
    (call_world \<times> tam_pc list) option" where
  "tam_schedule e packs [] st = Some st"
| "tam_schedule e packs (tv # tvs) st =
     (case tam_event_step e packs tv st of None \<Rightarrow> None | Some st' \<Rightarrow> tam_schedule e packs tvs st')"

lemma tam_schedule_run: "tam_run e packs st \<Longrightarrow> tam_schedule e packs tvs st = Some st' \<Longrightarrow> tam_run e packs st'"
  by (induction tvs arbitrary: st) (auto intro: tam_run.step split: option.splits)

definition ex_pack :: ActionPack where
  "ex_pack = \<lparr>pack_name = ''day'', pack_triggers = [TriggerCollector [Ring_delay 2000]],
     pack_actions = [AcceptCallAction, PlaywavAction ''hello'', HangupAction]\<rparr>"



section \<open>What goes wrong\<close>

lemma gone_other_thread:
  assumes "gone i (w_sips w) (w_list w)" and "i \<noteq> j" and "tam_step c packs j pc w = Some (pc', w')"
  shows "gone i (w_sips w') (w_list w')"
proof -
  have u: "gone i (w_sips (onUserRelease c s w)) (w_list (onUserRelease c s w))"
    "gone i (w_sips (onUserAnswer s w)) (w_list (onUserAnswer s w))" for s
    using assms(1) by (rule calls_gone.view_user)+
  have other: "gone i (w_sips (upd_sip j f v)) (w_list (upd_sip j f v)) = gone i (w_sips v) (w_list v)" for f v
    using assms(2) by (simp add: gone_def upd_sip_def)
  have "gone i (w_sips (Hangup c j w)) (w_list (Hangup c j w))"
    using u assms(1) by (simp add: Hangup_def Let_def set_completed_def other)
  then show ?thesis using assms u
    by (auto simp: tam_step_def execute_def AcceptCall_def playWavFile_def act_def other
        split: tam_pc.splits list.splits IAction.splits if_splits sum.splits)
qed

definition waits_in_vain :: "nat \<Rightarrow> tam_pc \<Rightarrow> call_world \<times> tam_pc list \<Rightarrow> bool" where
  "waits_in_vain i pc st = (case st of (w, ths) \<Rightarrow> i < length ths \<and> ths ! i = pc \<and> gone i (w_sips w) (w_list w))"

lemma waits_in_vain_step:
  assumes "waits_in_vain i (Playing as ps) st" and "tam_event_step e packs tv st = Some st'"
  shows "waits_in_vain i (Playing as ps) st'"
proof -
  obtain w ths where st: "st = (w, ths)" by fastforce
  have i: "i < length ths" "ths ! i = Playing as ps" and g: "gone i (w_sips w) (w_list w)"
    using assms(1) st by (simp_all add: waits_in_vain_def)
  show ?thesis
  proof (cases tv)
    case (Outside ev)
    then show ?thesis using assms(2) st i calls_gone.view_outside[OF g]
      by (auto simp: tam_event_step_def waits_in_vain_def new_threads_def nth_append split: if_splits sum.splits)
  next
    case (Thread j)
    show ?thesis
    proof (cases "j = i")
      case True
      then have "tam_step (e_config e) packs j (ths ! j) w = None" using i g by (simp add: tam_step_def gone_def)
      then show ?thesis using assms(2) st Thread i True by (simp add: tam_event_step_def)
    next
      case False
      then show ?thesis using assms(2) st Thread i
        by (auto simp: tam_event_step_def waits_in_vain_def intro: gone_other_thread[OF g, of j] split: if_splits option.splits)
    qed
  qed
qed

text \<open>
  C35: A thread that starts a playback after its call has gone waits for ever: the call is no longer in
  the list of the provider, where the end of a playback and the end of the call look for it, so that
  nothing sets its event any more, whatever happens later. (The event is set once by the end of the
  call, so that this needs two playbacks after it.)
\<close>

theorem playback_after_end_blocks_thread:
  assumes "tam_run e packs (w, ths)" and "i < length ths" and "ths ! i = Playing as ps"
    and "i \<notin> set (w_list w)" and "\<not> playbackCompleted (w_sips w ! i)"
    and "tam_schedule e packs tvs (w, ths) = Some (w', ths')"
  shows "ths' ! i = Playing as ps \<and> tam_step (e_config e) packs i (ths' ! i) w' = None"
proof -
  have "length ths = length (w_sips w)" using tam_run_ok[OF assms(1)] by (simp add: tam_ok_def)
  then have "waits_in_vain i (Playing as ps) (w, ths)" using assms by (simp add: waits_in_vain_def gone_def)
  then have "waits_in_vain i (Playing as ps) (w', ths')" using assms(6)
  proof (induction tvs arbitrary: w ths)
    case (Cons tv tvs)
    then obtain st where s: "tam_event_step e packs tv (w, ths) = Some st" "tam_schedule e packs tvs st = Some (w', ths')"
      by (auto split: option.splits)
    from waits_in_vain_step[OF Cons.prems(1) s(1)] Cons.IH[of "fst st" "snd st"] s(2) show ?case by simp
  qed simp
  then show ?thesis by (simp add: waits_in_vain_def tam_step_def gone_def)
qed

text \<open>A pack with three messages, whose caller hangs up during the first one.\<close>

definition ex_messages :: ActionPack where
  "ex_messages = \<lparr>pack_name = ''news'', pack_triggers = [],
     pack_actions = [AcceptCallAction, PlaywavAction ''a'', PlaywavAction ''b'', PlaywavAction ''c'']\<rparr>"

definition ex_blocked :: "tam_event list" where
  "ex_blocked = [Outside (Stack_state 3 SESSION_STATE_INCOMING), Outside (Stack_incoming 3 ''55'' ''''), Thread 0, Thread 0, Thread 0, Thread 0,
     Outside (Playback_ended 3), Thread 0, Outside (Stack_state 3 SESSION_STATE_DISCONNECTED), Outside (Timer_elapsed 0 ERELEASED), Thread 0, Thread 0, Thread 0]"

theorem playback_after_end_blocks_thread_witness:
  "snd (the (tam_schedule ex_env (Inr [ex_messages]) [Outside (Clock 90000000000)]
     (the (tam_schedule ex_env (Inr [ex_messages]) ex_blocked (ex_start, []))))) ! 0 = Playing [] []"
proof -
  let ?st = "the (tam_schedule ex_env (Inr [ex_messages]) ex_blocked (ex_start, []))"
  have "tam_run ex_env (Inr [ex_messages]) (ex_start, [])" unfolding ex_start_def by (rule tam_run.start)
  moreover have "tam_schedule ex_env (Inr [ex_messages]) ex_blocked (ex_start, []) = Some ?st" by code_simp
  ultimately have "tam_run ex_env (Inr [ex_messages]) ?st" by (rule tam_schedule_run)
  then have r: "tam_run ex_env (Inr [ex_messages]) (fst ?st, snd ?st)" by (simp only: prod.collapse)
  let ?st' = "the (tam_schedule ex_env (Inr [ex_messages]) [Outside (Clock 90000000000)] ?st)"
  have h: "0 < length (snd ?st)" "snd ?st ! 0 = Playing [] []" "0 \<notin> set (w_list (fst ?st))" "\<not> playbackCompleted (w_sips (fst ?st) ! 0)"
    by code_simp+
  have "tam_schedule ex_env (Inr [ex_messages]) [Outside (Clock 90000000000)] ?st = Some ?st'" by code_simp
  then have "tam_schedule ex_env (Inr [ex_messages]) [Outside (Clock 90000000000)] (fst ?st, snd ?st) = Some (fst ?st', snd ?st')"
    by (simp only: prod.collapse)
  from playback_after_end_blocks_thread[OF r h this] show ?thesis by blast
qed

text \<open>
  The answering machine does not hang up a call that rings: when a thread ends while its call is
  ringing, because the account has no action packs or they did not answer the call, \<open>Hangup\<close> asks
  nothing of call control and the call goes on ringing.
\<close>

theorem ringing_call_is_not_hung_up:
  assumes "callState (w_sips w ! i) = Ringing" and "tam_step c packs i pc w = Some (Ended, w')"
  shows "w' = set_completed i w \<and> w_acts w' = w_acts w \<and> w_objs w' = w_objs w \<and> w_calls w' = w_calls w"
proof -
  have "w' = set_completed i w"
    using assms by (auto simp: tam_step_def execute_def Hangup_def call_over_def
        split: tam_pc.splits list.splits IAction.splits if_splits sum.splits)
  then show ?thesis by (simp add: set_completed_def upd_sip_def)
qed

theorem ringing_call_is_not_hung_up_witness:
  "\<exists>w w'. tam_schedule ex_env (Inr []) [Outside (Stack_state 3 SESSION_STATE_INCOMING), Outside (Stack_incoming 3 ''55'' '''')] (ex_start, []) = Some (w, [Queued]) \<and>
     tam_step (e_config ex_env) (Inr []) 0 Queued w = Some (Ended, w') \<and> w_acts w' = w_acts w"
proof -
  let ?w = "fst (the (tam_schedule ex_env (Inr []) [Outside (Stack_state 3 SESSION_STATE_INCOMING), Outside (Stack_incoming 3 ''55'' '''')] (ex_start, [])))"
  let ?w' = "snd (the (tam_step (e_config ex_env) (Inr []) 0 Queued ?w))"
  have "tam_schedule ex_env (Inr []) [Outside (Stack_state 3 SESSION_STATE_INCOMING), Outside (Stack_incoming 3 ''55'' '''')] (ex_start, []) = Some (?w, [Queued])"
    and s: "callState (w_sips ?w ! 0) = Ringing" and t: "tam_step (e_config ex_env) (Inr []) 0 Queued ?w = Some (Ended, ?w')" by code_simp+
  then show ?thesis using ringing_call_is_not_hung_up[OF s t] by blast
qed

end
