(* ===== verification/Tam_Message.thy ===== *)
theory Tam_Message
  imports Tam_Actions_Spec
begin

text \<open>
  The purpose of the program, from end to end: a call comes in, rings, is answered by the action pack of
  the account, hears the message, is hung up and logged. The run is over call control, the provider and
  the thread of the call together; numbers, names, times, the delay and the file are arbitrary.
\<close>

section \<open>The run\<close>

definition message_pack :: "int \<Rightarrow> string \<Rightarrow> ActionPack" where
  "message_pack d file = \<lparr>pack_name = '''', pack_triggers = [TriggerCollector [Ring_delay d]],
     pack_actions = [AcceptCallAction, PlaywavAction file, HangupAction]\<rparr>"

text \<open>
  The call arrives and the thread finds the pack not triggered yet; at \<open>t1\<close> the pack is triggered; at \<open>t2\<close>
  the playback ends; at \<open>t3\<close> the thread wakes up for the last time.
\<close>

definition ring_events :: "int \<Rightarrow> string \<Rightarrow> string \<Rightarrow> tam_event list" where
  "ring_events s num info =
     [Outside (Stack_state s SESSION_STATE_INCOMING), Outside (Stack_incoming s num info), Thread 0, Thread 0]"

definition answer_events :: "int \<Rightarrow> tam_event list" where
  "answer_events t1 = [Outside (Clock t1), Thread 0, Thread 0, Thread 0, Thread 0]"

definition hangup_events :: "int \<Rightarrow> int \<Rightarrow> tam_event list" where
  "hangup_events s t2 = [Outside (Clock t2), Outside (Playback_ended s), Thread 0, Thread 0, Thread 0]"

definition end_events :: "int \<Rightarrow> int \<Rightarrow> tam_event list" where
  "end_events s t3 = [Outside (Stack_state s SESSION_STATE_DISCONNECTED), Outside (Clock t3), Thread 0, Thread 0]"

text \<open>The state between the parts of the run: one state machine and one call of the provider.\<close>

definition msg_machine :: "EStateId \<Rightarrow> ECallType \<Rightarrow> int \<Rightarrow> int \<Rightarrow> bool \<Rightarrow> int \<Rightarrow> string \<Rightarrow> string \<Rightarrow> CStateMachine" where
  "msg_machine st ty dur ts on s num info = \<lparr>sm_state = st, callType = ty, duration = dur, timestamp = ts,
     noreplyTimer = \<lparr>timer_interval = 15000, timer_enabled = st = INCOMING\<rparr>, releasedTimer = \<lparr>timer_interval = 5000, timer_enabled = on\<rparr>,
     noresponseTimer = \<lparr>timer_interval = 60000, timer_enabled = st = INCOMING\<rparr>, session = s, proxySession = s, callingNumber = num,
     callingName = info, incoming = True, counting = st \<noteq> INCOMING, holdRequested = False, retrieveRequested = False,
     disableStateNotifications = False\<rparr>"

definition msg_world :: "CStateMachine \<Rightarrow> int \<Rightarrow> CallState \<Rightarrow> int \<Rightarrow> string \<Rightarrow> bool \<Rightarrow> int \<Rightarrow> call_action list \<Rightarrow> call_world" where
  "msg_world m s st date num pb t acts = \<lparr>w_objs = [m], w_calls = [(s, SM 0)], w_pending = None, w_init = True,
     w_sips = [\<lparr>sipekCallId = s, callState = st, call_date = date, remoteIdentifier = num, account = 0, playbackCompleted = pb\<rparr>],
     w_list = [0], w_now = t, w_acts = acts\<rparr>"

section \<open>Its parts\<close>

lemmas msg_eval = msg_world_def msg_machine_def tam_event_step_def outside_def event_ok_def run_event_def
    dict_contains_def dict_add_def getCall_def StateId_def set_Session_def upd_sm_def change_to_def onExit_def sm_def
    startTimer_def Start_def proxy_def act_def inform_def updateGui_def onCallStateChanged_def FindCallById_def
    new_threads_def tam_step_def call_over_def Let_def set_callState_def set_completed_def upd_sip_def on_call_def ticks_per_ms_def

lemma message_ring:
  assumes "s \<noteq> - 1" and "0 < d" and "e_accounts e \<noteq> 0"
    and "\<not> CFUFlag (e_config e)" and "\<not> DNDFlag (e_config e)" and "\<not> AAFlag (e_config e)"
  shows "tam_schedule e (Inr [message_pack d file]) (ring_events s num info) (snd (Initialize 0 (no_calls now)), [])
    = Some (msg_world (msg_machine INCOMING EMissed 0 now True s num info) s Ringing now num False now
        [Proxy 0 s P_alerted, Play_tone EToneRing, Refresh s, Incoming_notification s num info],
        [Sleeping (now + 500 * ticks_per_ms) [message_pack d file]])"
  using assms
  by (cases "CFNRFlag (e_config e)")
    (simp_all add: ring_events_def message_pack_def Initialize_def no_calls_def msg_eval OnCallStateChanged_def createStateMachine_def
      OnIncomingCall_def State_incomingCall_def CIdleState_incomingCall_def changeState_def new_CStateMachine_def CIncomingState_onEntry_def
      IncomingCallNotification_def new_SIPCall_def triggered_def RingDelay_IsTriggered_def createTimer_def set_Interval_def)

lemma message_answer:
  assumes "s \<noteq> - 1" and "now + 500 * ticks_per_ms \<le> t1" and "now + d * ticks_per_ms \<le> t1"
  shows "tam_schedule e (Inr [message_pack d file]) (answer_events t1)
      (msg_world (msg_machine INCOMING EMissed 0 now True s num info) s Ringing now num False now acts,
       [Sleeping (now + 500 * ticks_per_ms) [message_pack d file]])
    = Some (msg_world (msg_machine ACTIVE EReceived 0 t1 False s num info) s Connected now num False t1
        (acts @ [Proxy 0 s P_acceptCall, Stop_tone, Stop_tone, Refresh s, Play_wav s (file @ ''.sampled'')]),
        [Playing [HangupAction] []])"
  using assms
  by (simp add: answer_events_def message_pack_def msg_eval triggered_def RingDelay_IsTriggered_def
    execute_def AcceptCall_def onUserAnswer_def enumCallsInState_def index_call_def State_acceptCall_def CIncomingState_acceptCall_def
    CActiveState_onEntry_def stopAllTimers_def Stop_def playWavFile_def)

lemma message_hangup:
  assumes "s \<noteq> - 1" and "t1 \<le> t2"
  shows "tam_schedule e packs (hangup_events s t2)
      (msg_world (msg_machine ACTIVE EReceived 0 t1 False s num info) s Connected now num False t1 acts, [Playing [HangupAction] []])
    = Some (msg_world (msg_machine TERMINATED EReceived (t2 - t1) t1 True s num info) s Disconnected now num True t2
        (acts @ [Refresh s, Proxy 0 s P_endCall]), [Sleeping (t2 + 500 * ticks_per_ms) []])"
  using assms
  by (simp add: hangup_events_def msg_eval execute_def Hangup_def onUserRelease_def index_call_def
    State_endCall_def CActiveState_endCall_def end_by_user_def changeState_def CTerminatedState_onEntry_def)

lemma message_idle_shown:
  "sm_state m = IDLE \<Longrightarrow> updateGui s (msg_world m s st now num pb t acts) = msg_world m s Disconnected now num True t (acts @ [Refresh s])"
  by (simp add: msg_world_def updateGui_def act_def onCallStateChanged_def FindCallById_def getCall_def dict_contains_def StateId_def sm_def
      set_callState_def set_completed_def upd_sip_def)

lemma message_session_destroyed:
  assumes "\<not> disableStateNotifications m"
  shows "destroySession s (msg_world m s st now num pb t acts)
    = (msg_world m s Disconnected now num pb t (acts @ [Refresh s]))\<lparr>w_calls := [], w_list := []\<rparr>"
  using assms
  by (simp add: msg_world_def destroySession_def dict_remove_def updateGui_def act_def onCallStateChanged_def FindCallById_def getCall_def
      dict_contains_def StateId_def sm_def set_callState_def upd_sip_def)

definition msg_idle :: "int \<Rightarrow> int \<Rightarrow> int \<Rightarrow> string \<Rightarrow> CStateMachine" where
  "msg_idle dur ts s info = (msg_machine IDLE EReceived dur ts False s [] info)\<lparr>incoming := False\<rparr>"

lemma message_destroyed:
  assumes "s \<noteq> - 1"
  shows "destroy 0 (msg_world (msg_machine TERMINATED EReceived (t2 - t1) t1 True s num info) s Disconnected now num True t2 acts)
    = (msg_world (msg_idle (t2 - t1) t1 s info) s Disconnected now num True t2
        (acts @ [Stop_tone, Add_call 0 EReceived num info t1 (t2 - t1), Save_log, Refresh s, Refresh s]))\<lparr>w_calls := [], w_list := []\<rparr>"
proof -
  let ?i = "msg_idle (t2 - t1) t1 s info" and ?acts = "acts @ [Stop_tone, Add_call 0 EReceived num info t1 (t2 - t1), Save_log]"
  have "destroy 0 (msg_world (msg_machine TERMINATED EReceived (t2 - t1) t1 True s num info) s Disconnected now num True t2 acts)
      = (let w = inform 0 (msg_world ?i s Disconnected now num True t2 ?acts) in destroySession (session (sm w 0)) w)"
    by (simp add: msg_world_def msg_machine_def msg_idle_def destroy_def stopAllTimers_def Stop_def upd_sm_def sm_def act_def
        add_to_log_def change_to_def onExit_def no_entry_def Let_def)
  also have "inform 0 (msg_world ?i s Disconnected now num True t2 ?acts) = msg_world ?i s Disconnected now num True t2 (?acts @ [Refresh s])"
  proof -
    have "session (sm (msg_world ?i s Disconnected now num True t2 ?acts) 0) = s" "\<not> disableStateNotifications (sm (msg_world ?i s Disconnected now num True t2 ?acts) 0)"
      by (simp_all add: msg_world_def msg_idle_def msg_machine_def sm_def)
    then show ?thesis using assms by (simp add: inform_def message_idle_shown msg_idle_def msg_machine_def)
  qed
  finally have "destroy 0 (msg_world (msg_machine TERMINATED EReceived (t2 - t1) t1 True s num info) s Disconnected now num True t2 acts)
      = (let w = msg_world ?i s Disconnected now num True t2 (?acts @ [Refresh s]) in destroySession (session (sm w 0)) w)" .
  moreover have "session (sm (msg_world ?i s Disconnected now num True t2 (?acts @ [Refresh s])) 0) = s"
    by (simp add: msg_world_def msg_idle_def msg_machine_def sm_def)
  ultimately show ?thesis by (simp add: Let_def message_session_destroyed msg_idle_def msg_machine_def)
qed

lemma message_end:
  assumes "s \<noteq> - 1" and "t2 + 500 * ticks_per_ms \<le> t3"
  shows "tam_schedule e packs (end_events s t3)
      (msg_world (msg_machine TERMINATED EReceived (t2 - t1) t1 True s num info) s Disconnected now num True t2 acts,
       [Sleeping (t2 + 500 * ticks_per_ms) []])
    = Some ((msg_world (msg_idle (t2 - t1) t1 s info) s Disconnected now num True t3
        (acts @ [Stop_tone, Add_call 0 EReceived num info t1 (t2 - t1), Save_log, Refresh s, Refresh s]))\<lparr>w_calls := [], w_list := []\<rparr>, [Ended])"
proof -
  let ?w = "msg_world (msg_machine TERMINATED EReceived (t2 - t1) t1 True s num info) s Disconnected now num True t2 acts"
  let ?w' = "(msg_world (msg_idle (t2 - t1) t1 s info) s Disconnected now num True t2
        (acts @ [Stop_tone, Add_call 0 EReceived num info t1 (t2 - t1), Save_log, Refresh s, Refresh s]))\<lparr>w_calls := [], w_list := []\<rparr>"
  have "getCall s ?w = SM 0" "sm_state (sm ?w 0) = TERMINATED" by (simp_all add: msg_world_def msg_machine_def getCall_def dict_contains_def sm_def)
  then have "OnCallStateChanged e s SESSION_STATE_DISCONNECTED ?w = Inr ?w'"
    by (simp add: OnCallStateChanged_def Let_def on_call_def State_onReleased_def message_destroyed[OF assms(1)])
  moreover have "t2 \<le> t3" using assms(2) by (simp add: ticks_per_ms_def)
  ultimately show ?thesis using assms(2)
    by (simp add: end_events_def tam_event_step_def outside_def event_ok_def run_event_def new_threads_def msg_world_def tam_step_def call_over_def)
qed

lemma tam_schedule_append:
  "tam_schedule e packs tvs st = Some st' \<Longrightarrow> tam_schedule e packs (tvs @ tvs') st = tam_schedule e packs tvs' st'"
  by (induction tvs arbitrary: st) (auto split: option.splits)

section \<open>The whole\<close>

fun is_playback :: "call_action \<Rightarrow> bool" where
  "is_playback (Play_wav s file) = True"
| "is_playback x = False"

text \<open>
  C5: The answering machine answers. On an idle machine, with an account whose pack has a ring delay and
  the actions to accept, to play a message and to hang up, an incoming call goes through: the run
  exists, and in it the stack is asked to signal ringing, to answer the call, to play the converted
  file and to end the call, in this order; the thread ends, the call is gone from the table and from the
  provider, and the log has it as received, from the time of the answer, for the time until the end.
\<close>

theorem message_is_played:
  assumes "s \<noteq> - 1" and "0 < d" and "e_accounts e \<noteq> 0"
    and "\<not> CFUFlag (e_config e)" and "\<not> DNDFlag (e_config e)" and "\<not> AAFlag (e_config e)"
    and "now + 500 * ticks_per_ms \<le> t1" and "now + d * ticks_per_ms \<le> t1" and "t1 \<le> t2" and "t2 + 500 * ticks_per_ms \<le> t3"
  shows "\<exists>w. tam_schedule e (Inr [message_pack d file]) (ring_events s num info @ answer_events t1 @ hangup_events s t2 @ end_events s t3)
      (snd (Initialize 0 (no_calls now)), []) = Some (w, [Ended]) \<and> w_calls w = [] \<and> w_list w = [] \<and>
    filter (\<lambda>x. mine 0 x \<or> is_playback x) (w_acts w) =
      [Proxy 0 s P_alerted, Proxy 0 s P_acceptCall, Play_wav s (file @ ''.sampled''), Proxy 0 s P_endCall,
       Add_call 0 EReceived num info t1 (t2 - t1)]"
  unfolding tam_schedule_append[OF message_ring[OF assms(1-6)]] tam_schedule_append[OF message_answer[OF assms(1,7,8)]]
    tam_schedule_append[OF message_hangup[OF assms(1,9)]] message_end[OF assms(1,10)]
  by (simp add: msg_world_def)

theorem message_is_played_witness:
  "\<exists>w. tam_schedule ex_env (Inr [message_pack 2000 ''hello'']) (ring_events 3 ''55'' [] @ answer_events 30000000 @ hangup_events 3 80000000 @ end_events 3 90000000)
      (ex_start, []) = Some (w, [Ended]) \<and> w_calls w = []"
proof -
  have h: "(3 :: int) \<noteq> - 1" "0 < (2000 :: int)" "e_accounts ex_env \<noteq> 0" "\<not> CFUFlag (e_config ex_env)" "\<not> DNDFlag (e_config ex_env)"
    "\<not> AAFlag (e_config ex_env)" "0 + 500 * ticks_per_ms \<le> 30000000" "0 + 2000 * ticks_per_ms \<le> 30000000"
    "30000000 \<le> (80000000 :: int)" "80000000 + 500 * ticks_per_ms \<le> 90000000" by code_simp+
  show ?thesis using message_is_played[OF h, of "''hello''" "''55''" "[]"] unfolding ex_start_def by blast
qed

section \<open>Automatic answer\<close>

text \<open>
  The call is announced to the provider after call control has answered it, so that the provider takes
  it for ringing.
\<close>

lemma auto_answer_rings:
  assumes "s \<noteq> - 1" and "e_accounts e \<noteq> 0"
    and "\<not> CFUFlag (e_config e)" and "\<not> DNDFlag (e_config e)" and "AAFlag (e_config e)"
  shows "tam_schedule e packs [Outside (Stack_state s SESSION_STATE_INCOMING), Outside (Stack_incoming s num info)]
      (snd (Initialize 0 (no_calls now)), [])
    = Some (msg_world (msg_machine ACTIVE EReceived 0 now False s num info) s Ringing now num False now
        [Proxy 0 s P_alerted, Play_tone EToneRing, Proxy 0 s P_acceptCall, Stop_tone, Stop_tone, Refresh s, Refresh s,
         Incoming_notification s num info], [Queued])"
  using assms
  by (cases "CFNRFlag (e_config e)")
    (simp_all add: Initialize_def no_calls_def msg_eval OnCallStateChanged_def createStateMachine_def
      OnIncomingCall_def State_incomingCall_def CIdleState_incomingCall_def changeState_def new_CStateMachine_def CIncomingState_onEntry_def
      CIncomingState_acceptCall_def CActiveState_onEntry_def stopAllTimers_def Stop_def
      IncomingCallNotification_def new_SIPCall_def createTimer_def set_Interval_def)

text \<open>
  C33: With automatic answer the answering machine does the opposite of what it is told: the call is
  active for call control and ringing for the provider; the action to accept the call then asks the
  stack to put it on hold, because an active call is in the way of the one to be answered, and the
  action to hang up asks for nothing.
\<close>

theorem auto_answered_call_is_put_on_hold:
  assumes "s \<noteq> - 1" and "e_accounts e \<noteq> 0"
    and "\<not> CFUFlag (e_config e)" and "\<not> DNDFlag (e_config e)" and "AAFlag (e_config e)"
  shows "\<exists>w. tam_schedule e packs [Outside (Stack_state s SESSION_STATE_INCOMING), Outside (Stack_incoming s num info)]
      (snd (Initialize 0 (no_calls now)), []) = Some (w, [Queued]) \<and>
    sm_state (w_objs w ! 0) = ACTIVE \<and> callState (w_sips w ! 0) = Ringing \<and>
    w_acts (AcceptCall 0 w) = w_acts w @ [Proxy 0 s P_holdCall] \<and> w_pending (AcceptCall 0 w) = Some (EUserAnswer s) \<and>
    w_acts (Hangup (e_config e) 0 w) = w_acts w \<and> w_objs (Hangup (e_config e) 0 w) = w_objs w"
  unfolding auto_answer_rings[OF assms]
  by (simp add: msg_world_def msg_machine_def AcceptCall_def onUserAnswer_def enumCallsInState_def StateId_def sm_def on_call_def
      State_holdCall_def upd_sm_def proxy_def act_def Hangup_def set_completed_def upd_sip_def)

theorem auto_answered_call_is_put_on_hold_witness:
  "\<exists>w. tam_schedule (ex_env\<lparr>e_config := ex_config\<lparr>AAFlag := True\<rparr>\<rparr>) (Inr [ex_pack])
      [Outside (Stack_state 3 SESSION_STATE_INCOMING), Outside (Stack_incoming 3 ''55'' [])] (ex_start, []) = Some (w, [Queued]) \<and>
    w_acts (AcceptCall 0 w) = w_acts w @ [Proxy 0 3 P_holdCall]"
proof -
  let ?e = "ex_env\<lparr>e_config := ex_config\<lparr>AAFlag := True\<rparr>\<rparr>"
  have h: "(3 :: int) \<noteq> - 1" "e_accounts ?e \<noteq> 0" "\<not> CFUFlag (e_config ?e)" "\<not> DNDFlag (e_config ?e)" "AAFlag (e_config ?e)"
    by code_simp+
  show ?thesis using auto_answered_call_is_put_on_hold[OF h, of "Inr [ex_pack]" "''55''" "[]" 0] unfolding ex_start_def by blast
qed

end
