(* ===== verification/Cs_Text.thy ===== *)
theory Cs_Text
  imports Cs_Base
begin

text \<open>
  The operations on strings with positions that the C# parts use: \<open>IndexOf\<close> with the position from which it
  searches (-1 when there is no occurrence), \<open>Substring\<close> and \<open>Remove\<close> with their exceptions.
\<close>

definition occurs_at :: "string \<Rightarrow> string \<Rightarrow> nat \<Rightarrow> bool" where
  "occurs_at sub s i = (take (length sub) (drop i s) = sub)"

definition IndexOf :: "string \<Rightarrow> nat \<Rightarrow> string \<Rightarrow> int" where
  "IndexOf sub from s =
     (case List.find (occurs_at sub s) [from..<length s + 1 - length sub] of None \<Rightarrow> - 1 | Some i \<Rightarrow> int i)"

definition Substring :: "int \<Rightarrow> int \<Rightarrow> string \<Rightarrow> cs_exception + string" where
  "Substring start len s =
     (if start < 0 \<or> len < 0 \<or> start + len > int (length s) then Inl ArgumentOutOfRangeException
      else Inr (take (nat len) (drop (nat start) s)))"

definition Substring_from :: "int \<Rightarrow> string \<Rightarrow> cs_exception + string" where
  "Substring_from start s = Substring start (int (length s) - start) s"

definition Remove :: "int \<Rightarrow> int \<Rightarrow> string \<Rightarrow> cs_exception + string" where
  "Remove start len s =
     (if start < 0 \<or> len < 0 \<or> start + len > int (length s) then Inl ArgumentOutOfRangeException
      else Inr (take (nat start) s @ drop (nat (start + len)) s))"

lemma find_upt: "List.find P [m..<n] = Some i \<longleftrightarrow> m \<le> i \<and> i < n \<and> P i \<and> (\<forall>j. m \<le> j \<and> j < i \<longrightarrow> \<not> P j)"
proof -
  have "List.find P [m..<n] = Some i \<longleftrightarrow> (\<exists>k. k < n - m \<and> P (m + k) \<and> i = m + k \<and> (\<forall>j<k. \<not> P (m + j)))"
    by (auto simp: find_Some_iff)
  also have "\<dots> \<longleftrightarrow> m \<le> i \<and> i < n \<and> P i \<and> (\<forall>j. m \<le> j \<and> j < i \<longrightarrow> \<not> P j)"
  proof (intro iffI; (elim exE conjE)?)
    fix k assume k: "k < n - m" "P (m + k)" "i = m + k" "\<forall>j<k. \<not> P (m + j)"
    have "\<not> P j" if "m \<le> j" "j < i" for j using k(4)[rule_format, of "j - m"] that k(3) by simp
    then show "m \<le> i \<and> i < n \<and> P i \<and> (\<forall>j. m \<le> j \<and> j < i \<longrightarrow> \<not> P j)" using k by auto
  next
    assume "m \<le> i" "i < n" "P i" "\<forall>j. m \<le> j \<and> j < i \<longrightarrow> \<not> P j"
    then show "\<exists>k. k < n - m \<and> P (m + k) \<and> i = m + k \<and> (\<forall>j<k. \<not> P (m + j))" by (intro exI[of _ "i - m"]) auto
  qed
  finally show ?thesis .
qed

lemma IndexOf_nonneg:
  assumes "sub \<noteq> []"
  shows "IndexOf sub m s = int i \<longleftrightarrow> m \<le> i \<and> occurs_at sub s i \<and> (\<forall>j. m \<le> j \<and> j < i \<longrightarrow> \<not> occurs_at sub s j)"
proof -
  have "i < length s + 1 - length sub" if "occurs_at sub s i"
  proof -
    have "length (take (length sub) (drop i s)) = length sub" using that by (simp add: occurs_at_def)
    then have "length sub \<le> length s - i" by simp
    then show ?thesis using assms by (cases sub) auto
  qed
  moreover have "IndexOf sub m s = int i \<longleftrightarrow> List.find (occurs_at sub s) [m..<length s + 1 - length sub] = Some i"
    by (auto simp: IndexOf_def split: option.splits)
  ultimately show ?thesis unfolding find_upt by blast
qed

lemma IndexOf_none:
  assumes "sub \<noteq> []"
  shows "IndexOf sub m s < 0 \<longleftrightarrow> (\<forall>j \<ge> m. \<not> occurs_at sub s j)"
proof
  assume neg: "IndexOf sub m s < 0"
  show "\<forall>j \<ge> m. \<not> occurs_at sub s j"
  proof (intro allI impI notI)
    fix j assume j: "m \<le> j" "occurs_at sub s j"
    define i where "i = (LEAST j. m \<le> j \<and> occurs_at sub s j)"
    have "m \<le> i \<and> occurs_at sub s i" unfolding i_def by (rule LeastI[of _ j]) (use j in simp)
    moreover have "\<not> occurs_at sub s k" if "m \<le> k" "k < i" for k using not_less_Least[of k "\<lambda>j. m \<le> j \<and> occurs_at sub s j"] that i_def by auto
    ultimately have "IndexOf sub m s = int i" using IndexOf_nonneg[OF assms] by blast
    then show False using neg by simp
  qed
next
  assume "\<forall>j \<ge> m. \<not> occurs_at sub s j"
  moreover have "List.find P xs = None" if "\<forall>x\<in>set xs. \<not> P x" for P :: "nat \<Rightarrow> bool" and xs using that by (simp add: find_None_iff)
  ultimately show "IndexOf sub m s < 0" by (simp add: IndexOf_def)
qed

lemma occurs_char: "occurs_at [c] s i \<longleftrightarrow> i < length s \<and> s ! i = c"
  by (cases "i < length s") (auto simp: occurs_at_def take_Suc_conv_app_nth[of 0, simplified] hd_drop_conv_nth take_Suc)

lemma occurs_append_left: "i + length sub \<le> length xs \<Longrightarrow> occurs_at sub (xs @ ys) i = occurs_at sub xs i"
  by (simp add: occurs_at_def)

lemma occurs_here: "occurs_at sub (xs @ sub @ ys) (length xs)"
  by (simp add: occurs_at_def)

end
