(* ===== verification/Sip_Wrapper.thy ===== *)
theory Sip_Wrapper
  imports Call_Data Cs_Text
begin

text \<open>
  The wrapper of the stack (\<^verbatim>\<open>SpiekSdk/Sip/pjsipCallWrapper.cs\<close>, \<open>SetTransport\<close> of \<^verbatim>\<open>pjsipWrapper.cs\<close>): how a
  request of call control becomes a call of the library, and how the caller is read from the address of
  an incoming call.
\<close>

section \<open>Requests\<close>

datatype ETransportMode = TM_UDP | TM_TCP | TM_TLS

record IAccount =
  HostName :: string
  acc_Index :: int
  TransportMode :: ETransportMode

datatype dll_call =
    Dll_makeCall int string | Dll_releaseCall int | Dll_answerCall int int | Dll_holdCall int | Dll_retrieveCall int
  | Dll_xferCall int string | Dll_xferCallWithReplaces int int | Dll_serviceReq int EServiceCodes string
  | Dll_dialDtmf int string | Dll_makeConference int

definition account_at :: "IAccount list \<Rightarrow> int \<Rightarrow> cs_exception + IAccount" where
  "account_at accounts i = (if 0 \<le> i \<and> i < int (length accounts) then Inr (accounts ! nat i) else Inl ArgumentOutOfRangeException)"

definition SetTransport :: "IAccount list \<Rightarrow> int \<Rightarrow> string \<Rightarrow> string" where
  "SetTransport accounts accountId sipuri =
     (case account_at accounts accountId of
        Inl _ \<Rightarrow> sipuri
      | Inr a \<Rightarrow> (case TransportMode a of
                    TM_TCP \<Rightarrow> sipuri @ '';transport=tcp'' | TM_TLS \<Rightarrow> sipuri @ '';transport=tls'' | TM_UDP \<Rightarrow> sipuri))"

definition makeCall_uri :: "IAccount list \<Rightarrow> string \<Rightarrow> int \<Rightarrow> cs_exception + string" where
  "makeCall_uri accounts dialedNo accountId =
     (if IndexOf ''sip:'' 0 dialedNo = 0 then Inr dialedNo
      else bind_sum (account_at accounts accountId) (\<lambda>a. Inr (''sip:'' @ dialedNo @ ''@'' @ HostName a)))"

text \<open>The call of the library for a request to the proxy with session \<open>s\<close>; \<open>def\<close> is the default account.\<close>

definition proxy_call :: "IAccount list \<Rightarrow> int \<Rightarrow> int \<Rightarrow> proxy_op \<Rightarrow> cs_exception + dll_call" where
  "proxy_call accounts def s r =
     (case r of
        P_makeCall dialedNo accountId \<Rightarrow>
          bind_sum (makeCall_uri accounts dialedNo accountId) (\<lambda>uri.
          bind_sum (account_at accounts accountId) (\<lambda>a. Inr (Dll_makeCall (acc_Index a) (SetTransport accounts accountId uri))))
      | P_endCall \<Rightarrow> Inr (Dll_releaseCall s)
      | P_alerted \<Rightarrow> Inr (Dll_answerCall s 180)
      | P_acceptCall \<Rightarrow> Inr (Dll_answerCall s 200)
      | P_holdCall \<Rightarrow> Inr (Dll_holdCall s)
      | P_retrieveCall \<Rightarrow> Inr (Dll_retrieveCall s)
      | P_xferCall num \<Rightarrow> bind_sum (account_at accounts def) (\<lambda>a. Inr (Dll_xferCall s (''sip:'' @ num @ ''@'' @ HostName a)))
      | P_xferCallSession partner \<Rightarrow> Inr (Dll_xferCallWithReplaces s partner)
      | P_serviceRequest code dest \<Rightarrow>
          bind_sum (account_at accounts def) (\<lambda>a. Inr (Dll_serviceReq s code (''<sip:'' @ dest @ ''@'' @ HostName a @ ''>'')))
      | P_dialDtmf digits \<Rightarrow> Inr (Dll_dialDtmf s digits)
      | P_conferenceCall \<Rightarrow> Inr (Dll_makeConference s))"

section \<open>The caller\<close>

text \<open>
  The number and the name that \<open>onCallIncoming\<close> reports. Without \<^verbatim>\<open><sip:\<close> in the address the code looks for
  separators in the name, which is still empty then.
\<close>

definition cut_before :: "string \<Rightarrow> string \<Rightarrow> cs_exception + string option" where
  "cut_before sep display =
     (let p = IndexOf sep 0 display
      in if p \<ge> 0 then bind_sum (Remove p (int (length display) - p) display) (\<lambda>x. Inr (Some x)) else Inr None)"

definition onCallIncoming :: "string option \<Rightarrow> cs_exception + string \<times> string" where
  "onCallIncoming sturi =
     (case sturi of
        None \<Rightarrow> Inr ('''', '''')
      | Some uri \<Rightarrow>
          (let startNum = IndexOf ''<sip:'' 0 uri; atPos = IndexOf ''@'' 0 uri in
           bind_sum (if startNum \<ge> 0 \<and> atPos > startNum then Substring (startNum + 5) (atPos - startNum - 5) uri else Inr '''') (\<lambda>num.
           bind_sum (if startNum \<ge> 0 then bind_sum (Remove startNum (int (length uri) - startNum) uri) (\<lambda>x. Inr (Trim x))
                     else bind_sum (cut_before '';'' '''') (\<lambda>r. case r of
                            Some x \<Rightarrow> Inr x
                          | None \<Rightarrow> bind_sum (cut_before '':'' '''') (\<lambda>r. Inr (case r of Some x \<Rightarrow> x | None \<Rightarrow> ''''))))
             (\<lambda>display. Inr (num, display)))))"

section \<open>What is recognised\<close>

lemma find_start:
  assumes "\<And>i. i < length display \<Longrightarrow> \<not> occurs_at ''<sip:'' (display @ ''<sip:'' @ rest) i"
  shows "IndexOf ''<sip:'' 0 (display @ ''<sip:'' @ rest) = int (length display)"
  using assms occurs_here[of "''<sip:''" display rest] by (simp add: IndexOf_nonneg)

lemma find_char:
  assumes "c \<notin> set xs"
  shows "IndexOf [c] 0 (xs @ c # ys) = int (length xs)"
  using assms by (auto simp: IndexOf_nonneg occurs_char nth_append)

lemma sip_start:
  assumes "occurs_at ''<sip:'' uri i" and "i \<le> k" and "k < i + 5"
  shows "k < length uri \<and> uri ! k \<noteq> CHR ''@''"
proof -
  have t: "take 5 (drop i uri) = ''<sip:''" using assms(1) by (simp add: occurs_at_def numeral_eq_Suc)
  have "length (take 5 (drop i uri)) = 5" unfolding t by simp
  then have l: "i + 5 \<le> length uri" by simp
  have "uri ! k = ''<sip:'' ! (k - i)" using arg_cong[OF t, of "\<lambda>x. x ! (k - i)"] assms l by simp
  moreover have "''<sip:'' ! j \<noteq> CHR ''@''" if "j < 5" for j
    using that by (auto simp: less_Suc_eq numeral_eq_Suc)
  ultimately show ?thesis using assms l by simp
qed

lemma Substring_between: "i + 5 \<le> p \<Longrightarrow> p \<le> length uri \<Longrightarrow>
    Substring (int i + 5) (int p - int i - 5) uri = Inr (take (p - i - 5) (drop (i + 5) uri))"
proof -
  assume h: "i + 5 \<le> p" "p \<le> length uri"
  have "nat (int p - int i - 5) = p - i - 5" "nat (int i + 5) = i + 5" by linarith+
  then show ?thesis using h unfolding Substring_def by auto
qed

lemma Remove_tail: "i \<le> length uri \<Longrightarrow> Remove (int i) (int (length uri) - int i) uri = Inr (take i uri)"
  by (simp add: Remove_def)

lemma onCallIncoming_start:
  assumes "IndexOf ''<sip:'' 0 uri = int i"
  shows "onCallIncoming (Some uri) =
    (let p = IndexOf ''@'' 0 uri in Inr (if p > int i then take (nat p - i - 5) (drop (i + 5) uri) else [], Trim (take i uri)))"
proof -
  have o: "occurs_at ''<sip:'' uri i" using assms by (simp add: IndexOf_nonneg)
  have i: "i < length uri" using sip_start[OF o, of i] by simp
  have e: "onCallIncoming (Some uri) = bind_sum
      (if IndexOf ''@'' 0 uri > int i then Substring (int i + 5) (IndexOf ''@'' 0 uri - int i - 5) uri else Inr [])
      (\<lambda>num. Inr (num, Trim (take i uri)))"
  proof -
    have "bind_sum (Remove (int i) (int (length uri) - int i) uri) (\<lambda>x. Inr (Trim x)) = Inr (Trim (take i uri))"
      using i by (simp add: Remove_tail bind_sum_def)
    then show ?thesis unfolding onCallIncoming_def option.case Let_def assms by simp
  qed
  show ?thesis
  proof (cases "IndexOf ''@'' 0 uri > int i")
    case True
    define p where "p = nat (IndexOf ''@'' 0 uri)"
    have p: "IndexOf ''@'' 0 uri = int p" "i < p" using True by (simp_all add: p_def)
    have at: "p < length uri" "uri ! p = CHR ''@''" using p(1) by (simp_all add: IndexOf_nonneg occurs_char)
    have "i + 5 \<le> p" using sip_start[OF o, of p] p(2) at by (meson leI less_imp_le)
    then show ?thesis unfolding e p(1) using Substring_between[of i p uri] p(2) at(1) by (simp add: bind_sum_def Let_def)
  next
    case False
    then show ?thesis unfolding e by (simp add: bind_sum_def Let_def)
  qed
qed

lemma onCallIncoming_plain: "IndexOf ''<sip:'' 0 uri < 0 \<Longrightarrow> onCallIncoming (Some uri) = Inr ('''', '''')"
  by (simp add: onCallIncoming_def bind_sum_def cut_before_def IndexOf_def Let_def)

text \<open>
  C40: The caller of an incoming call is read from every address without an exception. From an address of
  a name and a number in brackets, \<^verbatim>\<open>name <sip:number@...\<close>, it gives the number and the name without
  surrounding white space, provided that the name has no \<^verbatim>\<open>@\<close>; a name with \<^verbatim>\<open>@\<close> hides the number.
\<close>

theorem caller_is_recognised:
  "(\<exists>r. onCallIncoming sturi = Inr r) \<and>
   ((\<forall>i < length display. \<not> occurs_at ''<sip:'' (display @ ''<sip:'' @ num @ ''@'' @ rest) i) \<and> CHR ''@'' \<notin> set num \<longrightarrow>
      onCallIncoming (Some (display @ ''<sip:'' @ num @ ''@'' @ rest)) = Inr (if CHR ''@'' \<in> set display then '''' else num, Trim display))"
proof (intro conjI impI)
  show "\<exists>r. onCallIncoming sturi = Inr r"
  proof (cases sturi)
    case (Some uri)
    show ?thesis
    proof (cases "IndexOf ''<sip:'' 0 uri < 0")
      case False
      then have "IndexOf ''<sip:'' 0 uri = int (nat (IndexOf ''<sip:'' 0 uri))" by simp
      from onCallIncoming_start[OF this] show ?thesis using Some by (simp add: Let_def)
    qed (use Some onCallIncoming_plain in auto)
  qed (simp add: onCallIncoming_def)
next
  assume h: "(\<forall>i < length display. \<not> occurs_at ''<sip:'' (display @ ''<sip:'' @ num @ ''@'' @ rest) i) \<and> CHR ''@'' \<notin> set num"
  let ?uri = "display @ ''<sip:'' @ num @ ''@'' @ rest"
  have s: "IndexOf ''<sip:'' 0 ?uri = int (length display)" using find_start h by blast
  show "onCallIncoming (Some ?uri) = Inr (if CHR ''@'' \<in> set display then '''' else num, Trim display)"
  proof (cases "CHR ''@'' \<in> set display")
    case True
    then obtain xs ys where "display = xs @ CHR ''@'' # ys" "CHR ''@'' \<notin> set xs" by (meson split_list_first)
    then have "IndexOf ''@'' 0 ?uri = int (length xs)" "length xs < length display" using find_char[of "CHR ''@''" xs] by simp_all
    then show ?thesis using True onCallIncoming_start[OF s] by simp
  next
    case False
    then have "CHR ''@'' \<notin> set (display @ ''<sip:'' @ num)" using h by simp
    then have "IndexOf ''@'' 0 ?uri = int (length (display @ ''<sip:'' @ num))" using find_char[of "CHR ''@''" "display @ ''<sip:'' @ num" rest] by simp
    then show ?thesis using False onCallIncoming_start[OF s] by (simp add: nat_add_distrib Let_def)
  qed
qed

theorem caller_is_recognised_witness:
  "onCallIncoming (Some ''Ann <sip:55@host>'') = Inr (''55'', ''Ann'') \<and> onCallIncoming (Some ''a@b <sip:55@host>'') = Inr ('''', ''a@b'')"
proof -
  have 1: "(\<forall>i < length ''Ann ''. \<not> occurs_at ''<sip:'' (''Ann '' @ ''<sip:'' @ ''55'' @ ''@'' @ ''host>'') i) \<and> CHR ''@'' \<notin> set ''55''"
    "(\<forall>i < length ''a@b ''. \<not> occurs_at ''<sip:'' (''a@b '' @ ''<sip:'' @ ''55'' @ ''@'' @ ''host>'') i) \<and> CHR ''@'' \<notin> set ''55''" by code_simp+
  have 2: "Trim ''Ann '' = ''Ann''" "Trim ''a@b '' = ''a@b''" by code_simp+
  show ?thesis using caller_is_recognised[THEN conjunct2, rule_format, OF 1(1)] caller_is_recognised[THEN conjunct2, rule_format, OF 1(2)] 2 by simp
qed

end
