(* ===== verification/Tam_Cmdline.thy ===== *)
theory Tam_Cmdline
  imports Cs_Text
begin

text \<open>
  The command line (\<^verbatim>\<open>Deveck.TAM/Utils/CommandLineHandler.cs\<close>): options with a prefix, a name and perhaps a
  value. The callbacks are code of the user of the class; that a callback is called, or the event for an
  unknown option raised, is recorded in order.
\<close>

section \<open>Parsing\<close>

datatype CommandOptionType = Binary | Value

record CommandOption =
  optionType :: CommandOptionType
  opt_name :: string
  arguments :: "string list"

text \<open>The constructor. It assigns the property \<open>OptionType\<close>, which reads the field, and not its parameter.\<close>

definition new_CommandOption :: "CommandOptionType \<Rightarrow> string \<Rightarrow> string list \<Rightarrow> CommandOption" where
  "new_CommandOption ty name args =
     (let this = \<lparr>optionType = Binary, opt_name = [], arguments = []\<rparr>;
          this = this\<lparr>optionType := optionType this\<rparr>;
          this = this\<lparr>opt_name := name\<rparr>
      in this\<lparr>arguments := arguments this @ args\<rparr>)"

datatype option_event = Called CommandOption | Unknown string

text \<open>The names with a callback; a callback of a name that has one replaces it.\<close>

definition RegisterCallback :: "string \<Rightarrow> string set \<Rightarrow> string set" where
  "RegisterCallback name registered = insert name registered"

definition Prefixes :: "string list" where "Prefixes = [''--'', ''-'']"

definition HasValidPrefix :: "string \<Rightarrow> nat option" where
  "HasValidPrefix opt = map_option length (List.find (\<lambda>prefix. take (length prefix) opt = prefix) Prefixes)"

definition ProcessCommandOption :: "string set \<Rightarrow> CommandOption \<Rightarrow> option_event" where
  "ProcessCommandOption registered c = (if opt_name c \<in> registered then Called c else Unknown (opt_name c))"

text \<open>One round of the loop of \<open>Parse\<close>: the event, and the option that is added to the result.\<close>

definition parse_option :: "string set \<Rightarrow> string \<Rightarrow> cs_exception + option_event \<times> CommandOption list" where
  "parse_option registered opt =
     (case HasValidPrefix opt of
        None \<Rightarrow> Inr (Unknown opt, [])
      | Some n \<Rightarrow>
          if n = length opt then Inr (Unknown opt, [])
          else let p = IndexOf ''='' n opt in
            if p = - 1
            then bind_sum (Substring_from (int n) opt) (\<lambda>name.
              let c = new_CommandOption Binary name [] in Inr (ProcessCommandOption registered c, [c]))
            else bind_sum (Substring (int n) (p - int n) opt) (\<lambda>name.
              bind_sum (Substring_from (p + 1) opt) (\<lambda>v.
              let c = new_CommandOption Value name [v] in Inr (ProcessCommandOption registered c, [c]))))"

fun Parse :: "string set \<Rightarrow> string list \<Rightarrow> cs_exception + option_event list \<times> CommandOption list" where
  "Parse registered [] = Inr ([], [])"
| "Parse registered (opt # opts) =
     bind_sum (parse_option registered opt) (\<lambda>(ev, cs).
     bind_sum (Parse registered opts) (\<lambda>(evs, ds). Inr (ev # evs, cs @ ds)))"

definition FindCommandOptionByName :: "string \<Rightarrow> CommandOption list \<Rightarrow> CommandOption option" where
  "FindCommandOptionByName name cs = List.find (\<lambda>c. map lower (opt_name c) = map lower name) cs"

text \<open>\<open>convert\<close> is the conversion of the library to the type of the value.\<close>

definition FindCommandOptionValueByName :: "(string \<Rightarrow> cs_exception + 'a) \<Rightarrow> string \<Rightarrow> CommandOption list \<Rightarrow> cs_exception + 'a" where
  "FindCommandOptionValueByName convert name cs =
     (case FindCommandOptionByName name cs of
        None \<Rightarrow> Inl ArgumentException
      | Some c \<Rightarrow> (case arguments c of [] \<Rightarrow> Inl ArgumentException | v # _ \<Rightarrow> convert v))"

section \<open>What is parsed\<close>

text \<open>An option as it is meant: with two dashes or one, a name, and perhaps a value.\<close>

datatype spec = Spec bool string "string option"

fun written :: "spec \<Rightarrow> string" where
  "written (Spec two name v) =
     (if two then ''--'' else ''-'') @ name @ (case v of None \<Rightarrow> [] | Some x \<Rightarrow> CHR ''='' # x)"

fun spec_ok :: "spec \<Rightarrow> bool" where
  "spec_ok (Spec two name v) =
     (CHR ''='' \<notin> set name \<and> (name \<noteq> [] \<or> v \<noteq> None) \<and> (name = [] \<or> hd name \<noteq> CHR ''-''))"

fun parsed :: "spec \<Rightarrow> CommandOption" where
  "parsed (Spec two name v) = \<lparr>optionType = Binary, opt_name = name, arguments = (case v of None \<Rightarrow> [] | Some x \<Rightarrow> [x])\<rparr>"

definition prefix_of :: "bool \<Rightarrow> string" where "prefix_of two = (if two then ''--'' else ''-'')"

lemma HasValidPrefix_written:
  assumes "rest = [] \<or> hd rest \<noteq> CHR ''-''"
  shows "HasValidPrefix (prefix_of two @ rest) = Some (length (prefix_of two))"
  using assms by (cases rest) (auto simp: HasValidPrefix_def Prefixes_def prefix_of_def)

lemma IndexOf_separator:
  assumes "CHR ''='' \<notin> set name"
  shows "IndexOf ''='' (length p) (p @ name @ CHR ''='' # v) = int (length p + length name)"
    and "IndexOf ''='' (length p) (p @ name) = - 1"
proof -
  have miss: "name ! k \<noteq> CHR ''=''" if "k < length name" for k using assms nth_mem[OF that] by auto
  have "j < length p + length name \<Longrightarrow> length p \<le> j \<Longrightarrow> (p @ name @ zs) ! j \<noteq> CHR ''=''" for j zs
    using miss[of "j - length p"] by (subst nth_append, simp, subst nth_append, simp add: less_diff_conv2)
  moreover have "occurs_at ''='' (p @ name @ CHR ''='' # v) (length p + length name)"
    by (simp add: occurs_char nth_append)
  ultimately show "IndexOf ''='' (length p) (p @ name @ CHR ''='' # v) = int (length p + length name)"
    by (subst IndexOf_nonneg) (simp_all add: occurs_char)
  have "\<not> occurs_at ''='' (p @ name) j" if "length p \<le> j" for j
    using that miss[of "j - length p"] by (auto simp: occurs_char nth_append)
  then have "IndexOf ''='' (length p) (p @ name) < 0" by (simp add: IndexOf_none)
  then show "IndexOf ''='' (length p) (p @ name) = - 1" by (auto simp: IndexOf_def split: option.splits)
qed

lemma Substring_parts:
  "Substring (int (length p)) (int (length name)) (p @ name @ zs) = Inr name"
  "Substring_from (int (length p)) (p @ name) = Inr name"
  by (simp_all add: Substring_def Substring_from_def)

lemma parse_option_written:
  assumes "spec_ok x"
  shows "parse_option registered (written x) = Inr (ProcessCommandOption registered (parsed x), [parsed x])"
proof (cases x)
  case (Spec two name v)
  let ?p = "prefix_of two"
  have n: "CHR ''='' \<notin> set name" and h: "name = [] \<or> hd name \<noteq> CHR ''-''" using assms Spec by simp_all
  show ?thesis
  proof (cases v)
    case None
    have w: "written x = ?p @ name" using Spec None by (simp add: prefix_of_def)
    have "name \<noteq> []" using assms Spec None by simp
    then show ?thesis unfolding w parse_option_def HasValidPrefix_written[OF h] option.case IndexOf_separator(2)[OF n] Let_def
        Substring_parts using Spec None by (simp add: new_CommandOption_def)
  next
    case (Some y)
    have w: "written x = ?p @ name @ CHR ''='' # y" using Spec Some by (simp add: prefix_of_def)
    have hd: "name @ CHR ''='' # y = [] \<or> hd (name @ CHR ''='' # y) \<noteq> CHR ''-''" using h by (cases name) simp_all
    have v: "Substring_from (int (length ?p + length name) + 1) (?p @ name @ CHR ''='' # y) = Inr y"
      using Substring_parts(2)[of "?p @ name @ ''=''" y] by (simp add: ac_simps)
    have d: "int (length ?p + length name) - int (length ?p) = int (length name)" by simp
    show ?thesis unfolding w parse_option_def HasValidPrefix_written[OF hd] option.case IndexOf_separator(1)[OF n] Let_def
        d Substring_parts v using Spec Some by (simp add: new_CommandOption_def)
  qed
qed

text \<open>
  Every command line of well-formed options is read as it is meant: each option gives its name and value,
  the callback of each registered name is called with the option, in the order of the command line, and
  other names are reported as unknown. The type of every option is \<open>Binary\<close>, also of one with a value,
  because the constructor does not use its parameter.
\<close>

theorem command_line_is_read:
  assumes "list_all spec_ok xs"
  shows "Parse registered (map written xs) = Inr (map (ProcessCommandOption registered) (map parsed xs), map parsed xs)"
  using assms by (induction xs) (simp_all add: parse_option_written)

end
