(* ===== verification/Spec2Isabelle.thy ===== *)
theory Spec2Isabelle
  imports Pj_Timer_Service Pj_Math Media_Jbuf_Spec Media_Rtp_Spec Pj_Hash_Spec Sip_Tsx_Props Sip_Tsx_Layer_Props
    Tam_Message Sip_Wrapper Tam_Cmdline
begin

text \<open>
  A verification of the SIP and media stack (\<^verbatim>\<open>src/pjproject_1.0\<close>) under the answering machine.
\<close>

end
